(* ===== verification/Hub_Prelude.thy ===== *)
theory Hub_Prelude
  imports Main "HOL-Library.Multiset"
begin

text \<open>
  Shared vocabulary of the development: byte strings, Go results, the list and option facts
  the components share, and the named theorem collections their proofs use.

  A Go function that returns \<^verbatim>\<open>(T, error)\<close> is a function into \<open>'a res\<close>: \<open>Ok\<close> carries the
  value returned with a nil error, \<open>Err\<close> the text of a non-nil error, \<open>Panic\<close> is a run-time
  panic (nil dereference, index out of range), \<open>Diverge\<close> a recursion that does not return.
  Functions that change state return the result paired with the state they leave behind, also
  on the error branches.
\<close>

named_theorems hub_defs \<open>definitions that component proofs unfold\<close>
named_theorems hub_frame \<open>what an operation leaves unchanged\<close>

type_synonym bytes = string
type_synonym error = string

datatype 'a res = Ok 'a | Err error | Panic | Diverge

primrec bind_res :: "'a res \<Rightarrow> ('a \<Rightarrow> 'b res) \<Rightarrow> 'b res" where
  "bind_res (Ok x) f = f x"
| "bind_res (Err e) f = Err e"
| "bind_res Panic f = Panic"
| "bind_res Diverge f = Diverge"

primrec is_Ok :: "'a res \<Rightarrow> bool" where
  "is_Ok (Ok x) = True"
| "is_Ok (Err e) = False"
| "is_Ok Panic = False"
| "is_Ok Diverge = False"

lemma bind_res_eq_Ok [simp]:
  "bind_res r f = Ok y \<longleftrightarrow> (\<exists>x. r = Ok x \<and> f x = Ok y)"
  by (cases r) auto

lemma bind_res_eq_Panic:
  "bind_res r f = Panic \<longleftrightarrow> r = Panic \<or> (\<exists>x. r = Ok x \<and> f x = Panic)"
  by (cases r) auto

lemma bind_res_eq_Diverge:
  "bind_res r f = Diverge \<longleftrightarrow> r = Diverge \<or> (\<exists>x. r = Ok x \<and> f x = Diverge)"
  by (cases r) auto

lemma bind_res_assoc:
  "bind_res (bind_res r f) g = bind_res r (\<lambda>x. bind_res (f x) g)"
  by (cases r) auto

lemma is_Ok_iff: "is_Ok r \<longleftrightarrow> (\<exists>x. r = Ok x)"
  by (cases r) auto

text \<open>Go's two-valued calls of a library function: an error text or a value.\<close>

primrec lift_err :: "error + 'a \<Rightarrow> 'a res" where
  "lift_err (Inl e) = Err e"
| "lift_err (Inr x) = Ok x"

lemma lift_err_eq [simp]:
  "lift_err r = Ok x \<longleftrightarrow> r = Inr x"
  "lift_err r = Err e \<longleftrightarrow> r = Inl e"
  "lift_err r \<noteq> Panic"
  "lift_err r \<noteq> Diverge"
  by (cases r; simp)+

text \<open>
  Rewriting the text of an error on the way out, as \<^verbatim>\<open>fmt.Errorf("[...] %s", err)\<close> does.
\<close>

primrec wrap_err :: "string \<Rightarrow> 'a res \<Rightarrow> 'a res" where
  "wrap_err p (Ok x) = Ok x"
| "wrap_err p (Err e) = Err (p @ e)"
| "wrap_err p Panic = Panic"
| "wrap_err p Diverge = Diverge"

lemma wrap_err_eq [simp]:
  "wrap_err p r = Ok x \<longleftrightarrow> r = Ok x"
  "wrap_err p r = Panic \<longleftrightarrow> r = Panic"
  "wrap_err p r = Diverge \<longleftrightarrow> r = Diverge"
  by (cases r; simp)+

text \<open>Iterating a fallible step over a list, stopping at the first failure.\<close>

fun fold_res :: "('x \<Rightarrow> 's \<Rightarrow> 's res) \<Rightarrow> 'x list \<Rightarrow> 's \<Rightarrow> 's res" where
  "fold_res f [] s = Ok s"
| "fold_res f (x # xs) s = bind_res (f x s) (fold_res f xs)"

lemma fold_res_append:
  "fold_res f (xs @ ys) s = bind_res (fold_res f xs s) (fold_res f ys)"
proof (induction xs arbitrary: s)
  case (Cons x xs)
  then have "fold_res f (xs @ ys) = (\<lambda>s. bind_res (fold_res f xs s) (fold_res f ys))"
    by blast
  then show ?case by (simp add: bind_res_assoc)
qed simp

lemma fold_res_invariant:
  assumes "fold_res f xs s = Ok s'" and "P s"
    and "\<And>x s t. x \<in> set xs \<Longrightarrow> P s \<Longrightarrow> f x s = Ok t \<Longrightarrow> P t"
  shows "P s'"
  using assms by (induction xs arbitrary: s) auto

text \<open>The same over the indexes of a slice, with an invariant that may speak about the index.\<close>

lemma fold_res_upt_invariant:
  assumes "\<And>i s t. i < n \<Longrightarrow> P i s \<Longrightarrow> f i s = Ok t \<Longrightarrow> P (Suc i) t"
  shows "fold_res f [a..<n] s = Ok s' \<Longrightarrow> a \<le> n \<Longrightarrow> P a s \<Longrightarrow> P n s'"
proof (induction "n - a" arbitrary: a s)
  case (Suc d)
  then have "a < n" by simp
  with Suc.prems obtain t where "f a s = Ok t" "fold_res f [Suc a..<n] t = Ok s'"
    by (auto simp: upt_conv_Cons)
  with Suc.hyps(1) [of "Suc a" t] Suc.hyps(2) Suc.prems \<open>a < n\<close> assms show ?case by simp
qed simp

lemma fold_res_upt_total:
  assumes "\<And>i s. i < n \<Longrightarrow> P i s \<Longrightarrow> \<exists>t. f i s = Ok t \<and> P (Suc i) t"
  shows "a \<le> n \<Longrightarrow> P a s \<Longrightarrow> \<exists>s'. fold_res f [a..<n] s = Ok s' \<and> P n s'"
proof (induction "n - a" arbitrary: a s)
  case (Suc d)
  then have "a < n" by simp
  with Suc.prems assms obtain t where "f a s = Ok t" "P (Suc a) t" by blast
  with Suc.hyps(1) [of "Suc a" t] Suc.hyps(2) \<open>a < n\<close> show ?case by (simp add: upt_conv_Cons)
qed simp

text \<open>Writing through a list of distinct pointers into a slice.\<close>

fun update_at :: "('a \<Rightarrow> 'a) \<Rightarrow> nat list \<Rightarrow> 'a list \<Rightarrow> 'a list" where
  "update_at f [] xs = xs"
| "update_at f (i # is) xs = update_at f is (xs[i := f (xs ! i)])"

lemma length_update_at [simp]: "length (update_at f is xs) = length xs"
  by (induction "is" arbitrary: xs) auto

lemma update_at_nth:
  "distinct is \<Longrightarrow> j < length xs \<Longrightarrow> update_at f is xs ! j = (if j \<in> set is then f (xs ! j) else xs ! j)"
proof (induction "is" arbitrary: xs)
  case (Cons i "is")
  then show ?case by (cases "i = j") (auto simp: nth_list_update)
qed simp

section \<open>Batches\<close>

text \<open>
  Cutting a list into consecutive batches of \<open>n\<close> elements, the last one possibly shorter:
  the reference the batching loops are compared with. \<open>acc\<close> is the batch under construction.
\<close>

fun batches_from :: "nat \<Rightarrow> 'a list \<Rightarrow> 'a list \<Rightarrow> 'a list list" where
  "batches_from n acc [] = (if acc = [] then [] else [acc])"
| "batches_from n acc (x # xs) =
     (if length (acc @ [x]) = n then (acc @ [x]) # batches_from n [] xs
      else batches_from n (acc @ [x]) xs)"

abbreviation batches :: "nat \<Rightarrow> 'a list \<Rightarrow> 'a list list" where
  "batches n xs \<equiv> batches_from n [] xs"

lemma concat_batches_from: "concat (batches_from n acc xs) = acc @ xs"
  by (induction n acc xs rule: batches_from.induct) auto

lemma batches_from_bound:
  "length acc < n \<Longrightarrow> b \<in> set (batches_from n acc xs) \<Longrightarrow> 0 < length b \<and> length b \<le> n"
  by (induction n acc xs rule: batches_from.induct) (auto split: if_splits)

lemma batches_bound: "0 < n \<Longrightarrow> \<forall>b \<in> set (batches n xs). 0 < length b \<and> length b \<le> n"
  using batches_from_bound [of "[]" n _ xs] by simp

lemma batches_from_full:
  "length acc < n \<Longrightarrow> b \<in> set (butlast (batches_from n acc xs)) \<Longrightarrow> length b = n"
  by (induction n acc xs rule: batches_from.induct) (auto split: if_splits)

text \<open>One step of a loop that collects the elements with property \<open>due\<close>.\<close>

lemma batches_from_filter:
  fixes due :: "'a \<Rightarrow> bool" and c :: "'a \<Rightarrow> 'b"
  assumes "length acc < n"
  defines "acc' x \<equiv> if due x then acc @ [c x] else acc"
  shows "batches_from n acc (map c (filter due (x # xs))) =
    (if length (acc' x) = n then acc' x # batches_from n [] (map c (filter due xs))
     else batches_from n (acc' x) (map c (filter due xs)))"
  using assms(1) by (simp add: acc'_def)

lemma map_batches_from:
  "map (map f) (batches_from n acc xs) = batches_from n (map f acc) (map f xs)"
  by (induction n acc xs rule: batches_from.induct) auto

section \<open>Lists, maps and association lists\<close>

lemma distinct_map_of_mset_eq:
  "mset xs = mset ys \<Longrightarrow> distinct (map f xs) \<longleftrightarrow> distinct (map f ys)"
  by (metis mset_map mset_eq_imp_distinct_iff)

end
