(* ===== verification/Bolt_Store.thy ===== *)
theory Bolt_Store
  imports Hub_Prelude "HOL-Library.AList"
begin

text \<open>
  The interface of the key/value store the hub keeps its indexes in
  (\<^verbatim>\<open>github.com/boltdb/bolt\<close>, a dependency whose code is not part of the repository).
  The store is a parameter: a record of the calls the hub makes, over an arbitrary type
  \<open>'db\<close> of store states. The locale \<open>bolt_spec\<close> lists the documented behaviour the hub relies
  on; every theorem about the indexes assumes that predicate of its store. The in-memory store
  \<open>mem_bolt\<close> at the end satisfies it, so the assumption can hold.

  The hub opens the database once at start-up and closes it when the process ends, so the only
  errors of a transaction are those of its body and of its commit.
\<close>

section \<open>The calls\<close>

record 'db bolt =
  bolt_bucket :: "'db \<Rightarrow> string \<Rightarrow> bool" \<comment> \<open>\<^verbatim>\<open>tx.Bucket(name) != nil\<close>\<close>
  bolt_get :: "'db \<Rightarrow> string \<Rightarrow> bytes \<Rightarrow> bytes option" \<comment> \<open>\<^verbatim>\<open>Get\<close>, nil is \<open>None\<close>\<close>
  bolt_items :: "'db \<Rightarrow> string \<Rightarrow> (bytes \<times> bytes) list" \<comment> \<open>\<^verbatim>\<open>Cursor\<close>: \<^verbatim>\<open>First\<close>, \<^verbatim>\<open>Next\<close>, ...\<close>
  bolt_create :: "'db \<Rightarrow> string \<Rightarrow> error + 'db" \<comment> \<open>\<^verbatim>\<open>CreateBucketIfNotExists\<close>\<close>
  bolt_put :: "'db \<Rightarrow> string \<Rightarrow> bytes \<Rightarrow> bytes \<Rightarrow> error + 'db"
  bolt_delete :: "'db \<Rightarrow> string \<Rightarrow> bytes \<Rightarrow> error + 'db"
  bolt_update :: "'db \<Rightarrow> ('db \<Rightarrow> 'db res) \<Rightarrow> unit res \<times> 'db" \<comment> \<open>\<^verbatim>\<open>DB.Update\<close>\<close>

text \<open>
  \<^verbatim>\<open>tx.Bucket(name)\<close> is nil when the bucket does not exist, and a method call on a nil bucket
  panics: the three accesses as the hub writes them.
\<close>

definition bucket_get :: "'db bolt \<Rightarrow> 'db \<Rightarrow> string \<Rightarrow> bytes \<Rightarrow> bytes option res" where
  "bucket_get B db b k = (if bolt_bucket B db b then Ok (bolt_get B db b k) else Panic)"

definition bucket_put :: "'db bolt \<Rightarrow> string \<Rightarrow> bytes \<Rightarrow> bytes \<Rightarrow> 'db \<Rightarrow> 'db res" where
  "bucket_put B b k v db =
     (if bolt_bucket B db b then lift_err (bolt_put B db b k v) else Panic)"

definition bucket_delete :: "'db bolt \<Rightarrow> string \<Rightarrow> bytes \<Rightarrow> 'db \<Rightarrow> 'db res" where
  "bucket_delete B b k db =
     (if bolt_bucket B db b then lift_err (bolt_delete B db b k) else Panic)"

definition bucket_items :: "'db bolt \<Rightarrow> 'db \<Rightarrow> string \<Rightarrow> (bytes \<times> bytes) list res" where
  "bucket_items B db b = (if bolt_bucket B db b then Ok (bolt_items B db b) else Panic)"

section \<open>What the store promises\<close>

text \<open>
  A key may have between 1 and \<open>max_key\<close> bytes and a value at most \<open>max_value\<close> bytes
  (bolt's \<^verbatim>\<open>MaxKeySize\<close> and \<^verbatim>\<open>MaxValueSize\<close>).
\<close>

definition max_key :: nat where
  "max_key = 32768"

definition max_value :: nat where
  "max_value = 2147483646"

locale bolt_spec =
  fixes B :: "'db bolt"
  assumes put_get: "bolt_put B db b k v = Inr db' \<Longrightarrow>
      bolt_get B db' b' k' = (if b' = b \<and> k' = k then Some v else bolt_get B db b' k')"
    and put_bucket: "bolt_put B db b k v = Inr db' \<Longrightarrow> bolt_bucket B db' b' = bolt_bucket B db b'"
    and put_ok: "bolt_bucket B db b \<Longrightarrow> k \<noteq> [] \<Longrightarrow> length k \<le> max_key \<Longrightarrow>
      length v \<le> max_value \<Longrightarrow> \<exists>db'. bolt_put B db b k v = Inr db'"
    and put_blank: "\<exists>e. bolt_put B db b [] v = Inl e"
    and delete_get: "bolt_delete B db b k = Inr db' \<Longrightarrow>
      bolt_get B db' b' k' = (if b' = b \<and> k' = k then None else bolt_get B db b' k')"
    and delete_bucket: "bolt_delete B db b k = Inr db' \<Longrightarrow>
      bolt_bucket B db' b' = bolt_bucket B db b'"
    and delete_ok: "bolt_bucket B db b \<Longrightarrow> \<exists>db'. bolt_delete B db b k = Inr db'"
    and create_bucket: "bolt_create B db b = Inr db' \<Longrightarrow>
      bolt_bucket B db' b' = (b' = b \<or> bolt_bucket B db b')"
    and create_get: "bolt_create B db b = Inr db' \<Longrightarrow> bolt_get B db' b' k = bolt_get B db b' k"
    and items_get: "map_of (bolt_items B db b) k = bolt_get B db b k"
    and items_distinct: "distinct (map fst (bolt_items B db b))"
    and no_bucket: "\<not> bolt_bucket B db b \<Longrightarrow> bolt_get B db b k = None"
    and update_commit: "f db = Ok db' \<Longrightarrow>
      bolt_update B db f = (Ok (), db') \<or> (\<exists>e. bolt_update B db f = (Err e, db))"
    and update_rollback: "f db = Err e \<Longrightarrow> bolt_update B db f = (Err e, db)"
    and update_panic: "f db = Panic \<Longrightarrow> bolt_update B db f = (Panic, db)"
    and update_diverge: "f db = Diverge \<Longrightarrow> bolt_update B db f = (Diverge, db)"
begin

lemma items_iff: "(k, v) \<in> set (bolt_items B db b) \<longleftrightarrow> bolt_get B db b k = Some v"
  using items_distinct items_get by (metis map_of_eq_Some_iff)

lemma items_keys: "fst ` set (bolt_items B db b) = {k. bolt_get B db b k \<noteq> None}"
  using dom_map_of_conv_image_fst [of "bolt_items B db b"] by (simp add: items_get dom_def)

lemma bucket_put_Ok:
  assumes "bucket_put B b k v db = Ok db'"
  shows "bolt_get B db' b' k' = (if b' = b \<and> k' = k then Some v else bolt_get B db b' k')"
    and "bolt_bucket B db' b' = bolt_bucket B db b'"
    and "bolt_bucket B db b"
  using assms put_get put_bucket by (auto simp: bucket_put_def split: if_splits)

lemma bucket_put_succeeds:
  "bolt_bucket B db b \<Longrightarrow> k \<noteq> [] \<Longrightarrow> length k \<le> max_key \<Longrightarrow> length v \<le> max_value \<Longrightarrow>
   \<exists>db'. bucket_put B b k v db = Ok db'"
  using put_ok by (auto simp: bucket_put_def)

lemma bucket_delete_Ok:
  assumes "bucket_delete B b k db = Ok db'"
  shows "bolt_get B db' b' k' = (if b' = b \<and> k' = k then None else bolt_get B db b' k')"
    and "bolt_bucket B db' b' = bolt_bucket B db b'"
    and "bolt_bucket B db b"
  using assms delete_get delete_bucket by (auto simp: bucket_delete_def split: if_splits)

lemma bucket_delete_succeeds: "bolt_bucket B db b \<Longrightarrow> \<exists>db'. bucket_delete B b k db = Ok db'"
  using delete_ok by (auto simp: bucket_delete_def)

text \<open>Deleting a list of keys in one transaction, as the hub's delete operations do.\<close>

lemma fold_delete_Ok:
  assumes "fold_res (bucket_delete B b) ks db = Ok db'"
  shows "bolt_get B db' b' k' = (if b' = b \<and> k' \<in> set ks then None else bolt_get B db b' k')"
    and "bolt_bucket B db' b' = bolt_bucket B db b'"
proof -
  have "bolt_get B db' b' k' = (if b' = b \<and> k' \<in> set ks then None else bolt_get B db b' k') \<and>
        bolt_bucket B db' b' = bolt_bucket B db b'"
    using assms
  proof (induction ks arbitrary: db)
    case (Cons k ks)
    then obtain db1 where db1: "bucket_delete B b k db = Ok db1"
        and rest: "fold_res (bucket_delete B b) ks db1 = Ok db'" by auto
    from Cons.IH [OF rest] bucket_delete_Ok(1,2) [OF db1] show ?case by auto
  qed simp
  then show "bolt_get B db' b' k' = (if b' = b \<and> k' \<in> set ks then None else bolt_get B db b' k')"
    and "bolt_bucket B db' b' = bolt_bucket B db b'" by blast+
qed

lemma fold_delete_succeeds:
  "bolt_bucket B db b \<Longrightarrow> \<exists>db'. fold_res (bucket_delete B b) ks db = Ok db'"
proof (induction ks arbitrary: db)
  case (Cons k ks)
  then obtain db1 where "bucket_delete B b k db = Ok db1"
    using bucket_delete_succeeds by blast
  with Cons show ?case using bucket_delete_Ok(2) by fastforce
qed simp

text \<open>
  A transaction either takes effect as a whole or leaves the store as it was.
\<close>

lemma update_cases:
  obtains (commit) db' where "f db = Ok db'" "bolt_update B db f = (Ok (), db')"
  | (commit_failed) db' e where "f db = Ok db'" "bolt_update B db f = (Err e, db)"
  | (rollback) e where "f db = Err e" "bolt_update B db f = (Err e, db)"
  | (panic) "f db = Panic" "bolt_update B db f = (Panic, db)"
  | (diverge) "f db = Diverge" "bolt_update B db f = (Diverge, db)"
proof (cases "f db")
  case (Ok db')
  with update_commit [of f db] show ?thesis using commit commit_failed by blast
next
  case (Err e)
  with update_rollback [of f db] show ?thesis using rollback by blast
next
  case Panic
  with update_panic [of f db] show ?thesis using panic by blast
next
  case Diverge
  with update_diverge [of f db] show ?thesis using diverge by blast
qed

end

text \<open>A store whose commits never fail, for the claims that an operation succeeds.\<close>

definition commits :: "'db bolt \<Rightarrow> bool" where
  "commits B \<longleftrightarrow> (\<forall>db f db'. f db = Ok db' \<longrightarrow> bolt_update B db f = (Ok (), db'))"

section \<open>An in-memory store\<close>

type_synonym mem_db = "string \<Rightarrow> (bytes \<times> bytes) list option"

definition mem_items :: "mem_db \<Rightarrow> string \<Rightarrow> (bytes \<times> bytes) list" where
  "mem_items db b = (case db b of None \<Rightarrow> [] | Some al \<Rightarrow> AList.clearjunk al)"

definition mem_put :: "mem_db \<Rightarrow> string \<Rightarrow> bytes \<Rightarrow> bytes \<Rightarrow> error + mem_db" where
  "mem_put db b k v =
     (if k = [] then Inl ''key required''
      else if max_key < length k then Inl ''key too large''
      else if max_value < length v then Inl ''value too large''
      else case db b of None \<Rightarrow> Inl ''bucket not found''
           | Some al \<Rightarrow> Inr (db(b \<mapsto> AList.update k v al)))"

definition mem_delete :: "mem_db \<Rightarrow> string \<Rightarrow> bytes \<Rightarrow> error + mem_db" where
  "mem_delete db b k =
     (case db b of None \<Rightarrow> Inl ''bucket not found''
      | Some al \<Rightarrow> Inr (db(b \<mapsto> AList.delete k al)))"

definition mem_create :: "mem_db \<Rightarrow> string \<Rightarrow> error + mem_db" where
  "mem_create db b =
     (if b = [] then Inl ''bucket name required''
      else case db b of None \<Rightarrow> Inr (db(b \<mapsto> [])) | Some _ \<Rightarrow> Inr db)"

definition mem_update :: "mem_db \<Rightarrow> (mem_db \<Rightarrow> mem_db res) \<Rightarrow> unit res \<times> mem_db" where
  "mem_update db f =
     (case f db of Ok db' \<Rightarrow> (Ok (), db') | Err e \<Rightarrow> (Err e, db) | Panic \<Rightarrow> (Panic, db)
      | Diverge \<Rightarrow> (Diverge, db))"

definition mem_bolt :: "mem_db bolt" where
  "mem_bolt = \<lparr>bolt_bucket = \<lambda>db b. db b \<noteq> None,
     bolt_get = \<lambda>db b k. (case db b of None \<Rightarrow> None | Some al \<Rightarrow> map_of al k),
     bolt_items = mem_items, bolt_create = mem_create, bolt_put = mem_put,
     bolt_delete = mem_delete, bolt_update = mem_update\<rparr>"

lemmas mem_defs = mem_bolt_def mem_items_def mem_put_def mem_delete_def mem_create_def mem_update_def

interpretation mem: bolt_spec mem_bolt
  by unfold_locales
    (auto simp: mem_defs map_of_clearjunk distinct_clearjunk update_conv' delete_conv'
      split: option.splits if_splits)

lemma mem_bolt_spec: "bolt_spec mem_bolt"
  by (rule mem.bolt_spec_axioms)

lemma mem_commits: "commits mem_bolt"
  by (simp add: commits_def mem_defs)

end
