(* ===== verification/Go_Lib.thy ===== *)
theory Go_Lib
  imports Hub_Prelude
begin

text \<open>
  What the hub uses of Go's standard library: \<^verbatim>\<open>strings\<close>, \<^verbatim>\<open>path/filepath\<close> (on Unix), the
  file-system calls of \<^verbatim>\<open>os\<close>, and the interface of \<^verbatim>\<open>encoding/json\<close>. Strings are byte strings,
  as in Go.
\<close>

section \<open>Package strings\<close>

definition HasPrefix :: "string \<Rightarrow> string \<Rightarrow> bool" where
  "HasPrefix s p \<longleftrightarrow> take (length p) s = p"

definition TrimPrefix :: "string \<Rightarrow> string \<Rightarrow> string" where
  "TrimPrefix s p = (if HasPrefix s p then drop (length p) s else s)"

definition Trim :: "string \<Rightarrow> char \<Rightarrow> string" where
  "Trim s c = rev (dropWhile (\<lambda>x. x = c) (rev (dropWhile (\<lambda>x. x = c) s)))"

text \<open>\<^verbatim>\<open>strings.Split(s, sep)\<close> for a one-byte separator: always at least one part.\<close>

fun Split :: "string \<Rightarrow> char \<Rightarrow> string list" where
  "Split [] c = [[]]"
| "Split (x # xs) c =
     (if x = c then [] # Split xs c
      else case Split xs c of [] \<Rightarrow> [[x]] | p # ps \<Rightarrow> (x # p) # ps)"

fun Join_with :: "char \<Rightarrow> string list \<Rightarrow> string" where
  "Join_with c [] = []"
| "Join_with c [x] = x"
| "Join_with c (x # y # ys) = x @ c # Join_with c (y # ys)"

text \<open>\<^verbatim>\<open>strings.Replace(s, old, new, 1)\<close>; an empty \<^verbatim>\<open>old\<close> matches at the start.\<close>

fun Replace1 :: "string \<Rightarrow> string \<Rightarrow> string \<Rightarrow> string" where
  "Replace1 s old new =
     (if HasPrefix s old then new @ drop (length old) s
      else case s of [] \<Rightarrow> [] | x # xs \<Rightarrow> x # Replace1 xs old new)"

declare Replace1.simps [simp del]

lemma HasPrefix_append [simp]: "HasPrefix (p @ s) p"
  by (simp add: HasPrefix_def)

lemma TrimPrefix_append [simp]: "TrimPrefix (p @ s) p = s"
  by (simp add: TrimPrefix_def)

lemma Split_not_Nil [simp]: "Split s c \<noteq> []"
  by (cases s) (auto split: list.splits)

lemma Split_parts: "p \<in> set (Split s c) \<Longrightarrow> c \<notin> set p"
  by (induction s arbitrary: p) (auto split: if_splits list.splits)

lemma Join_Split [simp]: "Join_with c (Split s c) = s"
proof (induction s)
  case (Cons x xs)
  obtain p ps where pps: "Split xs c = p # ps" by (cases "Split xs c") auto
  with Cons show ?case by (cases ps) auto
qed simp

lemma Split_no_sep: "c \<notin> set s \<Longrightarrow> Split s c = [s]"
  by (induction s) auto

lemma Split_append_sep: "c \<notin> set x \<Longrightarrow> Split (x @ c # s) c = x # Split s c"
  by (induction x) auto

lemma Split_Join:
  "xs \<noteq> [] \<Longrightarrow> \<forall>x \<in> set xs. c \<notin> set x \<Longrightarrow> Split (Join_with c xs) c = xs"
  by (induction c xs rule: Join_with.induct) (auto simp: Split_no_sep Split_append_sep)

lemma Replace1_prefix: "Replace1 (old @ s) old new = new @ s"
  by (subst Replace1.simps) simp

lemma Join_with_ends:
  assumes "xs \<noteq> []" "\<forall>x \<in> set xs. x \<noteq> [] \<and> hd x \<noteq> c \<and> last x \<noteq> c"
  shows "Join_with c xs \<noteq> [] \<and> hd (Join_with c xs) \<noteq> c \<and> last (Join_with c xs) \<noteq> c"
  using assms by (induction c xs rule: Join_with.induct) auto

lemma Trim_ends: "s \<noteq> [] \<Longrightarrow> hd s \<noteq> c \<Longrightarrow> last s \<noteq> c \<Longrightarrow> Trim (c # s) c = s"
proof -
  assume s: "s \<noteq> []" "hd s \<noteq> c" "last s \<noteq> c"
  then have "dropWhile (\<lambda>x. x = c) s = s" "dropWhile (\<lambda>x. x = c) (rev s) = rev s"
    by (simp_all add: dropWhile_eq_self_iff hd_rev)
  then show "Trim (c # s) c = s" by (simp add: Trim_def)
qed

section \<open>Package path/filepath\<close>

definition clean_step :: "bool \<Rightarrow> string list \<Rightarrow> string \<Rightarrow> string list" where
  "clean_step rooted st c =
     (if c = [] \<or> c = ''.'' then st
      else if c = ''..'' then
        (case st of [] \<Rightarrow> if rooted then [] else [c]
         | t # ts \<Rightarrow> if t = ''..'' then c # st else ts)
      else c # st)"

definition Clean :: "string \<Rightarrow> string" where
  "Clean p =
     (let rooted = HasPrefix p ''/'';
          body = Join_with CHR ''/'' (rev (foldl (clean_step rooted) [] (Split p CHR ''/'')))
      in if rooted then CHR ''/'' # body else if body = [] then ''.'' else body)"

text \<open>\<^verbatim>\<open>filepath.Join\<close>: leading empty elements are dropped, the rest is joined and cleaned.\<close>

definition Join :: "string list \<Rightarrow> string" where
  "Join elems =
     (case dropWhile (\<lambda>e. e = []) elems of [] \<Rightarrow> [] | es \<Rightarrow> Clean (Join_with CHR ''/'' es))"

definition Base :: "string \<Rightarrow> string" where
  "Base p =
     (if p = [] then ''.''
      else let q = rev (dropWhile (\<lambda>x. x = CHR ''/'') (rev p))
           in if q = [] then ''/'' else last (Split q CHR ''/''))"

definition Dir :: "string \<Rightarrow> string" where
  "Dir p = Clean (rev (dropWhile (\<lambda>x. x \<noteq> CHR ''/'') (rev p)))"

section \<open>Files and directories\<close>

text \<open>
  The disk is an association list from path names to entries. Whether a call of package \<^verbatim>\<open>os\<close>
  fails (permissions, a full disk) is decided by the operating system: a function \<open>osf\<close> of the
  call and the disk, \<open>Some\<close> error text or \<open>None\<close>. A call that does not fail has the effect
  below; one that fails leaves the disk as it is, except for \<^verbatim>\<open>os.RemoveAll\<close>: when it fails, the entries
  for which \<open>osf\<close> lets \<open>Unlink\<close> through are gone.
\<close>

datatype entry = Directory | File bytes

type_synonym disk = "(string \<times> entry) list"

datatype os_call = MkdirAll string | RemoveAll string | Unlink string | Remove string | Rename string string
  | OpenRead string | Read string | OpenWrite string | Write string | ReadDir string | Stat string

type_synonym os_faults = "os_call \<Rightarrow> disk \<Rightarrow> error option"

definition os_exists :: "disk \<Rightarrow> string \<Rightarrow> bool" where
  "os_exists d p \<longleftrightarrow> map_of d p \<noteq> None"

definition in_tree :: "string \<Rightarrow> string \<Rightarrow> bool" where
  "in_tree p q \<longleftrightarrow> q = p \<or> HasPrefix q (p @ ''/'')"

text \<open>\<^verbatim>\<open>os.MkdirAll\<close> creates the directory with all its missing parents.\<close>

fun parents_of :: "string \<Rightarrow> string list \<Rightarrow> string list" where
  "parents_of pre [] = []"
| "parents_of pre (c # cs) = (pre @ c) # parents_of (pre @ c @ ''/'') cs"

definition mkdirs :: "disk \<Rightarrow> string \<Rightarrow> disk" where
  "mkdirs d p =
     map (\<lambda>q. (q, Directory))
       (filter (\<lambda>q. q \<noteq> [] \<and> \<not> os_exists d q) (parents_of [] (Split p CHR ''/''))) @ d"

definition os_MkdirAll :: "os_faults \<Rightarrow> string \<Rightarrow> disk \<Rightarrow> unit res \<times> disk" where
  "os_MkdirAll osf p d =
     (case osf (MkdirAll p) d of Some e \<Rightarrow> (Err e, d) | None \<Rightarrow> (Ok (), mkdirs d p))"

text \<open>Removing the empty path does nothing and succeeds.\<close>

definition os_RemoveAll :: "os_faults \<Rightarrow> string \<Rightarrow> disk \<Rightarrow> unit res \<times> disk" where
  "os_RemoveAll osf p d =
     (if p = [] then (Ok (), d)
      else case osf (RemoveAll p) d of
        Some e \<Rightarrow> (Err e, filter (\<lambda>(q, _). \<not> in_tree p q \<or> osf (Unlink q) d \<noteq> None) d)
      | None \<Rightarrow> (Ok (), filter (\<lambda>(q, _). \<not> in_tree p q) d))"

definition os_Remove :: "os_faults \<Rightarrow> string \<Rightarrow> disk \<Rightarrow> unit res \<times> disk" where
  "os_Remove osf p d =
     (case osf (Remove p) d of Some e \<Rightarrow> (Err e, d)
      | None \<Rightarrow>
        if \<not> os_exists d p then (Err (''remove '' @ p @ '': no such file or directory''), d)
        else if \<exists>q \<in> fst ` set d. in_tree p q \<and> q \<noteq> p
          then (Err (''remove '' @ p @ '': directory not empty''), d)
        else (Ok (), filter (\<lambda>(q, _). q \<noteq> p) d))"

definition os_ReadFile :: "os_faults \<Rightarrow> string \<Rightarrow> disk \<Rightarrow> bytes res" where
  "os_ReadFile osf p d =
     (case osf (OpenRead p) d of Some e \<Rightarrow> Err e
      | None \<Rightarrow>
        (case map_of d p of
           None \<Rightarrow> Err (''open '' @ p @ '': no such file or directory'')
         | Some Directory \<Rightarrow> Err (''read '' @ p @ '': is a directory'')
         | Some (File content) \<Rightarrow> Ok content))"

text \<open>
  \<^verbatim>\<open>os.Stat\<close>: whether the entry is a directory, and its size (for a directory what Linux reports, one
  block). \<^verbatim>\<open>os.Open\<close> yields what can be read from the file, \<open>None\<close> when reading it fails.
\<close>

definition os_Stat :: "os_faults \<Rightarrow> string \<Rightarrow> disk \<Rightarrow> (bool \<times> nat) res" where
  "os_Stat osf p d =
     (case osf (Stat p) d of Some e \<Rightarrow> Err e
      | None \<Rightarrow>
        (case map_of d p of
           None \<Rightarrow> Err (''stat '' @ p @ '': no such file or directory'')
         | Some Directory \<Rightarrow> Ok (True, 4096)
         | Some (File content) \<Rightarrow> Ok (False, length content)))"

definition os_Open :: "os_faults \<Rightarrow> string \<Rightarrow> disk \<Rightarrow> bytes option res" where
  "os_Open osf p d =
     (case osf (OpenRead p) d of Some e \<Rightarrow> Err e
      | None \<Rightarrow>
        (case map_of d p of
           None \<Rightarrow> Err (''open '' @ p @ '': no such file or directory'')
         | Some Directory \<Rightarrow> Ok None
         | Some (File content) \<Rightarrow> Ok (if osf (Read p) d = None then Some content else None)))"

text \<open>The content of a file, nothing for what is no file.\<close>

definition content_of :: "disk \<Rightarrow> string \<Rightarrow> bytes" where
  "content_of disk p = (case map_of disk p of Some (File c) \<Rightarrow> c | _ \<Rightarrow> [])"

text \<open>\<^verbatim>\<open>os.IsNotExist\<close> of the error of \<^verbatim>\<open>os.Stat\<close>.\<close>

definition IsNotExist :: "os_faults \<Rightarrow> string \<Rightarrow> disk \<Rightarrow> bool" where
  "IsNotExist osf p d \<longleftrightarrow> osf (Stat p) d = None \<and> \<not> os_exists d p"

text \<open>
  Opening a file for writing fails when it is a directory or when the directory it is to be created in
  does not exist. \<^verbatim>\<open>O_CREATE\<close> creates the file if it is missing, \<^verbatim>\<open>os.Create\<close> also empties it. A write
  that fails writes nothing; \<open>write_end\<close> writes at the end of the file (\<^verbatim>\<open>O_APPEND\<close>, or a file just
  emptied), \<open>write_start\<close> over the beginning of it.
\<close>

definition set_file :: "string \<Rightarrow> bytes \<Rightarrow> disk \<Rightarrow> disk" where
  "set_file p c d = (p, File c) # filter (\<lambda>(q, _). q \<noteq> p) d"

definition can_write :: "string \<Rightarrow> disk \<Rightarrow> error option" where
  "can_write p d =
     (case map_of d p of
        Some Directory \<Rightarrow> Some (''open '' @ p @ '': is a directory'')
      | Some (File _) \<Rightarrow> None
      | None \<Rightarrow>
          if Dir p \<in> {''/'', ''.''} \<or> map_of d (Dir p) = Some Directory then None
          else Some (''open '' @ p @ '': no such file or directory''))"

definition os_OpenCreate :: "os_faults \<Rightarrow> string \<Rightarrow> disk \<Rightarrow> unit res \<times> disk" where
  "os_OpenCreate osf p d =
     (case osf (OpenWrite p) d of Some e \<Rightarrow> (Err e, d)
      | None \<Rightarrow> (case can_write p d of Some e \<Rightarrow> (Err e, d)
                | None \<Rightarrow> (Ok (), if os_exists d p then d else set_file p [] d)))"

definition os_Create :: "os_faults \<Rightarrow> string \<Rightarrow> disk \<Rightarrow> unit res \<times> disk" where
  "os_Create osf p d =
     (case osf (OpenWrite p) d of Some e \<Rightarrow> (Err e, d)
      | None \<Rightarrow> (case can_write p d of Some e \<Rightarrow> (Err e, d) | None \<Rightarrow> (Ok (), set_file p [] d)))"

definition write_end :: "os_faults \<Rightarrow> string \<Rightarrow> bytes \<Rightarrow> disk \<Rightarrow> unit res \<times> disk" where
  "write_end osf p s d =
     (case osf (Write p) d of Some e \<Rightarrow> (Err e, d) | None \<Rightarrow> (Ok (), set_file p (content_of d p @ s) d))"

definition write_start :: "os_faults \<Rightarrow> string \<Rightarrow> bytes \<Rightarrow> disk \<Rightarrow> unit res \<times> disk" where
  "write_start osf p s d =
     (case osf (Write p) d of Some e \<Rightarrow> (Err e, d)
      | None \<Rightarrow> (Ok (), set_file p (s @ drop (length s) (content_of d p)) d))"

lemma set_file_lookup [simp]: "map_of (set_file p c d) q = (if q = p then Some (File c) else map_of d q)"
  by (induction d) (auto simp: set_file_def)

lemma set_file_content [simp]: "content_of (set_file p c d) q = (if q = p then c else content_of d q)"
  by (simp add: content_of_def)

lemma set_file_exists [simp]: "os_exists (set_file p c d) q \<longleftrightarrow> q = p \<or> os_exists d q"
  by (simp add: os_exists_def)

lemma removed_lookup:
  "map_of (filter (\<lambda>(q, _). \<not> in_tree p q) d) r = (if in_tree p r then None else map_of d r)"
  by (induction d) auto

lemma os_RemoveAll_Ok:
  "os_RemoveAll osf p d = (Ok (), d') \<Longrightarrow> p \<noteq> [] \<Longrightarrow> os_exists d' r \<longleftrightarrow> os_exists d r \<and> \<not> in_tree p r"
  by (auto simp: os_RemoveAll_def os_exists_def removed_lookup split: option.splits if_splits)

lemma parents_of_last:
  "cs \<noteq> [] \<Longrightarrow> pre @ Join_with CHR ''/'' cs \<in> set (parents_of pre cs)"
proof (induction pre cs rule: parents_of.induct)
  case (2 pre c cs)
  then show ?case by (cases cs) auto
qed simp

lemma mkdirs_exists: "p \<noteq> [] \<Longrightarrow> os_exists (mkdirs d p) p"
proof -
  assume "p \<noteq> []"
  have "p \<in> set (parents_of [] (Split p CHR ''/''))"
    using parents_of_last [of "Split p CHR ''/''" "[]"] by simp
  with \<open>p \<noteq> []\<close> show ?thesis
    by (cases "os_exists d p") (auto simp: mkdirs_def os_exists_def map_of_eq_None_iff image_iff)
qed

lemma mkdirs_keeps:
  assumes "os_exists d q"
  shows "map_of (mkdirs d p) q = map_of d q"
proof -
  have "map_of (map (\<lambda>q. (q, Directory)) (filter (\<lambda>q. q \<noteq> [] \<and> \<not> os_exists d q) rs)) q = None" for rs
    using assms by (simp add: map_of_eq_None_iff image_iff)
  then show ?thesis by (simp add: mkdirs_def map_add_def)
qed

section \<open>JSON\<close>

text \<open>
  \<^verbatim>\<open>json.Marshal\<close> of a value, and \<^verbatim>\<open>json.Unmarshal\<close> into a zero value: the value it leaves there
  and the error it returns. \<open>valid\<close> holds of the values that JSON can carry: their strings are
  valid UTF-8 and their times have years from 0 to 9999; for those, marshalling succeeds and
  unmarshalling returns the value (the documented round trip).
\<close>

record 'a codec =
  marshal :: "'a \<Rightarrow> error + bytes"
  unmarshal :: "bytes \<Rightarrow> 'a \<times> error option"

locale json_spec =
  fixes J :: "'a codec" and valid :: "'a \<Rightarrow> bool"
  assumes round_trip: "valid x \<Longrightarrow> \<exists>b. marshal J x = Inr b \<and> unmarshal J b = (x, None)"
begin

lemma marshal_valid: "valid x \<Longrightarrow> marshal J x = Inr b \<Longrightarrow> unmarshal J b = (x, None)"
  using round_trip by fastforce

lemma marshal_inj:
  "valid x \<Longrightarrow> valid y \<Longrightarrow> marshal J x = Inr b \<Longrightarrow> marshal J y = Inr b \<Longrightarrow> x = y"
  using marshal_valid by (metis fst_conv)

end

text \<open>Well-formed UTF-8 (\<^verbatim>\<open>utf8.ValidString\<close>), by lead byte.\<close>

fun utf8_cont :: "nat \<Rightarrow> nat \<Rightarrow> nat \<Rightarrow> bool" where
  "utf8_cont lo hi b = (lo \<le> b \<and> b \<le> hi)"

fun utf8_nats :: "nat list \<Rightarrow> bool" where
  "utf8_nats [] = True"
| "utf8_nats (a # bs) =
    (if a < 128 then utf8_nats bs
     else case bs of [] \<Rightarrow> False
     | b # cs \<Rightarrow>
       if 194 \<le> a \<and> a \<le> 223 then utf8_cont 128 191 b \<and> utf8_nats cs
       else (case cs of [] \<Rightarrow> False
       | c # ds \<Rightarrow>
         if 224 \<le> a \<and> a \<le> 239 then
           utf8_cont (if a = 224 then 160 else 128) (if a = 237 then 159 else 191) b \<and>
           utf8_cont 128 191 c \<and> utf8_nats ds
         else (case ds of [] \<Rightarrow> False
         | d # es \<Rightarrow>
           240 \<le> a \<and> a \<le> 244 \<and>
           utf8_cont (if a = 240 then 144 else 128) (if a = 244 then 143 else 191) b \<and>
           utf8_cont 128 191 c \<and> utf8_cont 128 191 d \<and> utf8_nats es)))"

definition utf8_valid :: "string \<Rightarrow> bool" where
  "utf8_valid s \<longleftrightarrow> utf8_nats (map of_char s)"

lemma utf8_ascii: "\<forall>c \<in> set s. (of_char c :: nat) < 128 \<Longrightarrow> utf8_valid (s :: string)"
  by (induction s) (auto simp: utf8_valid_def)

lemma utf8_ascii_append:
  "\<forall>c \<in> set s. (of_char c :: nat) < 128 \<Longrightarrow> utf8_valid (s @ t) \<longleftrightarrow> utf8_valid (t :: string)"
  by (induction s) (auto simp: utf8_valid_def)

end
