(* ===== verification/File_Index.thy ===== *)
theory File_Index
  imports Bolt_Store Go_Lib
begin

text \<open>
  The flat content index of \<^verbatim>\<open>src/filesys/filesys.go\<close> (lines 22 to 452): the file system
  object, its three buckets and the operations the hub's schedulers use.
  \<^item> \<^verbatim>\<open>AssetPathMapping\<close>: content id to a JSON record of download time, path and command id;
  \<^item> \<^verbatim>\<open>SatelliteIdtoAssetIdMapping\<close>: satellite id (CID) to content id;
  \<^item> \<^verbatim>\<open>PendingAPIRequestMapping\<close>: key to a JSON request that still has to reach the cloud.
  The locale \<open>keyed_queue\<close> is the contract the telemetry handlers use of the last bucket.
\<close>

section \<open>The file system object\<close>

record 'db FileSystem =
  nodeLength :: nat
  homeNode :: bytes
  homeDirLocation :: string
  nodesDB :: "'db"

record ContentInfoOnDevice =
  DownloadTime :: int \<comment> \<open>nanoseconds since 1970 UTC\<close>
  FolderPath :: string
  CommandId :: string

abbreviation AssetPathMapping :: string where
  "AssetPathMapping \<equiv> ''AssetPathMapping''"

abbreviation SatelliteIdtoAssetIdMapping :: string where
  "SatelliteIdtoAssetIdMapping \<equiv> ''SatelliteIdtoAssetIdMapping''"

abbreviation PendingAPIRequestMapping :: string where
  "PendingAPIRequestMapping \<equiv> ''PendingAPIRequestMapping''"

text \<open>
  A fresh node name: UUIDs are drawn until one differs from the home node. \<open>uuid n\<close> is the
  \<open>n\<close>-th UUID the generator returns, the second component of the result the next position.
\<close>

partial_function (option) RandStringBytes ::
    "(nat \<Rightarrow> string) \<Rightarrow> bytes \<Rightarrow> nat \<Rightarrow> (bytes \<times> nat) option" where
  "RandStringBytes uuid home n =
     (if uuid n = home then RandStringBytes uuid home (Suc n) else Some (uuid n, Suc n))"

fun stringInSlice :: "string list \<Rightarrow> string \<Rightarrow> bool" where
  "stringInSlice [] a = False"
| "stringInSlice (b # list) a = (if b = a then True else stringInSlice list a)"

text \<open>
  \<open>opened\<close> is what \<^verbatim>\<open>bolt.Open\<close> returned. (The error is printed with the verb \<^verbatim>\<open>%e\<close>, whose
  rendering of an error value is not modelled: the text keeps the message.)
\<close>

definition MakeFileSystem :: "error + 'db \<Rightarrow> string \<Rightarrow> 'db FileSystem res" where
  "MakeFileSystem opened homeDir =
     (case opened of
        Inl err \<Rightarrow> Err (''[Filesystem][MakeFileSystem]: '' @ err)
      | Inr db \<Rightarrow> Ok \<lparr>nodeLength = 36, homeNode = replicate 36 CHR ''z'',
                      homeDirLocation = homeDir, nodesDB = db\<rparr>)"

text \<open>\<^verbatim>\<open>fs.nodesDB.Update(f)\<close>.\<close>

definition fs_update ::
    "'db bolt \<Rightarrow> ('db \<Rightarrow> 'db res) \<Rightarrow> 'db FileSystem \<Rightarrow> unit res \<times> 'db FileSystem" where
  "fs_update B f fs =
     (case bolt_update B (nodesDB fs) f of (r, db) \<Rightarrow> (r, fs\<lparr>nodesDB := db\<rparr>))"

definition CreateBucket :: "'db bolt \<Rightarrow> string \<Rightarrow> 'db FileSystem \<Rightarrow> unit res \<times> 'db FileSystem" where
  "CreateBucket B bucket_name =
     fs_update B (\<lambda>db. wrap_err ''[Filesystem][CreateBucket] '' (lift_err (bolt_create B db bucket_name)))"

definition InitFileSystem :: "'db bolt \<Rightarrow> 'db FileSystem \<Rightarrow> unit res \<times> 'db FileSystem" where
  "InitFileSystem B fs =
     (case CreateBucket B AssetPathMapping fs of
        (Ok _, fs) \<Rightarrow>
          (case CreateBucket B SatelliteIdtoAssetIdMapping fs of
             (Ok _, fs) \<Rightarrow> CreateBucket B PendingAPIRequestMapping fs
           | (r, fs) \<Rightarrow> (r, fs))
      | (r, fs) \<Rightarrow> (r, fs))"

section \<open>Reading the index\<close>

definition DoesContentIdExist :: "'db bolt \<Rightarrow> 'db FileSystem \<Rightarrow> string \<Rightarrow> bool res" where
  "DoesContentIdExist B fs contentId =
     bind_res (bucket_get B (nodesDB fs) AssetPathMapping contentId) (\<lambda>value. Ok (value \<noteq> None))"

definition GetAssetFolderPathFromDB :: "'db bolt \<Rightarrow> 'db FileSystem \<Rightarrow> string \<Rightarrow> bytes res" where
  "GetAssetFolderPathFromDB B fs assetId =
     bind_res (bucket_get B (nodesDB fs) AssetPathMapping assetId)
       (\<lambda>info. case info of
           None \<Rightarrow> Err (''folder info for '' @ assetId @ '' does not exist'')
         | Some i \<Rightarrow> Ok i)"

text \<open>
  The error of the view is overwritten by that of \<^verbatim>\<open>json.Unmarshal\<close>, which is called on the
  empty input when the content id is not in the bucket. Value and error are both returned.
\<close>

definition GetBroadcastCommandId ::
    "'db bolt \<Rightarrow> ContentInfoOnDevice codec \<Rightarrow> 'db FileSystem \<Rightarrow> string \<Rightarrow> (string \<times> error option) res" where
  "GetBroadcastCommandId B K fs contentId =
     bind_res (bucket_get B (nodesDB fs) AssetPathMapping contentId)
       (\<lambda>infoByte. case unmarshal K (case infoByte of None \<Rightarrow> [] | Some i \<Rightarrow> i) of
          (info, err) \<Rightarrow> Ok (CommandId info, err))"

definition GetContentIdFromSatelliteId ::
    "'db bolt \<Rightarrow> 'db FileSystem \<Rightarrow> string \<Rightarrow> (string \<times> error option) res" where
  "GetContentIdFromSatelliteId B fs satelliteId =
     bind_res (bucket_get B (nodesDB fs) SatelliteIdtoAssetIdMapping satelliteId)
       (\<lambda>infoByte. case infoByte of
           None \<Rightarrow> Ok ([], Some (''Error in getting contentID for sateliteid: %!(EXTRA string='' @
                                 satelliteId @ '')''))
         | Some i \<Rightarrow> Ok (i, None))"

definition GetHomeFolder :: "'db FileSystem \<Rightarrow> string" where
  "GetHomeFolder fs = Join [homeDirLocation fs, homeNode fs]"

text \<open>\<open>PrintBuckets\<close> returns what it prints: the items of the three buckets in turn.\<close>

definition PrintBuckets :: "'db bolt \<Rightarrow> 'db FileSystem \<Rightarrow> (bytes \<times> bytes) list res" where
  "PrintBuckets B fs =
     bind_res (bucket_items B (nodesDB fs) AssetPathMapping) (\<lambda>assets.
     bind_res (bucket_items B (nodesDB fs) SatelliteIdtoAssetIdMapping) (\<lambda>sats.
     bind_res (bucket_items B (nodesDB fs) PendingAPIRequestMapping) (\<lambda>pending.
       Ok (assets @ sats @ pending))))"

text \<open>A Go map built from a cursor: the keys are distinct, so it is the list of items.\<close>

definition GetSatelliteMappedItems :: "'db bolt \<Rightarrow> 'db FileSystem \<Rightarrow> (string \<times> string) list res" where
  "GetSatelliteMappedItems B fs = bucket_items B (nodesDB fs) SatelliteIdtoAssetIdMapping"

definition GetAssetInfoMapItems :: "'db bolt \<Rightarrow> 'db FileSystem \<Rightarrow> (string \<times> bytes) list res" where
  "GetAssetInfoMapItems B fs = bucket_items B (nodesDB fs) AssetPathMapping"

text \<open>
  The code returns the byte slices of the cursor, which bolt guarantees only until the transaction ends; here they
  are values, that is, copies. The definition says what the function returns when no page of the store is reused before the
  caller has decoded them.
\<close>

definition GetPendingApiRequests :: "'db bolt \<Rightarrow> 'db FileSystem \<Rightarrow> bytes list" where
  "GetPendingApiRequests B fs =
     (if \<not> bolt_bucket B (nodesDB fs) PendingAPIRequestMapping then []
      else map snd (bolt_items B (nodesDB fs) PendingAPIRequestMapping))"

section \<open>Changing the index\<close>

definition CreateSatelliteIndexing ::
    "'db bolt \<Rightarrow> string \<Rightarrow> string \<Rightarrow> bytes \<Rightarrow> 'db FileSystem \<Rightarrow> unit res \<times> 'db FileSystem" where
  "CreateSatelliteIndexing B cid assetId contentInfo =
     fs_update B (\<lambda>db.
       bind_res (wrap_err ''[Filesystem][CreateSatelliteIndexing] ''
                  (bucket_put B SatelliteIdtoAssetIdMapping cid assetId db))
       (\<lambda>db. wrap_err ''[Filesystem][CreateSatelliteIndexing] ''
                (bucket_put B AssetPathMapping assetId contentInfo db)))"

definition DeleteSatelliteIds ::
    "'db bolt \<Rightarrow> string list \<Rightarrow> 'db FileSystem \<Rightarrow> unit res \<times> 'db FileSystem" where
  "DeleteSatelliteIds B deleteIds =
     fs_update B (\<lambda>db. wrap_err ''[Filesystem][DeleteSatelliteIds] ''
       (fold_res (bucket_delete B SatelliteIdtoAssetIdMapping) deleteIds db))"

definition DeleteAssetMapping ::
    "'db bolt \<Rightarrow> string list \<Rightarrow> 'db FileSystem \<Rightarrow> unit res \<times> 'db FileSystem" where
  "DeleteAssetMapping B deleteIds =
     fs_update B (\<lambda>db. wrap_err ''[Filesystem][DeleteAssetMapping] ''
       (fold_res (bucket_delete B AssetPathMapping) deleteIds db))"

definition AddProvisionedStatus ::
    "'db bolt \<Rightarrow> string \<Rightarrow> bytes \<Rightarrow> 'db FileSystem \<Rightarrow> unit res \<times> 'db FileSystem" where
  "AddProvisionedStatus B deviceId data =
     fs_update B (\<lambda>db. wrap_err ''[AddProvisionedStatus] ''
       (bucket_put B PendingAPIRequestMapping deviceId data db))"

definition AddCommandStatus ::
    "'db bolt \<Rightarrow> string \<Rightarrow> bytes \<Rightarrow> 'db FileSystem \<Rightarrow> unit res \<times> 'db FileSystem" where
  "AddCommandStatus B commandId data =
     fs_update B (\<lambda>db. wrap_err ''[AddCommandStatus] ''
       (bucket_put B PendingAPIRequestMapping commandId data db))"

text \<open>
  \<open>put_logged\<close>: a failing \<^verbatim>\<open>Put\<close> is only logged and the transaction goes on. \<open>AddContents\<close> reads
  \<^verbatim>\<open>data[i]\<close> for every content id: a shorter \<^verbatim>\<open>data\<close> is an index out of range.
\<close>

definition put_logged :: "'db bolt \<Rightarrow> string \<Rightarrow> bytes \<Rightarrow> bytes \<Rightarrow> 'db \<Rightarrow> 'db res" where
  "put_logged B b k v db =
     (case bucket_put B b k v db of Err _ \<Rightarrow> Ok db | r \<Rightarrow> r)"

fun put_contents :: "'db bolt \<Rightarrow> string list \<Rightarrow> bytes list \<Rightarrow> 'db \<Rightarrow> 'db res" where
  "put_contents B [] data db = Ok db"
| "put_contents B (contentId # contentIds) [] db = Panic"
| "put_contents B (contentId # contentIds) (d # data) db =
     bind_res (put_logged B PendingAPIRequestMapping contentId d db) (put_contents B contentIds data)"

definition AddContents ::
    "'db bolt \<Rightarrow> string list \<Rightarrow> bytes list \<Rightarrow> 'db FileSystem \<Rightarrow> unit res \<times> 'db FileSystem" where
  "AddContents B contentIds data = fs_update B (put_contents B contentIds data)"

definition AddContent ::
    "'db bolt \<Rightarrow> string \<Rightarrow> bytes \<Rightarrow> 'db FileSystem \<Rightarrow> unit res \<times> 'db FileSystem" where
  "AddContent B contentId data = fs_update B (put_logged B PendingAPIRequestMapping contentId data)"

definition DeletePendingAPIRequestEntries ::
    "'db bolt \<Rightarrow> string list \<Rightarrow> 'db FileSystem \<Rightarrow> unit res \<times> 'db FileSystem" where
  "DeletePendingAPIRequestEntries B data =
     fs_update B (\<lambda>db. wrap_err ''[PendingAPIRequestMapping][DeleteRequest] ''
       (fold_res (bucket_delete B PendingAPIRequestMapping) data db))"

text \<open>
  \<open>dfunc\<close> downloads into the new folder, \<open>osf\<close> are the faults of the operating system. The
  result of the final transaction is assigned and then dropped: the function returns nil. The
  value stored is the bare path, not the JSON record the readers of the bucket expect.
\<close>

definition DownloadAndCreateIndexing ::
    "'db bolt \<Rightarrow> (nat \<Rightarrow> string) \<Rightarrow> os_faults \<Rightarrow> string \<Rightarrow>
     (string \<Rightarrow> string list list \<Rightarrow> disk \<Rightarrow> unit res \<times> disk) \<Rightarrow> string list list \<Rightarrow>
     nat \<Rightarrow> disk \<Rightarrow> 'db FileSystem \<Rightarrow> unit res \<times> nat \<times> disk \<times> 'db FileSystem" where
  "DownloadAndCreateIndexing B uuid osf assetId dfunc downloadParams n disk fs =
     (case RandStringBytes uuid (homeNode fs) n of
        None \<Rightarrow> (Diverge, n, disk, fs)
      | Some (node, n) \<Rightarrow>
        let path = Join [homeDirLocation fs, homeNode fs, node] in
        (case os_MkdirAll osf path disk of
           (Ok _, disk) \<Rightarrow>
             (case dfunc path downloadParams disk of
                (Ok _, disk) \<Rightarrow>
                  (case fs_update B (\<lambda>db. wrap_err ''[Filesystem][DownloadAndCreateIndexing] ''
                           (bucket_put B AssetPathMapping assetId path db)) fs of
                     (Panic, fs) \<Rightarrow> (Panic, n, disk, fs)
                   | (_, fs) \<Rightarrow> (Ok (), n, disk, fs))
              | (Err err, disk) \<Rightarrow>
                  (case os_RemoveAll osf path disk of
                     (Err ferr, disk) \<Rightarrow> (Err ferr, n, disk, fs)
                   | (_, disk) \<Rightarrow> (Err err, n, disk, fs))
              | (r, disk) \<Rightarrow> (r, n, disk, fs))
         | (r, disk) \<Rightarrow> (r, n, disk, fs)))"

section \<open>The state of the three buckets\<close>

abbreviation assets :: "'db bolt \<Rightarrow> 'db FileSystem \<Rightarrow> string \<Rightarrow> bytes option" where
  "assets B fs \<equiv> bolt_get B (nodesDB fs) AssetPathMapping"

abbreviation satellites :: "'db bolt \<Rightarrow> 'db FileSystem \<Rightarrow> string \<Rightarrow> bytes option" where
  "satellites B fs \<equiv> bolt_get B (nodesDB fs) SatelliteIdtoAssetIdMapping"

abbreviation pending :: "'db bolt \<Rightarrow> 'db FileSystem \<Rightarrow> string \<Rightarrow> bytes option" where
  "pending B fs \<equiv> bolt_get B (nodesDB fs) PendingAPIRequestMapping"

definition has_buckets :: "'db bolt \<Rightarrow> 'db FileSystem \<Rightarrow> bool" where
  "has_buckets B fs \<longleftrightarrow> bolt_bucket B (nodesDB fs) AssetPathMapping \<and>
     bolt_bucket B (nodesDB fs) SatelliteIdtoAssetIdMapping \<and>
     bolt_bucket B (nodesDB fs) PendingAPIRequestMapping"

text \<open>
  The index invariant: the buckets exist, every satellite id points to a content id that has
  an asset record, and no two satellite ids share a content id.
\<close>

definition index_inv :: "'db bolt \<Rightarrow> 'db FileSystem \<Rightarrow> bool" where
  "index_inv B fs \<longleftrightarrow> has_buckets B fs \<and>
     (\<forall>cid a. satellites B fs cid = Some a \<longrightarrow> assets B fs a \<noteq> None) \<and>
     (\<forall>c1 c2 a. satellites B fs c1 = Some a \<longrightarrow> satellites B fs c2 = Some a \<longrightarrow> c1 = c2)"

text \<open>A key and a value the store accepts.\<close>

definition fits :: "bytes \<Rightarrow> bytes \<Rightarrow> bool" where
  "fits k v \<longleftrightarrow> k \<noteq> [] \<and> length k \<le> max_key \<and> length v \<le> max_value"

section \<open>The pending-request queue as a contract\<close>

text \<open>
  What the telemetry handlers rely on: adding an entry the store accepts and that is committed
  makes it the entry of its key and touches no other, removing takes exactly the given keys
  out, and an operation that returns an error changes nothing.
\<close>

locale keyed_queue =
  fixes look :: "'s \<Rightarrow> bytes \<Rightarrow> bytes option"
    and ready :: "'s \<Rightarrow> bool"
    and add :: "bytes \<Rightarrow> bytes \<Rightarrow> 's \<Rightarrow> unit res \<times> 's"
    and remove :: "bytes list \<Rightarrow> 's \<Rightarrow> unit res \<times> 's"
  assumes add_Ok: "fits k v \<Longrightarrow> add k v s = (Ok u, s') \<Longrightarrow> look s' = (look s)(k \<mapsto> v)"
    and add_other: "add k v s = (r, s') \<Longrightarrow> k' \<noteq> k \<Longrightarrow> look s' k' = look s k'"
    and add_failed: "add k v s = (r, s') \<Longrightarrow> \<not> is_Ok r \<Longrightarrow> s' = s"
    and add_ready: "add k v s = (r, s') \<Longrightarrow> ready s' = ready s"
    and add_no_panic: "ready s \<Longrightarrow> fst (add k v s) \<noteq> Panic"
    and remove_Ok: "remove ks s = (Ok u, s') \<Longrightarrow>
      look s' k = (if k \<in> set ks then None else look s k)"
    and remove_failed: "remove ks s = (r, s') \<Longrightarrow> \<not> is_Ok r \<Longrightarrow> s' = s"
    and remove_ready: "remove ks s = (r, s') \<Longrightarrow> ready s' = ready s"
    and remove_no_panic: "ready s \<Longrightarrow> fst (remove ks s) \<noteq> Panic"
begin

lemma add_keeps_present:
  assumes "fits k v" "add k v s = (r, s')" "look s j \<noteq> None"
  shows "look s' j \<noteq> None"
proof (cases "is_Ok r")
  case True
  then obtain u where "r = Ok u" by (auto simp: is_Ok_iff)
  with assms(2) have "add k v s = (Ok u, s')" by simp
  from add_Ok [OF assms(1) this] assms(3) show ?thesis by simp
next
  case False
  with add_failed [OF assms(2)] assms(3) show ?thesis by simp
qed

lemma remove_only:
  assumes "remove ks s = (r, s')" "look s j \<noteq> None" "look s' j = None"
  shows "j \<in> set ks \<and> is_Ok r"
proof (cases "is_Ok r")
  case True
  then obtain u where "r = Ok u" by (auto simp: is_Ok_iff)
  with assms(1) have "remove ks s = (Ok u, s')" by simp
  from remove_Ok [OF this, of j] assms(2,3) True show ?thesis by (auto split: if_splits)
next
  case False
  with remove_failed [OF assms(1)] assms(2,3) show ?thesis by simp
qed

lemma remove_keeps_value:
  assumes "remove ks s = (r, s')" "look s' j = Some v"
  shows "look s j = Some v"
proof (cases "is_Ok r")
  case True
  then obtain u where "r = Ok u" by (auto simp: is_Ok_iff)
  with assms(1) have "remove ks s = (Ok u, s')" by simp
  from remove_Ok [OF this, of j] assms(2) show ?thesis by (auto split: if_splits)
next
  case False
  with remove_failed [OF assms(1)] assms(2) show ?thesis by simp
qed

end

section \<open>Transactions on the file system object\<close>

context bolt_spec
begin

lemma fs_update_Ok:
  assumes "fs_update B f fs = (Ok u, fs')"
  shows "f (nodesDB fs) = Ok (nodesDB fs')" and "fs' = fs\<lparr>nodesDB := nodesDB fs'\<rparr>"
  using assms
  by (cases rule: update_cases [of f "nodesDB fs"]; auto simp: fs_update_def)+

lemma fs_update_not_Ok:
  assumes "fs_update B f fs = (r, fs')" and "\<not> is_Ok r"
  shows "fs' = fs"
  using assms
  by (cases rule: update_cases [of f "nodesDB fs"]) (auto simp: fs_update_def)

lemma fs_update_Panic:
  "fst (fs_update B f fs) = Panic \<longleftrightarrow> f (nodesDB fs) = Panic"
  by (cases rule: update_cases [of f "nodesDB fs"]) (auto simp: fs_update_def)

lemma fs_update_Diverge:
  "fst (fs_update B f fs) = Diverge \<longleftrightarrow> f (nodesDB fs) = Diverge"
  by (cases rule: update_cases [of f "nodesDB fs"]) (auto simp: fs_update_def)

lemma fs_update_cases [consumes 1, case_names applied unchanged]:
  assumes "fs_update B f fs = (r, fs')"
  obtains (applied) "r = Ok ()" "f (nodesDB fs) = Ok (nodesDB fs')" "fs' = fs\<lparr>nodesDB := nodesDB fs'\<rparr>"
  | (unchanged) "\<not> is_Ok r" "fs' = fs"
proof (cases "is_Ok r")
  case True
  then obtain u where "r = Ok u" by (auto simp: is_Ok_iff)
  with assms have "fs_update B f fs = (Ok u, fs')" by simp
  from fs_update_Ok [OF this] \<open>r = Ok u\<close> show ?thesis using applied by simp
next
  case False
  with fs_update_not_Ok [OF assms] show ?thesis using unchanged by blast
qed

lemma put_logged_Ok:
  assumes "put_logged B b k v db = Ok db'"
  shows "bolt_bucket B db' b' = bolt_bucket B db b'"
    and "(b', k') \<noteq> (b, k) \<Longrightarrow> bolt_get B db' b' k' = bolt_get B db b' k'"
    and "fits k v \<Longrightarrow> bolt_get B db' b k = Some v"
proof -
  consider (put) "bucket_put B b k v db = Ok db'" | (failed) e where "bucket_put B b k v db = Err e" "db' = db"
    using assms by (auto simp: put_logged_def split: res.splits)
  then have "bolt_bucket B db' b' = bolt_bucket B db b' \<and>
      ((b', k') \<noteq> (b, k) \<longrightarrow> bolt_get B db' b' k' = bolt_get B db b' k') \<and>
      (fits k v \<longrightarrow> bolt_get B db' b k = Some v)"
  proof cases
    case put
    then show ?thesis using bucket_put_Ok [OF put] by auto
  next
    case failed
    have "bolt_bucket B db b" using failed(1) by (auto simp: bucket_put_def split: if_splits)
    then have "\<not> fits k v" using failed(1) bucket_put_succeeds [of db b k v] by (auto simp: fits_def)
    with failed(2) show ?thesis by simp
  qed
  then show "bolt_bucket B db' b' = bolt_bucket B db b'"
    and "(b', k') \<noteq> (b, k) \<Longrightarrow> bolt_get B db' b' k' = bolt_get B db b' k'"
    and "fits k v \<Longrightarrow> bolt_get B db' b k = Some v" by blast+
qed

lemma put_logged_total: "bolt_bucket B db b \<Longrightarrow> \<exists>db'. put_logged B b k v db = Ok db'"
  by (cases "bolt_put B db b k v") (auto simp: put_logged_def bucket_put_def)

lemma fold_delete_no_panic: "bolt_bucket B db b \<Longrightarrow> fold_res (bucket_delete B b) ks db \<noteq> Panic"
  using fold_delete_succeeds [of db b ks] by auto

end

text \<open>
  The pending bucket keeps the queue contract for each of its three ways of adding an entry.
\<close>

definition pending_ready :: "'db bolt \<Rightarrow> 'db FileSystem \<Rightarrow> bool" where
  "pending_ready B fs \<longleftrightarrow> bolt_bucket B (nodesDB fs) PendingAPIRequestMapping"

context bolt_spec
begin

lemma DeletePending_Ok:
  assumes "DeletePendingAPIRequestEntries B ks fs = (Ok u, fs')"
  shows "bolt_get B (nodesDB fs') b k =
      (if b = PendingAPIRequestMapping \<and> k \<in> set ks then None else bolt_get B (nodesDB fs) b k)"
    and "bolt_bucket B (nodesDB fs') b = bolt_bucket B (nodesDB fs) b"
proof -
  from fs_update_Ok(1) [OF assms [unfolded DeletePendingAPIRequestEntries_def]]
  have "fold_res (bucket_delete B PendingAPIRequestMapping) ks (nodesDB fs) = Ok (nodesDB fs')"
    by simp
  from fold_delete_Ok [OF this] show "bolt_get B (nodesDB fs') b k =
      (if b = PendingAPIRequestMapping \<and> k \<in> set ks then None else bolt_get B (nodesDB fs) b k)"
    and "bolt_bucket B (nodesDB fs') b = bolt_bucket B (nodesDB fs) b" .
qed

lemma AddContent_Ok:
  assumes "AddContent B key v fs = (Ok u, fs')"
  shows "bolt_bucket B (nodesDB fs') b = bolt_bucket B (nodesDB fs) b"
    and "(b, k) \<noteq> (PendingAPIRequestMapping, key) \<Longrightarrow>
      bolt_get B (nodesDB fs') b k = bolt_get B (nodesDB fs) b k"
    and "fits key v \<Longrightarrow> pending B fs' key = Some v"
  using put_logged_Ok [OF fs_update_Ok(1) [OF assms [unfolded AddContent_def]]] by auto

lemma pending_put_Ok:
  assumes "fs_update B (\<lambda>db. wrap_err p (bucket_put B PendingAPIRequestMapping key v db)) fs = (Ok u, fs')"
  shows "bolt_bucket B (nodesDB fs') b = bolt_bucket B (nodesDB fs) b"
    and "bolt_get B (nodesDB fs') b k =
      (if b = PendingAPIRequestMapping \<and> k = key then Some v else bolt_get B (nodesDB fs) b k)"
proof -
  from fs_update_Ok(1) [OF assms] have "bucket_put B PendingAPIRequestMapping key v (nodesDB fs) = Ok (nodesDB fs')"
    by simp
  from bucket_put_Ok(1,2) [OF this] show "bolt_bucket B (nodesDB fs') b = bolt_bucket B (nodesDB fs) b"
    and "bolt_get B (nodesDB fs') b k =
      (if b = PendingAPIRequestMapping \<and> k = key then Some v else bolt_get B (nodesDB fs) b k)"
    by blast+
qed

lemma pending_put_queue:
  assumes add: "\<And>k v. add k v =
      fs_update B (\<lambda>db. wrap_err p (bucket_put B PendingAPIRequestMapping k v db))"
  shows "keyed_queue (pending B) (pending_ready B) add (DeletePendingAPIRequestEntries B)"
proof
  fix k v s u s'
  assume "fits k v" "add k v s = (Ok u, s')"
  with pending_put_Ok(2) [of p k v s u s'] add show "pending B s' = (pending B s)(k \<mapsto> v)"
    by auto
next
  fix k v s r s' k'
  assume "k' \<noteq> (k :: bytes)" and *: "add k v s = (r, s')"
  from * show "pending B s' k' = pending B s k'"
    unfolding add
  proof (cases rule: fs_update_cases)
    case applied
    with * add \<open>k' \<noteq> k\<close> pending_put_Ok(2) [of p k v s "()" s'] show ?thesis by simp
  qed simp
next
  fix k v s r s'
  assume *: "add k v s = (r, s')"
  then show "pending_ready B s' = pending_ready B s"
    unfolding add
  proof (cases rule: fs_update_cases)
    case applied
    with * add pending_put_Ok(1) [of p k v s "()" s'] show ?thesis by (simp add: pending_ready_def)
  qed simp
next
  fix ks s r s'
  assume *: "DeletePendingAPIRequestEntries B ks s = (r, s')"
  then show "pending_ready B s' = pending_ready B s"
    unfolding DeletePendingAPIRequestEntries_def
  proof (cases rule: fs_update_cases)
    case applied
    with * DeletePending_Ok(2) [of ks s "()" s'] show ?thesis by (simp add: pending_ready_def)
  qed simp
qed (auto simp: add fs_update_Panic bucket_put_def pending_ready_def DeletePending_Ok
      DeletePendingAPIRequestEntries_def fold_delete_no_panic intro: fs_update_not_Ok split: if_splits)

end

sublocale bolt_spec \<subseteq> command_queue: keyed_queue "pending B" "pending_ready B"
    "AddCommandStatus B" "DeletePendingAPIRequestEntries B"
  by (rule pending_put_queue) (rule AddCommandStatus_def)

sublocale bolt_spec \<subseteq> provision_queue: keyed_queue "pending B" "pending_ready B"
    "AddProvisionedStatus B" "DeletePendingAPIRequestEntries B"
  by (rule pending_put_queue) (rule AddProvisionedStatus_def)

sublocale bolt_spec \<subseteq> content_queue: keyed_queue "pending B" "pending_ready B"
    "AddContent B" "DeletePendingAPIRequestEntries B"
proof
  fix k v s u s'
  assume "fits k v" and "AddContent B k v s = (Ok u, s')"
  with AddContent_Ok(2,3) [of k v s u s'] show "pending B s' = (pending B s)(k \<mapsto> v)"
    by auto
next
  fix k v s r s' k'
  assume "k' \<noteq> (k :: bytes)" and *: "AddContent B k v s = (r, s')"
  from * show "pending B s' k' = pending B s k'"
    unfolding AddContent_def
  proof (cases rule: fs_update_cases)
    case applied
    with * \<open>k' \<noteq> k\<close> AddContent_Ok(2) [of k v s "()" s'] show ?thesis by simp
  qed simp
next
  fix k v s r s'
  assume *: "AddContent B k v s = (r, s')"
  then show "pending_ready B s' = pending_ready B s"
    unfolding AddContent_def
  proof (cases rule: fs_update_cases)
    case applied
    with * AddContent_Ok(1) [of k v s "()" s'] show ?thesis by (simp add: pending_ready_def)
  qed simp
next
  fix s k v
  assume "pending_ready B s"
  then obtain db' where "put_logged B PendingAPIRequestMapping k v (nodesDB s) = Ok db'"
    using put_logged_total [of "nodesDB s" PendingAPIRequestMapping k v] by (auto simp: pending_ready_def)
  then show "fst (AddContent B k v s) \<noteq> Panic"
    by (simp add: AddContent_def fs_update_Panic)
qed (auto simp: AddContent_def command_queue.remove_Ok command_queue.remove_no_panic
      intro: fs_update_not_Ok command_queue.remove_failed dest: command_queue.remove_ready)

context bolt_spec
begin

lemma put_contents_Ok:
  assumes "put_contents B ids data db = Ok db'"
  shows "bolt_bucket B db' b = bolt_bucket B db b"
    and "b \<noteq> PendingAPIRequestMapping \<or> k \<notin> set ids \<Longrightarrow> bolt_get B db' b k = bolt_get B db b k"
    and "length ids \<le> length data"
proof -
  have "bolt_bucket B db' b = bolt_bucket B db b \<and> length ids \<le> length data \<and>
      (b \<noteq> PendingAPIRequestMapping \<or> k \<notin> set ids \<longrightarrow> bolt_get B db' b k = bolt_get B db b k)"
    using assms
  proof (induction ids arbitrary: data db)
    case (Cons i ids)
    then obtain d data' db1 where data: "data = d # data'"
        and db1: "put_logged B PendingAPIRequestMapping i d db = Ok db1"
        and rest: "put_contents B ids data' db1 = Ok db'" by (cases data) auto
    from Cons.IH [OF rest] put_logged_Ok(1,2) [OF db1] data show ?case by auto
  qed simp
  then show "bolt_bucket B db' b = bolt_bucket B db b"
    and "b \<noteq> PendingAPIRequestMapping \<or> k \<notin> set ids \<Longrightarrow> bolt_get B db' b k = bolt_get B db b k"
    and "length ids \<le> length data" by blast+
qed

lemma put_contents_stores:
  assumes "put_contents B ids data db = Ok db'" and "distinct ids"
    and "\<forall>(k, v) \<in> set (zip ids data). fits k v"
  shows "\<forall>(k, v) \<in> set (zip ids data). bolt_get B db' PendingAPIRequestMapping k = Some v"
  using assms
proof (induction ids arbitrary: data db)
  case (Cons i ids)
  then obtain d data' db1 where data: "data = d # data'"
      and db1: "put_logged B PendingAPIRequestMapping i d db = Ok db1"
      and rest: "put_contents B ids data' db1 = Ok db'" by (cases data) auto
  have "bolt_get B db' PendingAPIRequestMapping i = bolt_get B db1 PendingAPIRequestMapping i"
    using put_contents_Ok(2) [OF rest] Cons.prems(2) by simp
  moreover have "bolt_get B db1 PendingAPIRequestMapping i = Some d"
    using put_logged_Ok(3) [OF db1] Cons.prems(3) data by simp
  ultimately show ?case using Cons.IH [OF rest] Cons.prems(2,3) data by simp
qed simp

lemma put_contents_total:
  "bolt_bucket B db PendingAPIRequestMapping \<Longrightarrow> length ids \<le> length data \<Longrightarrow>
   \<exists>db'. put_contents B ids data db = Ok db'"
proof (induction ids arbitrary: data db)
  case (Cons i ids)
  then obtain d data' where data: "data = d # data'" by (cases data) auto
  obtain db1 where db1: "put_logged B PendingAPIRequestMapping i d db = Ok db1"
    using put_logged_total [OF Cons.prems(1)] by blast
  with Cons data put_logged_Ok(1) [OF db1] show ?case by simp
qed simp

lemma AddContents_Ok:
  assumes "AddContents B ids data fs = (Ok u, fs')"
  shows "bolt_bucket B (nodesDB fs') b = bolt_bucket B (nodesDB fs) b"
    and "b \<noteq> PendingAPIRequestMapping \<or> k \<notin> set ids \<Longrightarrow>
      bolt_get B (nodesDB fs') b k = bolt_get B (nodesDB fs) b k"
    and "distinct ids \<Longrightarrow> \<forall>(k, v) \<in> set (zip ids data). fits k v \<Longrightarrow>
      \<forall>(k, v) \<in> set (zip ids data). pending B fs' k = Some v"
proof -
  note put = fs_update_Ok(1) [OF assms [unfolded AddContents_def]]
  show "bolt_bucket B (nodesDB fs') b = bolt_bucket B (nodesDB fs) b"
    by (rule put_contents_Ok(1) [OF put])
  show "bolt_get B (nodesDB fs') b k = bolt_get B (nodesDB fs) b k"
    if "b \<noteq> PendingAPIRequestMapping \<or> k \<notin> set ids"
    by (rule put_contents_Ok(2) [OF put that])
  show "\<forall>(k, v) \<in> set (zip ids data). pending B fs' k = Some v"
    if "distinct ids" "\<forall>(k, v) \<in> set (zip ids data). fits k v"
    by (rule put_contents_stores [OF put that])
qed

lemma AddContents_no_panic:
  "pending_ready B fs \<Longrightarrow> length ids \<le> length data \<Longrightarrow> fst (AddContents B ids data fs) \<noteq> Panic"
  using put_contents_total [of "nodesDB fs" ids data]
  by (auto simp: AddContents_def fs_update_Panic pending_ready_def)

lemma AddContents_failed: "AddContents B ids data fs = (r, fs') \<Longrightarrow> \<not> is_Ok r \<Longrightarrow> fs' = fs"
  unfolding AddContents_def by (rule fs_update_not_Ok)

section \<open>Start-up, indexing and deletion\<close>

lemma CreateBucket_Ok:
  assumes "CreateBucket B b fs = (Ok u, fs')"
  shows "bolt_bucket B (nodesDB fs') b' = (b' = b \<or> bolt_bucket B (nodesDB fs) b')"
    and "bolt_get B (nodesDB fs') b' k = bolt_get B (nodesDB fs) b' k"
  using fs_update_Ok(1) [OF assms [unfolded CreateBucket_def]] create_bucket create_get by auto

lemma CreateBucket_cases:
  assumes "CreateBucket B b fs = (r, fs')"
  shows "r = Ok () \<or> (\<exists>e. r = Err e \<and> fs' = fs)"
  using assms unfolding CreateBucket_def
  by (cases rule: fs_update_cases; cases r)
    (auto dest!: arg_cong [where f = fst] simp: fs_update_Panic fs_update_Diverge)

lemma InitFileSystem_Ok:
  assumes "InitFileSystem B fs = (Ok u, fs')"
  shows "has_buckets B fs'" and "bolt_get B (nodesDB fs') b k = bolt_get B (nodesDB fs) b k"
proof -
  from assms obtain fs1 fs2 where
    s: "CreateBucket B AssetPathMapping fs = (Ok (), fs1)"
      "CreateBucket B SatelliteIdtoAssetIdMapping fs1 = (Ok (), fs2)"
      "CreateBucket B PendingAPIRequestMapping fs2 = (Ok (), fs')"
    by (auto simp: InitFileSystem_def split: prod.splits res.splits)
  show "has_buckets B fs'" and "bolt_get B (nodesDB fs') b k = bolt_get B (nodesDB fs) b k"
    using CreateBucket_Ok [OF s(1)] CreateBucket_Ok [OF s(2)] CreateBucket_Ok [OF s(3)]
    by (simp_all add: has_buckets_def)
qed

lemma CreateSatelliteIndexing_Ok:
  assumes "CreateSatelliteIndexing B cid a info fs = (Ok u, fs')"
  shows "bolt_bucket B (nodesDB fs') b = bolt_bucket B (nodesDB fs) b"
    and "satellites B fs' = (satellites B fs)(cid \<mapsto> a)"
    and "assets B fs' = (assets B fs)(a \<mapsto> info)"
    and "pending B fs' = pending B fs"
proof -
  from fs_update_Ok(1) [OF assms [unfolded CreateSatelliteIndexing_def]] obtain db1 where
    p1: "bucket_put B SatelliteIdtoAssetIdMapping cid a (nodesDB fs) = Ok db1" and
    p2: "bucket_put B AssetPathMapping a info db1 = Ok (nodesDB fs')" by auto
  note get = bucket_put_Ok(1) [OF p1] bucket_put_Ok(1) [OF p2]
  show "bolt_bucket B (nodesDB fs') b = bolt_bucket B (nodesDB fs) b"
    using bucket_put_Ok(2) [OF p1] bucket_put_Ok(2) [OF p2] by simp
  show "satellites B fs' = (satellites B fs)(cid \<mapsto> a)" "assets B fs' = (assets B fs)(a \<mapsto> info)"
      "pending B fs' = pending B fs"
    by (auto simp: get)
qed

lemma CreateSatelliteIndexing_failed:
  "CreateSatelliteIndexing B cid a info fs = (r, fs') \<Longrightarrow> \<not> is_Ok r \<Longrightarrow> fs' = fs"
  unfolding CreateSatelliteIndexing_def by (rule fs_update_not_Ok)

lemma CreateSatelliteIndexing_inv:
  assumes "CreateSatelliteIndexing B cid a info fs = (r, fs')" "index_inv B fs" "assets B fs a = None"
  shows "index_inv B fs'"
proof (cases "is_Ok r")
  case True
  then obtain u where "CreateSatelliteIndexing B cid a info fs = (Ok u, fs')"
    using assms(1) by (auto simp: is_Ok_iff)
  moreover have "satellites B fs c \<noteq> Some a" for c
    using assms(2,3) unfolding index_inv_def by (metis option.distinct(1))
  ultimately show ?thesis using CreateSatelliteIndexing_Ok [of cid a info fs u fs'] assms(2)
    by (auto simp: index_inv_def has_buckets_def)
next
  case False
  with CreateSatelliteIndexing_failed [OF assms(1)] assms(2) show ?thesis by simp
qed

lemma delete_keys_Ok:
  assumes "fs_update B (\<lambda>db. wrap_err p (fold_res (bucket_delete B b) ks db)) fs = (Ok u, fs')"
  shows "bolt_get B (nodesDB fs') b' k =
      (if b' = b \<and> k \<in> set ks then None else bolt_get B (nodesDB fs) b' k)"
    and "bolt_bucket B (nodesDB fs') b' = bolt_bucket B (nodesDB fs) b'"
proof -
  from fs_update_Ok(1) [OF assms] have "fold_res (bucket_delete B b) ks (nodesDB fs) = Ok (nodesDB fs')"
    by simp
  from fold_delete_Ok [OF this] show "bolt_get B (nodesDB fs') b' k =
      (if b' = b \<and> k \<in> set ks then None else bolt_get B (nodesDB fs) b' k)"
    and "bolt_bucket B (nodesDB fs') b' = bolt_bucket B (nodesDB fs) b'" .
qed

lemmas DeleteSatelliteIds_Ok = delete_keys_Ok [where b = SatelliteIdtoAssetIdMapping and
    p = "''[Filesystem][DeleteSatelliteIds] ''", folded DeleteSatelliteIds_def]
  and DeleteAssetMapping_Ok = delete_keys_Ok [where b = AssetPathMapping and
    p = "''[Filesystem][DeleteAssetMapping] ''", folded DeleteAssetMapping_def]

end

lemma RandStringBytes_fresh:
  assumes ret: "RandStringBytes uuid home n = Some r"
  shows "fst r \<noteq> home"
proof (rule RandStringBytes.raw_induct [where P = "\<lambda>uuid home n r. fst r \<noteq> home", OF _ ret])
  fix f :: "(nat \<Rightarrow> string) \<Rightarrow> bytes \<Rightarrow> nat \<Rightarrow> (bytes \<times> nat) option" and uuid home n r
  assume "\<And>uuid home n r. f uuid home n = Some r \<Longrightarrow> fst r \<noteq> home"
    and "(if uuid n = home then f uuid home (Suc n) else Some (uuid n, Suc n)) = Some r"
  then show "fst r \<noteq> home" by (auto split: if_splits)
qed

lemma RandStringBytes_returns:
  "uuid (n + k) \<noteq> home \<Longrightarrow> \<exists>r. RandStringBytes uuid home n = Some r"
proof (induction k arbitrary: n)
  case 0
  then show ?case by (simp add: RandStringBytes.simps [of uuid home n])
next
  case (Suc k)
  then show ?case by (cases "uuid n = home") (simp_all add: RandStringBytes.simps [of uuid home n])
qed

end
