(* ===== verification/Telemetry_Logger.thy ===== *)
theory Telemetry_Logger
  imports Hub_Prelude "HOL-Library.Word"
begin

text \<open>
  The telemetry logger of \<^verbatim>\<open>src/logger/logger.go\<close>: \<open>Log\<close> builds a telemetry message for an
  event type and sends it to the proxy module over gRPC; \<open>Log_old\<close> appends a JSON line to a
  buffered log file.

  Parameters, collected in \<open>log_env\<close>: the clock and the UUID generator, the JSON encoder, and
  the network (\<open>le_send n\<close> is what the \<open>n\<close>-th send attempt returns). The logger's state
  \<open>log_state\<close> records every call of \<open>Log\<close> with its outcome, the requests the proxy accepted, and
  the log file with the part still in the write buffer.
\<close>

type_synonym float64 = "64 word" \<comment> \<open>the IEEE 754 bits\<close>

section \<open>Messages\<close>

record ContentsInfo =
  NumberOfContents :: int
  ContentProperties_text :: string

datatype TelemetryCommandName = ContentDownloaded | ContentDeleted | CompleteCommand | ProvisionDevice

record TelemetryCommandData =
  CommandName :: TelemetryCommandName
  CommandData :: string
  IsAssetMap :: bool

record MessageSubType =
  StringMessage :: string
  FloatValue :: float64
  Integer :: int
  sub_ContentsInfo :: ContentsInfo
  sub_TelemetryCommandData :: TelemetryCommandData

text \<open>Go's zero values: \<^verbatim>\<open>new(MessageSubType)\<close> and its parts.\<close>

definition zero_ContentsInfo :: ContentsInfo where
  "zero_ContentsInfo = \<lparr>NumberOfContents = 0, ContentProperties_text = []\<rparr>"

definition zero_TelemetryCommandData :: TelemetryCommandData where
  "zero_TelemetryCommandData =
     \<lparr>CommandName = ContentDownloaded, CommandData = [], IsAssetMap = False\<rparr>"

definition zero_MessageSubType :: MessageSubType where
  "zero_MessageSubType =
     \<lparr>StringMessage = [], FloatValue = 0, Integer = 0, sub_ContentsInfo = zero_ContentsInfo,
      sub_TelemetryCommandData = zero_TelemetryCommandData\<rparr>"

record TelemetryMessage =
  DeviceIdInData :: string
  ApplicationName :: string
  ApplicationVersion :: string
  Timestamp :: int
  tm_AssetDeleteOnDeviceByScheduler :: "ContentsInfo option"
  tm_AssetDeleteOnDeviceByCommand :: "ContentsInfo option"
  tm_AssetDownloadOnDeviceFromSES :: "ContentsInfo option"
  tm_AssetDownloadOnDeviceByCommand :: "ContentsInfo option"
  tm_TelemetryCommandMessage :: "TelemetryCommandData option"
  tm_TotalNumberOfAssetsOnTheDevice :: int
  tm_HubStorageAvailable :: float64
  tm_TotalStorage :: float64
  tm_Memory :: float64
  tm_Liveness :: string
  tm_LivenessNumeric :: int
  tm_InvalidCommandOnDevice :: string
  tm_Error :: string
  tm_Critical :: string
  tm_Warning :: string
  tm_Info :: string
  tm_Debug :: string
  EventType :: string
  EventId :: string

abbreviation Liveness :: string where "Liveness \<equiv> ''Liveness''"
abbreviation LivenessNumeric :: string where "LivenessNumeric \<equiv> ''LivenessNumeric''"
abbreviation Debug :: string where "Debug \<equiv> ''Debug''"
abbreviation Info :: string where "Info \<equiv> ''Info''"
abbreviation Warning :: string where "Warning \<equiv> ''Warning''"
abbreviation Error :: string where "Error \<equiv> ''Error''"
abbreviation Critical :: string where "Critical \<equiv> ''Critical''"
abbreviation AssetDeleteOnDeviceByScheduler :: string where
  "AssetDeleteOnDeviceByScheduler \<equiv> ''AssetDeleteOnDeviceByScheduler''"
abbreviation AssetDeleteOnDeviceByCommand :: string where
  "AssetDeleteOnDeviceByCommand \<equiv> ''AssetDeleteOnDeviceByCommand''"
abbreviation AssetDownloadOnDeviceFromSES :: string where
  "AssetDownloadOnDeviceFromSES \<equiv> ''AssetDownloadOnDeviceFromSES''"
abbreviation AssetDownloadOnDeviceByCommand :: string where
  "AssetDownloadOnDeviceByCommand \<equiv> ''AssetDownloadOnDeviceByCommand''"
abbreviation TotalNumberOfAssetsOnTheDevice :: string where
  "TotalNumberOfAssetsOnTheDevice \<equiv> ''TotalNumberOfAssetsOnTheDevice''"
abbreviation InvalidCommandOnDevice :: string where
  "InvalidCommandOnDevice \<equiv> ''InvalidCommandOnDevice''"
abbreviation HubStorageAvailable :: string where "HubStorageAvailable \<equiv> ''HubStorageAvailable''"
abbreviation TotalStorage :: string where "TotalStorage \<equiv> ''TotalStorage''"
abbreviation Memory :: string where "Memory \<equiv> ''Memory''"
abbreviation TelemetryCommandMessage :: string where "TelemetryCommandMessage \<equiv> ''TelemetryCommand''"

definition isValid :: "string \<Rightarrow> error option" where
  "isValid lt =
     (if lt \<in> set [Liveness, LivenessNumeric, Debug, Info, Warning, Error, Critical,
           AssetDeleteOnDeviceByScheduler, AssetDownloadOnDeviceFromSES,
           TotalNumberOfAssetsOnTheDevice, Memory, HubStorageAvailable, TotalStorage,
           TelemetryCommandMessage]
      then None else Some (''Invalid log type '' @ lt))"

section \<open>The logger\<close>

record Logger =
  deviceId :: string
  applicationName :: string
  applicationVersion :: string
  bufferSize :: nat

record Message =
  DeviceId :: string
  MessagesubType :: string
  TimeStamp :: string
  MessageBody :: "(string \<times> string) list"

record log_env =
  le_now :: "nat \<Rightarrow> int" \<comment> \<open>Unix time at the \<open>n\<close>-th call\<close>
  le_uuid :: "nat \<Rightarrow> string"
  le_marshal :: "TelemetryMessage \<Rightarrow> error + string"
  le_send :: "nat \<Rightarrow> string \<Rightarrow> string \<Rightarrow> error option" \<comment> \<open>\<^verbatim>\<open>SendTelemetry\<close>: application name, data\<close>
  le_marshal_old :: "string \<Rightarrow> Message \<Rightarrow> error + string" \<comment> \<open>\<^verbatim>\<open>json.Marshal\<close> of a one-entry map\<close>
  le_show_int :: "int \<Rightarrow> string" \<comment> \<open>\<^verbatim>\<open>%d\<close>\<close>

record log_state =
  log_calls :: "(string \<times> MessageSubType \<times> bool) list"
  upstream :: "(string \<times> string) list"
  log_file :: string
  log_buffer :: string
  old_calls :: nat

definition sendGrpcUpstream ::
    "Logger \<Rightarrow> log_env \<Rightarrow> nat \<Rightarrow> string \<Rightarrow> log_state \<Rightarrow> error option \<times> log_state" where
  "sendGrpcUpstream l E n message st =
     (case le_send E n (applicationName l) message of
        Some err \<Rightarrow> (Some err, st)
      | None \<Rightarrow> (None, st\<lparr>upstream := upstream st @ [(applicationName l, message)]\<rparr>))"

text \<open>The header fields of a message, all others zero (lines 224 to 230).\<close>

definition message_header :: "Logger \<Rightarrow> string \<Rightarrow> int \<Rightarrow> string \<Rightarrow> TelemetryMessage" where
  "message_header l eventType now uuid =
     \<lparr>DeviceIdInData = deviceId l, ApplicationName = applicationName l,
      ApplicationVersion = applicationVersion l, Timestamp = now,
      tm_AssetDeleteOnDeviceByScheduler = None, tm_AssetDeleteOnDeviceByCommand = None,
      tm_AssetDownloadOnDeviceFromSES = None, tm_AssetDownloadOnDeviceByCommand = None,
      tm_TelemetryCommandMessage = None, tm_TotalNumberOfAssetsOnTheDevice = 0,
      tm_HubStorageAvailable = 0, tm_TotalStorage = 0, tm_Memory = 0, tm_Liveness = [],
      tm_LivenessNumeric = 0, tm_InvalidCommandOnDevice = [], tm_Error = [], tm_Critical = [],
      tm_Warning = [], tm_Info = [], tm_Debug = [], EventType = eventType, EventId = uuid\<rparr>"

text \<open>The switch of \<open>Log\<close> (lines 232 to 267): which field carries the payload of an event.\<close>

definition fill_payload :: "string \<Rightarrow> MessageSubType \<Rightarrow> TelemetryMessage \<Rightarrow> TelemetryMessage" where
  "fill_payload ev sm tm =
     (if ev = Liveness then tm\<lparr>tm_Liveness := StringMessage sm\<rparr>
      else if ev = LivenessNumeric then tm\<lparr>tm_LivenessNumeric := Integer sm\<rparr>
      else if ev = InvalidCommandOnDevice then tm\<lparr>tm_InvalidCommandOnDevice := StringMessage sm\<rparr>
      else if ev = HubStorageAvailable then tm\<lparr>tm_HubStorageAvailable := FloatValue sm\<rparr>
      else if ev = TotalStorage then tm\<lparr>tm_TotalStorage := FloatValue sm\<rparr>
      else if ev = Memory then tm\<lparr>tm_Memory := FloatValue sm\<rparr>
      else if ev = AssetDeleteOnDeviceByScheduler then
        tm\<lparr>tm_AssetDeleteOnDeviceByScheduler := Some (sub_ContentsInfo sm)\<rparr>
      else if ev = AssetDeleteOnDeviceByCommand then
        tm\<lparr>tm_AssetDeleteOnDeviceByCommand := Some (sub_ContentsInfo sm)\<rparr>
      else if ev = AssetDownloadOnDeviceFromSES then
        tm\<lparr>tm_AssetDownloadOnDeviceFromSES := Some (sub_ContentsInfo sm)\<rparr>
      else if ev = AssetDownloadOnDeviceByCommand then
        tm\<lparr>tm_AssetDownloadOnDeviceByCommand := Some (sub_ContentsInfo sm)\<rparr>
      else if ev = TotalNumberOfAssetsOnTheDevice then
        tm\<lparr>tm_TotalNumberOfAssetsOnTheDevice := Integer sm\<rparr>
      else if ev = TelemetryCommandMessage then
        tm\<lparr>tm_TelemetryCommandMessage := Some (sub_TelemetryCommandData sm)\<rparr>
      else if ev = Error then tm\<lparr>tm_Error := StringMessage sm\<rparr>
      else if ev = Critical then tm\<lparr>tm_Critical := StringMessage sm\<rparr>
      else if ev = Info then tm\<lparr>tm_Info := StringMessage sm\<rparr>
      else if ev = Debug then tm\<lparr>tm_Debug := StringMessage sm\<rparr>
      else if ev = Warning then tm\<lparr>tm_Warning := StringMessage sm\<rparr>
      else tm)"

definition note_call :: "string \<Rightarrow> MessageSubType \<Rightarrow> bool \<Rightarrow> log_state \<Rightarrow> log_state" where
  "note_call ev sm ok st = st\<lparr>log_calls := log_calls st @ [(ev, sm, ok)]\<rparr>"

definition Log ::
    "Logger \<Rightarrow> log_env \<Rightarrow> string \<Rightarrow> MessageSubType \<Rightarrow> log_state \<Rightarrow> error option \<times> log_state" where
  "Log l E eventType subType st =
     (case isValid eventType of
        Some _ \<Rightarrow> (Some (''[Logger]invalid message type '' @ eventType),
                   note_call eventType subType False st)
      | None \<Rightarrow>
        let n = length (log_calls st);
            tm = fill_payload eventType subType (message_header l eventType (le_now E n) (le_uuid E n))
        in (case le_marshal E tm of
              Inl err \<Rightarrow> (Some (''[LoggerGRPC] error in creating grpc message: '' @ err),
                          note_call eventType subType False st)
            | Inr msgString \<Rightarrow>
                (case sendGrpcUpstream l E n msgString st of
                   (Some err, st) \<Rightarrow> (Some (''[LoggerGRPC] error in sending upstream: '' @ err),
                                      note_call eventType subType False st)
                 | (None, st) \<Rightarrow> (None, note_call eventType subType True st))))"

section \<open>The buffered log file\<close>

text \<open>
  \<^verbatim>\<open>bufio.Writer.WriteString\<close> with a buffer of \<open>n > 0\<close> bytes: what fits is buffered, otherwise
  the buffer is filled, flushed to the file and the rest is written.
\<close>

function buf_write :: "nat \<Rightarrow> string \<Rightarrow> string \<Rightarrow> string \<Rightarrow> string \<times> string" where
  "buf_write n file buf s =
     (if n = 0 \<or> length s \<le> n - length buf then (file, buf @ s)
      else buf_write n (file @ buf @ take (n - length buf) s) [] (drop (n - length buf) s))"
  by pat_completeness auto
termination
  by (relation "measure (\<lambda>(n, file, buf, s). 2 * length s + length buf)") auto

declare buf_write.simps [simp del]

text \<open>The JSON text of a message; a failed encoding leaves an empty text, which is still written.\<close>

definition old_line ::
    "Logger \<Rightarrow> log_env \<Rightarrow> nat \<Rightarrow> string \<Rightarrow> string \<Rightarrow> (string \<times> string) list \<Rightarrow> string" where
  "old_line l E n messageType messagesubType messageBody =
     (case le_marshal_old E messageType
        \<lparr>DeviceId = deviceId l, MessagesubType = messagesubType,
         TimeStamp = le_show_int E (le_now E n), MessageBody = messageBody\<rparr>
      of Inl _ \<Rightarrow> [] | Inr b \<Rightarrow> b)"

definition Log_old ::
    "Logger \<Rightarrow> log_env \<Rightarrow> string \<Rightarrow> string \<Rightarrow> (string \<times> string) list \<Rightarrow> log_state \<Rightarrow> log_state" where
  "Log_old l E messageType messagesubType messageBody st =
     (let msgString = old_line l E (old_calls st) messageType messagesubType messageBody;
          w = buf_write (bufferSize l) (log_file st) (log_buffer st) (msgString @ [CHR 10]);
          st' = st\<lparr>old_calls := Suc (old_calls st)\<rparr>
      in if messageType = ''Liveness'' \<or> messageType = ''Telemetry'' \<or> messageType = ''Critical'' \<or>
            messageType = ''Error''
         then st'\<lparr>log_file := fst w @ snd w, log_buffer := []\<rparr>
         else st'\<lparr>log_file := fst w, log_buffer := snd w\<rparr>)"

section \<open>Facts\<close>

lemma buf_write_stream: "fst (buf_write n file buf s) @ snd (buf_write n file buf s) = file @ buf @ s"
proof (induction n "file" buf s rule: buf_write.induct)
  case (1 n "file" buf s)
  show ?case
  proof (cases "n = 0 \<or> length s \<le> n - length buf")
    case True
    then show ?thesis by (simp add: buf_write.simps [of n "file" buf s])
  next
    case False
    from "1.IH" [OF False] False show ?thesis by (simp add: buf_write.simps [of n "file" buf s])
  qed
qed

lemma Log_cases:
  obtains (accepted) msg where "Log l E ev sm st =
      (None, note_call ev sm True (st\<lparr>upstream := upstream st @ [(applicationName l, msg)]\<rparr>))"
    "isValid ev = None"
    "le_marshal E (fill_payload ev sm (message_header l ev (le_now E (length (log_calls st)))
       (le_uuid E (length (log_calls st))))) = Inr msg"
    "le_send E (length (log_calls st)) (applicationName l) msg = None"
  | (rejected) err where "Log l E ev sm st = (Some err, note_call ev sm False st)"
proof (cases "Log l E ev sm st")
  case (Pair r st')
  then show ?thesis
    using accepted rejected
    by (auto simp: Log_def sendGrpcUpstream_def Let_def split: option.splits sum.splits if_splits)
qed

lemma Log_trace:
  "log_calls (snd (Log l E ev sm st)) = log_calls st @ [(ev, sm, fst (Log l E ev sm st) = None)]"
  by (rule Log_cases [of l E ev sm st]) (simp_all add: note_call_def)

section \<open>Properties\<close>



text \<open>
  The events for invalid commands and for command-driven downloads and deletions have a
  case in the switch of \<open>Log\<close> but are missing from \<open>isValid\<close>: logging them always fails and
  sends nothing, whatever the network does.
\<close>

theorem Log_drops_command_events:
  "\<forall>ev \<in> {InvalidCommandOnDevice, AssetDeleteOnDeviceByCommand, AssetDownloadOnDeviceByCommand}.
     fst (Log l E ev sm st) = Some (''[Logger]invalid message type '' @ ev) \<and>
     upstream (snd (Log l E ev sm st)) = upstream st"
  by (auto simp: Log_def isValid_def note_call_def)

theorem Log_drops_command_events_witness:
  "fst (Log \<lparr>deviceId = ''d'', applicationName = ''a'', applicationVersion = ''1'', bufferSize = 1\<rparr>
     \<lparr>le_now = \<lambda>_. 0, le_uuid = \<lambda>_. ''u'', le_marshal = \<lambda>_. Inr ''m'', le_send = \<lambda>_ _ _. None,
      le_marshal_old = \<lambda>_ _. Inr ''o'', le_show_int = \<lambda>_. ''0''\<rparr>
     ''InvalidCommandOnDevice'' zero_MessageSubType
     \<lparr>log_calls = [], upstream = [], log_file = [], log_buffer = [], old_calls = 0\<rparr>)
   = Some ''[Logger]invalid message type InvalidCommandOnDevice''"
  using Log_drops_command_events by simp

text \<open>
  \<open>Log_old\<close> loses and reorders nothing: log file and buffer together grow by exactly the line
  of the message, and for the urgent message types the buffer is on disk when it returns.
\<close>

theorem Log_old_appends:
  "log_file (Log_old l E ty sub body st) @ log_buffer (Log_old l E ty sub body st) =
     log_file st @ log_buffer st @ old_line l E (old_calls st) ty sub body @ [CHR 10] \<and>
   (ty \<in> {''Liveness'', ''Telemetry'', ''Critical'', ''Error''} \<longrightarrow>
     log_buffer (Log_old l E ty sub body st) = [])"
  by (simp add: Log_old_def Let_def buf_write_stream)

theorem Log_old_appends_witness:
  "log_buffer (Log_old \<lparr>deviceId = ''d'', applicationName = ''a'', applicationVersion = ''1'', bufferSize = 9\<rparr>
     \<lparr>le_now = \<lambda>_. 0, le_uuid = \<lambda>_. ''u'', le_marshal = \<lambda>_. Inr ''m'', le_send = \<lambda>_ _ _. None,
      le_marshal_old = \<lambda>_ _. Inr ''o'', le_show_int = \<lambda>_. ''0''\<rparr>
     ''Critical'' ''Filesys'' []
     \<lparr>log_calls = [], upstream = [], log_file = [], log_buffer = ''x'', old_calls = 0\<rparr>) = []"
  using Log_old_appends [where ty = "''Critical''"] by simp

end
