(* ===== verification/Cloud_Api.thy ===== *)
theory Cloud_Api
  imports File_Index Telemetry_Logger
begin

text \<open>
  The cloud API handler of \<^verbatim>\<open>src/cloudapihandler/api_handler.go\<close>: requests wait in the pending
  bucket until the telemetry they need has reached the cloud; each pass reads the bucket, sends
  what is due in batches, deletes what is done and stores back what failed.

  \<open>capi\<close> collects what the handler is given (store, encoders, logger, device id), \<open>capi_state\<close>
  what it changes (the file system object and the logger's state). The slices of pointers
  \<^verbatim>\<open>[]*ApiData\<close> point into the slice \<^verbatim>\<open>apidata\<close>: they are lists of indexes into a list of records,
  so that both batches see the flags and counters either of them writes.
\<close>

section \<open>Data\<close>

datatype Type = Downloaded | Deleted | Provisioned | FilterUpdated | OtherType int

abbreviation SendCloudTelemetryFlag :: string where
  "SendCloudTelemetryFlag \<equiv> ''sendCloudTelemetry''"

abbreviation SendIOTCentralTelemetryFlag :: string where
  "SendIOTCentralTelemetryFlag \<equiv> ''sendIotCentralTelemetry''"

record Property =
  Key :: string
  Value :: string

text \<open>
  \<open>RetryCount\<close> is an \<^verbatim>\<open>int\<close> of Go: 64 bits on the ARM64 images the hub is built for (\<^verbatim>\<open>Dockerfiles/Dockerfile\<close>). On the 32-bit images
  (\<^verbatim>\<open>Dockerfile_32\<close>) it wraps at 32 bits. Nothing in the code depends on its value.
\<close>

record ApiData =
  ApiId :: string
  ApiType :: Type
  RetryCount :: "64 word"
  OperationTime :: int
  SendCloudTelemetry :: bool
  SendIOTCentralTelemetry :: bool
  Properties :: "Property list"

record ContentData =
  ContentId :: string
  cd_OperationTime :: int

record ContentProperties =
  Size :: float64
  cp_ContentId :: string
  ContainerLocation :: string
  cp_OperationTime :: int
  SesCID :: string
  BroadcastCommandId :: string

record UpdateRequest =
  ur_DeviceId :: string
  Contents :: "ContentData list"

record ProvisionDeviceRequest =
  pr_DeviceId :: string

record CommandStatusRequest =
  cs_DeviceId :: string
  cs_CommandId :: string
  IsFailed :: bool
  FailureReason :: string

record 'db capi =
  ca_bolt :: "'db bolt"
  ca_json :: "ApiData codec"
  ca_info :: "ContentInfoOnDevice codec"
  ca_update :: "UpdateRequest \<Rightarrow> error + string"
  ca_props :: "ContentProperties list \<Rightarrow> error + string"
  ca_command :: "CommandStatusRequest \<Rightarrow> error + string"
  ca_provision :: "ProvisionDeviceRequest \<Rightarrow> error + string"
  ca_parseFloat :: "string \<Rightarrow> float64" \<comment> \<open>\<^verbatim>\<open>strconv.ParseFloat\<close>, its error ignored\<close>
  ca_logger :: Logger
  ca_log :: log_env
  ca_deviceId :: string

record 'db capi_state =
  ca_fs :: "'db FileSystem"
  ca_logst :: log_state

text \<open>
  The properties are copied into a Go map and read back: the last one of a key counts, and a
  missing key reads as the empty string.
\<close>

definition prop_value :: "Property list \<Rightarrow> string \<Rightarrow> string" where
  "prop_value ps k =
     (case map_of (rev (map (\<lambda>p. (Key p, Value p)) ps)) k of None \<Rightarrow> [] | Some v \<Rightarrow> v)"

text \<open>\<^verbatim>\<open>strconv.ParseBool\<close>: the value and whether it parsed.\<close>

definition ParseBool :: "string \<Rightarrow> bool \<times> bool" where
  "ParseBool s =
     (if s \<in> set [''1'', ''t'', ''T'', ''TRUE'', ''true'', ''True''] then (True, True)
      else if s \<in> set [''0'', ''f'', ''F'', ''FALSE'', ''false'', ''False''] then (False, True)
      else (False, False))"

section \<open>Sending\<close>

definition log_msg :: "'db capi \<Rightarrow> string \<Rightarrow> MessageSubType \<Rightarrow> 'db capi_state \<Rightarrow> error option \<times> 'db capi_state" where
  "log_msg E ev sm st =
     (case Log (ca_logger E) (ca_log E) ev sm (ca_logst st) of (err, lst) \<Rightarrow> (err, st\<lparr>ca_logst := lst\<rparr>))"

definition command_message :: "TelemetryCommandName \<Rightarrow> string \<Rightarrow> bool \<Rightarrow> MessageSubType" where
  "command_message name body isAssetMap =
     zero_MessageSubType\<lparr>sub_TelemetryCommandData :=
       \<lparr>CommandName = name, CommandData = body, IsAssetMap = isAssetMap\<rparr>\<rparr>"

definition contents_message :: "int \<Rightarrow> string \<Rightarrow> MessageSubType" where
  "contents_message n body =
     zero_MessageSubType\<lparr>sub_ContentsInfo := \<lparr>NumberOfContents = n, ContentProperties_text = body\<rparr>\<rparr>"

definition sendDownloadedTelemetryData ::
    "'db capi \<Rightarrow> bool \<Rightarrow> UpdateRequest \<Rightarrow> 'db capi_state \<Rightarrow> error option \<times> 'db capi_state" where
  "sendDownloadedTelemetryData E isAssetMap updateRequest st =
     (case ca_update E updateRequest of
        Inl err \<Rightarrow> (Some err, st)
      | Inr body \<Rightarrow> log_msg E TelemetryCommandMessage (command_message ContentDownloaded body isAssetMap) st)"

definition sendDeleteTelemetryData ::
    "'db capi \<Rightarrow> UpdateRequest \<Rightarrow> 'db capi_state \<Rightarrow> error option \<times> 'db capi_state" where
  "sendDeleteTelemetryData E updateRequest st =
     (case ca_update E updateRequest of
        Inl err \<Rightarrow> (Some err, st)
      | Inr body \<Rightarrow> log_msg E TelemetryCommandMessage (command_message ContentDeleted body False) st)"

definition sendDownloadedTelemetryForIoTCentralGraph ::
    "'db capi \<Rightarrow> ContentProperties list \<Rightarrow> 'db capi_state \<Rightarrow> error option \<times> 'db capi_state" where
  "sendDownloadedTelemetryForIoTCentralGraph E contentProperties st =
     (case ca_props E contentProperties of
        Inl err \<Rightarrow> (Some err, st)
      | Inr body \<Rightarrow> log_msg E AssetDownloadOnDeviceFromSES
          (contents_message (int (length contentProperties)) body) st)"

definition sendDeletedTelemetryForIoTCentralGraph ::
    "'db capi \<Rightarrow> ContentProperties list \<Rightarrow> 'db capi_state \<Rightarrow> error option \<times> 'db capi_state" where
  "sendDeletedTelemetryForIoTCentralGraph E contentPropertiesBatch st =
     (case ca_props E contentPropertiesBatch of
        Inl err \<Rightarrow> (Some err, st)
      | Inr body \<Rightarrow> log_msg E AssetDeleteOnDeviceByScheduler
          (contents_message (int (length contentPropertiesBatch)) body) st)"

section \<open>Bookkeeping of a batch\<close>

text \<open>
  \<open>update_at f is xs\<close> (of the prelude): for every pointer of the slice, apply \<open>f\<close> to the record it
  points to.
\<close>

definition setTelemetryFlag :: "string \<Rightarrow> bool \<Rightarrow> nat list \<Rightarrow> ApiData list \<Rightarrow> ApiData list" where
  "setTelemetryFlag flag val apidatas store =
     (if flag = SendCloudTelemetryFlag
      then update_at (\<lambda>d. d\<lparr>SendCloudTelemetry := val\<rparr>) apidatas store
      else if flag = SendIOTCentralTelemetryFlag
      then update_at (\<lambda>d. d\<lparr>SendIOTCentralTelemetry := val\<rparr>) apidatas store
      else store)"

definition GetIds :: "nat list \<Rightarrow> ApiData list \<Rightarrow> string list" where
  "GetIds apidatas store = map (\<lambda>i. ApiId (store ! i)) apidatas"

text \<open>A record that cannot be encoded is skipped, so the result can be shorter than the ids.\<close>

fun marshal_all :: "ApiData codec \<Rightarrow> ApiData list \<Rightarrow> bytes list" where
  "marshal_all J [] = []"
| "marshal_all J (d # ds) =
     (case marshal J d of Inl _ \<Rightarrow> marshal_all J ds | Inr bytedata \<Rightarrow> bytedata # marshal_all J ds)"

definition GetDataArray :: "ApiData codec \<Rightarrow> nat list \<Rightarrow> ApiData list \<Rightarrow> bytes list" where
  "GetDataArray J apidatas store = marshal_all J (map ((!) store) apidatas)"

definition IncrementRetryCount :: "nat list \<Rightarrow> ApiData list \<Rightarrow> ApiData list" where
  "IncrementRetryCount apidatas store =
     update_at (\<lambda>d. d\<lparr>RetryCount := RetryCount d + 1\<rparr>) apidatas store"

definition GetApiDataToBeRemovedFromPendingAPI :: "nat list \<Rightarrow> ApiData list \<Rightarrow> string list" where
  "GetApiDataToBeRemovedFromPendingAPI apiData store =
     map (\<lambda>i. ApiId (store ! i))
       (filter (\<lambda>i. \<not> SendCloudTelemetry (store ! i) \<and> \<not> SendIOTCentralTelemetry (store ! i)) apiData)"

text \<open>
  After a batch: on success its flag is cleared and the records with nothing left to send are
  deleted from the bucket; on failure the retry counters go up and the whole batch is stored
  back. Errors of the store are only logged.
\<close>

definition AddApiDataBackToPendingAPIBucketOrDelete ::
    "'db capi \<Rightarrow> error option \<Rightarrow> nat list \<Rightarrow> string \<Rightarrow> ApiData list \<Rightarrow> 'db capi_state \<Rightarrow>
     (ApiData list \<times> 'db capi_state) res" where
  "AddApiDataBackToPendingAPIBucketOrDelete E err apiData telemetryFlag store st =
     (case err of
        None \<Rightarrow>
          let store' = setTelemetryFlag telemetryFlag False apiData store;
              IdsToBeRemoved = GetApiDataToBeRemovedFromPendingAPI apiData store'
          in (case DeletePendingAPIRequestEntries (ca_bolt E) IdsToBeRemoved (ca_fs st) of
                (Panic, _) \<Rightarrow> Panic
              | (_, fs) \<Rightarrow> Ok (store', st\<lparr>ca_fs := fs\<rparr>))
      | Some _ \<Rightarrow>
          let store' = IncrementRetryCount apiData store
          in (case AddContents (ca_bolt E) (GetIds apiData store') (GetDataArray (ca_json E) apiData store')
                     (ca_fs st) of
                (Panic, _) \<Rightarrow> Panic
              | (_, fs) \<Rightarrow> Ok (store', st\<lparr>ca_fs := fs\<rparr>)))"

section \<open>The batching loops\<close>

text \<open>
  \<^verbatim>\<open>sendDownloadRequestInBatches\<close> (lines 205 to 301) and \<^verbatim>\<open>sendDeleteRequestInBatches\<close> (lines 303
  to 398) have the same loop; they differ in the contents they build and in the calls that send
  them, the four fields of \<open>batch_kind\<close>.
\<close>

record 'db batch_kind =
  bk_content :: "ApiData \<Rightarrow> ContentData"
  bk_props :: "ApiData \<Rightarrow> ContentProperties"
  bk_send_content :: "UpdateRequest \<Rightarrow> 'db capi_state \<Rightarrow> error option \<times> 'db capi_state"
  bk_send_props :: "ContentProperties list \<Rightarrow> 'db capi_state \<Rightarrow> error option \<times> 'db capi_state"

record 'db batch_state =
  bs_store :: "ApiData list" \<comment> \<open>the slice \<^verbatim>\<open>apidata\<close>\<close>
  contentDataBatch :: "ContentData list"
  contentPropertiesBatch :: "ContentProperties list"
  contentDataApiBatch :: "nat list"
  contentPropertiesApiBatch :: "nat list"
  bs_st :: "'db capi_state"

definition add_to_batches :: "'db batch_kind \<Rightarrow> nat \<Rightarrow> ApiData \<Rightarrow> 'db batch_state \<Rightarrow> 'db batch_state" where
  "add_to_batches K i data bs =
     (let bs1 = (if SendCloudTelemetry data
                 then bs\<lparr>contentDataApiBatch := contentDataApiBatch bs @ [i],
                         contentDataBatch := contentDataBatch bs @ [bk_content K data]\<rparr>
                 else bs)
      in if SendIOTCentralTelemetry data
         then bs1\<lparr>contentPropertiesApiBatch := contentPropertiesApiBatch bs1 @ [i],
                  contentPropertiesBatch := contentPropertiesBatch bs1 @ [bk_props K data]\<rparr>
         else bs1)"

definition flush_content :: "'db capi \<Rightarrow> 'db batch_kind \<Rightarrow> 'db batch_state \<Rightarrow> 'db batch_state res" where
  "flush_content E K bs =
     (case bk_send_content K \<lparr>ur_DeviceId = ca_deviceId E, Contents = contentDataBatch bs\<rparr> (bs_st bs) of
        (err, st) \<Rightarrow>
          bind_res (AddApiDataBackToPendingAPIBucketOrDelete E err (contentDataApiBatch bs)
              SendCloudTelemetryFlag (bs_store bs) st)
            (\<lambda>(store, st). Ok (bs\<lparr>bs_store := store, bs_st := st, contentDataBatch := [],
                                  contentDataApiBatch := []\<rparr>)))"

definition flush_props :: "'db capi \<Rightarrow> 'db batch_kind \<Rightarrow> 'db batch_state \<Rightarrow> 'db batch_state res" where
  "flush_props E K bs =
     (case bk_send_props K (contentPropertiesBatch bs) (bs_st bs) of
        (err, st) \<Rightarrow>
          bind_res (AddApiDataBackToPendingAPIBucketOrDelete E err (contentPropertiesApiBatch bs)
              SendIOTCentralTelemetryFlag (bs_store bs) st)
            (\<lambda>(store, st). Ok (bs\<lparr>bs_store := store, bs_st := st, contentPropertiesBatch := [],
                                  contentPropertiesApiBatch := []\<rparr>)))"

text \<open>
  A full batch is sent; before that its first element is read for a message, which is out of
  range when the message size, and with it the batch, is empty.
\<close>

definition flush_content_full ::
    "'db capi \<Rightarrow> 'db batch_kind \<Rightarrow> int \<Rightarrow> 'db batch_state \<Rightarrow> 'db batch_state res" where
  "flush_content_full E K messageSize bs =
     (if int (length (contentDataBatch bs)) = messageSize
      then if contentDataBatch bs = [] then Panic else flush_content E K bs
      else Ok bs)"

definition flush_props_full ::
    "'db capi \<Rightarrow> 'db batch_kind \<Rightarrow> int \<Rightarrow> 'db batch_state \<Rightarrow> 'db batch_state res" where
  "flush_props_full E K messageSize bs =
     (if int (length (contentPropertiesBatch bs)) = messageSize
      then if contentPropertiesBatch bs = [] then Panic else flush_props E K bs
      else Ok bs)"

definition batch_item ::
    "'db capi \<Rightarrow> 'db batch_kind \<Rightarrow> int \<Rightarrow> nat \<Rightarrow> 'db batch_state \<Rightarrow> 'db batch_state res" where
  "batch_item E K messageSize i bs =
     bind_res (flush_content_full E K messageSize (add_to_batches K i (bs_store bs ! i) bs))
       (flush_props_full E K messageSize)"

definition flush_rest :: "'db capi \<Rightarrow> 'db batch_kind \<Rightarrow> 'db batch_state \<Rightarrow> 'db batch_state res" where
  "flush_rest E K bs =
     bind_res (if contentDataBatch bs \<noteq> [] then flush_content E K bs else Ok bs)
       (\<lambda>bs. if contentPropertiesBatch bs \<noteq> [] then flush_props E K bs else Ok bs)"

text \<open>\<^verbatim>\<open>make([]T, 0, messageSize)\<close> panics on a negative capacity.\<close>

definition send_in_batches ::
    "'db capi \<Rightarrow> 'db batch_kind \<Rightarrow> ApiData list \<Rightarrow> int \<Rightarrow> 'db capi_state \<Rightarrow> 'db batch_state res" where
  "send_in_batches E K apidata messageSize st =
     (if messageSize < 0 then Panic
      else bind_res
        (fold_res (batch_item E K messageSize) [0..<length apidata]
           \<lparr>bs_store = apidata, contentDataBatch = [], contentPropertiesBatch = [],
            contentDataApiBatch = [], contentPropertiesApiBatch = [], bs_st = st\<rparr>)
        (flush_rest E K))"

definition download_kind :: "'db capi \<Rightarrow> 'db batch_kind" where
  "download_kind E =
     \<lparr>bk_content = \<lambda>d. \<lparr>ContentId = ApiId d, cd_OperationTime = OperationTime d\<rparr>,
      bk_props = \<lambda>d. \<lparr>Size = ca_parseFloat E (prop_value (Properties d) ''size''),
        cp_ContentId = ApiId d, ContainerLocation = prop_value (Properties d) ''containerLocation'',
        cp_OperationTime = OperationTime d, SesCID = prop_value (Properties d) ''sesCid'',
        BroadcastCommandId = prop_value (Properties d) ''commandId''\<rparr>,
      bk_send_content = sendDownloadedTelemetryData E False,
      bk_send_props = sendDownloadedTelemetryForIoTCentralGraph E\<rparr>"

definition delete_kind :: "'db capi \<Rightarrow> 'db batch_kind" where
  "delete_kind E =
     \<lparr>bk_content = \<lambda>d. \<lparr>ContentId = TrimPrefix (ApiId d) ''DL_'', cd_OperationTime = OperationTime d\<rparr>,
      bk_props = \<lambda>d. \<lparr>Size = 0, cp_ContentId = TrimPrefix (ApiId d) ''DL_'', ContainerLocation = [],
        cp_OperationTime = OperationTime d, SesCID = prop_value (Properties d) ''sesCid'',
        BroadcastCommandId = prop_value (Properties d) ''commandId''\<rparr>,
      bk_send_content = sendDeleteTelemetryData E,
      bk_send_props = sendDeletedTelemetryForIoTCentralGraph E\<rparr>"

definition sendDownloadRequestInBatches ::
    "'db capi \<Rightarrow> ApiData list \<Rightarrow> int \<Rightarrow> 'db capi_state \<Rightarrow> 'db capi_state res" where
  "sendDownloadRequestInBatches E apidata messageSize st =
     bind_res (send_in_batches E (download_kind E) apidata messageSize st) (\<lambda>bs. Ok (bs_st bs))"

definition sendDeleteRequestInBatches ::
    "'db capi \<Rightarrow> ApiData list \<Rightarrow> int \<Rightarrow> 'db capi_state \<Rightarrow> 'db capi_state res" where
  "sendDeleteRequestInBatches E apidata messageSize st =
     bind_res (send_in_batches E (delete_kind E) apidata messageSize st) (\<lambda>bs. Ok (bs_st bs))"

section \<open>Single requests\<close>

text \<open>
  \<open>handleFilterUpdatedRequest\<close>: the status of one command. The key in the bucket is the command
  id; the device id of the request is the record's id. A request that failed is stored back with
  its counter increased; \<open>deleteIds\<close> collects the ones that were sent.
\<close>

definition command_status_request :: "ApiData \<Rightarrow> CommandStatusRequest" where
  "command_status_request d =
     \<lparr>cs_DeviceId = ApiId d, cs_CommandId = prop_value (Properties d) ''commandId'',
      IsFailed = fst (ParseBool (prop_value (Properties d) ''isFailed'')),
      FailureReason = prop_value (Properties d) ''failureReason''\<rparr>"

definition filter_updated_item ::
    "'db capi \<Rightarrow> ApiData \<Rightarrow> string list \<times> 'db capi_state \<Rightarrow> (string list \<times> 'db capi_state) res" where
  "filter_updated_item E data = (\<lambda>(deleteIds, st).
     let req = command_status_request data in
     case ca_command E req of
       Inl _ \<Rightarrow> Ok (deleteIds, st)
     | Inr body \<Rightarrow>
         (case log_msg E TelemetryCommandMessage (command_message CompleteCommand body False) st of
            (None, st) \<Rightarrow> Ok (deleteIds @ [cs_CommandId req], st)
          | (Some _, st) \<Rightarrow>
              (case marshal (ca_json E) (data\<lparr>RetryCount := RetryCount data + 1\<rparr>) of
                 Inl _ \<Rightarrow> Ok (deleteIds, st)
               | Inr byteData \<Rightarrow>
                   (case AddCommandStatus (ca_bolt E) (cs_CommandId req) byteData (ca_fs st) of
                      (Panic, _) \<Rightarrow> Panic
                    | (_, fs) \<Rightarrow> Ok (deleteIds, st\<lparr>ca_fs := fs\<rparr>)))))"

definition delete_sent :: "'db capi \<Rightarrow> string list \<times> 'db capi_state \<Rightarrow> 'db capi_state res" where
  "delete_sent E = (\<lambda>(deleteIds, st).
     case DeletePendingAPIRequestEntries (ca_bolt E) deleteIds (ca_fs st) of
       (Panic, _) \<Rightarrow> Panic
     | (_, fs) \<Rightarrow> Ok (st\<lparr>ca_fs := fs\<rparr>))"

definition handleFilterUpdatedRequest :: "'db capi \<Rightarrow> ApiData list \<Rightarrow> 'db capi_state \<Rightarrow> 'db capi_state res" where
  "handleFilterUpdatedRequest E apidata st =
     bind_res (fold_res (filter_updated_item E) apidata ([], st)) (delete_sent E)"

definition provisioned_item ::
    "'db capi \<Rightarrow> ApiData \<Rightarrow> string list \<times> 'db capi_state \<Rightarrow> (string list \<times> 'db capi_state) res" where
  "provisioned_item E data = (\<lambda>(deleteIds, st).
     case ca_provision E \<lparr>pr_DeviceId = ApiId data\<rparr> of
       Inl _ \<Rightarrow> Ok (deleteIds, st)
     | Inr body \<Rightarrow>
         (case log_msg E TelemetryCommandMessage (command_message ProvisionDevice body False) st of
            (None, st) \<Rightarrow> Ok (deleteIds @ [ApiId data], st)
          | (Some _, st) \<Rightarrow>
              (case marshal (ca_json E) (data\<lparr>RetryCount := RetryCount data + 1\<rparr>) of
                 Inl _ \<Rightarrow> Ok (deleteIds, st)
               | Inr byteData \<Rightarrow>
                   (case AddProvisionedStatus (ca_bolt E) (ApiId data) byteData (ca_fs st) of
                      (Panic, _) \<Rightarrow> Panic
                    | (_, fs) \<Rightarrow> Ok (deleteIds, st\<lparr>ca_fs := fs\<rparr>)))))"

definition handledProvisionedRequest :: "'db capi \<Rightarrow> ApiData list \<Rightarrow> 'db capi_state \<Rightarrow> 'db capi_state res" where
  "handledProvisionedRequest E apiData st =
     bind_res (fold_res (provisioned_item E) apiData ([], st)) (delete_sent E)"

section \<open>A pass over the pending requests\<close>

definition GetSegregatedItems :: "ApiData list \<Rightarrow> (Type \<rightharpoonup> ApiData list)" where
  "GetSegregatedItems apiData =
     foldl (\<lambda>m data. m(ApiType data \<mapsto> (case m (ApiType data) of None \<Rightarrow> [] | Some values \<Rightarrow> values) @ [data]))
       Map.empty apiData"

definition process_type ::
    "'db capi \<Rightarrow> (Type \<rightharpoonup> ApiData list) \<Rightarrow> int \<Rightarrow> int \<Rightarrow> Type \<Rightarrow> 'db capi_state \<Rightarrow> 'db capi_state res" where
  "process_type E m downloadSize deleteSize ty st =
     (let items = (case m ty of None \<Rightarrow> [] | Some xs \<Rightarrow> xs) in
      case ty of
        Downloaded \<Rightarrow> sendDownloadRequestInBatches E items downloadSize st
      | Deleted \<Rightarrow> sendDeleteRequestInBatches E items deleteSize st
      | FilterUpdated \<Rightarrow> handleFilterUpdatedRequest E items st
      | Provisioned \<Rightarrow> handledProvisionedRequest E items st
      | OtherType _ \<Rightarrow> Ok st)"

text \<open>\<open>order\<close> is the order in which the Go runtime ranges over the keys of the map.\<close>

definition ProcessRequests ::
    "'db capi \<Rightarrow> Type list \<Rightarrow> (Type \<rightharpoonup> ApiData list) \<Rightarrow> int \<Rightarrow> int \<Rightarrow> 'db capi_state \<Rightarrow> 'db capi_state res" where
  "ProcessRequests E order segregatedMap downloadSize deleteSize st =
     fold_res (process_type E segregatedMap downloadSize deleteSize) order st"

text \<open>One iteration of the endless loop of \<^verbatim>\<open>HandleApiRequests\<close> (lines 111 to 127).\<close>

definition HandleApiRequests_pass ::
    "'db capi \<Rightarrow> Type list \<Rightarrow> int \<Rightarrow> int \<Rightarrow> 'db capi_state \<Rightarrow> 'db capi_state res" where
  "HandleApiRequests_pass E order downloadSize deleteSize st =
     (let result = GetPendingApiRequests (ca_bolt E) (ca_fs st);
          apiData = map (\<lambda>data. fst (unmarshal (ca_json E) data)) result
      in ProcessRequests E order (GetSegregatedItems apiData) downloadSize deleteSize st)"

end
