(* ===== verification/Memory_Hub.thy ===== *)
theory Memory_Hub
  imports Cloud_Api
begin

text \<open>
  A concrete environment: the in-memory store of \<open>Bolt_Store\<close>, an encoder of the stored records
  that has the round trip the hub relies on, and a logger whose network accepts or refuses the
  messages as told. It shows that the contracts assumed of the third-party code can hold
  together, and the witnesses of the properties run on it.
\<close>

section \<open>An encoder of records\<close>

text \<open>A list of fields is written with every byte marked by a plus sign and every field ended by a dot.\<close>

fun enc_field :: "string \<Rightarrow> bytes" where
  "enc_field [] = ''.''"
| "enc_field (c # cs) = CHR ''+'' # c # enc_field cs"

fun enc_fields :: "string list \<Rightarrow> bytes" where
  "enc_fields [] = []"
| "enc_fields (f # fs) = enc_field f @ enc_fields fs"

fun dec_fields :: "string \<Rightarrow> bytes \<Rightarrow> string list" where
  "dec_fields acc [] = []"
| "dec_fields acc [x] = [acc]"
| "dec_fields acc (x # c # cs) =
     (if x = CHR ''.'' then acc # dec_fields [] (c # cs) else dec_fields (acc @ [c]) cs)"

lemma dec_enc_field: "dec_fields acc (enc_field f @ bs) = (acc @ f) # dec_fields [] bs"
proof (induction f arbitrary: acc)
  case Nil
  then show ?case by (cases bs) auto
qed simp

lemma dec_enc_fields: "dec_fields [] (enc_fields fs) = fs"
  by (induction fs) (auto simp: dec_enc_field)

definition enc_int :: "int \<Rightarrow> string" where
  "enc_int i = (if i < 0 then CHR ''-'' # replicate (nat (- i)) CHR ''1'' else replicate (nat i) CHR ''1'')"

definition dec_int :: "string \<Rightarrow> int" where
  "dec_int s = (case s of [] \<Rightarrow> 0 | c # cs \<Rightarrow> if c = CHR ''-'' then - int (length cs) else int (length s))"

lemma dec_enc_int [simp]: "dec_int (enc_int i) = i"
proof (cases "nat i")
  case (Suc n)
  then show ?thesis by (auto simp: enc_int_def dec_int_def)
qed (auto simp: enc_int_def dec_int_def)

definition enc_bool :: "bool \<Rightarrow> string" where
  "enc_bool b = (if b then ''1'' else ''0'')"

lemma enc_bool [simp]: "enc_bool b = ''1'' \<longleftrightarrow> b"
  by (simp add: enc_bool_def)

fun enc_type :: "Type \<Rightarrow> string" where
  "enc_type Downloaded = ''d''"
| "enc_type Deleted = ''l''"
| "enc_type Provisioned = ''p''"
| "enc_type FilterUpdated = ''f''"
| "enc_type (OtherType i) = CHR ''o'' # enc_int i"

definition dec_type :: "string \<Rightarrow> Type" where
  "dec_type s = (if s = ''d'' then Downloaded else if s = ''l'' then Deleted else if s = ''p'' then Provisioned
     else if s = ''f'' then FilterUpdated else OtherType (dec_int (tl s)))"

lemma dec_enc_type [simp]: "dec_type (enc_type t) = t"
  by (cases t) (simp_all add: dec_type_def)

fun enc_props :: "Property list \<Rightarrow> string list" where
  "enc_props [] = []"
| "enc_props (p # ps) = Key p # Value p # enc_props ps"

fun dec_props :: "string list \<Rightarrow> Property list" where
  "dec_props (k # v # fs) = \<lparr>Key = k, Value = v\<rparr> # dec_props fs"
| "dec_props _ = []"

lemma dec_enc_props [simp]: "dec_props (enc_props ps) = ps"
  by (induction ps) auto

definition zero_ApiData :: ApiData where
  "zero_ApiData = \<lparr>ApiId = [], ApiType = Downloaded, RetryCount = 0, OperationTime = 0,
     SendCloudTelemetry = False, SendIOTCentralTelemetry = False, Properties = []\<rparr>"

definition api_codec :: "ApiData codec" where
  "api_codec = \<lparr>marshal = \<lambda>d. Inr (enc_fields (ApiId d # enc_type (ApiType d) #
       enc_int (uint (RetryCount d)) # enc_int (OperationTime d) # enc_bool (SendCloudTelemetry d) #
       enc_bool (SendIOTCentralTelemetry d) # enc_props (Properties d))),
     unmarshal = \<lambda>b. (case dec_fields [] b of
       i # ty # r # t # c # g # ps \<Rightarrow>
         (\<lparr>ApiId = i, ApiType = dec_type ty, RetryCount = word_of_int (dec_int r), OperationTime = dec_int t,
           SendCloudTelemetry = (c = ''1''), SendIOTCentralTelemetry = (g = ''1''), Properties = dec_props ps\<rparr>, None)
     | _ \<Rightarrow> (zero_ApiData, Some ''unexpected end of JSON input''))\<rparr>"

interpretation mem_api: json_spec api_codec "\<lambda>_. True"
  by unfold_locales (simp add: api_codec_def dec_enc_fields del: enc_fields.simps)

definition info_codec :: "ContentInfoOnDevice codec" where
  "info_codec = \<lparr>marshal = \<lambda>i. Inr (enc_fields [enc_int (DownloadTime i), FolderPath i, CommandId i]),
     unmarshal = \<lambda>b. (case dec_fields [] b of
       [t, p, c] \<Rightarrow> (\<lparr>DownloadTime = dec_int t, FolderPath = p, CommandId = c\<rparr>, None)
     | _ \<Rightarrow> (\<lparr>DownloadTime = 0, FolderPath = [], CommandId = []\<rparr>, Some ''unexpected end of JSON input''))\<rparr>"

interpretation mem_info: json_spec info_codec "\<lambda>_. True"
  by unfold_locales (simp add: info_codec_def dec_enc_fields del: enc_fields.simps)

section \<open>A hub\<close>

text \<open>\<open>net n\<close> is what the network answers to the \<open>n\<close>-th call of the logger.\<close>

definition mem_log_env :: "(nat \<Rightarrow> error option) \<Rightarrow> log_env" where
  "mem_log_env net = \<lparr>le_now = int, le_uuid = \<lambda>_. ''u'', le_marshal = \<lambda>m. Inr ''m'',
     le_send = \<lambda>n _ _. net n, le_marshal_old = \<lambda>_ _. Inr ''o'', le_show_int = enc_int\<rparr>"

definition mem_logger :: Logger where
  "mem_logger = \<lparr>deviceId = ''dev'', applicationName = ''app'', applicationVersion = ''1'', bufferSize = 16\<rparr>"

definition mem_capi :: "(nat \<Rightarrow> error option) \<Rightarrow> mem_db capi" where
  "mem_capi net = \<lparr>ca_bolt = mem_bolt, ca_json = api_codec, ca_info = info_codec,
     ca_update = \<lambda>r. Inr (concat (map ContentId (Contents r))),
     ca_props = \<lambda>ps. Inr (concat (map cp_ContentId ps)), ca_command = \<lambda>r. Inr (cs_CommandId r),
     ca_provision = \<lambda>r. Inr (pr_DeviceId r), ca_parseFloat = \<lambda>_. 0, ca_logger = mem_logger,
     ca_log = mem_log_env net, ca_deviceId = ''dev''\<rparr>"

definition zero_log :: log_state where
  "zero_log = \<lparr>log_calls = [], upstream = [], log_file = [], log_buffer = [], old_calls = 0\<rparr>"

text \<open>A file system object over a store with the given three buckets.\<close>

definition mem_fs ::
    "(string \<times> bytes) list \<Rightarrow> (string \<times> bytes) list \<Rightarrow> (string \<times> bytes) list \<Rightarrow> mem_db FileSystem" where
  "mem_fs as ss ps = \<lparr>nodeLength = 36, homeNode = ''h'', homeDirLocation = ''/d'',
     nodesDB = [AssetPathMapping \<mapsto> as, SatelliteIdtoAssetIdMapping \<mapsto> ss, PendingAPIRequestMapping \<mapsto> ps]\<rparr>"

definition mem_state :: "mem_db FileSystem \<Rightarrow> mem_db capi_state" where
  "mem_state fs = \<lparr>ca_fs = fs, ca_logst = zero_log\<rparr>"

lemma mem_capi_simps [simp]:
  "ca_bolt (mem_capi net) = mem_bolt" "ca_json (mem_capi net) = api_codec"
  "ca_info (mem_capi net) = info_codec" "ca_log (mem_capi net) = mem_log_env net"
  "ca_logger (mem_capi net) = mem_logger" "ca_deviceId (mem_capi net) = ''dev''"
  "ca_update (mem_capi net) r = Inr (concat (map ContentId (Contents r)))"
  "ca_props (mem_capi net) ps = Inr (concat (map cp_ContentId ps))"
  "ca_command (mem_capi net) c = Inr (cs_CommandId c)"
  "ca_provision (mem_capi net) p = Inr (pr_DeviceId p)"
  by (simp_all add: mem_capi_def)

lemma mem_fs_simps [simp]:
  "bolt_get mem_bolt (nodesDB (mem_fs as ss ps)) AssetPathMapping = map_of as"
  "bolt_get mem_bolt (nodesDB (mem_fs as ss ps)) SatelliteIdtoAssetIdMapping = map_of ss"
  "bolt_get mem_bolt (nodesDB (mem_fs as ss ps)) PendingAPIRequestMapping = map_of ps"
  "has_buckets mem_bolt (mem_fs as ss ps)" "pending_ready mem_bolt (mem_fs as ss ps)"
  by (auto simp: mem_fs_def mem_defs has_buckets_def pending_ready_def)

lemma mem_state_simps [simp]: "ca_fs (mem_state fs) = fs" "ca_logst (mem_state fs) = zero_log"
  by (simp_all add: mem_state_def)

lemmas mem_hub_defs = mem_capi_def mem_log_env_def mem_logger_def mem_fs_def mem_state_def zero_log_def

end
