(* ===== verification/Cloud_Batches.thy ===== *)
theory Cloud_Batches
  imports Memory_Hub
begin

text \<open>
  The batching loops of the cloud API handler. The locale \<open>batch_channels\<close> is the contract the
  loop needs of the two telemetry channels it sends on (cloud commands and IoT Central graphs);
  it is interpreted on the download and on the delete channels. The loop invariants \<open>batch_inv\<close>
  (safety) and \<open>batch_done\<close> (progress) are proved once in the locale.
\<close>

section \<open>One batch\<close>

definition flag_of :: "string \<Rightarrow> ApiData \<Rightarrow> bool" where
  "flag_of flag d = (if flag = SendCloudTelemetryFlag then SendCloudTelemetry d else SendIOTCentralTelemetry d)"

definition clear_flag :: "string \<Rightarrow> ApiData \<Rightarrow> ApiData" where
  "clear_flag flag d = (if flag = SendCloudTelemetryFlag then d\<lparr>SendCloudTelemetry := False\<rparr>
     else d\<lparr>SendIOTCentralTelemetry := False\<rparr>)"

definition retried :: "ApiData \<Rightarrow> ApiData" where
  "retried d = d\<lparr>RetryCount := RetryCount d + 1\<rparr>"

definition nothing_due :: "ApiData \<Rightarrow> bool" where
  "nothing_due d \<longleftrightarrow> \<not> SendCloudTelemetry d \<and> \<not> SendIOTCentralTelemetry d"

text \<open>\<open>variant d0 d\<close>: \<open>d\<close> is \<open>d0\<close> up to the fields the handler writes.\<close>

definition variant :: "ApiData \<Rightarrow> ApiData \<Rightarrow> bool" where
  "variant d0 d \<longleftrightarrow> ApiId d = ApiId d0 \<and> ApiType d = ApiType d0 \<and>
     OperationTime d = OperationTime d0 \<and> Properties d = Properties d0"

lemma variant_refl [simp]: "variant d d"
  by (simp add: variant_def)

lemma variant_clear_flag [simp]: "variant d0 (clear_flag flag d) = variant d0 d"
  by (simp add: variant_def clear_flag_def)

lemma variant_retried [simp]: "variant d0 (retried d) = variant d0 d"
  by (simp add: variant_def retried_def)

lemma ApiId_flag [simp]: "ApiId (clear_flag flag d) = ApiId d" "ApiId (retried d) = ApiId d"
  by (simp_all add: clear_flag_def retried_def)

lemma flags_retried [simp]:
  "SendCloudTelemetry (retried d) = SendCloudTelemetry d"
  "SendIOTCentralTelemetry (retried d) = SendIOTCentralTelemetry d"
  "nothing_due (retried d) = nothing_due d"
  by (simp_all add: retried_def nothing_due_def)

abbreviation is_flag :: "string \<Rightarrow> bool" where
  "is_flag flag \<equiv> flag = SendCloudTelemetryFlag \<or> flag = SendIOTCentralTelemetryFlag"

text \<open>\<open>pointers is xs\<close>: the slice points to different elements of \<open>xs\<close>.\<close>

definition pointers :: "nat list \<Rightarrow> 'a list \<Rightarrow> bool" where
  "pointers is xs \<longleftrightarrow> distinct is \<and> (\<forall>j \<in> set is. j < length xs)"

lemma setTelemetryFlag_nth:
  assumes "is_flag flag" "pointers is store" "j < length store"
  shows "setTelemetryFlag flag False is store ! j =
    (if j \<in> set is then clear_flag flag (store ! j) else store ! j)"
  using assms by (auto simp: setTelemetryFlag_def clear_flag_def pointers_def update_at_nth)

lemma length_setTelemetryFlag [simp]: "length (setTelemetryFlag flag v is store) = length store"
  by (simp add: setTelemetryFlag_def)

lemma IncrementRetryCount_nth:
  "pointers is store \<Longrightarrow> j < length store \<Longrightarrow>
   IncrementRetryCount is store ! j = (if j \<in> set is then retried (store ! j) else store ! j)"
  by (simp add: IncrementRetryCount_def retried_def pointers_def update_at_nth)

lemma length_IncrementRetryCount [simp]: "length (IncrementRetryCount is store) = length store"
  by (simp add: IncrementRetryCount_def)

lemma GetIds_increment:
  "pointers is store \<Longrightarrow> GetIds is (IncrementRetryCount is store) = map (\<lambda>i. ApiId (store ! i)) is"
  by (auto simp: GetIds_def IncrementRetryCount_nth pointers_def)

lemma removed_ids:
  "set (GetApiDataToBeRemovedFromPendingAPI is store) = {ApiId (store ! j) | j. j \<in> set is \<and> nothing_due (store ! j)}"
  by (auto simp: GetApiDataToBeRemovedFromPendingAPI_def nothing_due_def)

lemma marshal_all_map:
  "\<forall>x \<in> set xs. marshal J (f x) = Inr (enc x) \<Longrightarrow> marshal_all J (map f xs) = map enc xs"
  by (induction xs) auto

context bolt_spec
begin

lemma put_logged_present:
  "put_logged B b k v db = Ok db' \<Longrightarrow> bolt_get B db b' k' \<noteq> None \<Longrightarrow> bolt_get B db' b' k' \<noteq> None"
  using bucket_put_Ok(1) [of b k v db db' b' k']
  by (auto simp: put_logged_def split: res.splits if_splits)

lemma put_contents_present:
  "put_contents B ids data db = Ok db' \<Longrightarrow> bolt_get B db b k \<noteq> None \<Longrightarrow> bolt_get B db' b k \<noteq> None"
proof (induction ids arbitrary: data db)
  case (Cons i ids)
  then obtain d data' db1 where "data = d # data'"
      and db1: "put_logged B PendingAPIRequestMapping i d db = Ok db1"
      and rest: "put_contents B ids data' db1 = Ok db'" by (cases data) auto
  from Cons.IH [OF rest] put_logged_present [OF db1] Cons.prems(2) show ?case by blast
qed simp

lemma AddContents_effect:
  assumes "AddContents B ids data fs = (r, fs')"
  shows "bolt_bucket B (nodesDB fs') b = bolt_bucket B (nodesDB fs) b"
    and "b \<noteq> PendingAPIRequestMapping \<or> k \<notin> set ids \<Longrightarrow>
      bolt_get B (nodesDB fs') b k = bolt_get B (nodesDB fs) b k"
    and "bolt_get B (nodesDB fs) b k \<noteq> None \<Longrightarrow> bolt_get B (nodesDB fs') b k \<noteq> None"
proof -
  have step: "put_contents B ids data (nodesDB fs) = Ok (nodesDB fs') \<or> fs' = fs"
    using assms unfolding AddContents_def by (cases rule: fs_update_cases) simp_all
  show "bolt_bucket B (nodesDB fs') b = bolt_bucket B (nodesDB fs) b"
    using step put_contents_Ok(1) [of ids data "nodesDB fs" "nodesDB fs'" b] by auto
  show "bolt_get B (nodesDB fs') b k = bolt_get B (nodesDB fs) b k"
    if "b \<noteq> PendingAPIRequestMapping \<or> k \<notin> set ids"
    using step put_contents_Ok(2) [of ids data "nodesDB fs" "nodesDB fs'" b k] that by auto
  show "bolt_get B (nodesDB fs') b k \<noteq> None" if "bolt_get B (nodesDB fs) b k \<noteq> None"
    using step put_contents_present [of ids data "nodesDB fs" "nodesDB fs'" b k] that by auto
qed

lemma DeletePending_effect:
  assumes "DeletePendingAPIRequestEntries B ks fs = (r, fs')"
  shows "bolt_bucket B (nodesDB fs') b = bolt_bucket B (nodesDB fs) b"
    and "b \<noteq> PendingAPIRequestMapping \<or> k \<notin> set ks \<Longrightarrow>
      bolt_get B (nodesDB fs') b k = bolt_get B (nodesDB fs) b k"
proof -
  have step: "fold_res (bucket_delete B PendingAPIRequestMapping) ks (nodesDB fs) = Ok (nodesDB fs') \<or>
      fs' = fs"
    using assms unfolding DeletePendingAPIRequestEntries_def by (cases rule: fs_update_cases) simp_all
  show "bolt_bucket B (nodesDB fs') b = bolt_bucket B (nodesDB fs) b"
    using step fold_delete_Ok(2) [of PendingAPIRequestMapping ks "nodesDB fs" "nodesDB fs'" b] by auto
  show "bolt_get B (nodesDB fs') b k = bolt_get B (nodesDB fs) b k"
    if "b \<noteq> PendingAPIRequestMapping \<or> k \<notin> set ks"
    using step fold_delete_Ok(1) [of PendingAPIRequestMapping ks "nodesDB fs" "nodesDB fs'" b k] that by auto
qed

end

locale cloud_env = bolt_spec "ca_bolt E" for E :: "'db capi"
begin

lemma requeue_cases:
  assumes "AddApiDataBackToPendingAPIBucketOrDelete E err is flag store st = Ok (store', st')"
  obtains (sent) r fs where "err = None" "store' = setTelemetryFlag flag False is store"
      "DeletePendingAPIRequestEntries (ca_bolt E)
         (GetApiDataToBeRemovedFromPendingAPI is store') (ca_fs st) = (r, fs)"
      "r \<noteq> Panic" "st' = st\<lparr>ca_fs := fs\<rparr>"
  | (failed) e r fs where "err = Some e" "store' = IncrementRetryCount is store"
      "AddContents (ca_bolt E) (GetIds is store') (GetDataArray (ca_json E) is store') (ca_fs st) = (r, fs)"
      "r \<noteq> Panic" "st' = st\<lparr>ca_fs := fs\<rparr>"
  using assms that
  by (auto simp: AddApiDataBackToPendingAPIBucketOrDelete_def Let_def
      split: option.splits prod.splits res.splits)

lemma requeue_store:
  assumes "AddApiDataBackToPendingAPIBucketOrDelete E err is flag store st = Ok (store', st')"
    and "is_flag flag" "pointers is store"
  shows "length store' = length store"
    and "j < length store \<Longrightarrow> store' ! j =
      (if j \<in> set is then (if err = None then clear_flag flag else retried) (store ! j) else store ! j)"
    and "ca_logst st' = ca_logst st"
  using assms by (auto elim!: requeue_cases simp: setTelemetryFlag_nth IncrementRetryCount_nth)

lemma requeue_fs:
  assumes "AddApiDataBackToPendingAPIBucketOrDelete E err is flag store st = Ok (store', st')"
    and "is_flag flag" and ptr: "pointers is store"
  shows "bolt_bucket (ca_bolt E) (nodesDB (ca_fs st')) b = bolt_bucket (ca_bolt E) (nodesDB (ca_fs st)) b"
    and "b \<noteq> PendingAPIRequestMapping \<or> k \<notin> (\<lambda>j. ApiId (store ! j)) ` set is \<Longrightarrow>
      bolt_get (ca_bolt E) (nodesDB (ca_fs st')) b k = bolt_get (ca_bolt E) (nodesDB (ca_fs st)) b k"
    and "pending (ca_bolt E) (ca_fs st) k \<noteq> None \<Longrightarrow> pending (ca_bolt E) (ca_fs st') k = None \<Longrightarrow>
      \<exists>j \<in> set is. k = ApiId (store ! j) \<and> nothing_due (store' ! j)"
proof -
  have ids: "ApiId (store' ! j) = ApiId (store ! j)" if "j \<in> set is" for j
    using requeue_store(2) [OF assms, of j] that ptr by (simp add: pointers_def)
  have "bolt_bucket (ca_bolt E) (nodesDB (ca_fs st')) b = bolt_bucket (ca_bolt E) (nodesDB (ca_fs st)) b \<and>
    (b \<noteq> PendingAPIRequestMapping \<or> k \<notin> (\<lambda>j. ApiId (store ! j)) ` set is \<longrightarrow>
      bolt_get (ca_bolt E) (nodesDB (ca_fs st')) b k = bolt_get (ca_bolt E) (nodesDB (ca_fs st)) b k) \<and>
    (pending (ca_bolt E) (ca_fs st) k \<noteq> None \<longrightarrow> pending (ca_bolt E) (ca_fs st') k = None \<longrightarrow>
      (\<exists>j \<in> set is. k = ApiId (store ! j) \<and> nothing_due (store' ! j)))"
    using assms(1)
  proof (cases rule: requeue_cases)
    case (sent r fs)
    note eff = DeletePending_effect [OF sent(3)]
    have "k \<in> set (GetApiDataToBeRemovedFromPendingAPI is store') \<Longrightarrow>
        \<exists>j \<in> set is. k = ApiId (store ! j) \<and> nothing_due (store' ! j)"
      using ids by (auto simp: removed_ids)
    with eff(1) [of b] eff(2) [of b k] eff(2) [of PendingAPIRequestMapping k] sent(5) show ?thesis
      by (cases "k \<in> set (GetApiDataToBeRemovedFromPendingAPI is store')") auto
  next
    case (failed e r fs)
    note eff = AddContents_effect [OF failed(3)]
    have "set (GetIds is store') = (\<lambda>j. ApiId (store ! j)) ` set is"
      using failed(2) ptr by (simp add: GetIds_increment)
    with eff(1) [of b] eff(2) [of b k] eff(3) [of PendingAPIRequestMapping k] failed(5) show ?thesis
      by auto
  qed
  then show "bolt_bucket (ca_bolt E) (nodesDB (ca_fs st')) b = bolt_bucket (ca_bolt E) (nodesDB (ca_fs st)) b"
    and "b \<noteq> PendingAPIRequestMapping \<or> k \<notin> (\<lambda>j. ApiId (store ! j)) ` set is \<Longrightarrow>
      bolt_get (ca_bolt E) (nodesDB (ca_fs st')) b k = bolt_get (ca_bolt E) (nodesDB (ca_fs st)) b k"
    and "pending (ca_bolt E) (ca_fs st) k \<noteq> None \<Longrightarrow> pending (ca_bolt E) (ca_fs st') k = None \<Longrightarrow>
      \<exists>j \<in> set is. k = ApiId (store ! j) \<and> nothing_due (store' ! j)"
    by blast+
qed

end

section \<open>The contract of the two channels\<close>

text \<open>
  \<open>msgs cs\<close> are the messages a send of the contents \<open>cs\<close> gives to the logger (none when they cannot
  be encoded); the log of a channel records them with their outcome. \<open>told msgs lg c\<close>: the log
  has an accepted message for a batch that contains \<open>c\<close>.
\<close>

definition told :: "('c list \<Rightarrow> 'm list) \<Rightarrow> ('m \<times> bool) list \<Rightarrow> 'c \<Rightarrow> bool" where
  "told msgs lg c \<longleftrightarrow> (\<exists>cs m. c \<in> set cs \<and> m \<in> set (msgs cs) \<and> (m, True) \<in> set lg)"

lemma told_append: "told msgs lg c \<Longrightarrow> told msgs (lg @ lg') c"
  by (auto simp: told_def)

lemma told_sent: "msgs cs \<noteq> [] \<Longrightarrow> c \<in> set cs \<Longrightarrow> told msgs (lg @ map (\<lambda>m. (m, True)) (msgs cs)) c"
  by (cases "msgs cs") (auto simp: told_def intro!: exI [of _ cs])

text \<open>
  The parts of the loop invariant: \<open>a0\<close> is the slice at the start, \<open>i\<close> the number of requests seen.
\<close>

definition store_inv :: "ApiData list \<Rightarrow> nat \<Rightarrow> ApiData list \<Rightarrow> bool" where
  "store_inv a0 i store \<longleftrightarrow> length store = length a0 \<and>
     (\<forall>j < length a0. variant (a0 ! j) (store ! j) \<and>
        (SendCloudTelemetry (store ! j) \<longrightarrow> SendCloudTelemetry (a0 ! j)) \<and>
        (SendIOTCentralTelemetry (store ! j) \<longrightarrow> SendIOTCentralTelemetry (a0 ! j))) \<and>
     (\<forall>j. i \<le> j \<longrightarrow> j < length a0 \<longrightarrow> store ! j = a0 ! j)"

definition slice_inv :: "ApiData list \<Rightarrow> (ApiData \<Rightarrow> bool) \<Rightarrow> (ApiData \<Rightarrow> 'c) \<Rightarrow> nat \<Rightarrow> nat list \<Rightarrow> 'c list \<Rightarrow> bool" where
  "slice_inv a0 due content i ptrs batch \<longleftrightarrow> pointers ptrs (take i a0) \<and>
     (\<forall>j \<in> set ptrs. due (a0 ! j)) \<and> batch = map (\<lambda>j. content (a0 ! j)) ptrs"

definition log_inv ::
    "ApiData list \<Rightarrow> (ApiData \<Rightarrow> bool) \<Rightarrow> (ApiData \<Rightarrow> 'c) \<Rightarrow> ('c list \<Rightarrow> 'm list) \<Rightarrow> ('m \<times> bool) list \<Rightarrow>
     ApiData list \<Rightarrow> ('m \<times> bool) list \<Rightarrow> bool" where
  "log_inv a0 due content msgs lg0 store lg \<longleftrightarrow> (\<exists>new. lg = lg0 @ new \<and>
     (\<forall>j < length a0. due (a0 ! j) \<longrightarrow> \<not> due (store ! j) \<longrightarrow> told msgs new (content (a0 ! j))))"

definition queue_inv :: "'db bolt \<Rightarrow> ApiData list \<Rightarrow> 'db FileSystem \<Rightarrow> ApiData list \<Rightarrow> 'db FileSystem \<Rightarrow> bool" where
  "queue_inv B a0 fs0 store fs \<longleftrightarrow>
     (\<forall>b. bolt_bucket B (nodesDB fs) b = bolt_bucket B (nodesDB fs0) b) \<and>
     (\<forall>b k. b \<noteq> PendingAPIRequestMapping \<or> k \<notin> ApiId ` {d \<in> set a0. \<not> nothing_due d} \<longrightarrow>
        bolt_get B (nodesDB fs) b k = bolt_get B (nodesDB fs0) b k) \<and>
     (\<forall>j < length a0. pending B fs0 (ApiId (a0 ! j)) \<noteq> None \<longrightarrow> pending B fs (ApiId (a0 ! j)) = None \<longrightarrow>
        nothing_due (store ! j))"

lemma slice_inv_Nil [simp]: "slice_inv a0 due content i [] []"
  by (simp add: slice_inv_def pointers_def)

lemma slice_inv_batch:
  "slice_inv a0 due content i ptrs batch \<Longrightarrow> set batch \<subseteq> content ` set a0"
  by (fastforce simp: slice_inv_def pointers_def)

lemma slice_inv_pointers: "slice_inv a0 due content i ptrs batch \<Longrightarrow> store_inv a0 i store \<Longrightarrow> pointers ptrs store"
  by (auto simp: slice_inv_def store_inv_def pointers_def)

lemma slice_inv_Suc:
  "slice_inv a0 due content i ptrs batch \<Longrightarrow> i < length a0 \<Longrightarrow>
   slice_inv a0 due content (Suc i) ptrs batch"
  by (auto simp: slice_inv_def pointers_def)

lemma slice_inv_snoc:
  "slice_inv a0 due content i ptrs batch \<Longrightarrow> i < length a0 \<Longrightarrow> due (a0 ! i) \<Longrightarrow>
   slice_inv a0 due content (Suc i) (ptrs @ [i]) (batch @ [content (a0 ! i)])"
  by (auto simp: slice_inv_def pointers_def)

lemma store_inv_Suc: "store_inv a0 i store \<Longrightarrow> store_inv a0 (Suc i) store"
  by (simp add: store_inv_def)

lemma store_inv_ApiId: "store_inv a0 i store \<Longrightarrow> j < length a0 \<Longrightarrow> ApiId (store ! j) = ApiId (a0 ! j)"
  by (simp add: store_inv_def variant_def)

lemma flag_of_simps [simp]:
  "flag_of SendCloudTelemetryFlag d = SendCloudTelemetry d"
  "flag_of SendIOTCentralTelemetryFlag d = SendIOTCentralTelemetry d"
  by (simp_all add: flag_of_def)

lemma flag_of_due: "flag_of flag d \<Longrightarrow> \<not> nothing_due d"
  by (simp add: flag_of_def nothing_due_def split: if_splits)

lemma flag_of_retried [simp]: "flag_of flag (retried d) = flag_of flag d"
  by (simp add: flag_of_def)

lemma clear_flag_simps [simp]:
  "SendCloudTelemetry (clear_flag flag d) = (SendCloudTelemetry d \<and> flag \<noteq> SendCloudTelemetryFlag)"
  "SendIOTCentralTelemetry (clear_flag flag d) =
    (SendIOTCentralTelemetry d \<and> flag = SendCloudTelemetryFlag)"
  by (auto simp: clear_flag_def)

lemma nothing_due_clear [simp]: "nothing_due d \<Longrightarrow> nothing_due (clear_flag flag d)"
  by (simp add: nothing_due_def)

context cloud_env
begin

lemma requeue_store_inv:
  assumes req: "AddApiDataBackToPendingAPIBucketOrDelete E err ptrs flag store st = Ok (store', st')"
    and flag: "is_flag flag" and store: "store_inv a0 i store"
    and slice: "slice_inv a0 (flag_of flag) content i ptrs batch"
  shows "store_inv a0 i store'"
proof -
  note ptr = slice_inv_pointers [OF slice store]
  note eff = requeue_store [OF req flag ptr]
  have len: "length store' = length a0" using eff(1) store by (simp add: store_inv_def)
  have idx: "j \<notin> set ptrs" if "i \<le> j" for j
    using slice that by (auto simp: slice_inv_def pointers_def)
  show ?thesis unfolding store_inv_def
  proof (intro conjI allI impI)
    fix j assume j: "j < length a0"
    then have "j < length store" using store by (simp add: store_inv_def)
    with eff(2) [OF this] store j show "variant (a0 ! j) (store' ! j)"
      "SendCloudTelemetry (store' ! j) \<Longrightarrow> SendCloudTelemetry (a0 ! j)"
      "SendIOTCentralTelemetry (store' ! j) \<Longrightarrow> SendIOTCentralTelemetry (a0 ! j)"
      by (auto simp: store_inv_def split: if_splits)
    show "store' ! j = a0 ! j" if "i \<le> j"
      using eff(2) [OF \<open>j < length store\<close>] idx [OF that] store that j by (simp add: store_inv_def)
  qed (rule len)
qed

lemma requeue_queue_inv:
  assumes req: "AddApiDataBackToPendingAPIBucketOrDelete E err ptrs flag store st = Ok (store', st')"
    and flag: "is_flag flag" and store: "store_inv a0 i store"
    and slice: "slice_inv a0 (flag_of flag) content i ptrs batch"
    and dist: "distinct (map ApiId a0)" and queue: "queue_inv (ca_bolt E) a0 fs0 store (ca_fs st)"
  shows "queue_inv (ca_bolt E) a0 fs0 store' (ca_fs st')"
proof -
  note ptr = slice_inv_pointers [OF slice store]
  note eff = requeue_store [OF req flag ptr] and fs = requeue_fs [OF req flag ptr]
  have len: "length store = length a0" using store by (simp add: store_inv_def)
  have ptrs: "j < length a0" "ApiId (store ! j) = ApiId (a0 ! j)" "\<not> nothing_due (a0 ! j)" if "j \<in> set ptrs" for j
    using that ptr slice store_inv_ApiId [OF store, of j] len flag_of_due [of flag "a0 ! j"]
    by (auto simp: pointers_def slice_inv_def)
  show ?thesis unfolding queue_inv_def
  proof (intro conjI allI impI)
    fix b show "bolt_bucket (ca_bolt E) (nodesDB (ca_fs st')) b = bolt_bucket (ca_bolt E) (nodesDB fs0) b"
      using fs(1) queue by (simp add: queue_inv_def)
  next
    fix b k assume k: "b \<noteq> PendingAPIRequestMapping \<or> k \<notin> ApiId ` {d \<in> set a0. \<not> nothing_due d}"
    have "k \<in> (\<lambda>j. ApiId (store ! j)) ` set ptrs \<Longrightarrow> k \<in> ApiId ` {d \<in> set a0. \<not> nothing_due d}"
      using ptrs by auto
    with k have "b \<noteq> PendingAPIRequestMapping \<or> k \<notin> (\<lambda>j. ApiId (store ! j)) ` set ptrs" by blast
    from fs(2) [OF this] k queue
    show "bolt_get (ca_bolt E) (nodesDB (ca_fs st')) b k = bolt_get (ca_bolt E) (nodesDB fs0) b k"
      by (simp add: queue_inv_def)
  next
    fix j assume j: "j < length a0" and present: "pending (ca_bolt E) fs0 (ApiId (a0 ! j)) \<noteq> None"
      and gone: "pending (ca_bolt E) (ca_fs st') (ApiId (a0 ! j)) = None"
    show "nothing_due (store' ! j)"
    proof (cases "pending (ca_bolt E) (ca_fs st) (ApiId (a0 ! j)) = None")
      case True
      with queue j present have "nothing_due (store ! j)" by (simp add: queue_inv_def)
      with eff(2) [of j] j len show ?thesis by simp
    next
      case False
      from fs(3) [OF False gone] obtain j' where j': "j' \<in> set ptrs" "nothing_due (store' ! j')"
        "ApiId (a0 ! j) = ApiId (store ! j')" by blast
      then have "ApiId (a0 ! j) = ApiId (a0 ! j')" "j' < length a0" using ptrs by auto
      then have "j = j'" using dist j by (metis length_map nth_eq_iff_index_eq nth_map)
      with j' show ?thesis by simp
    qed
  qed
qed

lemma requeue_log_inv:
  assumes req: "AddApiDataBackToPendingAPIBucketOrDelete E err ptrs flag store st = Ok (store', st')"
    and flag: "is_flag flag" and store: "store_inv a0 i store"
    and slice: "slice_inv a0 (flag_of flag) content i ptrs batch"
    and log: "log_inv a0 (flag_of flag) content msgs lg0 store lg"
    and sent: "err = None \<Longrightarrow> msgs batch \<noteq> []"
  shows "log_inv a0 (flag_of flag) content msgs lg0 store' (lg @ map (\<lambda>m. (m, err = None)) (msgs batch))"
proof -
  note ptr = slice_inv_pointers [OF slice store]
  note eff = requeue_store(2) [OF req flag ptr]
  have len: "length store = length a0" using store by (simp add: store_inv_def)
  obtain new where new: "lg = lg0 @ new" and ev: "\<And>j. j < length a0 \<Longrightarrow> flag_of flag (a0 ! j) \<Longrightarrow>
      \<not> flag_of flag (store ! j) \<Longrightarrow> told msgs new (content (a0 ! j))"
    using log by (auto simp: log_inv_def)
  have "told msgs (new @ map (\<lambda>m. (m, err = None)) (msgs batch)) (content (a0 ! j))"
    if j: "j < length a0" "flag_of flag (a0 ! j)" "\<not> flag_of flag (store' ! j)" for j
  proof (cases "j \<in> set ptrs \<and> err = None")
    case True
    with slice have "content (a0 ! j) \<in> set batch" by (auto simp: slice_inv_def)
    with sent True show ?thesis by (simp add: told_sent)
  next
    case False
    with eff [of j] j len have "\<not> flag_of flag (store ! j)" by (auto split: if_splits)
    from told_append [OF ev [OF j(1,2) this]] show ?thesis .
  qed
  then show ?thesis unfolding log_inv_def new by auto
qed

lemma requeue_other_log_inv:
  assumes req: "AddApiDataBackToPendingAPIBucketOrDelete E err ptrs flag store st = Ok (store', st')"
    and flag: "is_flag flag" "is_flag other" "other \<noteq> flag" and store: "store_inv a0 i store"
    and slice: "slice_inv a0 (flag_of flag) content i ptrs batch"
    and log: "log_inv a0 (flag_of other) content' msgs lg0 store lg"
  shows "log_inv a0 (flag_of other) content' msgs lg0 store' lg"
proof -
  have "flag_of other (store' ! j) = flag_of other (store ! j)" if "j < length a0" for j
    using requeue_store(2) [OF req flag(1) slice_inv_pointers [OF slice store], of j] that store flag
    by (auto simp: store_inv_def)
  with log show ?thesis by (auto simp: log_inv_def)
qed

end

text \<open>Returning at all, and what is left in the bucket when nothing fails.\<close>

definition encodable :: "ApiData codec \<Rightarrow> ApiData list \<Rightarrow> bool" where
  "encodable J a0 \<longleftrightarrow> (\<forall>d0 \<in> set a0. \<forall>d. variant d0 d \<longrightarrow> (\<exists>b. marshal J d = Inr b))"

lemma length_marshal_all:
  "\<forall>d \<in> set ds. \<exists>b. marshal J d = Inr b \<Longrightarrow> length (marshal_all J ds) = length ds"
  by (induction ds) auto

context cloud_env
begin

lemma requeue_total:
  assumes ready: "pending_ready (ca_bolt E) (ca_fs st)" and enc: "encodable (ca_json E) a0"
    and store: "store_inv a0 i store" and slice: "slice_inv a0 due content i ptrs batch"
  shows "\<exists>r. AddApiDataBackToPendingAPIBucketOrDelete E err ptrs flag store st = Ok r"
proof (cases err)
  case None
  then show ?thesis
    using command_queue.remove_no_panic [OF ready,
        of "GetApiDataToBeRemovedFromPendingAPI ptrs (setTelemetryFlag flag False ptrs store)"]
    by (auto simp: AddApiDataBackToPendingAPIBucketOrDelete_def Let_def split: prod.splits res.splits)
next
  case (Some e)
  note ptr = slice_inv_pointers [OF slice store]
  let ?store = "IncrementRetryCount ptrs store"
  have "variant (a0 ! j) (?store ! j)" "j < length a0" if "j \<in> set ptrs" for j
    using that ptr store IncrementRetryCount_nth [OF ptr, of j]
    by (auto simp: pointers_def store_inv_def)
  then have "\<exists>b. marshal (ca_json E) (?store ! j) = Inr b" if "j \<in> set ptrs" for j
    using enc that nth_mem unfolding encodable_def by blast
  then have "\<forall>d \<in> set (map ((!) ?store) ptrs). \<exists>b. marshal (ca_json E) d = Inr b" by simp
  then have "length (GetIds ptrs ?store) \<le> length (GetDataArray (ca_json E) ptrs ?store)"
    unfolding GetIds_def GetDataArray_def by (simp add: length_marshal_all)
  from AddContents_no_panic [OF ready this] Some show ?thesis
    by (auto simp: AddApiDataBackToPendingAPIBucketOrDelete_def Let_def split: prod.splits res.splits)
qed

lemma delete_commits:
  assumes "commits (ca_bolt E)" and del: "DeletePendingAPIRequestEntries (ca_bolt E) ks fs = (r, fs')"
    and "r \<noteq> Panic"
  shows "r = Ok ()"
proof -
  let ?f = "fold_res (bucket_delete (ca_bolt E) PendingAPIRequestMapping) ks"
  have "?f (nodesDB fs) \<noteq> Panic"
    using del \<open>r \<noteq> Panic\<close> fs_update_Panic [of "\<lambda>db. wrap_err ''[PendingAPIRequestMapping][DeleteRequest] '' (?f db)" fs]
    by (simp add: DeletePendingAPIRequestEntries_def)
  then have "\<exists>db'. ?f (nodesDB fs) = Ok db'"
    using fold_delete_succeeds [of "nodesDB fs" PendingAPIRequestMapping ks]
    by (cases ks) (auto simp: bucket_delete_def split: if_splits)
  with assms(1) del show ?thesis
    by (auto simp: DeletePendingAPIRequestEntries_def fs_update_def commits_def)
qed

lemma requeue_removes:
  assumes req: "AddApiDataBackToPendingAPIBucketOrDelete E None ptrs flag store st = Ok (store', st')"
    and flag: "is_flag flag" and ptr: "pointers ptrs store" and "commits (ca_bolt E)"
  shows "pending (ca_bolt E) (ca_fs st') k =
    (if k \<in> {ApiId (store ! j) | j. j \<in> set ptrs \<and> nothing_due (store' ! j)} then None
     else pending (ca_bolt E) (ca_fs st) k)"
  using req
proof (cases rule: requeue_cases)
  case (sent r fs)
  have "ApiId (store' ! j) = ApiId (store ! j)" if "j \<in> set ptrs" for j
    using requeue_store(2) [OF req flag ptr, of j] that ptr by (simp add: pointers_def)
  then have ids: "set (GetApiDataToBeRemovedFromPendingAPI ptrs store') =
      {ApiId (store ! j) | j. j \<in> set ptrs \<and> nothing_due (store' ! j)}"
    unfolding removed_ids by (intro Collect_cong) metis
  from delete_commits [OF assms(4) sent(3,4)] sent(3)
  have "DeletePendingAPIRequestEntries (ca_bolt E) (GetApiDataToBeRemovedFromPendingAPI ptrs store')
      (ca_fs st) = (Ok (), fs)" by simp
  from DeletePending_Ok(1) [OF this, of PendingAPIRequestMapping k] sent(5) show ?thesis
    by (simp add: ids)
qed simp

end

locale batch_channels = cloud_env E for E :: "'db capi" +
  fixes K :: "'db batch_kind"
    and cloud_msgs :: "ContentData list \<Rightarrow> 'm list"
    and iot_msgs :: "ContentProperties list \<Rightarrow> 'm list"
    and cloud_log :: "log_state \<Rightarrow> ('m \<times> bool) list"
    and iot_log :: "log_state \<Rightarrow> ('m \<times> bool) list"
  assumes send_content: "bk_send_content K \<lparr>ur_DeviceId = ca_deviceId E, Contents = cs\<rparr> st = (err, st') \<Longrightarrow>
      ca_fs st' = ca_fs st \<and> iot_log (ca_logst st') = iot_log (ca_logst st) \<and>
      cloud_log (ca_logst st') = cloud_log (ca_logst st) @ map (\<lambda>m. (m, err = None)) (cloud_msgs cs)"
    and content_accepted: "bk_send_content K \<lparr>ur_DeviceId = ca_deviceId E, Contents = cs\<rparr> st = (None, st') \<Longrightarrow>
      cloud_msgs cs \<noteq> []"
    and send_props: "bk_send_props K ps st = (err, st') \<Longrightarrow>
      ca_fs st' = ca_fs st \<and> cloud_log (ca_logst st') = cloud_log (ca_logst st) \<and>
      iot_log (ca_logst st') = iot_log (ca_logst st) @ map (\<lambda>m. (m, err = None)) (iot_msgs ps)"
    and props_accepted: "bk_send_props K ps st = (None, st') \<Longrightarrow> iot_msgs ps \<noteq> []"
begin

definition batch_inv :: "ApiData list \<Rightarrow> 'db capi_state \<Rightarrow> nat \<Rightarrow> 'db batch_state \<Rightarrow> bool" where
  "batch_inv a0 st0 i bs \<longleftrightarrow> store_inv a0 i (bs_store bs) \<and>
     slice_inv a0 SendCloudTelemetry (bk_content K) i (contentDataApiBatch bs) (contentDataBatch bs) \<and>
     slice_inv a0 SendIOTCentralTelemetry (bk_props K) i (contentPropertiesApiBatch bs)
       (contentPropertiesBatch bs) \<and>
     log_inv a0 SendCloudTelemetry (bk_content K) cloud_msgs (cloud_log (ca_logst st0)) (bs_store bs)
       (cloud_log (ca_logst (bs_st bs))) \<and>
     log_inv a0 SendIOTCentralTelemetry (bk_props K) iot_msgs (iot_log (ca_logst st0)) (bs_store bs)
       (iot_log (ca_logst (bs_st bs))) \<and>
     queue_inv (ca_bolt E) a0 (ca_fs st0) (bs_store bs) (ca_fs (bs_st bs))"

lemma flush_content_cases:
  assumes "flush_content E K bs = Ok bs'"
  obtains err st store st' where
    "bk_send_content K \<lparr>ur_DeviceId = ca_deviceId E, Contents = contentDataBatch bs\<rparr> (bs_st bs) = (err, st)"
    "AddApiDataBackToPendingAPIBucketOrDelete E err (contentDataApiBatch bs) SendCloudTelemetryFlag
       (bs_store bs) st = Ok (store, st')"
    "bs' = bs\<lparr>bs_store := store, bs_st := st', contentDataBatch := [], contentDataApiBatch := []\<rparr>"
  using assms that by (auto simp: flush_content_def split: prod.splits)

lemma flush_props_cases:
  assumes "flush_props E K bs = Ok bs'"
  obtains err st store st' where
    "bk_send_props K (contentPropertiesBatch bs) (bs_st bs) = (err, st)"
    "AddApiDataBackToPendingAPIBucketOrDelete E err (contentPropertiesApiBatch bs)
       SendIOTCentralTelemetryFlag (bs_store bs) st = Ok (store, st')"
    "bs' = bs\<lparr>bs_store := store, bs_st := st', contentPropertiesBatch := [],
       contentPropertiesApiBatch := []\<rparr>"
  using assms that by (auto simp: flush_props_def split: prod.splits)

lemma flag_of_eta: "flag_of SendCloudTelemetryFlag = SendCloudTelemetry"
  "flag_of SendIOTCentralTelemetryFlag = SendIOTCentralTelemetry"
  by (rule ext, simp)+

lemma flush_content_inv:
  assumes "flush_content E K bs = Ok bs'" and inv: "batch_inv a0 st0 i bs" and dist: "distinct (map ApiId a0)"
  shows "batch_inv a0 st0 i bs'"
  using assms(1)
proof (rule flush_content_cases)
  fix err st store st'
  assume send: "bk_send_content K \<lparr>ur_DeviceId = ca_deviceId E, Contents = contentDataBatch bs\<rparr> (bs_st bs) = (err, st)"
    and req: "AddApiDataBackToPendingAPIBucketOrDelete E err (contentDataApiBatch bs) SendCloudTelemetryFlag
       (bs_store bs) st = Ok (store, st')"
    and bs': "bs' = bs\<lparr>bs_store := store, bs_st := st', contentDataBatch := [], contentDataApiBatch := []\<rparr>"
  note inv = inv [unfolded batch_inv_def, folded flag_of_eta]
  have store: "store_inv a0 i (bs_store bs)" using inv by blast
  have slice: "slice_inv a0 (flag_of SendCloudTelemetryFlag) (bk_content K) i (contentDataApiBatch bs)
      (contentDataBatch bs)" using inv by blast
  have flag: "is_flag SendCloudTelemetryFlag" by simp
  note env = send_content [OF send] requeue_store(3) [OF req flag slice_inv_pointers [OF slice store]]
  have queue: "queue_inv (ca_bolt E) a0 (ca_fs st0) (bs_store bs) (ca_fs st)" using inv env by simp
  have "log_inv a0 (flag_of SendCloudTelemetryFlag) (bk_content K) cloud_msgs (cloud_log (ca_logst st0)) store
      (cloud_log (ca_logst (bs_st bs)) @ map (\<lambda>m. (m, err = None)) (cloud_msgs (contentDataBatch bs)))"
    by (rule requeue_log_inv [OF req flag store slice]) (use inv content_accepted send in auto)
  moreover have "log_inv a0 (flag_of SendIOTCentralTelemetryFlag) (bk_props K) iot_msgs
      (iot_log (ca_logst st0)) store (iot_log (ca_logst (bs_st bs)))"
    by (rule requeue_other_log_inv [OF req flag _ _ store slice]) (use inv in simp_all)
  ultimately show ?thesis
    using requeue_store_inv [OF req flag store slice] requeue_queue_inv [OF req flag store slice dist queue]
      inv env bs'
    by (simp add: batch_inv_def flag_of_eta)
qed

lemma flush_props_inv:
  assumes "flush_props E K bs = Ok bs'" and inv: "batch_inv a0 st0 i bs" and dist: "distinct (map ApiId a0)"
  shows "batch_inv a0 st0 i bs'"
  using assms(1)
proof (rule flush_props_cases)
  fix err st store st'
  assume send: "bk_send_props K (contentPropertiesBatch bs) (bs_st bs) = (err, st)"
    and req: "AddApiDataBackToPendingAPIBucketOrDelete E err (contentPropertiesApiBatch bs)
       SendIOTCentralTelemetryFlag (bs_store bs) st = Ok (store, st')"
    and bs': "bs' = bs\<lparr>bs_store := store, bs_st := st', contentPropertiesBatch := [],
       contentPropertiesApiBatch := []\<rparr>"
  note inv = inv [unfolded batch_inv_def, folded flag_of_eta]
  have store: "store_inv a0 i (bs_store bs)" using inv by blast
  have slice: "slice_inv a0 (flag_of SendIOTCentralTelemetryFlag) (bk_props K) i (contentPropertiesApiBatch bs)
      (contentPropertiesBatch bs)" using inv by blast
  have flag: "is_flag SendIOTCentralTelemetryFlag" by simp
  note env = send_props [OF send] requeue_store(3) [OF req flag slice_inv_pointers [OF slice store]]
  have queue: "queue_inv (ca_bolt E) a0 (ca_fs st0) (bs_store bs) (ca_fs st)" using inv env by simp
  have "log_inv a0 (flag_of SendIOTCentralTelemetryFlag) (bk_props K) iot_msgs (iot_log (ca_logst st0)) store
      (iot_log (ca_logst (bs_st bs)) @ map (\<lambda>m. (m, err = None)) (iot_msgs (contentPropertiesBatch bs)))"
    by (rule requeue_log_inv [OF req flag store slice]) (use inv props_accepted send in auto)
  moreover have "log_inv a0 (flag_of SendCloudTelemetryFlag) (bk_content K) cloud_msgs
      (cloud_log (ca_logst st0)) store (cloud_log (ca_logst (bs_st bs)))"
    by (rule requeue_other_log_inv [OF req flag _ _ store slice]) (use inv in simp_all)
  ultimately show ?thesis
    using requeue_store_inv [OF req flag store slice] requeue_queue_inv [OF req flag store slice dist queue]
      inv env bs'
    by (simp add: batch_inv_def flag_of_eta)
qed

lemma add_to_batches_inv:
  assumes "batch_inv a0 st0 i bs" "i < length a0"
  shows "batch_inv a0 st0 (Suc i) (add_to_batches K i (bs_store bs ! i) bs)"
proof -
  have "bs_store bs ! i = a0 ! i" using assms by (simp add: batch_inv_def store_inv_def)
  with assms show ?thesis
    by (simp add: batch_inv_def add_to_batches_def Let_def slice_inv_Suc slice_inv_snoc store_inv_Suc)
qed

lemma batch_item_inv:
  assumes "batch_item E K n i bs = Ok bs'" "batch_inv a0 st0 i bs" "i < length a0" "distinct (map ApiId a0)"
  shows "batch_inv a0 st0 (Suc i) bs'"
  using assms add_to_batches_inv [OF assms(2,3)]
  by (auto simp: batch_item_def flush_content_full_def flush_props_full_def split: if_splits
      intro: flush_content_inv flush_props_inv)

lemma flush_rest_inv:
  assumes "flush_rest E K bs = Ok bs'" "batch_inv a0 st0 i bs" "distinct (map ApiId a0)"
  shows "batch_inv a0 st0 i bs'" and "contentDataBatch bs' = []" and "contentPropertiesBatch bs' = []"
proof -
  obtain bs1 where 1: "(if contentDataBatch bs \<noteq> [] then flush_content E K bs else Ok bs) = Ok bs1"
    and 2: "(if contentPropertiesBatch bs1 \<noteq> [] then flush_props E K bs1 else Ok bs1) = Ok bs'"
    using assms(1) by (auto simp: flush_rest_def)
  have inv1: "batch_inv a0 st0 i bs1" and empty1: "contentDataBatch bs1 = []"
    using 1 assms flush_content_inv by (auto split: if_splits elim: flush_content_cases)
  show "batch_inv a0 st0 i bs'" using 2 inv1 assms(3) flush_props_inv by (auto split: if_splits)
  show "contentDataBatch bs' = []" "contentPropertiesBatch bs' = []"
    using 2 empty1 by (auto split: if_splits elim: flush_props_cases)
qed

abbreviation start :: "ApiData list \<Rightarrow> 'db capi_state \<Rightarrow> 'db batch_state" where
  "start a0 st \<equiv> \<lparr>bs_store = a0, contentDataBatch = [], contentPropertiesBatch = [],
     contentDataApiBatch = [], contentPropertiesApiBatch = [], bs_st = st\<rparr>"

lemma start_inv: "batch_inv a0 st 0 (start a0 st)"
  by (auto simp: batch_inv_def store_inv_def log_inv_def queue_inv_def)

lemma send_in_batches_cases:
  assumes "send_in_batches E K a0 n st = Ok bs'"
  obtains bs where "0 \<le> n" "fold_res (batch_item E K n) [0..<length a0] (start a0 st) = Ok bs"
    "flush_rest E K bs = Ok bs'"
  using assms that by (auto simp: send_in_batches_def split: if_splits)

lemma send_in_batches_inv:
  assumes "send_in_batches E K a0 n st = Ok bs'" "distinct (map ApiId a0)"
  shows "batch_inv a0 st (length a0) bs'"
  using assms(1)
proof (rule send_in_batches_cases)
  fix bs assume loop: "fold_res (batch_item E K n) [0..<length a0] (start a0 st) = Ok bs"
    and rest: "flush_rest E K bs = Ok bs'"
  have "batch_inv a0 st (length a0) bs"
    by (rule fold_res_upt_invariant [OF _ loop]) (use assms(2) batch_item_inv start_inv in auto)
  from flush_rest_inv(1) [OF rest this assms(2)] show ?thesis .
qed

text \<open>
  No telemetry is lost: a request that leaves the pending bucket had nothing to send or was part
  of accepted messages on every channel it asked for, and all of them were sent in this run.
\<close>

lemma removed_was_sent:
  assumes "send_in_batches E K a0 n st = Ok bs'" "distinct (map ApiId a0)" "d \<in> set a0"
    and "pending (ca_bolt E) (ca_fs st) (ApiId d) \<noteq> None"
    and "pending (ca_bolt E) (ca_fs (bs_st bs')) (ApiId d) = None"
  shows "\<exists>new. cloud_log (ca_logst (bs_st bs')) = cloud_log (ca_logst st) @ new \<and>
      (SendCloudTelemetry d \<longrightarrow> told cloud_msgs new (bk_content K d))"
    and "\<exists>new. iot_log (ca_logst (bs_st bs')) = iot_log (ca_logst st) @ new \<and>
      (SendIOTCentralTelemetry d \<longrightarrow> told iot_msgs new (bk_props K d))"
proof -
  from assms(3) obtain j where j: "j < length a0" "d = a0 ! j" by (auto simp: in_set_conv_nth)
  note inv = send_in_batches_inv [OF assms(1,2), unfolded batch_inv_def]
  have "nothing_due (bs_store bs' ! j)" using inv assms(4,5) j by (auto simp: queue_inv_def)
  then have "\<not> SendCloudTelemetry (bs_store bs' ! j)" "\<not> SendIOTCentralTelemetry (bs_store bs' ! j)"
    by (simp_all add: nothing_due_def)
  with inv j show "\<exists>new. cloud_log (ca_logst (bs_st bs')) = cloud_log (ca_logst st) @ new \<and>
      (SendCloudTelemetry d \<longrightarrow> told cloud_msgs new (bk_content K d))"
    and "\<exists>new. iot_log (ca_logst (bs_st bs')) = iot_log (ca_logst st) @ new \<and>
      (SendIOTCentralTelemetry d \<longrightarrow> told iot_msgs new (bk_props K d))"
    by (auto simp: log_inv_def)
qed

lemma frame:
  assumes "send_in_batches E K a0 n st = Ok bs'" "distinct (map ApiId a0)"
    and "b \<noteq> PendingAPIRequestMapping \<or> k \<notin> ApiId ` {d \<in> set a0. \<not> nothing_due d}"
  shows "bolt_get (ca_bolt E) (nodesDB (ca_fs (bs_st bs'))) b k = bolt_get (ca_bolt E) (nodesDB (ca_fs st)) b k"
  using send_in_batches_inv [OF assms(1,2)] assms(3) by (auto simp: batch_inv_def queue_inv_def)

text \<open>
  What goes out: on each channel the messages are those of the requests due on it, in order, cut
  into batches of the message size.
\<close>

definition trace_inv :: "nat \<Rightarrow> ApiData list \<Rightarrow> 'm list \<Rightarrow> 'm list \<Rightarrow> nat \<Rightarrow> 'db batch_state \<Rightarrow> bool" where
  "trace_inv n a0 ctotal itotal i bs \<longleftrightarrow>
     length (contentDataBatch bs) < n \<and> length (contentPropertiesBatch bs) < n \<and>
     map fst (cloud_log (ca_logst (bs_st bs))) @ concat (map cloud_msgs
       (batches_from n (contentDataBatch bs) (map (bk_content K) (filter SendCloudTelemetry (drop i a0))))) = ctotal \<and>
     map fst (iot_log (ca_logst (bs_st bs))) @ concat (map iot_msgs
       (batches_from n (contentPropertiesBatch bs) (map (bk_props K) (filter SendIOTCentralTelemetry (drop i a0))))) = itotal"

lemma flush_content_trace:
  assumes "flush_content E K bs = Ok bs'" "batch_inv a0 st0 i bs"
  shows "map fst (cloud_log (ca_logst (bs_st bs'))) =
      map fst (cloud_log (ca_logst (bs_st bs))) @ cloud_msgs (contentDataBatch bs)"
    and "iot_log (ca_logst (bs_st bs')) = iot_log (ca_logst (bs_st bs))"
    and "contentDataBatch bs' = []" and "contentPropertiesBatch bs' = contentPropertiesBatch bs"
  using assms
  by (auto elim!: flush_content_cases simp: batch_inv_def o_def
      dest!: send_content requeue_store(3) dest: slice_inv_pointers)

lemma flush_props_trace:
  assumes "flush_props E K bs = Ok bs'" "batch_inv a0 st0 i bs"
  shows "map fst (iot_log (ca_logst (bs_st bs'))) =
      map fst (iot_log (ca_logst (bs_st bs))) @ iot_msgs (contentPropertiesBatch bs)"
    and "cloud_log (ca_logst (bs_st bs')) = cloud_log (ca_logst (bs_st bs))"
    and "contentPropertiesBatch bs' = []" and "contentDataBatch bs' = contentDataBatch bs"
  using assms
  by (auto elim!: flush_props_cases simp: batch_inv_def o_def
      dest!: send_props requeue_store(3) dest: slice_inv_pointers)

lemma add_to_batches_trace:
  defines "bs1 x i bs \<equiv> add_to_batches K i x bs"
  shows "contentDataBatch (bs1 x i bs) =
      (if SendCloudTelemetry x then contentDataBatch bs @ [bk_content K x] else contentDataBatch bs)"
    and "contentPropertiesBatch (bs1 x i bs) =
      (if SendIOTCentralTelemetry x then contentPropertiesBatch bs @ [bk_props K x] else contentPropertiesBatch bs)"
    and "bs_st (bs1 x i bs) = bs_st bs" and "bs_store (bs1 x i bs) = bs_store bs"
  by (simp_all add: bs1_def add_to_batches_def Let_def)

lemma batch_item_trace:
  assumes item: "batch_item E K (int n) i bs = Ok bs'" and inv: "batch_inv a0 st0 i bs"
    and i: "i < length a0" and dist: "distinct (map ApiId a0)" and trace: "trace_inv n a0 ct it i bs"
  shows "trace_inv n a0 ct it (Suc i) bs'"
proof -
  define x where "x = a0 ! i"
  define bs1 where "bs1 = add_to_batches K i x bs"
  have x: "bs_store bs ! i = x" using inv i by (simp add: batch_inv_def store_inv_def x_def)
  then have inv1: "batch_inv a0 st0 (Suc i) bs1" using add_to_batches_inv [OF inv i] by (simp add: bs1_def)
  have drop: "drop i a0 = x # drop (Suc i) a0" using i by (simp add: x_def Cons_nth_drop_Suc)
  obtain bs2 where bs2: "flush_content_full E K (int n) bs1 = Ok bs2"
    and bs': "flush_props_full E K (int n) bs2 = Ok bs'" using item x by (auto simp: batch_item_def bs1_def)
  have inv2: "batch_inv a0 st0 (Suc i) bs2"
    using bs2 inv1 dist flush_content_inv by (auto simp: flush_content_full_def split: if_splits)
  have len: "length (contentDataBatch bs) < n" "length (contentPropertiesBatch bs) < n"
    using trace by (simp_all add: trace_inv_def)
  note cut = batches_from_filter [OF len(1), where c = "bk_content K" and due = SendCloudTelemetry]
    batches_from_filter [OF len(2), where c = "bk_props K" and due = SendIOTCentralTelemetry]
  note add = add_to_batches_trace [of i x bs, folded bs1_def]
  have c1: "map fst (cloud_log (ca_logst (bs_st bs1))) @ concat (map cloud_msgs
      (if length (contentDataBatch bs1) = n
       then contentDataBatch bs1 # batches_from n [] (map (bk_content K) (filter SendCloudTelemetry (drop (Suc i) a0)))
       else batches_from n (contentDataBatch bs1) (map (bk_content K) (filter SendCloudTelemetry (drop (Suc i) a0))))) = ct"
    using trace cut(1) [of x "drop (Suc i) a0"] unfolding trace_inv_def drop add by (simp only:)
  have p1: "map fst (iot_log (ca_logst (bs_st bs1))) @ concat (map iot_msgs
      (if length (contentPropertiesBatch bs1) = n
       then contentPropertiesBatch bs1 # batches_from n [] (map (bk_props K) (filter SendIOTCentralTelemetry (drop (Suc i) a0)))
       else batches_from n (contentPropertiesBatch bs1) (map (bk_props K) (filter SendIOTCentralTelemetry (drop (Suc i) a0))))) = it"
    using trace cut(2) [of x "drop (Suc i) a0"] unfolding trace_inv_def drop add by (simp only:)
  have le: "length (contentDataBatch bs1) \<le> n" "length (contentPropertiesBatch bs1) \<le> n" "0 < n"
    using len by (auto simp: add)
  have c2: "map fst (cloud_log (ca_logst (bs_st bs2))) @ concat (map cloud_msgs (batches_from n
      (contentDataBatch bs2) (map (bk_content K) (filter SendCloudTelemetry (drop (Suc i) a0))))) = ct"
    "length (contentDataBatch bs2) < n" "contentPropertiesBatch bs2 = contentPropertiesBatch bs1"
    "iot_log (ca_logst (bs_st bs2)) = iot_log (ca_logst (bs_st bs1))"
    using bs2 c1 le flush_content_trace [of bs1 bs2, OF _ inv1]
    by (auto simp: flush_content_full_def split: if_splits)
  with bs' p1 le flush_props_trace [of bs2 bs', OF _ inv2] show ?thesis
    by (auto simp: trace_inv_def flush_props_full_def split: if_splits)
qed

lemma send_in_batches_trace:
  assumes "send_in_batches E K a0 (int n) st = Ok bs'" "distinct (map ApiId a0)" "0 < n"
  shows "map fst (cloud_log (ca_logst (bs_st bs'))) = map fst (cloud_log (ca_logst st)) @
      concat (map cloud_msgs (batches n (map (bk_content K) (filter SendCloudTelemetry a0))))"
    and "map fst (iot_log (ca_logst (bs_st bs'))) = map fst (iot_log (ca_logst st)) @
      concat (map iot_msgs (batches n (map (bk_props K) (filter SendIOTCentralTelemetry a0))))"
proof -
  define ct it where total: "ct = map fst (cloud_log (ca_logst st)) @
      concat (map cloud_msgs (batches n (map (bk_content K) (filter SendCloudTelemetry a0))))"
    "it = map fst (iot_log (ca_logst st)) @
      concat (map iot_msgs (batches n (map (bk_props K) (filter SendIOTCentralTelemetry a0))))"
  from assms(1) obtain bs where loop: "fold_res (batch_item E K (int n)) [0..<length a0] (start a0 st) = Ok bs"
    and rest: "flush_rest E K bs = Ok bs'" by (rule send_in_batches_cases)
  have "batch_inv a0 st (length a0) bs \<and> trace_inv n a0 ct it (length a0) bs"
    by (rule fold_res_upt_invariant [OF _ loop])
      (use assms(2,3) batch_item_inv batch_item_trace start_inv total in \<open>auto simp: trace_inv_def\<close>)
  then have inv: "batch_inv a0 st (length a0) bs" and trace: "trace_inv n a0 ct it (length a0) bs" by auto
  obtain bs1 where 1: "(if contentDataBatch bs \<noteq> [] then flush_content E K bs else Ok bs) = Ok bs1"
    and 2: "(if contentPropertiesBatch bs1 \<noteq> [] then flush_props E K bs1 else Ok bs1) = Ok bs'"
    using rest by (auto simp: flush_rest_def)
  have inv1: "batch_inv a0 st (length a0) bs1"
    using 1 inv assms(2) flush_content_inv by (auto split: if_splits)
  show "map fst (cloud_log (ca_logst (bs_st bs'))) = map fst (cloud_log (ca_logst st)) @
      concat (map cloud_msgs (batches n (map (bk_content K) (filter SendCloudTelemetry a0))))"
    and "map fst (iot_log (ca_logst (bs_st bs'))) = map fst (iot_log (ca_logst st)) @
      concat (map iot_msgs (batches n (map (bk_props K) (filter SendIOTCentralTelemetry a0))))"
    using 1 2 trace flush_content_trace [of bs bs1, OF _ inv] flush_props_trace [of bs1 bs', OF _ inv1]
    unfolding total [symmetric] by (auto simp: trace_inv_def split: if_splits)
qed

lemma flush_total:
  assumes "batch_inv a0 st0 i bs" "pending_ready (ca_bolt E) (ca_fs st0)" "encodable (ca_json E) a0"
  shows "\<exists>bs'. flush_content E K bs = Ok bs'" and "\<exists>bs'. flush_props E K bs = Ok bs'"
proof -
  have ready: "pending_ready (ca_bolt E) (ca_fs (bs_st bs))"
    using assms(1,2) by (simp add: batch_inv_def queue_inv_def pending_ready_def)
  obtain err st where 1: "bk_send_content K \<lparr>ur_DeviceId = ca_deviceId E, Contents = contentDataBatch bs\<rparr>
      (bs_st bs) = (err, st)" by (meson surj_pair)
  obtain err' st' where 2: "bk_send_props K (contentPropertiesBatch bs) (bs_st bs) = (err', st')"
    by (meson surj_pair)
  show "\<exists>bs'. flush_content E K bs = Ok bs'"
    using requeue_total [of st a0 i "bs_store bs" SendCloudTelemetry "bk_content K" "contentDataApiBatch bs"
        "contentDataBatch bs" err SendCloudTelemetryFlag] 1 send_content [OF 1] ready assms
    by (auto simp: flush_content_def batch_inv_def)
  show "\<exists>bs'. flush_props E K bs = Ok bs'"
    using requeue_total [of st' a0 i "bs_store bs" SendIOTCentralTelemetry "bk_props K"
        "contentPropertiesApiBatch bs" "contentPropertiesBatch bs" err' SendIOTCentralTelemetryFlag]
      2 send_props [OF 2] ready assms
    by (auto simp: flush_props_def batch_inv_def)
qed

lemma send_in_batches_total:
  assumes "0 < n" and ready: "pending_ready (ca_bolt E) (ca_fs st)" and enc: "encodable (ca_json E) a0"
    and dist: "distinct (map ApiId a0)"
  shows "\<exists>bs'. send_in_batches E K a0 n st = Ok bs'"
proof -
  note total = flush_total [OF _ ready enc]
  have item: "\<exists>t. batch_item E K n i bs = Ok t \<and> batch_inv a0 st (Suc i) t"
    if i: "i < length a0" and inv: "batch_inv a0 st i bs" for i bs
  proof -
    let ?bs = "add_to_batches K i (bs_store bs ! i) bs"
    note inv1 = add_to_batches_inv [OF inv i]
    have "\<exists>bs2. flush_content_full E K n ?bs = Ok bs2"
      using total(1) [OF inv1] \<open>0 < n\<close> by (auto simp: flush_content_full_def)
    then obtain bs2 where bs2: "flush_content_full E K n ?bs = Ok bs2" by blast
    then have "batch_inv a0 st (Suc i) bs2"
      using inv1 dist flush_content_inv by (auto simp: flush_content_full_def split: if_splits)
    from total(2) [OF this] \<open>0 < n\<close> have "\<exists>bs3. flush_props_full E K n bs2 = Ok bs3"
      by (auto simp: flush_props_full_def)
    then obtain bs3 where "flush_props_full E K n bs2 = Ok bs3" by blast
    with bs2 have "batch_item E K n i bs = Ok bs3" by (simp add: batch_item_def)
    with batch_item_inv [OF this inv i dist] show ?thesis by blast
  qed
  obtain bs where loop: "fold_res (batch_item E K n) [0..<length a0] (start a0 st) = Ok bs"
    and inv: "batch_inv a0 st (length a0) bs"
    using fold_res_upt_total [where P = "batch_inv a0 st" and f = "batch_item E K n" and a = 0
        and n = "length a0" and s = "start a0 st", OF item le0 start_inv] by blast
  have "\<exists>bs1. (if contentDataBatch bs \<noteq> [] then flush_content E K bs else Ok bs) = Ok bs1"
    using total(1) [OF inv] by auto
  then obtain bs1 where bs1: "(if contentDataBatch bs \<noteq> [] then flush_content E K bs else Ok bs) = Ok bs1"
    by blast
  then have "batch_inv a0 st (length a0) bs1" using inv dist flush_content_inv by (auto split: if_splits)
  from total(2) [OF this] bs1 have "\<exists>bs'. flush_rest E K bs = Ok bs'" by (auto simp: flush_rest_def)
  with loop \<open>0 < n\<close> show ?thesis by (simp add: send_in_batches_def)
qed

text \<open>When every send is accepted and every transaction commits, the due requests leave the bucket.\<close>

definition done_inv :: "ApiData list \<Rightarrow> nat \<Rightarrow> 'db batch_state \<Rightarrow> bool" where
  "done_inv a0 i bs \<longleftrightarrow> (\<forall>j < i. j < length a0 \<longrightarrow>
     (SendCloudTelemetry (bs_store bs ! j) \<longrightarrow> j \<in> set (contentDataApiBatch bs)) \<and>
     (SendIOTCentralTelemetry (bs_store bs ! j) \<longrightarrow> j \<in> set (contentPropertiesApiBatch bs)) \<and>
     (nothing_due (bs_store bs ! j) \<longrightarrow> \<not> nothing_due (a0 ! j) \<longrightarrow>
        pending (ca_bolt E) (ca_fs (bs_st bs)) (ApiId (a0 ! j)) = None))"

lemma requeue_done:
  assumes req: "AddApiDataBackToPendingAPIBucketOrDelete E None ptrs flag store st = Ok (store', st')"
    and flag: "is_flag flag" and store: "store_inv a0 i store"
    and slice: "slice_inv a0 (flag_of flag) content i ptrs batch" and "commits (ca_bolt E)"
    and j: "j < length a0" "nothing_due (store' ! j)"
    and before: "nothing_due (store ! j) \<Longrightarrow> pending (ca_bolt E) (ca_fs st) (ApiId (a0 ! j)) = None"
  shows "pending (ca_bolt E) (ca_fs st') (ApiId (a0 ! j)) = None"
proof -
  note ptr = slice_inv_pointers [OF slice store]
  note rem = requeue_removes [OF req flag ptr assms(5), of "ApiId (a0 ! j)"]
  show ?thesis
  proof (cases "j \<in> set ptrs")
    case True
    with j store_inv_ApiId [OF store j(1)] rem show ?thesis by auto
  next
    case False
    with requeue_store(2) [OF req flag ptr, of j] j store have "nothing_due (store ! j)"
      by (simp add: store_inv_def)
    with before rem show ?thesis by simp
  qed
qed

lemma flush_content_done:
  assumes "flush_content E K bs = Ok bs'" and inv: "batch_inv a0 st0 i bs" and don: "done_inv a0 i bs"
    and "commits (ca_bolt E)" and ok: "\<And>cs st. set cs \<subseteq> bk_content K ` set a0 \<Longrightarrow>
      fst (bk_send_content K \<lparr>ur_DeviceId = ca_deviceId E, Contents = cs\<rparr> st) = None"
  shows "done_inv a0 i bs'" and "contentDataApiBatch bs' = []"
proof -
  have batch: "set (contentDataBatch bs) \<subseteq> bk_content K ` set a0"
    using inv unfolding batch_inv_def by (blast dest!: slice_inv_batch)
  from assms(1) obtain st store st' where
    send: "bk_send_content K \<lparr>ur_DeviceId = ca_deviceId E, Contents = contentDataBatch bs\<rparr> (bs_st bs) = (None, st)"
    and req: "AddApiDataBackToPendingAPIBucketOrDelete E None (contentDataApiBatch bs) SendCloudTelemetryFlag
       (bs_store bs) st = Ok (store, st')"
    and bs': "bs' = bs\<lparr>bs_store := store, bs_st := st', contentDataBatch := [], contentDataApiBatch := []\<rparr>"
    using ok [of "contentDataBatch bs" "bs_st bs", OF batch] by (elim flush_content_cases) (metis fst_conv)
  note inv' = inv [unfolded batch_inv_def, folded flag_of_eta]
  have store: "store_inv a0 i (bs_store bs)" using inv' by blast
  have slice: "slice_inv a0 (flag_of SendCloudTelemetryFlag) (bk_content K) i (contentDataApiBatch bs)
      (contentDataBatch bs)" using inv' by blast
  have flag: "is_flag SendCloudTelemetryFlag" by simp
  show "contentDataApiBatch bs' = []" using bs' by simp
  have *: "store ! j = (if j \<in> set (contentDataApiBatch bs) then clear_flag SendCloudTelemetryFlag (bs_store bs ! j)
      else bs_store bs ! j)" if "j < length a0" for j
    using requeue_store(2) [OF req flag slice_inv_pointers [OF slice store], of j] that store
    by (simp add: store_inv_def)
  have "pending (ca_bolt E) (ca_fs st') (ApiId (a0 ! j)) = None"
    if "j < i" "j < length a0" "nothing_due (store ! j)" "\<not> nothing_due (a0 ! j)" for j
    by (rule requeue_done [OF req flag store slice assms(4) that(2,3)])
      (use don that send_content [OF send] in \<open>simp add: done_inv_def\<close>)
  with don * show "done_inv a0 i bs'" by (auto simp: done_inv_def bs')
qed

lemma flush_props_done:
  assumes "flush_props E K bs = Ok bs'" and inv: "batch_inv a0 st0 i bs" and don: "done_inv a0 i bs"
    and "commits (ca_bolt E)" and ok: "\<And>ps st. set ps \<subseteq> bk_props K ` set a0 \<Longrightarrow> fst (bk_send_props K ps st) = None"
  shows "done_inv a0 i bs'" and "contentPropertiesApiBatch bs' = []"
    and "contentDataApiBatch bs' = contentDataApiBatch bs"
proof -
  have batch: "set (contentPropertiesBatch bs) \<subseteq> bk_props K ` set a0"
    using inv unfolding batch_inv_def by (blast dest!: slice_inv_batch)
  from assms(1) obtain st store st' where
    send: "bk_send_props K (contentPropertiesBatch bs) (bs_st bs) = (None, st)"
    and req: "AddApiDataBackToPendingAPIBucketOrDelete E None (contentPropertiesApiBatch bs)
       SendIOTCentralTelemetryFlag (bs_store bs) st = Ok (store, st')"
    and bs': "bs' = bs\<lparr>bs_store := store, bs_st := st', contentPropertiesBatch := [],
       contentPropertiesApiBatch := []\<rparr>"
    using ok [of "contentPropertiesBatch bs" "bs_st bs", OF batch] by (elim flush_props_cases) (metis fst_conv)
  note inv' = inv [unfolded batch_inv_def, folded flag_of_eta]
  have store: "store_inv a0 i (bs_store bs)" using inv' by blast
  have slice: "slice_inv a0 (flag_of SendIOTCentralTelemetryFlag) (bk_props K) i
      (contentPropertiesApiBatch bs) (contentPropertiesBatch bs)" using inv' by blast
  have flag: "is_flag SendIOTCentralTelemetryFlag" by simp
  show "contentPropertiesApiBatch bs' = []" "contentDataApiBatch bs' = contentDataApiBatch bs"
    using bs' by simp_all
  have *: "store ! j = (if j \<in> set (contentPropertiesApiBatch bs)
      then clear_flag SendIOTCentralTelemetryFlag (bs_store bs ! j) else bs_store bs ! j)"
    if "j < length a0" for j
    using requeue_store(2) [OF req flag slice_inv_pointers [OF slice store], of j] that store
    by (simp add: store_inv_def)
  have "pending (ca_bolt E) (ca_fs st') (ApiId (a0 ! j)) = None"
    if "j < i" "j < length a0" "nothing_due (store ! j)" "\<not> nothing_due (a0 ! j)" for j
    by (rule requeue_done [OF req flag store slice assms(4) that(2,3)])
      (use don that send_props [OF send] in \<open>simp add: done_inv_def\<close>)
  with don * show "done_inv a0 i bs'" by (auto simp: done_inv_def bs')
qed

lemma batch_item_done:
  assumes item: "batch_item E K n i bs = Ok bs'" and inv: "batch_inv a0 st0 i bs" and i: "i < length a0"
    and dist: "distinct (map ApiId a0)" and don: "done_inv a0 i bs" and com: "commits (ca_bolt E)"
    and ok: "\<And>cs st. set cs \<subseteq> bk_content K ` set a0 \<Longrightarrow>
      fst (bk_send_content K \<lparr>ur_DeviceId = ca_deviceId E, Contents = cs\<rparr> st) = None"
      "\<And>ps st. set ps \<subseteq> bk_props K ` set a0 \<Longrightarrow> fst (bk_send_props K ps st) = None"
  shows "done_inv a0 (Suc i) bs'"
proof -
  let ?bs = "add_to_batches K i (bs_store bs ! i) bs"
  note inv1 = add_to_batches_inv [OF inv i]
  have "bs_store bs ! i = a0 ! i" using inv i by (simp add: batch_inv_def store_inv_def)
  then have don1: "done_inv a0 (Suc i) ?bs"
    using don i unfolding done_inv_def less_Suc_eq
    by (auto simp: add_to_batches_def Let_def nothing_due_def)
  obtain bs2 where bs2: "flush_content_full E K n ?bs = Ok bs2" "flush_props_full E K n bs2 = Ok bs'"
    using item by (auto simp: batch_item_def)
  have "batch_inv a0 st0 (Suc i) bs2 \<and> done_inv a0 (Suc i) bs2"
    using bs2(1) inv1 don1 dist flush_content_inv flush_content_done(1) [OF _ inv1 don1 com ok(1)]
    by (auto simp: flush_content_full_def split: if_splits)
  then show ?thesis using bs2(2) flush_props_done(1) [of bs2 bs', OF _ _ _ com ok(2)]
    by (auto simp: flush_props_full_def split: if_splits)
qed

lemma send_in_batches_done:
  assumes run: "send_in_batches E K a0 n st = Ok bs'" and dist: "distinct (map ApiId a0)"
    and com: "commits (ca_bolt E)"
    and ok: "\<And>cs st. set cs \<subseteq> bk_content K ` set a0 \<Longrightarrow>
      fst (bk_send_content K \<lparr>ur_DeviceId = ca_deviceId E, Contents = cs\<rparr> st) = None"
      "\<And>ps st. set ps \<subseteq> bk_props K ` set a0 \<Longrightarrow> fst (bk_send_props K ps st) = None"
    and d: "d \<in> set a0" "\<not> nothing_due d"
  shows "pending (ca_bolt E) (ca_fs (bs_st bs')) (ApiId d) = None"
proof -
  from run obtain bs where loop: "fold_res (batch_item E K n) [0..<length a0] (start a0 st) = Ok bs"
    and rest: "flush_rest E K bs = Ok bs'" by (rule send_in_batches_cases)
  have "batch_inv a0 st (length a0) bs \<and> done_inv a0 (length a0) bs"
    by (rule fold_res_upt_invariant [OF _ loop])
      (use dist com ok batch_item_inv batch_item_done start_inv in \<open>auto simp: done_inv_def\<close>)
  then have inv: "batch_inv a0 st (length a0) bs" and don: "done_inv a0 (length a0) bs" by auto
  obtain bs1 where 1: "(if contentDataBatch bs \<noteq> [] then flush_content E K bs else Ok bs) = Ok bs1"
    and 2: "(if contentPropertiesBatch bs1 \<noteq> [] then flush_props E K bs1 else Ok bs1) = Ok bs'"
    using rest by (auto simp: flush_rest_def)
  have empty: "contentDataApiBatch bs = []" if "contentDataBatch bs = []"
    using inv that by (simp add: batch_inv_def slice_inv_def)
  have inv1: "batch_inv a0 st (length a0) bs1" and don1: "done_inv a0 (length a0) bs1"
    and empty1: "contentDataApiBatch bs1 = []"
    using 1 inv don dist empty flush_content_inv flush_content_done [of bs bs1, OF _ inv don com ok(1)]
    by (auto split: if_splits)
  have empty2: "contentPropertiesApiBatch bs1 = []" if "contentPropertiesBatch bs1 = []"
    using inv1 that by (simp add: batch_inv_def slice_inv_def)
  have "done_inv a0 (length a0) bs'" "contentDataApiBatch bs' = []" "contentPropertiesApiBatch bs' = []"
    using 2 inv1 don1 empty1 empty2 flush_props_done [of bs1 bs', OF _ inv1 don1 com ok(2)]
    by (auto split: if_splits)
  with d show ?thesis by (auto simp: done_inv_def nothing_due_def in_set_conv_nth)
qed

end

section \<open>The download and the delete channels\<close>

text \<open>The calls of \<open>Log\<close> for one event type, with their payload and whether they were accepted.\<close>

definition calls_of :: "string \<Rightarrow> log_state \<Rightarrow> (MessageSubType \<times> bool) list" where
  "calls_of ev ls = map snd (filter (\<lambda>c. fst c = ev) (log_calls ls))"

definition content_messages :: "'db capi \<Rightarrow> TelemetryCommandName \<Rightarrow> ContentData list \<Rightarrow> MessageSubType list" where
  "content_messages E name cs =
     (case ca_update E \<lparr>ur_DeviceId = ca_deviceId E, Contents = cs\<rparr> of
        Inl _ \<Rightarrow> [] | Inr body \<Rightarrow> [command_message name body False])"

definition props_messages :: "'db capi \<Rightarrow> ContentProperties list \<Rightarrow> MessageSubType list" where
  "props_messages E ps =
     (case ca_props E ps of Inl _ \<Rightarrow> [] | Inr body \<Rightarrow> [contents_message (int (length ps)) body])"

lemma log_msg_calls:
  assumes "log_msg E ev sm st = (err, st')"
  shows "ca_fs st' = ca_fs st \<and> (\<forall>ev'. calls_of ev' (ca_logst st') =
      calls_of ev' (ca_logst st) @ (if ev' = ev then [(sm, err = None)] else []))"
  using assms Log_trace [of "ca_logger E" "ca_log E" ev sm "ca_logst st"]
  by (auto simp: log_msg_def calls_of_def split: prod.splits)

lemmas send_defs = sendDownloadedTelemetryData_def sendDeleteTelemetryData_def
  sendDownloadedTelemetryForIoTCentralGraph_def sendDeletedTelemetryForIoTCentralGraph_def
  content_messages_def props_messages_def

sublocale cloud_env \<subseteq> download: batch_channels E "download_kind E" "content_messages E ContentDownloaded"
    "props_messages E" "calls_of TelemetryCommandMessage" "calls_of AssetDownloadOnDeviceFromSES"
  by unfold_locales (auto simp: download_kind_def send_defs dest!: log_msg_calls split: sum.splits)

sublocale cloud_env \<subseteq> delete: batch_channels E "delete_kind E" "content_messages E ContentDeleted"
    "props_messages E" "calls_of TelemetryCommandMessage" "calls_of AssetDeleteOnDeviceByScheduler"
  by unfold_locales (auto simp: delete_kind_def send_defs dest!: log_msg_calls split: sum.splits)

interpretation mem_cloud: cloud_env "mem_capi net" for net
  by (rule cloud_env.intro) (simp add: mem_bolt_spec)

context cloud_env
begin

lemmas download_channels = download.batch_channels_axioms and delete_channels = delete.batch_channels_axioms

end

end
