(* ===== verification/Cloud_Telemetry.thy ===== *)
theory Cloud_Telemetry
  imports Cloud_Batches
begin

text \<open>
  Properties of the cloud API handler: what a run of the download and delete loops sends and
  leaves in the pending bucket, when it fails, and the handlers of single requests.
\<close>

section \<open>The loops of the two kinds\<close>

lemma download_run:
  assumes "sendDownloadRequestInBatches E a0 n st = Ok st'"
  obtains bs where "send_in_batches E (download_kind E) a0 n st = Ok bs" "st' = bs_st bs"
  using assms by (auto simp: sendDownloadRequestInBatches_def)

lemma delete_run:
  assumes "sendDeleteRequestInBatches E a0 n st = Ok st'"
  obtains bs where "send_in_batches E (delete_kind E) a0 n st = Ok bs" "st' = bs_st bs"
  using assms by (auto simp: sendDeleteRequestInBatches_def)

abbreviation download_content :: "ApiData \<Rightarrow> ContentData" where
  "download_content d \<equiv> \<lparr>ContentId = ApiId d, cd_OperationTime = OperationTime d\<rparr>"

abbreviation delete_content :: "ApiData \<Rightarrow> ContentData" where
  "delete_content d \<equiv> \<lparr>ContentId = TrimPrefix (ApiId d) ''DL_'', cd_OperationTime = OperationTime d\<rparr>"

lemma kind_content [simp]:
  "bk_content (download_kind E) = download_content" "bk_content (delete_kind E) = delete_content"
  by (simp_all add: download_kind_def delete_kind_def)

text \<open>
  The proxy accepts every message and the encoders accept the contents of the requests \<open>a0\<close>. A telemetry message
  can be encoded when its floats are numbers (\<^verbatim>\<open>json.Marshal\<close> refuses NaN and infinities); those of the messages
  about contents are the zero bits.
\<close>

definition network_up :: "'db capi \<Rightarrow> 'db batch_kind \<Rightarrow> ApiData list \<Rightarrow> bool" where
  "network_up E K a0 \<longleftrightarrow> (\<forall>n a m. le_send (ca_log E) n a m = None) \<and>
     (\<forall>m. tm_HubStorageAvailable m = 0 \<and> tm_TotalStorage m = 0 \<and> tm_Memory m = 0 \<longrightarrow> (\<exists>b. le_marshal (ca_log E) m = Inr b)) \<and>
     (\<forall>cs. set cs \<subseteq> bk_content K ` set a0 \<longrightarrow>
        (\<exists>b. ca_update E \<lparr>ur_DeviceId = ca_deviceId E, Contents = cs\<rparr> = Inr b)) \<and>
     (\<forall>ps. set ps \<subseteq> bk_props K ` set a0 \<longrightarrow> (\<exists>b. ca_props E ps = Inr b))"

lemma log_msg_accepted:
  assumes "network_up E K a0" "ev \<in> {TelemetryCommandMessage, AssetDownloadOnDeviceFromSES, AssetDeleteOnDeviceByScheduler}"
  shows "fst (log_msg E ev sm st) = None"
proof -
  let ?m = "fill_payload ev sm (message_header (ca_logger E) ev
      (le_now (ca_log E) (length (log_calls (ca_logst st)))) (le_uuid (ca_log E) (length (log_calls (ca_logst st)))))"
  have "tm_HubStorageAvailable ?m = 0" "tm_TotalStorage ?m = 0" "tm_Memory ?m = 0"
    using assms(2) by (auto simp: fill_payload_def message_header_def)
  then obtain b where b: "le_marshal (ca_log E) ?m = Inr b"
    using assms(1) unfolding network_up_def by blast
  have "isValid ev = None" using assms(2) by (auto simp: isValid_def)
  moreover have "\<And>n a m. le_send (ca_log E) n a m = None" using assms(1) by (simp add: network_up_def)
  ultimately show ?thesis using b by (simp add: log_msg_def Log_def sendGrpcUpstream_def Let_def)
qed

lemma send_accepted:
  assumes up: "network_up E K a0"
  shows "set cs \<subseteq> bk_content K ` set a0 \<Longrightarrow>
      fst (sendDownloadedTelemetryData E False \<lparr>ur_DeviceId = ca_deviceId E, Contents = cs\<rparr> st) = None \<and>
      fst (sendDeleteTelemetryData E \<lparr>ur_DeviceId = ca_deviceId E, Contents = cs\<rparr> st) = None"
    and "set ps \<subseteq> bk_props K ` set a0 \<Longrightarrow>
      fst (sendDownloadedTelemetryForIoTCentralGraph E ps st) = None \<and>
      fst (sendDeletedTelemetryForIoTCentralGraph E ps st) = None"
proof -
  note ok = log_msg_accepted [OF up]
  show "fst (sendDownloadedTelemetryData E False \<lparr>ur_DeviceId = ca_deviceId E, Contents = cs\<rparr> st) = None \<and>
      fst (sendDeleteTelemetryData E \<lparr>ur_DeviceId = ca_deviceId E, Contents = cs\<rparr> st) = None"
    if sub: "set cs \<subseteq> bk_content K ` set a0"
  proof -
    obtain b where "ca_update E \<lparr>ur_DeviceId = ca_deviceId E, Contents = cs\<rparr> = Inr b"
      using up sub unfolding network_up_def by blast
    then show ?thesis by (simp only: send_defs sum.case ok insert_iff simp_thms)
  qed
  show "fst (sendDownloadedTelemetryForIoTCentralGraph E ps st) = None \<and>
      fst (sendDeletedTelemetryForIoTCentralGraph E ps st) = None"
    if sub: "set ps \<subseteq> bk_props K ` set a0"
  proof -
    obtain b where "ca_props E ps = Inr b" using up sub unfolding network_up_def by blast
    then show ?thesis by (simp only: send_defs sum.case ok insert_iff simp_thms)
  qed
qed

lemma download_accepted:
  assumes "network_up E (download_kind E) a0"
  shows "set cs \<subseteq> bk_content (download_kind E) ` set a0 \<Longrightarrow>
      fst (bk_send_content (download_kind E) \<lparr>ur_DeviceId = ca_deviceId E, Contents = cs\<rparr> st) = None"
    and "set ps \<subseteq> bk_props (download_kind E) ` set a0 \<Longrightarrow> fst (bk_send_props (download_kind E) ps st) = None"
  using send_accepted(1) [OF assms, of cs st] send_accepted(2) [OF assms, of ps st]
  by (simp_all add: download_kind_def)

lemma delete_accepted:
  assumes "network_up E (delete_kind E) a0"
  shows "set cs \<subseteq> bk_content (delete_kind E) ` set a0 \<Longrightarrow>
      fst (bk_send_content (delete_kind E) \<lparr>ur_DeviceId = ca_deviceId E, Contents = cs\<rparr> st) = None"
    and "set ps \<subseteq> bk_props (delete_kind E) ` set a0 \<Longrightarrow> fst (bk_send_props (delete_kind E) ps st) = None"
  using send_accepted(1) [OF assms, of cs st] send_accepted(2) [OF assms, of ps st]
  by (simp_all add: delete_kind_def)

section \<open>A run to look at\<close>

definition demo_request :: "string \<Rightarrow> Type \<Rightarrow> ApiData" where
  "demo_request i ty = \<lparr>ApiId = i, ApiType = ty, RetryCount = 0, OperationTime = 7,
     SendCloudTelemetry = True, SendIOTCentralTelemetry = True, Properties = []\<rparr>"

abbreviation demo_state :: "string \<Rightarrow> mem_db capi_state" where
  "demo_state i \<equiv> mem_state (mem_fs [] [] [(i, ''x'')])"

lemma demo_simps [simp]: "ApiId (demo_request i ty) = i" "SendCloudTelemetry (demo_request i ty)"
  "SendIOTCentralTelemetry (demo_request i ty)" "\<not> nothing_due (demo_request i ty)"
  "OperationTime (demo_request i ty) = 7" "ApiType (demo_request i ty) = ty"
  "Properties (demo_request i ty) = []"
  by (simp_all add: demo_request_def nothing_due_def)

lemma mem_network_up [simp]: "network_up (mem_capi (\<lambda>_. None)) K a0"
  by (simp add: network_up_def mem_log_env_def)

lemma mem_encodable [simp]: "encodable api_codec a0"
  by (simp add: encodable_def api_codec_def)

lemma download_drain:
  assumes "bolt_spec (ca_bolt E)" and com: "commits (ca_bolt E)" and up: "network_up E (download_kind E) a0"
    and "0 < n" "pending_ready (ca_bolt E) (ca_fs st)" "encodable (ca_json E) a0" and dist: "distinct (map ApiId a0)"
  shows "\<exists>bs. send_in_batches E (download_kind E) a0 n st = Ok bs \<and>
    (\<forall>d \<in> set a0. \<not> nothing_due d \<longrightarrow> pending (ca_bolt E) (ca_fs (bs_st bs)) (ApiId d) = None)"
proof -
  note channels = cloud_env.download_channels [OF cloud_env.intro [OF assms(1)]]
  from batch_channels.send_in_batches_total [OF channels assms(4-7)] obtain bs where
    run: "send_in_batches E (download_kind E) a0 n st = Ok bs" by blast
  with batch_channels.send_in_batches_done [OF channels run dist com download_accepted [OF up]]
  show ?thesis by blast
qed

lemma delete_drain:
  assumes "bolt_spec (ca_bolt E)" and com: "commits (ca_bolt E)" and up: "network_up E (delete_kind E) a0"
    and "0 < n" "pending_ready (ca_bolt E) (ca_fs st)" "encodable (ca_json E) a0" and dist: "distinct (map ApiId a0)"
  shows "\<exists>bs. send_in_batches E (delete_kind E) a0 n st = Ok bs \<and>
    (\<forall>d \<in> set a0. \<not> nothing_due d \<longrightarrow> pending (ca_bolt E) (ca_fs (bs_st bs)) (ApiId d) = None)"
proof -
  note channels = cloud_env.delete_channels [OF cloud_env.intro [OF assms(1)]]
  from batch_channels.send_in_batches_total [OF channels assms(4-7)] obtain bs where
    run: "send_in_batches E (delete_kind E) a0 n st = Ok bs" by blast
  with batch_channels.send_in_batches_done [OF channels run dist com delete_accepted [OF up]]
  show ?thesis by blast
qed

lemma demo_download:
  obtains st' where "sendDownloadRequestInBatches (mem_capi (\<lambda>_. None)) [demo_request ''a'' Downloaded] 1
      (demo_state ''a'') = Ok st'" "pending mem_bolt (ca_fs st') ''a'' = None"
  using download_drain [of "mem_capi (\<lambda>_. None)" "[demo_request ''a'' Downloaded]" 1 "demo_state ''a''"] that
  by (auto simp: mem_bolt_spec mem_commits sendDownloadRequestInBatches_def)

lemma demo_delete:
  obtains st' where "sendDeleteRequestInBatches (mem_capi (\<lambda>_. None)) [demo_request ''DL_a'' Deleted] 1
      (demo_state ''DL_a'') = Ok st'" "pending mem_bolt (ca_fs st') ''DL_a'' = None"
  using delete_drain [of "mem_capi (\<lambda>_. None)" "[demo_request ''DL_a'' Deleted]" 1 "demo_state ''DL_a''"] that
  by (auto simp: mem_bolt_spec mem_commits sendDeleteRequestInBatches_def)

section \<open>Failures\<close>

lemma requeue_stored:
  assumes "bolt_spec (ca_bolt E)" and com: "commits (ca_bolt E)"
    and run: "AddApiDataBackToPendingAPIBucketOrDelete E (Some err) ptrs flag store st = Ok (store', st')"
    and ptr: "pointers ptrs store" and dist: "distinct (map (\<lambda>i. ApiId (store ! i)) ptrs)"
    and enc: "\<forall>i \<in> set ptrs. marshal (ca_json E) (retried (store ! i)) = Inr (enc i) \<and> fits (ApiId (store ! i)) (enc i)"
    and ready: "pending_ready (ca_bolt E) (ca_fs st)"
  shows "\<forall>i \<in> set ptrs. store' ! i = retried (store ! i) \<and>
    pending (ca_bolt E) (ca_fs st') (ApiId (store ! i)) = Some (enc i)"
proof -
  note env = cloud_env.intro [OF assms(1)]
  from run obtain r fs where store': "store' = IncrementRetryCount ptrs store"
    and add: "AddContents (ca_bolt E) (GetIds ptrs store') (GetDataArray (ca_json E) ptrs store') (ca_fs st) = (r, fs)"
    and r: "r \<noteq> Panic" "st' = st\<lparr>ca_fs := fs\<rparr>" by (rule cloud_env.requeue_cases [OF env]) (simp, blast)
  have nth: "store' ! i = retried (store ! i)" if "i \<in> set ptrs" for i
    using that ptr IncrementRetryCount_nth [OF ptr, of i] by (simp add: store' pointers_def)
  have "map ((!) store') ptrs = map (\<lambda>i. retried (store ! i)) ptrs" using nth by simp
  then have data: "GetDataArray (ca_json E) ptrs store' = map enc ptrs"
    using enc by (simp add: GetDataArray_def marshal_all_map)
  have ids: "GetIds ptrs store' = map (\<lambda>i. ApiId (store ! i)) ptrs" using ptr by (simp add: store' GetIds_increment)
  obtain db' where "put_contents (ca_bolt E) (GetIds ptrs store') (GetDataArray (ca_json E) ptrs store')
      (nodesDB (ca_fs st)) = Ok db'"
    using bolt_spec.put_contents_total [OF assms(1), of "nodesDB (ca_fs st)"] ready
    by (fastforce simp: pending_ready_def ids data)
  with com add have "AddContents (ca_bolt E) (GetIds ptrs store') (GetDataArray (ca_json E) ptrs store')
      (ca_fs st) = (Ok (), fs)"
    by (auto simp: AddContents_def fs_update_def commits_def)
  note stored = bolt_spec.AddContents_Ok(3) [OF assms(1) this, unfolded ids data]
  have "zip (map (\<lambda>i. ApiId (store ! i)) ptrs) (map enc ptrs) = map (\<lambda>i. (ApiId (store ! i), enc i)) ptrs"
    by (simp add: zip_map1 zip_map2 zip_same_conv_map)
  with stored dist enc nth r(2) show ?thesis by simp
qed

text \<open>A single request that is due on both channels: the cloud batch goes first.\<close>

lemma single_request:
  assumes "0 < n" "SendCloudTelemetry d" "SendIOTCentralTelemetry d"
    and "flush_content E K \<lparr>bs_store = [d], contentDataBatch = [bk_content K d], contentPropertiesBatch = [bk_props K d],
      contentDataApiBatch = [0], contentPropertiesApiBatch = [0], bs_st = st\<rparr> = Ok bs2"
    and "contentDataBatch bs2 = []" "contentPropertiesBatch bs2 = [bk_props K d]"
    and "flush_props E K bs2 = Ok bs3" "contentDataBatch bs3 = []" "contentPropertiesBatch bs3 = []"
  shows "send_in_batches E K [d] n st = Ok bs3"
proof (cases "n = 1")
  case True
  with assms show ?thesis
    by (simp add: send_in_batches_def batch_item_def add_to_batches_def flush_content_full_def
        flush_props_full_def flush_rest_def)
next
  case False
  with assms show ?thesis
    by (simp add: send_in_batches_def batch_item_def add_to_batches_def flush_content_full_def
        flush_props_full_def flush_rest_def)
qed

lemma repeated_message:
  assumes "bolt_spec (ca_bolt E)" and com: "commits (ca_bolt E)"
    and ready: "pending_ready (ca_bolt E) (ca_fs st)" and n: "0 < n"
    and enc: "marshal (ca_json E) (retried d) = Inr b" "fits (ApiId d) b"
    and flags: "SendCloudTelemetry d" "SendIOTCentralTelemetry d"
    and cloud: "fst (sendDownloadedTelemetryData E False \<lparr>ur_DeviceId = ca_deviceId E, Contents = [download_content d]\<rparr> st) = Some err"
    and iot: "\<And>fs. fst (sendDownloadedTelemetryForIoTCentralGraph E [bk_props (download_kind E) d]
      ((snd (sendDownloadedTelemetryData E False \<lparr>ur_DeviceId = ca_deviceId E, Contents = [download_content d]\<rparr> st))\<lparr>ca_fs := fs\<rparr>)) = None"
  shows "\<exists>st'. sendDownloadRequestInBatches E [d] n st = Ok st' \<and>
    (\<exists>m. (m, True) \<in> set (calls_of AssetDownloadOnDeviceFromSES (ca_logst st')) \<and> m \<in> set (props_messages E [bk_props (download_kind E) d])) \<and>
    pending (ca_bolt E) (ca_fs st') (ApiId d) = Some b"
proof -
  note env = cloud_env.intro [OF assms(1)]
  note ch = cloud_env.download_channels [OF env]
  let ?K = "download_kind E" and ?u = "\<lparr>ur_DeviceId = ca_deviceId E, Contents = [download_content d]\<rparr>"
  let ?bs1 = "\<lparr>bs_store = [d], contentDataBatch = [download_content d], contentPropertiesBatch = [bk_props ?K d],
      contentDataApiBatch = [0], contentPropertiesApiBatch = [0], bs_st = st\<rparr>"
  have ptr: "pointers [0] [d]" "pointers [0] [retried d]" by (simp_all add: pointers_def)
  obtain st1 where send1: "bk_send_content ?K ?u st = (Some err, st1)"
    using cloud by (cases "bk_send_content ?K ?u st") (simp add: download_kind_def)
  have fs1: "ca_fs st1 = ca_fs st" using batch_channels.send_content [OF ch send1] by simp
  have "\<exists>p. AddApiDataBackToPendingAPIBucketOrDelete E (Some err) [0] SendCloudTelemetryFlag [d] st1 = Ok p"
    using bolt_spec.AddContents_no_panic [OF assms(1), of "ca_fs st1" "[ApiId d]" "[b]"] ready fs1 enc
    by (auto simp: AddApiDataBackToPendingAPIBucketOrDelete_def Let_def IncrementRetryCount_def GetIds_def
        GetDataArray_def retried_def split: prod.splits res.splits)
  then obtain store2 st2 where req2: "AddApiDataBackToPendingAPIBucketOrDelete E (Some err) [0]
      SendCloudTelemetryFlag [d] st1 = Ok (store2, st2)" by auto
  have st2: "pending (ca_bolt E) (ca_fs st2) (ApiId d) = Some b" "store2 = [retried d]"
    using requeue_stored [OF assms(1) com req2 ptr(1), where enc = "\<lambda>_. b"] enc ready fs1
      cloud_env.requeue_store(1) [OF env req2 _ ptr(1)] by (auto simp: length_Suc_conv)
  have "st2 = st1\<lparr>ca_fs := ca_fs st2\<rparr>"
    using req2 by (rule cloud_env.requeue_cases [OF env]) (simp, simp)
  then have "st2 = (snd (sendDownloadedTelemetryData E False ?u st))\<lparr>ca_fs := ca_fs st2\<rparr>"
    using send1 by (simp add: download_kind_def)
  then have "fst (sendDownloadedTelemetryForIoTCentralGraph E [bk_props ?K d] st2) = None"
    using iot [of "ca_fs st2"] by metis
  then obtain st3 where send3: "bk_send_props ?K [bk_props ?K d] st2 = (None, st3)"
    by (cases "bk_send_props ?K [bk_props ?K d] st2") (simp add: download_kind_def)
  note log3 = batch_channels.send_props [OF ch send3] batch_channels.props_accepted [OF ch send3]
  have "pending_ready (ca_bolt E) (ca_fs st3)"
    using cloud_env.requeue_fs(1) [OF env req2 _ ptr(1)] ready fs1 log3 by (simp add: pending_ready_def)
  from bolt_spec.fold_delete_no_panic [OF assms(1) this [unfolded pending_ready_def], of "[]"]
  have "\<exists>p. AddApiDataBackToPendingAPIBucketOrDelete E None [0] SendIOTCentralTelemetryFlag [retried d] st3 = Ok p"
    using com flags
    by (simp add: AddApiDataBackToPendingAPIBucketOrDelete_def setTelemetryFlag_def GetApiDataToBeRemovedFromPendingAPI_def
        DeletePendingAPIRequestEntries_def fs_update_def commits_def)
  then obtain store4 st4 where req4: "AddApiDataBackToPendingAPIBucketOrDelete E None [0]
      SendIOTCentralTelemetryFlag [retried d] st3 = Ok (store4, st4)" by auto
  note eff4 = cloud_env.requeue_store [OF env req4 _ ptr(2)]
  have "\<not> nothing_due (store4 ! 0)" using eff4(2) [of 0] flags by (simp add: nothing_due_def)
  with cloud_env.requeue_removes [OF env req4 _ ptr(2) com, of "ApiId d"] log3 st2
  have "pending (ca_bolt E) (ca_fs st4) (ApiId d) = Some b" by simp
  moreover have "\<exists>m. (m, True) \<in> set (calls_of AssetDownloadOnDeviceFromSES (ca_logst st4)) \<and>
      m \<in> set (props_messages E [bk_props ?K d])"
    using log3 eff4(3) by (cases "props_messages E [bk_props ?K d]") auto
  moreover have "send_in_batches E ?K [d] n st = Ok \<lparr>bs_store = store4, contentDataBatch = [], contentPropertiesBatch = [],
      contentDataApiBatch = [], contentPropertiesApiBatch = [], bs_st = st4\<rparr>"
    by (rule single_request [OF n flags, where ?bs2.0 = "\<lparr>bs_store = store2, contentDataBatch = [],
        contentPropertiesBatch = [bk_props ?K d], contentDataApiBatch = [], contentPropertiesApiBatch = [0], bs_st = st2\<rparr>"])
      (use send1 req2 send3 req4 st2 in \<open>simp_all add: flush_content_def flush_props_def\<close>)
  ultimately show ?thesis by (simp add: sendDownloadRequestInBatches_def)
qed

lemma send_in_batches_panics:
  assumes "n < 0 \<or> n = 0 \<and> a0 \<noteq> [] \<and> \<not> (SendCloudTelemetry (hd a0) \<and> SendIOTCentralTelemetry (hd a0))"
  shows "send_in_batches E K a0 n st = Panic"
proof (cases "n < 0")
  case False
  with assms obtain d a where "n = 0" "a0 = d # a" "\<not> (SendCloudTelemetry d \<and> SendIOTCentralTelemetry d)"
    by (cases a0) auto
  then show ?thesis
    by (auto simp: send_in_batches_def batch_item_def add_to_batches_def flush_content_full_def
        flush_props_full_def upt_conv_Cons Let_def simp del: upt_Suc)
qed (simp add: send_in_batches_def)

section \<open>Properties\<close>

text \<open>
  C4: No download telemetry is lost. When a run of the download loop takes a request out of the
  pending bucket, the logger accepted, during that run, a cloud message for a batch with the
  request's content id if the request asked for cloud telemetry, and an IoT Central message for a
  batch with its properties if it asked for that: whatever sends, commits or encodings failed.
\<close>

theorem download_no_loss:
  assumes "bolt_spec (ca_bolt E)" and "sendDownloadRequestInBatches E a0 n st = Ok st'"
    and "distinct (map ApiId a0)" and "d \<in> set a0"
    and "pending (ca_bolt E) (ca_fs st) (ApiId d) \<noteq> None"
    and "pending (ca_bolt E) (ca_fs st') (ApiId d) = None"
  shows "(\<exists>new. calls_of TelemetryCommandMessage (ca_logst st') = calls_of TelemetryCommandMessage (ca_logst st) @ new \<and>
      (SendCloudTelemetry d \<longrightarrow> told (content_messages E ContentDownloaded) new (download_content d))) \<and>
    (\<exists>new. calls_of AssetDownloadOnDeviceFromSES (ca_logst st') =
        calls_of AssetDownloadOnDeviceFromSES (ca_logst st) @ new \<and>
      (SendIOTCentralTelemetry d \<longrightarrow> told (props_messages E) new (bk_props (download_kind E) d)))"
proof -
  note channels = cloud_env.download_channels [OF cloud_env.intro [OF assms(1)]]
  from assms(2) obtain bs where run: "send_in_batches E (download_kind E) a0 n st = Ok bs" and "st' = bs_st bs"
    by (rule download_run)
  with batch_channels.removed_was_sent [OF channels run assms(3,4)] assms(5,6) show ?thesis by simp
qed

theorem download_no_loss_witness:
  "\<exists>st'. sendDownloadRequestInBatches (mem_capi (\<lambda>_. None)) [demo_request ''a'' Downloaded] 1 (demo_state ''a'') = Ok st' \<and>
     told (content_messages (mem_capi (\<lambda>_. None)) ContentDownloaded) (calls_of TelemetryCommandMessage (ca_logst st'))
       \<lparr>ContentId = ''a'', cd_OperationTime = 7\<rparr>"
proof -
  obtain st' where st': "sendDownloadRequestInBatches (mem_capi (\<lambda>_. None)) [demo_request ''a'' Downloaded] 1
      (demo_state ''a'') = Ok st'" "pending mem_bolt (ca_fs st') ''a'' = None" by (rule demo_download)
  with download_no_loss [OF _ st'(1), of "demo_request ''a'' Downloaded"] show ?thesis
    by (simp add: mem_bolt_spec calls_of_def zero_log_def)
qed

text \<open>
  C5: No deletion telemetry is lost, in the same sense; the content id in the message is the key
  without the prefix \<^verbatim>\<open>DL_\<close>.
\<close>

theorem delete_no_loss:
  assumes "bolt_spec (ca_bolt E)" and "sendDeleteRequestInBatches E a0 n st = Ok st'"
    and "distinct (map ApiId a0)" and "d \<in> set a0"
    and "pending (ca_bolt E) (ca_fs st) (ApiId d) \<noteq> None"
    and "pending (ca_bolt E) (ca_fs st') (ApiId d) = None"
  shows "(\<exists>new. calls_of TelemetryCommandMessage (ca_logst st') = calls_of TelemetryCommandMessage (ca_logst st) @ new \<and>
      (SendCloudTelemetry d \<longrightarrow> told (content_messages E ContentDeleted) new (delete_content d))) \<and>
    (\<exists>new. calls_of AssetDeleteOnDeviceByScheduler (ca_logst st') =
        calls_of AssetDeleteOnDeviceByScheduler (ca_logst st) @ new \<and>
      (SendIOTCentralTelemetry d \<longrightarrow> told (props_messages E) new (bk_props (delete_kind E) d)))"
proof -
  note channels = cloud_env.delete_channels [OF cloud_env.intro [OF assms(1)]]
  from assms(2) obtain bs where run: "send_in_batches E (delete_kind E) a0 n st = Ok bs" and "st' = bs_st bs"
    by (rule delete_run)
  with batch_channels.removed_was_sent [OF channels run assms(3,4)] assms(5,6) show ?thesis by simp
qed

theorem delete_no_loss_witness:
  "\<exists>st'. sendDeleteRequestInBatches (mem_capi (\<lambda>_. None)) [demo_request ''DL_a'' Deleted] 1 (demo_state ''DL_a'') = Ok st' \<and>
     told (content_messages (mem_capi (\<lambda>_. None)) ContentDeleted) (calls_of TelemetryCommandMessage (ca_logst st'))
       \<lparr>ContentId = ''a'', cd_OperationTime = 7\<rparr>"
proof -
  obtain st' where st': "sendDeleteRequestInBatches (mem_capi (\<lambda>_. None)) [demo_request ''DL_a'' Deleted] 1
      (demo_state ''DL_a'') = Ok st'" "pending mem_bolt (ca_fs st') ''DL_a'' = None" by (rule demo_delete)
  with delete_no_loss [OF _ st'(1), of "demo_request ''DL_a'' Deleted"] show ?thesis
    by (simp add: mem_bolt_spec calls_of_def zero_log_def TrimPrefix_def HasPrefix_def)
qed

text \<open>
  C18: What the download loop sends. For a positive message size the cloud messages handed to the
  logger are exactly those of the requests that ask for cloud telemetry, in order, cut into
  batches of that size, and likewise for IoT Central; no batch is empty or larger than the size.
\<close>

theorem download_batches:
  assumes "bolt_spec (ca_bolt E)" and "sendDownloadRequestInBatches E a0 (int n) st = Ok st'"
    and "distinct (map ApiId a0)" and "0 < n"
  shows "map fst (calls_of TelemetryCommandMessage (ca_logst st')) =
      map fst (calls_of TelemetryCommandMessage (ca_logst st)) @ concat (map (content_messages E ContentDownloaded)
        (batches n (map download_content (filter SendCloudTelemetry a0)))) \<and>
    map fst (calls_of AssetDownloadOnDeviceFromSES (ca_logst st')) =
      map fst (calls_of AssetDownloadOnDeviceFromSES (ca_logst st)) @ concat (map (props_messages E)
        (batches n (map (bk_props (download_kind E)) (filter SendIOTCentralTelemetry a0)))) \<and>
    (\<forall>b \<in> set (batches n (map download_content (filter SendCloudTelemetry a0))). 0 < length b \<and> length b \<le> n)"
proof -
  note channels = cloud_env.download_channels [OF cloud_env.intro [OF assms(1)]]
  from assms(2) obtain bs where run: "send_in_batches E (download_kind E) a0 (int n) st = Ok bs"
    and "st' = bs_st bs" by (rule download_run)
  with batch_channels.send_in_batches_trace [OF channels run assms(3,4)] batches_bound [OF assms(4)]
  show ?thesis by simp
qed

theorem download_batches_witness:
  "\<exists>st'. sendDownloadRequestInBatches (mem_capi (\<lambda>_. None)) [demo_request ''a'' Downloaded] (int 1) (demo_state ''a'') = Ok st' \<and>
     map fst (calls_of TelemetryCommandMessage (ca_logst st')) = [command_message ContentDownloaded ''a'' False]"
proof -
  obtain st' where st': "sendDownloadRequestInBatches (mem_capi (\<lambda>_. None)) [demo_request ''a'' Downloaded] (int 1)
      (demo_state ''a'') = Ok st'" using demo_download by auto
  with download_batches [OF _ st'] show ?thesis
    by (simp add: mem_bolt_spec calls_of_def zero_log_def content_messages_def)
qed

text \<open>
  What the delete loop sends, in the same sense.
\<close>

theorem delete_batches:
  assumes "bolt_spec (ca_bolt E)" and "sendDeleteRequestInBatches E a0 (int n) st = Ok st'"
    and "distinct (map ApiId a0)" and "0 < n"
  shows "map fst (calls_of TelemetryCommandMessage (ca_logst st')) =
      map fst (calls_of TelemetryCommandMessage (ca_logst st)) @ concat (map (content_messages E ContentDeleted)
        (batches n (map delete_content (filter SendCloudTelemetry a0)))) \<and>
    map fst (calls_of AssetDeleteOnDeviceByScheduler (ca_logst st')) =
      map fst (calls_of AssetDeleteOnDeviceByScheduler (ca_logst st)) @ concat (map (props_messages E)
        (batches n (map (bk_props (delete_kind E)) (filter SendIOTCentralTelemetry a0)))) \<and>
    (\<forall>b \<in> set (batches n (map delete_content (filter SendCloudTelemetry a0))). 0 < length b \<and> length b \<le> n)"
proof -
  note channels = cloud_env.delete_channels [OF cloud_env.intro [OF assms(1)]]
  from assms(2) obtain bs where run: "send_in_batches E (delete_kind E) a0 (int n) st = Ok bs"
    and "st' = bs_st bs" by (rule delete_run)
  with batch_channels.send_in_batches_trace [OF channels run assms(3,4)] batches_bound [OF assms(4)]
  show ?thesis by simp
qed

theorem delete_batches_witness:
  "\<exists>st'. sendDeleteRequestInBatches (mem_capi (\<lambda>_. None)) [demo_request ''DL_a'' Deleted] (int 1) (demo_state ''DL_a'') = Ok st' \<and>
     map fst (calls_of TelemetryCommandMessage (ca_logst st')) = [command_message ContentDeleted ''a'' False]"
proof -
  obtain st' where st': "sendDeleteRequestInBatches (mem_capi (\<lambda>_. None)) [demo_request ''DL_a'' Deleted] (int 1)
      (demo_state ''DL_a'') = Ok st'" using demo_delete by auto
  with delete_batches [OF _ st'] show ?thesis
    by (simp add: mem_bolt_spec calls_of_def zero_log_def content_messages_def TrimPrefix_def HasPrefix_def)
qed

text \<open>
  C17: Progress. The pending bucket exists, the message size is positive, the ids of the requests are different, and
  each of them can be encoded again with other flags and another retry count. When the network accepts
  everything, the messages about the contents can be encoded and transactions commit, a run of the download loop
  returns, and every request it was given that had something to send is gone from the pending bucket.
\<close>

theorem download_drains:
  assumes "bolt_spec (ca_bolt E)" "commits (ca_bolt E)" "network_up E (download_kind E) a0" "0 < n"
    "pending_ready (ca_bolt E) (ca_fs st)" "encodable (ca_json E) a0" "distinct (map ApiId a0)"
  shows "\<exists>st'. sendDownloadRequestInBatches E a0 n st = Ok st' \<and>
    (\<forall>d \<in> set a0. SendCloudTelemetry d \<or> SendIOTCentralTelemetry d \<longrightarrow>
       pending (ca_bolt E) (ca_fs st') (ApiId d) = None)"
  using download_drain [OF assms] by (auto simp: sendDownloadRequestInBatches_def nothing_due_def)

theorem download_drains_witness:
  "\<exists>st'. sendDownloadRequestInBatches (mem_capi (\<lambda>_. None)) [demo_request ''a'' Downloaded] 1 (demo_state ''a'') = Ok st' \<and>
     pending mem_bolt (ca_fs st') ''a'' = None"
  using download_drains [of "mem_capi (\<lambda>_. None)" "[demo_request ''a'' Downloaded]" 1 "demo_state ''a''"]
  by (simp add: mem_bolt_spec mem_commits)

text \<open>
  C19: Failures of the network and of commits cannot crash or leak. When the pending bucket exists, the message size
  is positive, the ids of the requests are different, and each of them can be encoded again with other flags
  and another retry count, then both loops return whatever the network does and whether transactions commit. They
  change nothing but the entries of requests that had something to send, so the content index and the other
  requests stay as they were.
\<close>

theorem loops_return:
  assumes "bolt_spec (ca_bolt E)" "0 < n" "pending_ready (ca_bolt E) (ca_fs st)"
    "encodable (ca_json E) a0" "distinct (map ApiId a0)"
  shows "\<forall>r \<in> {sendDownloadRequestInBatches E a0 n st, sendDeleteRequestInBatches E a0 n st}. \<exists>st'. r = Ok st' \<and>
    (\<forall>b k. b \<noteq> PendingAPIRequestMapping \<or>
       k \<notin> ApiId ` {d \<in> set a0. SendCloudTelemetry d \<or> SendIOTCentralTelemetry d} \<longrightarrow>
       bolt_get (ca_bolt E) (nodesDB (ca_fs st')) b k = bolt_get (ca_bolt E) (nodesDB (ca_fs st)) b k)"
proof -
  note env = cloud_env.intro [OF assms(1)]
  note channels = cloud_env.download_channels [OF env] cloud_env.delete_channels [OF env]
  obtain bs1 where 1: "send_in_batches E (download_kind E) a0 n st = Ok bs1"
    using batch_channels.send_in_batches_total [OF channels(1) assms(2-5)] by blast
  obtain bs2 where 2: "send_in_batches E (delete_kind E) a0 n st = Ok bs2"
    using batch_channels.send_in_batches_total [OF channels(2) assms(2-5)] by blast
  have due: "{d \<in> set a0. \<not> nothing_due d} = {d \<in> set a0. SendCloudTelemetry d \<or> SendIOTCentralTelemetry d}"
    by (auto simp: nothing_due_def)
  from batch_channels.frame [OF channels(1) 1 assms(5)] batch_channels.frame [OF channels(2) 2 assms(5)] 1 2
  show ?thesis by (auto simp: due sendDownloadRequestInBatches_def sendDeleteRequestInBatches_def)
qed

theorem loops_return_witness:
  "\<exists>st'. sendDeleteRequestInBatches (mem_capi (\<lambda>_. Some ''down'')) [demo_request ''DL_a'' Deleted] 1 (demo_state ''DL_a'') = Ok st'"
  using loops_return [of "mem_capi (\<lambda>_. Some ''down'')" 1 "demo_state ''DL_a''" "[demo_request ''DL_a'' Deleted]"]
  by (auto simp: mem_bolt_spec)

text \<open>
  C20: A failed batch is kept. When sending a batch failed and the transaction commits, every
  request of the batch is in the pending bucket afterwards with its retry counter increased by
  one (modulo 2 to the 64) and its flags unchanged, as the bytes of that record.
\<close>

theorem failed_batch_requeued:
  assumes "bolt_spec (ca_bolt E)" and com: "commits (ca_bolt E)"
    and run: "AddApiDataBackToPendingAPIBucketOrDelete E (Some err) ptrs flag store st = Ok (store', st')"
    and ptr: "pointers ptrs store" and dist: "distinct (map (\<lambda>i. ApiId (store ! i)) ptrs)"
    and enc: "\<forall>i \<in> set ptrs. marshal (ca_json E) (retried (store ! i)) = Inr (enc i) \<and> fits (ApiId (store ! i)) (enc i)"
    and ready: "pending_ready (ca_bolt E) (ca_fs st)"
  shows "\<forall>i \<in> set ptrs. store' ! i = (store ! i)\<lparr>RetryCount := RetryCount (store ! i) + 1\<rparr> \<and>
    pending (ca_bolt E) (ca_fs st') (ApiId (store ! i)) = Some (enc i)"
  using requeue_stored [OF assms] by (simp add: retried_def)

theorem failed_batch_requeued_witness:
  "\<exists>store' st'. AddApiDataBackToPendingAPIBucketOrDelete (mem_capi (\<lambda>_. Some ''down'')) (Some ''down'') [0]
       SendCloudTelemetryFlag [demo_request ''a'' Downloaded] (demo_state ''a'') = Ok (store', st') \<and>
     pending mem_bolt (ca_fs st') ''a'' = Some ''+a.+d.+1.+1+1+1+1+1+1+1.+1.+1.''"
proof -
  let ?E = "mem_capi (\<lambda>_. Some ''down'')" and ?store = "[demo_request ''a'' Downloaded]"
  obtain r where "AddApiDataBackToPendingAPIBucketOrDelete ?E (Some ''down'') [0] SendCloudTelemetryFlag
      ?store (demo_state ''a'') = Ok r"
    using mem_cloud.requeue_total [where ?a0.0 = ?store and i = 1 and due = "\<lambda>_. True" and content = ApiId and
        batch = "[''a'']" and store = ?store and ptrs = "[0]" and net = "\<lambda>_. Some ''down''" and
        st = "demo_state ''a''" and err = "Some ''down''" and flag = SendCloudTelemetryFlag]
    by (auto simp: store_inv_def slice_inv_def pointers_def)
  then obtain store' st' where run: "AddApiDataBackToPendingAPIBucketOrDelete ?E (Some ''down'') [0]
      SendCloudTelemetryFlag ?store (demo_state ''a'') = Ok (store', st')" by (cases r) simp
  have seven: "enc_int 7 = ''1111111''" "enc_int 1 = ''1''" by (simp_all add: enc_int_def eval_nat_numeral)
  from run failed_batch_requeued [OF _ _ run, where enc = "\<lambda>_. ''+a.+d.+1.+1+1+1+1+1+1+1.+1.+1.''"] show ?thesis
    by (simp add: mem_bolt_spec mem_commits pointers_def retried_def demo_request_def api_codec_def
        enc_bool_def fits_def max_key_def max_value_def seven)
qed

text \<open>
  Telemetry can be sent twice. When the cloud message of a request fails and its IoT Central
  message is accepted, in the same run, the record in the pending bucket still asks for the IoT
  Central message: the batch is stored back before the flag is cleared and not again after, so
  the next pass sends that message again.
\<close>

theorem iot_message_repeated:
  assumes "bolt_spec (ca_bolt E)" "commits (ca_bolt E)" "pending_ready (ca_bolt E) (ca_fs st)" "0 < n"
    and "json_spec (ca_json E) valid" "valid (retried d)"
    and "marshal (ca_json E) (retried d) = Inr b" "fits (ApiId d) b"
    and "SendCloudTelemetry d" "SendIOTCentralTelemetry d"
    and "fst (sendDownloadedTelemetryData E False \<lparr>ur_DeviceId = ca_deviceId E, Contents = [download_content d]\<rparr> st) = Some err"
    and "\<forall>fs. fst (sendDownloadedTelemetryForIoTCentralGraph E [bk_props (download_kind E) d]
      ((snd (sendDownloadedTelemetryData E False \<lparr>ur_DeviceId = ca_deviceId E, Contents = [download_content d]\<rparr> st))\<lparr>ca_fs := fs\<rparr>)) = None"
  shows "\<exists>st'. sendDownloadRequestInBatches E [d] n st = Ok st' \<and>
    (\<exists>m. (m, True) \<in> set (calls_of AssetDownloadOnDeviceFromSES (ca_logst st')) \<and> m \<in> set (props_messages E [bk_props (download_kind E) d])) \<and>
    pending (ca_bolt E) (ca_fs st') (ApiId d) = Some b \<and>
    SendIOTCentralTelemetry (fst (unmarshal (ca_json E) b))"
  using repeated_message [OF assms(1-4,7-11)] assms(12) json_spec.marshal_valid [OF assms(5,6,7)] assms(10)
  by simp

theorem iot_message_repeated_witness:
  "\<exists>st'. sendDownloadRequestInBatches (mem_capi (\<lambda>n. if n = 0 then Some ''down'' else None))
       [demo_request ''a'' Downloaded] 1 (demo_state ''a'') = Ok st' \<and>
     (\<exists>m. (m, True) \<in> set (calls_of AssetDownloadOnDeviceFromSES (ca_logst st'))) \<and>
     pending mem_bolt (ca_fs st') ''a'' = Some ''+a.+d.+1.+1+1+1+1+1+1+1.+1.+1.''"
proof -
  have seven: "enc_int 7 = ''1111111''" "enc_int 1 = ''1''" by (simp_all add: enc_int_def eval_nat_numeral)
  let ?E = "mem_capi (\<lambda>n. if n = 0 then Some ''down'' else None)"
  have "\<exists>err. fst (sendDownloadedTelemetryData ?E False u (demo_state ''a'')) = Some err" for u
    by (simp add: sendDownloadedTelemetryData_def log_msg_def Log_def isValid_def sendGrpcUpstream_def
        mem_log_env_def zero_log_def)
  then obtain err where "fst (sendDownloadedTelemetryData ?E False \<lparr>ur_DeviceId = ca_deviceId ?E,
      Contents = [download_content (demo_request ''a'' Downloaded)]\<rparr> (demo_state ''a'')) = Some err" by blast
  note cloud = this
  have iot: "\<forall>fs. fst (sendDownloadedTelemetryForIoTCentralGraph ?E ps
      ((snd (sendDownloadedTelemetryData ?E False u (demo_state ''a'')))\<lparr>ca_fs := fs\<rparr>)) = None" for ps u
    by (simp add: sendDownloadedTelemetryData_def sendDownloadedTelemetryForIoTCentralGraph_def log_msg_def
        Log_def isValid_def sendGrpcUpstream_def mem_log_env_def zero_log_def note_call_def)
  have m: "marshal (ca_json ?E) (retried (demo_request ''a'' Downloaded)) = Inr ''+a.+d.+1.+1+1+1+1+1+1+1.+1.+1.''"
    by (simp add: retried_def demo_request_def api_codec_def enc_bool_def seven)
  have f: "fits (ApiId (demo_request ''a'' Downloaded)) ''+a.+d.+1.+1+1+1+1+1+1+1.+1.+1.''"
    by (simp add: fits_def max_key_def max_value_def)
  from iot_message_repeated [of ?E "demo_state ''a''" 1 "\<lambda>_. True" "demo_request ''a'' Downloaded",
      OF _ _ _ _ _ _ m f _ _ cloud iot]
  show ?thesis by (auto simp: mem_bolt_spec mem_commits mem_api.json_spec_axioms)
qed

text \<open>
  The message size must be positive. A negative size, or size 0 when the first request lacks
  one of the two flags, makes both loops panic.
\<close>

theorem batch_size_panics:
  assumes "n < 0 \<or> n = 0 \<and> a0 \<noteq> [] \<and> \<not> (SendCloudTelemetry (hd a0) \<and> SendIOTCentralTelemetry (hd a0))"
  shows "sendDownloadRequestInBatches E a0 n st = Panic \<and> sendDeleteRequestInBatches E a0 n st = Panic"
  using send_in_batches_panics [OF assms, of E "download_kind E" st]
    send_in_batches_panics [OF assms, of E "delete_kind E" st]
  by (simp add: sendDownloadRequestInBatches_def sendDeleteRequestInBatches_def)

theorem batch_size_panics_witness:
  "sendDownloadRequestInBatches (mem_capi (\<lambda>_. None)) [zero_ApiData] 0 (demo_state ''a'') = Panic"
  using batch_size_panics [of 0 "[zero_ApiData]" "mem_capi (\<lambda>_. None)" "demo_state ''a''"]
  by (simp add: zero_ApiData_def)

end
