(* ===== verification/Asset_Map.thy ===== *)
theory Asset_Map
  imports Cloud_Batches "HOL-Library.Signed_Division"
begin

text \<open>
  The periodic asset map of \<^verbatim>\<open>src/cloudapihandler/api_handler.go\<close> (lines 573 to 651): once at least
  an hour has passed since the last one, all content on the device is reported in batches, and
  the time of the report is kept in the device's ini file.
\<close>

section \<open>Sending the map\<close>

text \<open>
  The loop over the assets and the final send: it stops at the first record that does not parse
  and at the first batch that is not accepted.
\<close>

fun assetmap_loop ::
    "'db capi \<Rightarrow> int \<Rightarrow> (string \<times> bytes) list \<Rightarrow> ContentData list \<Rightarrow> 'db capi_state \<Rightarrow>
     error option \<times> 'db capi_state" where
  "assetmap_loop E messageSize [] contentBatch st =
     (if contentBatch = [] then (None, st)
      else sendDownloadedTelemetryData E True \<lparr>ur_DeviceId = ca_deviceId E, Contents = contentBatch\<rparr> st)"
| "assetmap_loop E messageSize ((i, v) # items) contentBatch st =
     (case unmarshal (ca_info E) v of
        (_, Some err) \<Rightarrow> (Some err, st)
      | (contentInfo, None) \<Rightarrow>
          let batch = contentBatch @ [\<lparr>ContentId = i, cd_OperationTime = DownloadTime contentInfo\<rparr>] in
          if int (length batch) = messageSize
          then (case sendDownloadedTelemetryData E True \<lparr>ur_DeviceId = ca_deviceId E, Contents = batch\<rparr> st of
                  (Some err, st) \<Rightarrow> (Some err, st)
                | (None, st) \<Rightarrow> assetmap_loop E messageSize items [] st)
          else assetmap_loop E messageSize items batch st)"

text \<open>\<open>order\<close> is the order in which the Go runtime ranges over the map of the assets.\<close>

definition sendAssetmapInBatches ::
    "'db capi \<Rightarrow> ((string \<times> bytes) list \<Rightarrow> (string \<times> bytes) list) \<Rightarrow> int \<Rightarrow> 'db capi_state \<Rightarrow>
     (error option \<times> 'db capi_state) res" where
  "sendAssetmapInBatches E order messageSize st =
     (case GetAssetInfoMapItems (ca_bolt E) (ca_fs st) of
        Err err \<Rightarrow> Ok (Some err, st)
      | Panic \<Rightarrow> Panic
      | Diverge \<Rightarrow> Diverge
      | Ok assetMap \<Rightarrow>
          if messageSize < 0 then Panic else Ok (assetmap_loop E messageSize (order assetMap) [] st))"

section \<open>The scheduler\<close>

text \<open>
  The ini file of the device: \<open>timestamp_key\<close> is the text of \<^verbatim>\<open>ASSETMAP_TIMESTAMP\<close> in memory,
  \<open>saved_key\<close> the text in the file. \<open>parseInt\<close> and \<open>formatInt\<close> are the conversions of the ini
  library and of \<^verbatim>\<open>strconv\<close>, \<open>saveTo\<close> is what saving the file returns.
\<close>

record 'db assetmap_state =
  timestamp_key :: string
  saved_key :: string
  am_capi :: "'db capi_state"

definition wrap64 :: "int \<Rightarrow> int" where
  "wrap64 x = (x + 2 ^ 63) mod 2 ^ 64 - 2 ^ 63"

text \<open>One iteration of \<^verbatim>\<open>HandleAssetMapRequest\<close> at the time \<open>currentTimestamp\<close>.\<close>

definition HandleAssetMapRequest_pass ::
    "'db capi \<Rightarrow> ((string \<times> bytes) list \<Rightarrow> (string \<times> bytes) list) \<Rightarrow> (string \<Rightarrow> int option) \<Rightarrow> (int \<Rightarrow> string) \<Rightarrow>
     error option \<Rightarrow> int \<Rightarrow> int \<Rightarrow> 'db assetmap_state \<Rightarrow> 'db assetmap_state res" where
  "HandleAssetMapRequest_pass E order parseInt formatInt saveTo messageSize currentTimestamp s =
     (let lastTimestamp = (case parseInt (timestamp_key s) of None \<Rightarrow> 0 | Some t \<Rightarrow> t);
          timeElapsedInHr = wrap64 (currentTimestamp - lastTimestamp) sdiv 60 sdiv 60
      in if 1 \<le> timeElapsedInHr
         then bind_res (sendAssetmapInBatches E order messageSize (am_capi s))
           (\<lambda>(err, st). case err of
               Some _ \<Rightarrow> Ok (s\<lparr>am_capi := st\<rparr>)
             | None \<Rightarrow>
                 let s' = s\<lparr>am_capi := st, timestamp_key := formatInt currentTimestamp\<rparr>
                 in Ok (if saveTo = None then s'\<lparr>saved_key := timestamp_key s'\<rparr> else s'))
         else Ok s)"

section \<open>Completeness of a report\<close>

definition assetmap_messages :: "'db capi \<Rightarrow> ContentData list \<Rightarrow> MessageSubType list" where
  "assetmap_messages E cs =
     (case ca_update E \<lparr>ur_DeviceId = ca_deviceId E, Contents = cs\<rparr> of
        Inl _ \<Rightarrow> [] | Inr body \<Rightarrow> [command_message ContentDownloaded body True])"

lemma assetmap_send:
  assumes "sendDownloadedTelemetryData E True \<lparr>ur_DeviceId = ca_deviceId E, Contents = cs\<rparr> st = (err, st')"
  shows "ca_fs st' = ca_fs st"
    and "calls_of TelemetryCommandMessage (ca_logst st') = calls_of TelemetryCommandMessage (ca_logst st) @
      map (\<lambda>m. (m, err = None)) (assetmap_messages E cs)"
    and "err = None \<Longrightarrow> assetmap_messages E cs \<noteq> []"
  using assms by (auto simp: sendDownloadedTelemetryData_def assetmap_messages_def dest!: log_msg_calls split: sum.splits)

lemma assetmap_loop_complete:
  assumes "assetmap_loop E n items batch st = (None, st')"
  shows "\<exists>new. calls_of TelemetryCommandMessage (ca_logst st') = calls_of TelemetryCommandMessage (ca_logst st) @ new \<and>
    (\<forall>c \<in> set batch. told (assetmap_messages E) new c) \<and>
    (\<forall>(i, v) \<in> set items. snd (unmarshal (ca_info E) v) = None \<and> told (assetmap_messages E) new
       \<lparr>ContentId = i, cd_OperationTime = DownloadTime (fst (unmarshal (ca_info E) v))\<rparr>)"
  using assms
proof (induction items arbitrary: batch st)
  case Nil
  show ?case
  proof (cases "batch = []")
    case False
    with Nil have "sendDownloadedTelemetryData E True \<lparr>ur_DeviceId = ca_deviceId E, Contents = batch\<rparr> st = (None, st')"
      by simp
    from assetmap_send(2,3) [OF this] told_sent [of "assetmap_messages E" batch _ "[]"] show ?thesis by auto
  qed (use Nil in auto)
next
  case (Cons item items)
  obtain i v where item: "item = (i, v)" by (cases item)
  obtain info where info: "unmarshal (ca_info E) v = (info, None)"
    using Cons.prems item by (cases "unmarshal (ca_info E) v") (auto split: option.splits)
  define c where "c = \<lparr>ContentId = i, cd_OperationTime = DownloadTime info\<rparr>"
  show ?case
  proof (cases "int (length (batch @ [c])) = n")
    case True
    with Cons.prems item info obtain st1 where
      send: "sendDownloadedTelemetryData E True \<lparr>ur_DeviceId = ca_deviceId E, Contents = batch @ [c]\<rparr> st = (None, st1)"
      and rest: "assetmap_loop E n items [] st1 = (None, st')"
      by (auto simp: c_def Let_def split: prod.splits option.splits)
    from Cons.IH [OF rest] obtain new where
      new: "calls_of TelemetryCommandMessage (ca_logst st') = calls_of TelemetryCommandMessage (ca_logst st1) @ new"
        "\<forall>(i, v) \<in> set items. snd (unmarshal (ca_info E) v) = None \<and> told (assetmap_messages E) new
           \<lparr>ContentId = i, cd_OperationTime = DownloadTime (fst (unmarshal (ca_info E) v))\<rparr>" by blast
    let ?m = "map (\<lambda>m. (m, True)) (assetmap_messages E (batch @ [c]))"
    have "told (assetmap_messages E) (?m @ new) x" if "x \<in> set (batch @ [c])" for x
      using told_append [OF told_sent [of "assetmap_messages E" "batch @ [c]" x "[]"], of new]
        assetmap_send(3) [OF send] that by simp
    moreover have "told (assetmap_messages E) (?m @ new) x" if "told (assetmap_messages E) new x" for x
      using that by (auto simp: told_def)
    ultimately show ?thesis
      using new assetmap_send(2) [OF send] item info by (intro exI [of _ "?m @ new"]) (auto simp: c_def)
  next
    case False
    with Cons.prems item info have "assetmap_loop E n items (batch @ [c]) st = (None, st')"
      by (simp add: c_def Let_def)
    from Cons.IH [OF this] item info show ?thesis by (fastforce simp: c_def)
  qed
qed

lemma hours_elapsed: "1 \<le> (x :: int) sdiv 60 sdiv 60 \<longleftrightarrow> 3600 \<le> x"
proof (cases "0 \<le> x")
  case True
  then have "x sdiv 60 sdiv 60 = x div 60 div 60"
    by (cases "x = 0") (auto simp: signed_divide_int_def sgn_if pos_imp_zdiv_pos_iff not_le)
  also have "\<dots> = x div 3600" by (simp add: zdiv_zmult2_eq [symmetric])
  finally show ?thesis using pos_imp_zdiv_pos_iff [of 3600 x] by linarith
next
  case False
  then show ?thesis by (auto simp: signed_divide_int_def sgn_if abs_if split: if_splits)
qed

lemma wrap64_id: "- (2 ^ 63) \<le> x \<Longrightarrow> x < 2 ^ 63 \<Longrightarrow> wrap64 x = x"
  by (simp add: wrap64_def mod_pos_pos_trivial)

section \<open>Properties\<close>

text \<open>
  C33: A report is complete. When \<open>sendAssetmapInBatches\<close> returns nil, every content in the index
  was part of an accepted asset-map message of this call, with its download time, in whatever
  order the map was ranged over and whatever the message size.
\<close>

theorem assetmap_complete:
  assumes "bolt_spec (ca_bolt E)" and "\<forall>xs. set (order xs) = set xs"
    and "sendAssetmapInBatches E order n st = Ok (None, st')"
  shows "\<exists>new. calls_of TelemetryCommandMessage (ca_logst st') = calls_of TelemetryCommandMessage (ca_logst st) @ new \<and>
    (\<forall>i v. assets (ca_bolt E) (ca_fs st) i = Some v \<longrightarrow> told (assetmap_messages E) new
       \<lparr>ContentId = i, cd_OperationTime = DownloadTime (fst (unmarshal (ca_info E) v))\<rparr>)"
proof -
  let ?items = "bolt_items (ca_bolt E) (nodesDB (ca_fs st)) AssetPathMapping"
  have "assetmap_loop E n (order ?items) [] st = (None, st')"
    using assms(3) by (auto simp: sendAssetmapInBatches_def GetAssetInfoMapItems_def bucket_items_def split: if_splits)
  from assetmap_loop_complete [OF this] assms(2) bolt_spec.items_iff [OF assms(1), of _ _ "nodesDB (ca_fs st)" AssetPathMapping]
  show ?thesis by fastforce
qed

theorem assetmap_complete_witness:
  "\<exists>st'. sendAssetmapInBatches (mem_capi (\<lambda>_. None)) rev 5 (mem_state (mem_fs [(''a'', ''+1.+p.+c.'')] [] [])) = Ok (None, st') \<and>
     told (assetmap_messages (mem_capi (\<lambda>_. None))) (calls_of TelemetryCommandMessage (ca_logst st'))
       \<lparr>ContentId = ''a'', cd_OperationTime = 1\<rparr>"
proof -
  let ?st = "mem_state (mem_fs [(''a'', ''+1.+p.+c.'')] [] [])"
  obtain st' where run: "sendAssetmapInBatches (mem_capi (\<lambda>_. None)) rev 5 ?st = Ok (None, st')"
    by (simp add: sendAssetmapInBatches_def GetAssetInfoMapItems_def bucket_items_def mem_defs mem_fs_def
        info_codec_def sendDownloadedTelemetryData_def log_msg_def Log_def isValid_def sendGrpcUpstream_def mem_log_env_def)
  from assetmap_complete [OF _ _ run] obtain new where
    new: "calls_of TelemetryCommandMessage (ca_logst st') = calls_of TelemetryCommandMessage zero_log @ new"
    and all: "\<And>i v. map_of [(''a'', ''+1.+p.+c.'')] i = Some v \<Longrightarrow> told (assetmap_messages (mem_capi (\<lambda>_. None))) new
       \<lparr>ContentId = i, cd_OperationTime = DownloadTime (fst (unmarshal info_codec v))\<rparr>"
    by (auto simp: mem_bolt_spec simp del: map_of.simps)
  have "told (assetmap_messages (mem_capi (\<lambda>_. None))) new \<lparr>ContentId = ''a'', cd_OperationTime = 1\<rparr>"
    using all [of "''a''" "''+1.+p.+c.''"] by (simp add: info_codec_def dec_int_def)
  with run new show ?thesis by (simp add: calls_of_def zero_log_def)
qed

text \<open>
  C34: The asset map is sent at most once an hour. As long as less than 3600 seconds have passed
  since the recorded time (the difference taken without overflow), a pass changes nothing; from
  then on it sends the map, and it moves the recorded time to the current one exactly when the
  whole map was accepted.
\<close>

theorem assetmap_hourly:
  fixes parseInt :: "string \<Rightarrow> int option" and s :: "'db assetmap_state"
  defines "prev \<equiv> (case parseInt (timestamp_key s) of None \<Rightarrow> 0 | Some t \<Rightarrow> t)"
  assumes "- (2 ^ 63) \<le> now - prev" "now - prev < 2 ^ 63"
    and "HandleAssetMapRequest_pass E order parseInt formatInt saveTo n now s = Ok s'"
  shows "(now - prev < 3600 \<longrightarrow> s' = s) \<and>
    (3600 \<le> now - prev \<longrightarrow> (\<exists>err st. sendAssetmapInBatches E order n (am_capi s) = Ok (err, st) \<and> am_capi s' = st \<and>
       timestamp_key s' = (if err = None then formatInt now else timestamp_key s)))"
  using assms(4) unfolding HandleAssetMapRequest_pass_def prev_def [symmetric] wrap64_id [OF assms(2,3)] hours_elapsed Let_def
  by (auto split: if_splits option.splits)

theorem assetmap_hourly_witness:
  "HandleAssetMapRequest_pass (mem_capi (\<lambda>_. None)) rev (\<lambda>_. None) (\<lambda>_. ''t'') None 5 3599
     \<lparr>timestamp_key = [], saved_key = [], am_capi = mem_state (mem_fs [] [] [])\<rparr> =
   Ok \<lparr>timestamp_key = [], saved_key = [], am_capi = mem_state (mem_fs [] [] [])\<rparr>"
proof -
  let ?s = "\<lparr>timestamp_key = [], saved_key = [], am_capi = mem_state (mem_fs [] [] [])\<rparr>"
  obtain s' where run: "HandleAssetMapRequest_pass (mem_capi (\<lambda>_. None)) rev (\<lambda>_. None) (\<lambda>_. ''t'') None 5 3599 ?s = Ok s'"
    by (simp add: HandleAssetMapRequest_pass_def wrap64_id hours_elapsed Let_def)
  with assetmap_hourly [OF _ _ run] show ?thesis by simp
qed

end
