(* ===== verification/Satellite_Sync.thy ===== *)
theory Satellite_Sync
  imports Cloud_Batches
begin

text \<open>
  The satellite synchronisation of \<^verbatim>\<open>src/satdata_mstore.go\<close> (lines 111 to 362): each poll asks the
  satellite receiver for the contents it holds, indexes the new ones, removes those that are gone
  from the index, and queues a request to the cloud for each of them.

  Parameters, collected in \<open>sat_env\<close>: the HTTP client (the answer to the \<open>n\<close>-th request: an error of
  \<^verbatim>\<open>http.Get\<close> or of reading the body, or the body), the JSON decoders of the answers, the clock,
  and the text of an asset's size in megabytes.
\<close>

section \<open>Data\<close>

record ListContent =
  ContentID :: string

record VodList =
  vl_Status :: string
  ListContents :: "ListContent list"

record VodInfo =
  vod_Status :: string
  Title :: string
  Contentid :: string
  Contentbroadcastcommandid :: string
  MovieId :: string
  ValidityStartDate :: int
  ValidityEndDate :: int
  CID :: string
  VideoFilename :: string
  TrailerFilename :: string
  CoverFilename :: string
  URLForDataFiles :: string
  DataFiles :: "(string \<times> int) list"
  ThumbnailFilename :: string

record DeletedContentsInfo =
  SesCid :: string
  del_CommandId :: string

record 'db sat_env =
  se_capi :: "'db capi"
  http_get :: "nat \<Rightarrow> string \<Rightarrow> error + bytes"
  dec_list :: "bytes \<Rightarrow> VodList \<times> error option"
  dec_vod :: "bytes \<Rightarrow> VodInfo \<times> error option"
  se_now :: "nat \<Rightarrow> int"
  size_text :: "string \<Rightarrow> string" \<comment> \<open>\<^verbatim>\<open>fmt.Sprintf("%2f", getDirSizeinMB(path))\<close>\<close>

record 'db sat_state =
  ss_capi :: "'db capi_state"
  http_calls :: nat
  clock_reads :: nat

abbreviation ss_fs :: "'db sat_state \<Rightarrow> 'db FileSystem" where
  "ss_fs st \<equiv> ca_fs (ss_capi st)"

definition set_fs :: "'db FileSystem \<Rightarrow> 'db sat_state \<Rightarrow> 'db sat_state" where
  "set_fs fs st = st\<lparr>ss_capi := (ss_capi st)\<lparr>ca_fs := fs\<rparr>\<rparr>"

text \<open>A message whose delivery the caller does not check.\<close>

definition log_quiet :: "'db sat_env \<Rightarrow> string \<Rightarrow> MessageSubType \<Rightarrow> 'db sat_state \<Rightarrow> 'db sat_state" where
  "log_quiet S ev sm st = st\<lparr>ss_capi := snd (log_msg (se_capi S) ev sm (ss_capi st))\<rparr>"

definition totalAssetsCount :: "'db sat_env \<Rightarrow> int \<Rightarrow> 'db sat_state \<Rightarrow> 'db sat_state" where
  "totalAssetsCount S assetCount =
     log_quiet S TotalNumberOfAssetsOnTheDevice (zero_MessageSubType\<lparr>Integer := assetCount\<rparr>)"

definition log_error :: "'db sat_env \<Rightarrow> string \<Rightarrow> 'db sat_state \<Rightarrow> 'db sat_state" where
  "log_error S text = log_quiet S Error (zero_MessageSubType\<lparr>StringMessage := text\<rparr>)"

section \<open>New contents\<close>

definition download_request :: "string \<Rightarrow> int \<Rightarrow> string \<Rightarrow> string \<Rightarrow> string \<Rightarrow> string \<Rightarrow> ApiData" where
  "download_request contentid downlaodTime cid assetSize commandId pathToAsset =
     \<lparr>ApiId = contentid, ApiType = Downloaded, RetryCount = 0, OperationTime = downlaodTime,
      SendCloudTelemetry = True, SendIOTCentralTelemetry = True,
      Properties = [\<lparr>Key = ''sesCid'', Value = cid\<rparr>, \<lparr>Key = ''size'', Value = assetSize\<rparr>,
        \<lparr>Key = ''commandId'', Value = commandId\<rparr>, \<lparr>Key = ''containerLocation'', Value = pathToAsset\<rparr>]\<rparr>"

definition content_info :: "VodInfo \<Rightarrow> int \<Rightarrow> string \<Rightarrow> string \<Rightarrow> ContentInfoOnDevice" where
  "content_info vod downlaodTime containerStorage deviceStorage =
     \<lparr>DownloadTime = downlaodTime,
      FolderPath = Replace1 (VideoFilename vod) deviceStorage containerStorage,
      CommandId = Contentbroadcastcommandid vod\<rparr>"

definition getMstoreFiles ::
    "'db sat_env \<Rightarrow> VodInfo \<Rightarrow> string \<Rightarrow> string \<Rightarrow> 'db sat_state \<Rightarrow> ((string \<times> error option) \<times> 'db sat_state) res" where
  "getMstoreFiles S vod containerStorage deviceStorage st =
     (let E = se_capi S; B = ca_bolt E; cid = CID vod; contentid = Contentid vod in
      bind_res (DoesContentIdExist B (ss_fs st) contentid) (\<lambda>found.
      if found then Ok ((contentid, None), st)
      else
        let downlaodTime = se_now S (clock_reads st);
            st = st\<lparr>clock_reads := Suc (clock_reads st)\<rparr>;
            contentInfo = content_info vod downlaodTime containerStorage deviceStorage
        in (case marshal (ca_info E) contentInfo of
              Inl err \<Rightarrow> Ok ((contentid, Some err), st)
            | Inr contentInfoByteArr \<Rightarrow>
                (case CreateSatelliteIndexing B cid contentid contentInfoByteArr (ss_fs st) of
                   (Err err, fs) \<Rightarrow> Ok ((contentid, Some err), set_fs fs st)
                 | (Panic, _) \<Rightarrow> Panic
                 | (Diverge, _) \<Rightarrow> Diverge
                 | (Ok _, fs) \<Rightarrow>
                     let pathToAsset = Dir (FolderPath contentInfo);
                         apidata = download_request contentid downlaodTime cid (size_text S pathToAsset)
                           (Contentbroadcastcommandid vod) pathToAsset
                     in bind_res (PrintBuckets B fs) (\<lambda>_.
                       case marshal (ca_json E) apidata of
                         Inl _ \<Rightarrow> Ok ((contentid, None), set_fs fs st)
                       | Inr data \<Rightarrow>
                           (case AddContent B contentid data fs of
                              (Panic, _) \<Rightarrow> Panic
                            | (_, fs) \<Rightarrow> Ok ((contentid, None), set_fs fs st)))))))"

definition getMetadataAPI ::
    "'db sat_env \<Rightarrow> string \<Rightarrow> string \<Rightarrow> string \<Rightarrow> 'db sat_state \<Rightarrow> (error option \<times> 'db sat_state) res" where
  "getMetadataAPI S contentId containerStorage deviceStorage st =
     (let query = ''http://host.docker.internal:8134/getmetadata/'' @ contentId;
          answer = http_get S (http_calls st) query;
          st = st\<lparr>http_calls := Suc (http_calls st)\<rparr>
      in case answer of
           Inl err \<Rightarrow> Ok (Some err, st)
         | Inr jsonRes \<Rightarrow>
             (case dec_vod S jsonRes of
                (_, Some jsonErr) \<Rightarrow> Ok (Some jsonErr, st)
              | (vod, None) \<Rightarrow>
                  if vod_Status vod = ''15''
                  then Ok (Some (''getMetadataAPI: No metadata available for CID '' @ contentId @ '' ''), st)
                  else if Contentid vod = [] then Ok (None, st)
                  else bind_res (getMstoreFiles S vod containerStorage deviceStorage st)
                    (\<lambda>((heirarchy, err), st). case err of
                        None \<Rightarrow> Ok (None, st)
                      | Some err \<Rightarrow>
                          Ok (Some err, st\<lparr>ss_capi := (ss_capi st)\<lparr>ca_logst :=
                            Log_old (ca_logger (se_capi S)) (ca_log (se_capi S)) ''Telemetry'' ''ContentSyncInfo''
                              [(''DownloadStatus'', ''FAIL''), (''FolderPath'', heirarchy), (''Channel'', ''SES'')]
                              (ca_logst (ss_capi st))\<rparr>\<rparr>))))"

section \<open>Deleted contents\<close>

definition delete_request :: "string \<Rightarrow> int \<Rightarrow> DeletedContentsInfo \<Rightarrow> ApiData" where
  "delete_request contentId time info =
     \<lparr>ApiId = ''DL_'' @ contentId, ApiType = Deleted, RetryCount = 0, OperationTime = time,
      SendCloudTelemetry = True, SendIOTCentralTelemetry = True,
      Properties = [\<lparr>Key = ''sesCid'', Value = SesCid info\<rparr>, \<lparr>Key = ''commandId'', Value = del_CommandId info\<rparr>]\<rparr>"

definition zero_info :: DeletedContentsInfo where
  "zero_info = \<lparr>SesCid = [], del_CommandId = []\<rparr>"

definition info_at :: "(string \<rightharpoonup> DeletedContentsInfo) \<Rightarrow> string \<Rightarrow> DeletedContentsInfo" where
  "info_at m k = (case m k of None \<Rightarrow> zero_info | Some i \<Rightarrow> i)"

text \<open>The two loops that fill \<^verbatim>\<open>deletedContentsInfoMap\<close> (lines 299 to 310).\<close>

definition note_command :: "'db sat_env \<Rightarrow> 'db FileSystem \<Rightarrow> string \<Rightarrow> (string \<rightharpoonup> DeletedContentsInfo) \<Rightarrow>
    (string \<rightharpoonup> DeletedContentsInfo) res" where
  "note_command S fs i m =
     bind_res (GetBroadcastCommandId (ca_bolt (se_capi S)) (ca_info (se_capi S)) fs i)
       (\<lambda>(commandId, _). Ok (m(i \<mapsto> zero_info\<lparr>del_CommandId := commandId\<rparr>)))"

definition note_cid :: "'db sat_env \<Rightarrow> 'db FileSystem \<Rightarrow> string \<Rightarrow> (string \<rightharpoonup> DeletedContentsInfo) \<Rightarrow>
    (string \<rightharpoonup> DeletedContentsInfo) res" where
  "note_cid S fs i m =
     bind_res (GetContentIdFromSatelliteId (ca_bolt (se_capi S)) fs i)
       (\<lambda>(contentId, _). Ok (m(contentId \<mapsto> (info_at m contentId)\<lparr>SesCid := i\<rparr>)))"

definition queue_deleted :: "'db sat_env \<Rightarrow> (string \<rightharpoonup> DeletedContentsInfo) \<Rightarrow> string \<Rightarrow> 'db sat_state \<Rightarrow> 'db sat_state res" where
  "queue_deleted S m contentId st =
     (let apidata = delete_request contentId (se_now S (clock_reads st)) (info_at m contentId);
          st = st\<lparr>clock_reads := Suc (clock_reads st)\<rparr>
      in case marshal (ca_json (se_capi S)) apidata of
           Inl _ \<Rightarrow> Ok st
         | Inr data \<Rightarrow>
             (case AddContent (ca_bolt (se_capi S)) (ApiId apidata) data (ss_fs st) of
                (Panic, _) \<Rightarrow> Panic
              | (_, fs) \<Rightarrow> Ok (set_fs fs st)))"

text \<open>\<open>order\<close> is the order in which the Go runtime ranges over the satellite map.\<close>

definition gone :: "VodList \<Rightarrow> (string \<times> string) list \<Rightarrow> (string \<times> string) list" where
  "gone vodlist satAssetMap = filter (\<lambda>(key, _). key \<notin> ContentID ` set (ListContents vodlist)) satAssetMap"

definition handleDeletedContents ::
    "'db sat_env \<Rightarrow> ((string \<times> string) list \<Rightarrow> (string \<times> string) list) \<Rightarrow> VodList \<Rightarrow> 'db sat_state \<Rightarrow>
     (error option \<times> 'db sat_state) res" where
  "handleDeletedContents S order vodlist st =
     (let B = ca_bolt (se_capi S) in
      bind_res (GetSatelliteMappedItems B (ss_fs st)) (\<lambda>satAssetMap.
      let deleted = gone vodlist (order satAssetMap);
          deletedSatelliteIds = map fst deleted;
          deletedContentIds = map snd deleted
      in bind_res (fold_res (note_command S (ss_fs st)) deletedContentIds Map.empty) (\<lambda>m.
         bind_res (fold_res (note_cid S (ss_fs st)) deletedSatelliteIds m) (\<lambda>m.
         case DeleteSatelliteIds B deletedSatelliteIds (ss_fs st) of
           (Panic, _) \<Rightarrow> Panic
         | (Diverge, _) \<Rightarrow> Diverge
         | (Err err, fs) \<Rightarrow> Ok (Some err, set_fs fs st)
         | (Ok _, fs) \<Rightarrow>
             (case DeleteAssetMapping B deletedContentIds fs of
                (Panic, _) \<Rightarrow> Panic
              | (Diverge, _) \<Rightarrow> Diverge
              | (Err err, fs) \<Rightarrow> Ok (Some err, set_fs fs st)
              | (Ok _, fs) \<Rightarrow>
                  bind_res (fold_res (queue_deleted S m) deletedContentIds (set_fs fs st))
                    (\<lambda>st. Ok (None, st)))))))"

section \<open>A poll\<close>

definition sync_content ::
    "'db sat_env \<Rightarrow> string \<Rightarrow> string \<Rightarrow> ListContent \<Rightarrow> 'db sat_state \<Rightarrow> 'db sat_state res" where
  "sync_content S containerStorage deviceStorage i st =
     bind_res (getMetadataAPI S (ContentID i) containerStorage deviceStorage st)
       (\<lambda>(err, st). case err of None \<Rightarrow> Ok st | Some e \<Rightarrow> Ok (log_error S (''SatdataMstore: '' @ e) st))"

definition checkForVODViaMstore ::
    "'db sat_env \<Rightarrow> ((string \<times> string) list \<Rightarrow> (string \<times> string) list) \<Rightarrow> string \<Rightarrow> string \<Rightarrow> 'db sat_state \<Rightarrow>
     (error option \<times> 'db sat_state) res" where
  "checkForVODViaMstore S order containerStorage deviceStorage st =
     (let answer = http_get S (http_calls st) ''http://host.docker.internal:8134/listcontents'';
          st = st\<lparr>http_calls := Suc (http_calls st)\<rparr>
      in case answer of
           Inl err \<Rightarrow> Ok (Some err, st)
         | Inr jsonRes \<Rightarrow>
             (case dec_list S jsonRes of
                (_, Some jsonErr) \<Rightarrow> Ok (Some jsonErr, st)
              | (vodlist, None) \<Rightarrow>
                  bind_res (fold_res (sync_content S containerStorage deviceStorage) (ListContents vodlist)
                      (totalAssetsCount S (int (length (ListContents vodlist))) st)) (\<lambda>st.
                  bind_res (handleDeletedContents S order vodlist st) (\<lambda>(_, st).
                  bind_res (PrintBuckets (ca_bolt (se_capi S)) (ss_fs st)) (\<lambda>_.
                  Ok (None, st))))))"

text \<open>One iteration of the endless loop of \<^verbatim>\<open>pollMstore\<close> (lines 113 to 119).\<close>

definition pollMstore_pass ::
    "'db sat_env \<Rightarrow> ((string \<times> string) list \<Rightarrow> (string \<times> string) list) \<Rightarrow> string \<Rightarrow> string \<Rightarrow> 'db sat_state \<Rightarrow>
     'db sat_state res" where
  "pollMstore_pass S order containerStorage deviceStorage st =
     bind_res (checkForVODViaMstore S order containerStorage deviceStorage st)
       (\<lambda>(err, st). case err of None \<Rightarrow> Ok st | Some e \<Rightarrow> Ok (log_error S (''SatdataMstore: '' @ e) st))"

section \<open>What a step can change\<close>

lemma ss_fs_simps [simp]:
  "ss_fs (set_fs fs st) = fs" "ss_fs (log_quiet S ev sm st) = ss_fs st" "ss_fs (log_error S t st) = ss_fs st"
  "ss_fs (totalAssetsCount S n st) = ss_fs st"
proof -
  show log: "ss_fs (log_quiet S ev sm st) = ss_fs st" for S ev sm and st :: "'b sat_state"
    by (cases "log_msg (se_capi S) ev sm (ss_capi st)") (auto simp: log_quiet_def dest: log_msg_calls)
  show "ss_fs (log_error S t st) = ss_fs st" "ss_fs (totalAssetsCount S n st) = ss_fs st"
    by (simp_all add: log_error_def totalAssetsCount_def log)
qed (simp add: set_fs_def)

text \<open>Two states of the store that differ at most in pending requests.\<close>

definition same_index :: "'db bolt \<Rightarrow> 'db FileSystem \<Rightarrow> 'db FileSystem \<Rightarrow> bool" where
  "same_index B fs fs' \<longleftrightarrow> (\<forall>b. bolt_bucket B (nodesDB fs') b = bolt_bucket B (nodesDB fs) b) \<and>
     (\<forall>b k. b \<noteq> PendingAPIRequestMapping \<longrightarrow> bolt_get B (nodesDB fs') b k = bolt_get B (nodesDB fs) b k)"

lemma same_index_refl [simp]: "same_index B fs fs"
  by (simp add: same_index_def)

lemma same_index_trans: "same_index B fs1 fs2 \<Longrightarrow> same_index B fs2 fs3 \<Longrightarrow> same_index B fs1 fs3"
  by (simp add: same_index_def)

lemma same_index_get:
  assumes "same_index B fs fs'"
  shows "assets B fs' a = assets B fs a" "satellites B fs' c = satellites B fs c"
  using assms by (simp_all add: same_index_def)

lemma same_index_inv: "same_index B fs fs' \<Longrightarrow> index_inv B fs' = index_inv B fs"
  by (simp add: index_inv_def has_buckets_def same_index_def)

lemma index_inv_shrink:
  assumes "index_inv B fs" "has_buckets B fs'" "\<And>a. assets B fs' a = assets B fs a"
    and sub: "\<And>k a. satellites B fs' k = Some a \<Longrightarrow> satellites B fs k = Some a"
  shows "index_inv B fs'"
  unfolding index_inv_def
proof (intro conjI allI impI)
  fix c1 c2 a assume "satellites B fs' c1 = Some a" "satellites B fs' c2 = Some a"
  with sub have "satellites B fs c1 = Some a" "satellites B fs c2 = Some a" by blast+
  with assms(1) show "c1 = c2" by (simp add: index_inv_def)
next
  fix c a assume "satellites B fs' c = Some a"
  with sub have "satellites B fs c = Some a" by blast
  with assms(1,3) show "assets B fs' a \<noteq> None" by (simp add: index_inv_def)
qed (rule assms)

lemma index_inv_bucket: "index_inv B fs \<Longrightarrow> bolt_bucket B (nodesDB fs) AssetPathMapping"
  "index_inv B fs \<Longrightarrow> bolt_bucket B (nodesDB fs) SatelliteIdtoAssetIdMapping" "index_inv B fs \<Longrightarrow> pending_ready B fs"
  by (simp_all add: index_inv_def has_buckets_def pending_ready_def)

context bolt_spec
begin

lemma AddContent_same_index:
  assumes "AddContent B k v fs = (r, fs')"
  shows "same_index B fs fs'"
  using assms unfolding AddContent_def
proof (cases rule: fs_update_cases)
  case applied
  from put_logged_Ok(1,2) [OF applied(2)] show ?thesis by (auto simp: same_index_def)
qed simp

end

locale sat_hub = cloud_env "se_capi S" for S :: "'db sat_env"
begin

abbreviation "B \<equiv> ca_bolt (se_capi S)"

lemma getMstoreFiles_cases:
  assumes "getMstoreFiles S vod cs ds st = Ok ((h, err), st')"
  obtains (found) "assets B (ss_fs st) (Contentid vod) \<noteq> None" "err = None" "st' = st"
  | (failed) e where "assets B (ss_fs st) (Contentid vod) = None" "err = Some e" "ss_fs st' = ss_fs st"
  | (indexed) bytes fs where "assets B (ss_fs st) (Contentid vod) = None" "err = None"
      "marshal (ca_info (se_capi S)) (content_info vod (se_now S (clock_reads st)) cs ds) = Inr bytes"
      "CreateSatelliteIndexing B (CID vod) (Contentid vod) bytes (ss_fs st) = (Ok (), fs)"
      "same_index B fs (ss_fs st')"
  using assms CreateSatelliteIndexing_failed
  by (auto simp: getMstoreFiles_def DoesContentIdExist_def bucket_get_def Let_def AddContent_same_index
      split: if_splits sum.splits prod.splits res.splits)

lemma getMstoreFiles_inv:
  assumes "getMstoreFiles S vod cs ds st = Ok ((h, err), st')" "index_inv B (ss_fs st)"
  shows "index_inv B (ss_fs st')"
  using assms(1)
proof (cases rule: getMstoreFiles_cases)
  case (indexed bytes fs)
  with CreateSatelliteIndexing_inv [OF indexed(4) assms(2)] show ?thesis
    by (simp add: same_index_inv [OF indexed(5)])
qed (use assms in simp_all)

lemma getMetadataAPI_cases:
  assumes "getMetadataAPI S i cs ds st = Ok (err, st')"
  obtains (skipped) "ss_fs st' = ss_fs st"
  | (files) jsonRes vod h st1 where "http_get S (http_calls st) (''http://host.docker.internal:8134/getmetadata/'' @ i) = Inr jsonRes"
      "dec_vod S jsonRes = (vod, None)" "vod_Status vod \<noteq> ''15''" "Contentid vod \<noteq> []"
      "getMstoreFiles S vod cs ds (st\<lparr>http_calls := Suc (http_calls st)\<rparr>) = Ok ((h, err), st1)" "ss_fs st' = ss_fs st1"
  using assms
  by (fastforce simp: getMetadataAPI_def Let_def split: sum.splits prod.splits option.splits if_splits)

lemma getMetadataAPI_inv:
  assumes "getMetadataAPI S i cs ds st = Ok (err, st')" "index_inv B (ss_fs st)"
  shows "index_inv B (ss_fs st')"
  using assms(1)
proof (cases rule: getMetadataAPI_cases)
  case (files jsonRes vod h st1)
  with getMstoreFiles_inv [OF files(5)] assms(2) show ?thesis by simp
qed (use assms in simp)

lemma sync_content_inv:
  assumes "sync_content S cs ds i st = Ok st'" "index_inv B (ss_fs st)"
  shows "index_inv B (ss_fs st')"
proof -
  from assms(1) obtain err st1 where "getMetadataAPI S (ContentID i) cs ds st = Ok (err, st1)" "ss_fs st' = ss_fs st1"
    by (auto simp: sync_content_def split: option.splits)
  with getMetadataAPI_inv assms(2) show ?thesis by simp
qed

text \<open>What a removal knows about the contents that are gone.\<close>

definition known_info :: "'db FileSystem \<Rightarrow> string \<times> string \<Rightarrow> DeletedContentsInfo" where
  "known_info fs = (\<lambda>(k, a). \<lparr>SesCid = k, del_CommandId =
     CommandId (fst (unmarshal (ca_info (se_capi S)) (case assets B fs a of None \<Rightarrow> [] | Some i \<Rightarrow> i)))\<rparr>)"

lemma fold_note_command:
  assumes "fold_res (note_command S fs) ids m = Ok m'"
  shows "m' a = (if a \<in> set ids then Some \<lparr>SesCid = [], del_CommandId = del_CommandId (known_info fs (k, a))\<rparr> else m a)"
  using assms
proof (induction ids arbitrary: m)
  case (Cons i ids)
  then obtain m1 where m1: "note_command S fs i m = Ok m1" "fold_res (note_command S fs) ids m1 = Ok m'" by auto
  have "m1 = m(i \<mapsto> \<lparr>SesCid = [], del_CommandId = del_CommandId (known_info fs (k, i))\<rparr>)"
    using m1(1) by (cases "unmarshal (ca_info (se_capi S)) (case assets B fs i of None \<Rightarrow> [] | Some i \<Rightarrow> i)")
      (simp add: note_command_def GetBroadcastCommandId_def bucket_get_def known_info_def zero_info_def split: if_splits)
  with Cons.IH [OF m1(2)] show ?case by (simp add: known_info_def)
qed simp

lemma fold_note_cid:
  assumes "fold_res (note_cid S fs) (map fst ps) m = Ok m'"
    and "\<forall>(k, a) \<in> set ps. satellites B fs k = Some a" and "distinct (map snd ps)"
  shows "(k, a) \<in> set ps \<Longrightarrow> info_at m' a = (info_at m a)\<lparr>SesCid := k\<rparr>"
    and "a \<notin> snd ` set ps \<Longrightarrow> m' a = m a"
proof -
  have "((k, a) \<in> set ps \<longrightarrow> info_at m' a = (info_at m a)\<lparr>SesCid := k\<rparr>) \<and> (a \<notin> snd ` set ps \<longrightarrow> m' a = m a)"
    using assms
  proof (induction ps arbitrary: m)
    case (Cons p ps)
    obtain k0 a0 where p: "p = (k0, a0)" by (cases p)
    define m1 where "m1 = m(a0 \<mapsto> (info_at m a0)\<lparr>SesCid := k0\<rparr>)"
    obtain m2 where m2: "note_cid S fs k0 m = Ok m2" "fold_res (note_cid S fs) (map fst ps) m2 = Ok m'"
      using Cons.prems(1) p by auto
    have "satellites B fs k0 = Some a0" using Cons.prems(2) p by simp
    with m2(1) have "m2 = m1"
      by (simp add: note_cid_def GetContentIdFromSatelliteId_def bucket_get_def m1_def split: if_splits)
    with m2(2) have "fold_res (note_cid S fs) (map fst ps) m1 = Ok m'" by simp
    from Cons.IH [OF this] Cons.prems p show ?case by (force simp: m1_def info_at_def)
  qed simp
  then show "(k, a) \<in> set ps \<Longrightarrow> info_at m' a = (info_at m a)\<lparr>SesCid := k\<rparr>"
    and "a \<notin> snd ` set ps \<Longrightarrow> m' a = m a" by blast+
qed

lemma queue_deleted_cases:
  assumes "queue_deleted S m a st = Ok st'"
  obtains (kept) e where "marshal (ca_json (se_capi S)) (delete_request a (se_now S (clock_reads st)) (info_at m a)) = Inl e"
      "ss_fs st' = ss_fs st"
  | (added) data r where "marshal (ca_json (se_capi S)) (delete_request a (se_now S (clock_reads st)) (info_at m a)) = Inr data"
      "AddContent B (''DL_'' @ a) data (ss_fs st) = (r, ss_fs st')" "r \<noteq> Panic"
  using assms
  by (auto simp: queue_deleted_def Let_def delete_request_def split: sum.splits prod.splits res.splits)

lemma queue_deleted_same_index: "queue_deleted S m a st = Ok st' \<Longrightarrow> same_index B (ss_fs st) (ss_fs st')"
  by (erule queue_deleted_cases) (auto intro: AddContent_same_index)

lemma fold_queue_same_index:
  "fold_res (queue_deleted S m) ids st = Ok st' \<Longrightarrow> same_index B (ss_fs st) (ss_fs st')"
  by (erule fold_res_invariant [where P = "\<lambda>s. same_index B (ss_fs st) (ss_fs s)"])
    (auto intro: same_index_trans dest: queue_deleted_same_index)

abbreviation listed :: "VodList \<Rightarrow> string set" where
  "listed vl \<equiv> ContentID ` set (ListContents vl)"

abbreviation sat_items :: "'db FileSystem \<Rightarrow> (string \<times> string) list" where
  "sat_items fs \<equiv> bolt_items B (nodesDB fs) SatelliteIdtoAssetIdMapping"

lemma set_gone:
  assumes "\<forall>xs. mset (order xs) = mset xs"
  shows "(k, a) \<in> set (gone vl (order (sat_items fs))) \<longleftrightarrow> satellites B fs k = Some a \<and> k \<notin> listed vl"
proof -
  have "set (order (sat_items fs)) = set (sat_items fs)" by (rule mset_eq_setD) (simp add: assms)
  then show ?thesis using items_iff [of k a "nodesDB fs" SatelliteIdtoAssetIdMapping] by (auto simp: gone_def)
qed

lemma distinct_gone:
  assumes "\<forall>xs. mset (order xs) = mset xs" "index_inv B fs"
  shows "distinct (map snd (gone vl (order (sat_items fs))))"
proof -
  have "distinct (map fst (order (sat_items fs)))"
    using items_distinct distinct_map_of_mset_eq [of "order (sat_items fs)" "sat_items fs" fst] assms(1) by simp
  then have "distinct (gone vl (order (sat_items fs)))"
    by (simp add: gone_def distinct_map)
  moreover have "inj_on snd (set (gone vl (order (sat_items fs))))"
  proof (rule inj_onI)
    fix p q assume pq: "p \<in> set (gone vl (order (sat_items fs)))" "q \<in> set (gone vl (order (sat_items fs)))" "snd p = snd q"
    then have "satellites B fs (fst p) = Some (snd p)" "satellites B fs (fst q) = Some (snd q)"
      using set_gone [OF assms(1)] by (metis prod.collapse)+
    with assms(2) pq(3) show "p = q" by (metis index_inv_def prod.expand)
  qed
  ultimately show ?thesis by (simp add: distinct_map)
qed

lemma handleDeleted_cases:
  assumes run: "handleDeletedContents S order vl st = Ok (err, st')"
    and order: "\<forall>xs. mset (order xs) = mset xs" and inv: "index_inv B (ss_fs st)"
  defines "del \<equiv> gone vl (order (sat_items (ss_fs st)))"
  obtains (sat_failed) e where "err = Some e" "ss_fs st' = ss_fs st"
  | (asset_failed) e where "err = Some e" "DeleteSatelliteIds B (map fst del) (ss_fs st) = (Ok (), ss_fs st')"
  | (removed) fs1 fs2 m where "err = None" "DeleteSatelliteIds B (map fst del) (ss_fs st) = (Ok (), fs1)"
      "DeleteAssetMapping B (map snd del) fs1 = (Ok (), fs2)"
      "fold_res (queue_deleted S m) (map snd del) (set_fs fs2 st) = Ok st'"
      "\<And>k a. (k, a) \<in> set del \<Longrightarrow> info_at m a = known_info (ss_fs st) (k, a)"
proof -
  from run obtain m1 m where m1: "fold_res (note_command S (ss_fs st)) (map snd del) Map.empty = Ok m1"
    and m: "fold_res (note_cid S (ss_fs st)) (map fst del) m1 = Ok m"
    by (auto simp: handleDeletedContents_def GetSatelliteMappedItems_def bucket_items_def Let_def del_def split: if_splits)
  have "info_at m a = known_info (ss_fs st) (k, a)" if "(k, a) \<in> set del" for k a
  proof -
    have "\<forall>(k, a) \<in> set del. satellites B (ss_fs st) k = Some a" using set_gone [OF order] by (auto simp: del_def)
    note cid = fold_note_cid(1) [OF m this distinct_gone [OF order inv, of vl, folded del_def] that]
    have "a \<in> set (map snd del)" using that by force
    with cid fold_note_command [OF m1, of a k] show ?thesis by (simp add: info_at_def known_info_def)
  qed
  moreover have unchanged: "DeleteSatelliteIds B ids fs = (Err e, fs') \<Longrightarrow> fs' = fs"
    "DeleteAssetMapping B ids fs = (Err e, fs') \<Longrightarrow> fs' = fs" for ids fs e fs'
    unfolding DeleteSatelliteIds_def DeleteAssetMapping_def by (auto dest: fs_update_not_Ok)
  ultimately show ?thesis
    using run m1 m sat_failed asset_failed removed
    by (auto simp: handleDeletedContents_def GetSatelliteMappedItems_def bucket_items_def Let_def del_def
        split: if_splits prod.splits res.splits dest!: unchanged)
qed

lemma deleted_index:
  assumes del1: "DeleteSatelliteIds B (map fst del) fs = (Ok (), fs1)"
    and del2: "DeleteAssetMapping B (map snd del) fs1 = (Ok (), fs2)" and inv: "index_inv B fs"
    and del: "\<And>k a. (k, a) \<in> set del \<longleftrightarrow> satellites B fs k = Some a \<and> k \<notin> L"
  shows "satellites B fs2 k = (if k \<in> L then satellites B fs k else None)"
    and "assets B fs2 a = (if \<exists>k. satellites B fs k = Some a \<and> k \<notin> L then None else assets B fs a)"
    and "index_inv B fs2" and "pending B fs2 = pending B fs"
proof -
  note e1 = DeleteSatelliteIds_Ok [OF del1] and e2 = DeleteAssetMapping_Ok [OF del2]
  have keys: "k \<in> set (map fst del) \<longleftrightarrow> satellites B fs k \<noteq> None \<and> k \<notin> L" for k
    using del by force
  have vals: "a \<in> set (map snd del) \<longleftrightarrow> (\<exists>k. satellites B fs k = Some a \<and> k \<notin> L)" for a
    using del by force
  show sat: "satellites B fs2 k = (if k \<in> L then satellites B fs k else None)" for k
    unfolding e2(1) e1(1) keys by auto
  show ass: "assets B fs2 a = (if \<exists>k. satellites B fs k = Some a \<and> k \<notin> L then None else assets B fs a)" for a
    unfolding e2(1) e1(1) vals by auto
  show "pending B fs2 = pending B fs" by (rule ext) (simp add: e1(1) e2(1))
  have "has_buckets B fs2" using inv by (simp add: index_inv_def has_buckets_def e1(2) e2(2))
  moreover have "assets B fs2 a \<noteq> None" if "satellites B fs2 k = Some a" for k a
  proof -
    have k: "k \<in> L" "satellites B fs k = Some a" using that by (auto simp: sat split: if_splits)
    then have "\<not> (\<exists>k'. satellites B fs k' = Some a \<and> k' \<notin> L)" using inv unfolding index_inv_def by metis
    with k(2) inv show ?thesis by (simp add: ass index_inv_def)
  qed
  moreover have "k1 = k2" if "satellites B fs2 k1 = Some a" "satellites B fs2 k2 = Some a" for k1 k2 a
    using that inv by (auto simp: sat index_inv_def split: if_splits)
  ultimately show "index_inv B fs2" by (simp add: index_inv_def)
qed

lemma handleDeleted_inv:
  assumes run: "handleDeletedContents S order vl st = Ok (err, st')"
    and order: "\<forall>xs. mset (order xs) = mset xs" and inv: "index_inv B (ss_fs st)"
  shows "index_inv B (ss_fs st')"
  using assms
proof (cases rule: handleDeleted_cases)
  case (asset_failed e)
  note e1 = DeleteSatelliteIds_Ok [OF asset_failed(2)]
  have sub: "satellites B (ss_fs st') k = Some a \<Longrightarrow> satellites B (ss_fs st) k = Some a" for k a
    by (simp add: e1(1) split: if_splits)
  have "assets B (ss_fs st') a = assets B (ss_fs st) a" for a by (simp add: e1(1))
  moreover have "has_buckets B (ss_fs st')" using inv by (simp add: index_inv_def has_buckets_def e1(2))
  ultimately show ?thesis using index_inv_shrink [OF inv] sub by blast
next
  case (removed fs1 fs2 m)
  from deleted_index(3) [OF removed(2,3) inv set_gone [OF order]] fold_queue_same_index [OF removed(4)]
  show ?thesis by (simp add: same_index_inv)
qed (use inv in simp)

lemma AddContent_commits:
  assumes "commits B" "AddContent B k v fs = (r, fs')" "r \<noteq> Panic"
  shows "r = Ok ()"
proof -
  have "put_logged B PendingAPIRequestMapping k v (nodesDB fs) \<noteq> Panic"
    using assms(2,3) fs_update_Panic [of "put_logged B PendingAPIRequestMapping k v" fs] by (simp add: AddContent_def)
  then have "bolt_bucket B (nodesDB fs) PendingAPIRequestMapping"
    by (auto simp: put_logged_def bucket_put_def split: if_splits)
  then obtain db where "put_logged B PendingAPIRequestMapping k v (nodesDB fs) = Ok db"
    using put_logged_total by blast
  with assms(1,2) show ?thesis by (auto simp: AddContent_def fs_update_def commits_def)
qed

lemma queue_deleted_other:
  assumes "queue_deleted S m a st = Ok st'" "k \<noteq> ''DL_'' @ a"
  shows "pending B (ss_fs st') k = pending B (ss_fs st) k"
  using assms(1)
proof (cases rule: queue_deleted_cases)
  case (added data r)
  from content_queue.add_other [OF added(2) assms(2)] show ?thesis .
qed simp

lemma queue_deleted_stored:
  assumes run: "queue_deleted S m a st = Ok st'" and "commits B"
    and enc: "\<forall>n. \<exists>data. marshal (ca_json (se_capi S)) (delete_request a (se_now S n) (info_at m a)) = Inr data \<and> fits (''DL_'' @ a) data"
  shows "\<exists>n data. marshal (ca_json (se_capi S)) (delete_request a (se_now S n) (info_at m a)) = Inr data \<and>
    pending B (ss_fs st') (''DL_'' @ a) = Some data"
  using run
proof (cases rule: queue_deleted_cases)
  case (kept e)
  with enc show ?thesis by (metis Inl_Inr_False)
next
  case (added data r)
  then have "AddContent B (''DL_'' @ a) data (ss_fs st) = (Ok (), ss_fs st')"
    using AddContent_commits [OF assms(2) added(2,3)] by simp
  moreover have "fits (''DL_'' @ a) data" using enc added(1) by (metis sum.inject(2))
  ultimately have "pending B (ss_fs st') (''DL_'' @ a) = Some data"
    using content_queue.add_Ok [of "''DL_'' @ a" data "ss_fs st" "()" "ss_fs st'"] by simp
  with added(1) show ?thesis by blast
qed

lemma fold_queue_other:
  "fold_res (queue_deleted S m) ids st = Ok st' \<Longrightarrow> k \<notin> (@) ''DL_'' ` set ids \<Longrightarrow>
   pending B (ss_fs st') k = pending B (ss_fs st) k"
proof (induction ids arbitrary: st)
  case (Cons a ids)
  then obtain st1 where "queue_deleted S m a st = Ok st1" "fold_res (queue_deleted S m) ids st1 = Ok st'" by auto
  with Cons queue_deleted_other [of m a st st1 k] show ?case by auto
qed simp

lemma fold_queue_stored:
  assumes "fold_res (queue_deleted S m) ids st = Ok st'" "distinct ids" "commits B"
    and "\<forall>a \<in> set ids. \<forall>n. \<exists>data. marshal (ca_json (se_capi S)) (delete_request a (se_now S n) (info_at m a)) = Inr data \<and>
      fits (''DL_'' @ a) data"
  shows "\<forall>a \<in> set ids. \<exists>n data. marshal (ca_json (se_capi S)) (delete_request a (se_now S n) (info_at m a)) = Inr data \<and>
    pending B (ss_fs st') (''DL_'' @ a) = Some data"
  using assms
proof (induction ids arbitrary: st)
  case (Cons a ids)
  then obtain st1 where 1: "queue_deleted S m a st = Ok st1" and 2: "fold_res (queue_deleted S m) ids st1 = Ok st'" by auto
  have "pending B (ss_fs st') (''DL_'' @ a) = pending B (ss_fs st1) (''DL_'' @ a)"
    using fold_queue_other [OF 2, of "''DL_'' @ a"] Cons.prems(2) by auto
  with queue_deleted_stored [OF 1 assms(3)] Cons.IH [OF 2] Cons.prems show ?case by simp
qed simp

lemma removed_contents:
  assumes run: "handleDeletedContents S order vl st = Ok (None, st')"
    and order: "\<forall>xs. mset (order xs) = mset xs" and inv: "index_inv B (ss_fs st)"
  shows "satellites B (ss_fs st') k = (if k \<in> listed vl then satellites B (ss_fs st) k else None)"
    and "assets B (ss_fs st') a =
      (if \<exists>k. satellites B (ss_fs st) k = Some a \<and> k \<notin> listed vl then None else assets B (ss_fs st) a)"
    and "(\<And>k a. satellites B (ss_fs st) k = Some a \<Longrightarrow> k \<notin> listed vl \<Longrightarrow> key \<noteq> ''DL_'' @ a) \<Longrightarrow>
      pending B (ss_fs st') key = pending B (ss_fs st) key"
    and "commits B \<Longrightarrow> satellites B (ss_fs st) k = Some a \<Longrightarrow> k \<notin> listed vl \<Longrightarrow>
      (\<And>k a n. satellites B (ss_fs st) k = Some a \<Longrightarrow> k \<notin> listed vl \<Longrightarrow>
        \<exists>data. marshal (ca_json (se_capi S)) (delete_request a (se_now S n) (known_info (ss_fs st) (k, a))) = Inr data \<and>
          fits (''DL_'' @ a) data) \<Longrightarrow>
      \<exists>n data. marshal (ca_json (se_capi S)) (delete_request a (se_now S n) (known_info (ss_fs st) (k, a))) = Inr data \<and>
        pending B (ss_fs st') (''DL_'' @ a) = Some data"
proof -
  define del where "del = gone vl (order (sat_items (ss_fs st)))"
  from assms obtain fs1 fs2 m where d1: "DeleteSatelliteIds B (map fst del) (ss_fs st) = (Ok (), fs1)"
    and d2: "DeleteAssetMapping B (map snd del) fs1 = (Ok (), fs2)"
    and q: "fold_res (queue_deleted S m) (map snd del) (set_fs fs2 st) = Ok st'"
    and m: "\<And>k a. (k, a) \<in> set del \<Longrightarrow> info_at m a = known_info (ss_fs st) (k, a)"
    by (cases rule: handleDeleted_cases) (auto simp: del_def)
  have del: "(k, a) \<in> set del \<longleftrightarrow> satellites B (ss_fs st) k = Some a \<and> k \<notin> listed vl" for k a
    unfolding del_def by (rule set_gone [OF order])
  note idx = deleted_index [OF d1 d2 inv del] and same = fold_queue_same_index [OF q]
  show "satellites B (ss_fs st') k = (if k \<in> listed vl then satellites B (ss_fs st) k else None)"
    using idx(1) same_index_get(2) [OF same] by simp
  show "assets B (ss_fs st') a =
      (if \<exists>k. satellites B (ss_fs st) k = Some a \<and> k \<notin> listed vl then None else assets B (ss_fs st) a)"
    using idx(2) same_index_get(1) [OF same] by simp
  show "pending B (ss_fs st') key = pending B (ss_fs st) key"
    if "\<And>k a. satellites B (ss_fs st) k = Some a \<Longrightarrow> k \<notin> listed vl \<Longrightarrow> key \<noteq> ''DL_'' @ a"
    using fold_queue_other [OF q, of key] that del idx(4) by force
  assume "commits B" and ka: "satellites B (ss_fs st) k = Some a" "k \<notin> listed vl"
    and enc: "\<And>k a n. satellites B (ss_fs st) k = Some a \<Longrightarrow> k \<notin> listed vl \<Longrightarrow>
        \<exists>data. marshal (ca_json (se_capi S)) (delete_request a (se_now S n) (known_info (ss_fs st) (k, a))) = Inr data \<and>
          fits (''DL_'' @ a) data"
  have "\<forall>a \<in> set (map snd del). \<forall>n. \<exists>data. marshal (ca_json (se_capi S)) (delete_request a (se_now S n) (info_at m a)) = Inr data \<and>
      fits (''DL_'' @ a) data"
    using enc m del by auto
  from fold_queue_stored [OF q distinct_gone [OF order inv, of vl, folded del_def] \<open>commits B\<close> this]
  have "\<exists>n data. marshal (ca_json (se_capi S)) (delete_request a (se_now S n) (info_at m a)) = Inr data \<and>
      pending B (ss_fs st') (''DL_'' @ a) = Some data" using ka del by force
  then show "\<exists>n data. marshal (ca_json (se_capi S)) (delete_request a (se_now S n) (known_info (ss_fs st) (k, a))) = Inr data \<and>
        pending B (ss_fs st') (''DL_'' @ a) = Some data"
    using m [of k a] ka del by simp
qed

lemma poll_cases:
  assumes "pollMstore_pass S order cs ds st = Ok st'"
  obtains (no_list) "ss_fs st' = ss_fs st"
  | (list) jsonRes vl st0 st1 err st2 where
      "http_get S (http_calls st) ''http://host.docker.internal:8134/listcontents'' = Inr jsonRes"
      "dec_list S jsonRes = (vl, None)" "ss_fs st0 = ss_fs st"
      "fold_res (sync_content S cs ds) (ListContents vl) st0 = Ok st1"
      "handleDeletedContents S order vl st1 = Ok (err, st2)" "ss_fs st' = ss_fs st2"
proof (cases "http_get S (http_calls st) ''http://host.docker.internal:8134/listcontents''")
  case (Inl e)
  with assms no_list show ?thesis by (auto simp: pollMstore_pass_def checkForVODViaMstore_def Let_def)
next
  case (Inr jsonRes)
  obtain vl jerr where dec: "dec_list S jsonRes = (vl, jerr)" by (cases "dec_list S jsonRes")
  show ?thesis
  proof (cases jerr)
    case None
    with assms Inr dec obtain st1 err st2 where *:
      "fold_res (sync_content S cs ds) (ListContents vl)
        (totalAssetsCount S (int (length (ListContents vl))) (st\<lparr>http_calls := Suc (http_calls st)\<rparr>)) = Ok st1"
      "handleDeletedContents S order vl st1 = Ok (err, st2)" "st' = st2"
      by (auto simp: pollMstore_pass_def checkForVODViaMstore_def Let_def)
    show ?thesis by (rule list [OF Inr _ _ *(1,2)]) (use dec None *(3) in simp_all)
  next
    case (Some e)
    with assms Inr dec no_list show ?thesis by (auto simp: pollMstore_pass_def checkForVODViaMstore_def Let_def)
  qed
qed

lemma poll_inv:
  assumes "pollMstore_pass S order cs ds st = Ok st'" "\<forall>xs. mset (order xs) = mset xs" "index_inv B (ss_fs st)"
  shows "index_inv B (ss_fs st')"
  using assms(1)
proof (cases rule: poll_cases)
  case (list jsonRes vl st0 st1 err st2)
  have "index_inv B (ss_fs st1)"
    by (rule fold_res_invariant [OF list(4)]) (use assms list sync_content_inv in auto)
  with handleDeleted_inv [OF list(5) assms(2)] list show ?thesis by simp
qed (use assms in simp)

lemma getMstoreFiles_request:
  assumes run: "getMstoreFiles S vod cs ds st = Ok ((h, None), st')" and "assets B (ss_fs st) (Contentid vod) = None"
    and com: "commits B"
  defines "t \<equiv> se_now S (clock_reads st)" and "dir \<equiv> Dir (Replace1 (VideoFilename vod) ds cs)"
  assumes enc: "marshal (ca_json (se_capi S)) (download_request (Contentid vod) t (CID vod) (size_text S dir)
        (Contentbroadcastcommandid vod) dir) = Inr data" "fits (Contentid vod) data"
  shows "pending B (ss_fs st') (Contentid vod) = Some data"
proof -
  from run assms(2) enc(1) obtain fs r where "AddContent B (Contentid vod) data fs = (r, ss_fs st')" "r \<noteq> Panic"
    by (auto simp: getMstoreFiles_def DoesContentIdExist_def bucket_get_def Let_def t_def dir_def content_info_def
        split: if_splits sum.splits prod.splits res.splits)
  with AddContent_commits [OF com this] content_queue.add_Ok [OF enc(2), of fs "()" "ss_fs st'"] show ?thesis by simp
qed

text \<open>With the three buckets in place a poll always returns.\<close>

lemma CreateSatelliteIndexing_no_panic:
  assumes "has_buckets B fs"
  shows "fst (CreateSatelliteIndexing B c a v fs) \<noteq> Panic \<and> fst (CreateSatelliteIndexing B c a v fs) \<noteq> Diverge"
proof -
  have "bucket_put B SatelliteIdtoAssetIdMapping c a (nodesDB fs) = Ok db \<Longrightarrow> bolt_bucket B db AssetPathMapping" for db
    using bucket_put_Ok(2) [of SatelliteIdtoAssetIdMapping c a "nodesDB fs" db AssetPathMapping] assms
    by (simp add: has_buckets_def)
  then show ?thesis using assms
    by (auto simp: CreateSatelliteIndexing_def fs_update_Panic fs_update_Diverge bind_res_eq_Panic bind_res_eq_Diverge
        has_buckets_def) (auto simp: bucket_put_def split: if_splits)
qed

lemma PrintBuckets_Ok: "has_buckets B fs \<Longrightarrow> \<exists>items. PrintBuckets B fs = Ok items"
  by (simp add: PrintBuckets_def has_buckets_def bucket_items_def)

lemma getMstoreFiles_total:
  assumes "index_inv B (ss_fs st)"
  shows "\<exists>r. getMstoreFiles S vod cs ds st = Ok r"
proof -
  have has: "has_buckets B (ss_fs st)" using assms by (simp add: index_inv_def)
  have add: "AddContent B k v fs \<noteq> (Panic, fs')" if "has_buckets B fs" for k v fs fs'
    using content_queue.add_no_panic [of fs k v] that by (auto simp: has_buckets_def pending_ready_def)
  let ?info = "content_info vod (se_now S (clock_reads st)) cs ds"
  note unfold = getMstoreFiles_def DoesContentIdExist_def bucket_get_def Let_def
  show ?thesis
  proof (cases "assets B (ss_fs st) (Contentid vod) = None \<and> (\<exists>bytes. marshal (ca_info (se_capi S)) ?info = Inr bytes)")
    case True
    then obtain bytes where new: "assets B (ss_fs st) (Contentid vod) = None"
      "marshal (ca_info (se_capi S)) ?info = Inr bytes" by blast
    obtain r fs where create: "CreateSatelliteIndexing B (CID vod) (Contentid vod) bytes (ss_fs st) = (r, fs)"
      by (meson surj_pair)
    show ?thesis
    proof (cases r)
      case (Ok u)
      then have "has_buckets B fs"
        using CreateSatelliteIndexing_Ok(1) [of "CID vod" "Contentid vod" bytes "ss_fs st" u fs] create has
        by (simp add: has_buckets_def)
      with Ok new create has PrintBuckets_Ok [OF this] add [OF this] show ?thesis
        by (auto simp: unfold has_buckets_def split: sum.splits prod.splits res.splits)
    qed (use new create has CreateSatelliteIndexing_no_panic [OF has, of "CID vod" "Contentid vod" bytes]
        in \<open>auto simp: unfold has_buckets_def\<close>)
  qed (use has in \<open>auto simp: unfold has_buckets_def split: sum.splits\<close>)
qed

lemma CreateSatelliteIndexing_commits:
  assumes has: "has_buckets B fs" and "commits B" and "fits c a" "fits a v"
  shows "\<exists>fs'. CreateSatelliteIndexing B c a v fs = (Ok (), fs')"
proof -
  obtain db1 where 1: "bucket_put B SatelliteIdtoAssetIdMapping c a (nodesDB fs) = Ok db1"
    using bucket_put_succeeds [of "nodesDB fs" SatelliteIdtoAssetIdMapping c a] assms by (auto simp: fits_def has_buckets_def)
  have "bolt_bucket B db1 AssetPathMapping" using bucket_put_Ok(2) [OF 1] has by (simp add: has_buckets_def)
  then obtain db2 where "bucket_put B AssetPathMapping a v db1 = Ok db2"
    using bucket_put_succeeds [of db1 AssetPathMapping a v] assms(4) by (auto simp: fits_def)
  with 1 assms(2) show ?thesis by (simp add: CreateSatelliteIndexing_def fs_update_def commits_def)
qed

lemma getMstoreFiles_nil:
  assumes inv: "index_inv B (ss_fs st)" and "commits B" and "fits (CID vod) (Contentid vod)"
    and enc: "marshal (ca_info (se_capi S)) (content_info vod (se_now S (clock_reads st)) cs ds) = Inr bytes"
      "fits (Contentid vod) bytes"
  shows "\<exists>st'. getMstoreFiles S vod cs ds st = Ok ((Contentid vod, None), st')"
proof -
  obtain fs where create: "CreateSatelliteIndexing B (CID vod) (Contentid vod) bytes (ss_fs st) = (Ok (), fs)"
    using CreateSatelliteIndexing_commits [OF _ assms(2,3) enc(2), of "ss_fs st"] inv by (auto simp: index_inv_def)
  obtain h err st' where run: "getMstoreFiles S vod cs ds st = Ok ((h, err), st')"
    using getMstoreFiles_total [OF inv] by (metis surj_pair)
  then have "h = Contentid vod \<and> err = None" using enc(1) create
    by (auto simp: getMstoreFiles_def DoesContentIdExist_def bucket_get_def Let_def
        split: if_splits sum.splits prod.splits res.splits)
  with run show ?thesis by blast
qed

lemma sync_content_total:
  assumes "index_inv B (ss_fs st)"
  shows "\<exists>st'. sync_content S cs ds i st = Ok st'"
proof -
  have "\<exists>r. getMetadataAPI S (ContentID i) cs ds st = Ok r"
  proof (cases "http_get S (http_calls st) (''http://host.docker.internal:8134/getmetadata/'' @ ContentID i)")
    case (Inr jsonRes)
    obtain vod jerr where dec: "dec_vod S jsonRes = (vod, jerr)" by (cases "dec_vod S jsonRes")
    have "index_inv B (ss_fs (st\<lparr>http_calls := Suc (http_calls st)\<rparr>))" using assms by simp
    from getMstoreFiles_total [OF this] obtain h err st1 where
      "getMstoreFiles S vod cs ds (st\<lparr>http_calls := Suc (http_calls st)\<rparr>) = Ok ((h, err), st1)"
      by (metis surj_pair)
    with Inr dec show ?thesis by (simp add: getMetadataAPI_def Let_def split: option.splits)
  qed (simp add: getMetadataAPI_def Let_def)
  then obtain err st1 where "getMetadataAPI S (ContentID i) cs ds st = Ok (err, st1)" by auto
  then show ?thesis by (cases err) (simp_all add: sync_content_def)
qed

lemma fold_sync_total:
  assumes "index_inv B (ss_fs st)"
  shows "\<exists>st'. fold_res (sync_content S cs ds) ids st = Ok st' \<and> index_inv B (ss_fs st')"
  using assms
proof (induction ids arbitrary: st)
  case (Cons i ids)
  obtain st1 where st1: "sync_content S cs ds i st = Ok st1" using sync_content_total [OF Cons.prems] by blast
  from Cons.IH [OF sync_content_inv [OF st1 Cons.prems]] st1 show ?case by simp
qed simp

lemma notes_total:
  assumes "has_buckets B fs"
  shows "\<exists>m'. fold_res (note_command S fs) ids m = Ok m'" "\<exists>m'. fold_res (note_cid S fs) ids m = Ok m'"
proof -
  have c: "\<exists>m'. note_command S fs i m = Ok m'" for i m
    using assms by (auto simp: note_command_def GetBroadcastCommandId_def bucket_get_def has_buckets_def split: prod.splits)
  show "\<exists>m'. fold_res (note_command S fs) ids m = Ok m'"
  proof (induction ids arbitrary: m)
    case (Cons i ids)
    with c [of i m] show ?case by auto
  qed simp
  have c: "\<exists>m'. note_cid S fs i m = Ok m'" for i m
    using assms by (auto simp: note_cid_def GetContentIdFromSatelliteId_def bucket_get_def has_buckets_def
        split: prod.splits option.splits)
  show "\<exists>m'. fold_res (note_cid S fs) ids m = Ok m'"
  proof (induction ids arbitrary: m)
    case (Cons i ids)
    with c [of i m] show ?case by auto
  qed simp
qed

lemma queue_total:
  assumes "pending_ready B (ss_fs st)"
  shows "\<exists>st'. fold_res (queue_deleted S m) ids st = Ok st'"
  using assms
proof (induction ids arbitrary: st)
  case (Cons a ids)
  have "\<exists>st1. queue_deleted S m a st = Ok st1"
    using content_queue.add_no_panic [OF Cons.prems]
    by (auto simp: queue_deleted_def Let_def split: sum.splits prod.splits res.splits) (metis fst_conv)
  then obtain st1 where st1: "queue_deleted S m a st = Ok st1" by blast
  from queue_deleted_same_index [OF this] Cons.prems have "pending_ready B (ss_fs st1)"
    by (simp add: same_index_def pending_ready_def)
  from Cons.IH [OF this] st1 show ?case by simp
qed simp

lemma delete_no_panic:
  assumes "has_buckets B fs"
  shows "DeleteSatelliteIds B ids fs = (r, fs') \<Longrightarrow> r \<noteq> Panic \<and> r \<noteq> Diverge \<and> has_buckets B fs'"
    and "DeleteAssetMapping B ids fs = (r, fs') \<Longrightarrow> r \<noteq> Panic \<and> r \<noteq> Diverge \<and> has_buckets B fs'"
proof -
  have gen: "r \<noteq> Panic \<and> r \<noteq> Diverge \<and> has_buckets B fs'"
    if run: "fs_update B (\<lambda>db. wrap_err p (fold_res (bucket_delete B b) ids db)) fs = (r, fs')"
      and b: "bolt_bucket B (nodesDB fs) b" for b p
  proof -
    obtain db where "fold_res (bucket_delete B b) ids (nodesDB fs) = Ok db" using fold_delete_succeeds [OF b] by blast
    with fs_update_Panic [of "\<lambda>db. wrap_err p (fold_res (bucket_delete B b) ids db)" fs]
      fs_update_Diverge [of "\<lambda>db. wrap_err p (fold_res (bucket_delete B b) ids db)" fs] run
    have "r \<noteq> Panic \<and> r \<noteq> Diverge" by simp
    moreover have "has_buckets B fs'" using run
    proof (cases rule: fs_update_cases)
      case applied
      with fold_delete_Ok(2) [of b ids "nodesDB fs" "nodesDB fs'"] assms show ?thesis by (simp add: has_buckets_def)
    qed (use assms in simp)
    ultimately show ?thesis by blast
  qed
  show "DeleteSatelliteIds B ids fs = (r, fs') \<Longrightarrow> r \<noteq> Panic \<and> r \<noteq> Diverge \<and> has_buckets B fs'"
    unfolding DeleteSatelliteIds_def using gen assms by (simp add: has_buckets_def)
  show "DeleteAssetMapping B ids fs = (r, fs') \<Longrightarrow> r \<noteq> Panic \<and> r \<noteq> Diverge \<and> has_buckets B fs'"
    unfolding DeleteAssetMapping_def using gen assms by (simp add: has_buckets_def)
qed

lemma delete_nil:
  assumes "has_buckets B fs" "commits B"
  shows "DeleteSatelliteIds B ids fs = (r, fs') \<Longrightarrow> r = Ok ()"
    and "DeleteAssetMapping B ids fs = (r, fs') \<Longrightarrow> r = Ok ()"
proof -
  have del: "fst (fs_update B (\<lambda>db. wrap_err p (fold_res (bucket_delete B b) ids db)) fs) = Ok ()"
    if b: "bolt_bucket B (nodesDB fs) b" for b p
  proof -
    obtain db where "fold_res (bucket_delete B b) ids (nodesDB fs) = Ok db" using fold_delete_succeeds [OF b] by blast
    with assms(2) show ?thesis by (simp add: fs_update_def commits_def)
  qed
  have "fst (DeleteSatelliteIds B ids fs) = Ok ()" "fst (DeleteAssetMapping B ids fs) = Ok ()"
    using assms(1) by (simp_all add: DeleteSatelliteIds_def DeleteAssetMapping_def has_buckets_def del)
  then show "DeleteSatelliteIds B ids fs = (r, fs') \<Longrightarrow> r = Ok ()"
    and "DeleteAssetMapping B ids fs = (r, fs') \<Longrightarrow> r = Ok ()" by simp_all
qed

lemma handleDeleted_returns:
  assumes "has_buckets B (ss_fs st)"
  shows "\<exists>err st'. handleDeletedContents S order vl st = Ok (err, st') \<and> (commits B \<longrightarrow> err = None)"
proof -
  define del where "del = gone vl (order (sat_items (ss_fs st)))"
  obtain m1 where m1: "fold_res (note_command S (ss_fs st)) (map snd del) Map.empty = Ok m1"
    using notes_total(1) [OF assms] by blast
  obtain m where m: "fold_res (note_cid S (ss_fs st)) (map fst del) m1 = Ok m"
    using notes_total(2) [OF assms] by blast
  obtain r1 fs1 where d1: "DeleteSatelliteIds B (map fst del) (ss_fs st) = (r1, fs1)" by (meson surj_pair)
  obtain r2 fs2 where d2: "DeleteAssetMapping B (map snd del) fs1 = (r2, fs2)" by (meson surj_pair)
  note n1 = delete_no_panic(1) [OF assms d1]
  note n2 = delete_no_panic(2) [OF _ d2]
  have n3: "commits B \<longrightarrow> r1 = Ok () \<and> r2 = Ok ()"
    using delete_nil(1) [OF assms _ d1] delete_nil(2) [OF _ _ d2] n1 by blast
  have "\<exists>st'. fold_res (queue_deleted S m) (map snd del) (set_fs fs2 st) = Ok st'"
    by (rule queue_total) (use n1 n2 in \<open>simp add: has_buckets_def pending_ready_def\<close>)
  then obtain st' where "fold_res (queue_deleted S m) (map snd del) (set_fs fs2 st) = Ok st'" by blast
  with m1 m d1 d2 n1 n2 n3 assms show ?thesis
    by (cases r1; cases r2) (simp_all add: handleDeletedContents_def GetSatelliteMappedItems_def bucket_items_def
        has_buckets_def Let_def flip: del_def)
qed

lemma handleDeleted_nil:
  assumes "has_buckets B (ss_fs st)" "commits B"
  shows "\<exists>st'. handleDeletedContents S order vl st = Ok (None, st')"
  using handleDeleted_returns [OF assms(1)] assms(2) by metis

lemma handleDeleted_total:
  "has_buckets B (ss_fs st) \<Longrightarrow> \<exists>err st'. handleDeletedContents S order vl st = Ok (err, st')"
  using handleDeleted_returns by blast

lemma poll_total:
  assumes "index_inv B (ss_fs st)" "\<forall>xs. mset (order xs) = mset xs"
  shows "\<exists>st'. pollMstore_pass S order cs ds st = Ok st'"
proof -
  let ?st = "st\<lparr>http_calls := Suc (http_calls st)\<rparr>"
  have "\<exists>err st'. checkForVODViaMstore S order cs ds st = Ok (err, st')"
  proof (cases "http_get S (http_calls st) ''http://host.docker.internal:8134/listcontents''")
    case (Inr jsonRes)
    obtain vl jerr where dec: "dec_list S jsonRes = (vl, jerr)" by (cases "dec_list S jsonRes")
    show ?thesis
    proof (cases jerr)
      case None
      have "index_inv B (ss_fs (totalAssetsCount S (int (length (ListContents vl))) ?st))" using assms by simp
      from fold_sync_total [OF this] obtain st1 where
        st1: "fold_res (sync_content S cs ds) (ListContents vl) (totalAssetsCount S (int (length (ListContents vl))) ?st) = Ok st1"
        and inv1: "index_inv B (ss_fs st1)" by blast
      obtain err st2 where st2: "handleDeletedContents S order vl st1 = Ok (err, st2)"
        using handleDeleted_total [of st1 order vl] inv1 by (auto simp: index_inv_def)
      have "has_buckets B (ss_fs st2)"
        using handleDeleted_inv [OF st2 assms(2) inv1] by (simp add: index_inv_def)
      from PrintBuckets_Ok [OF this] Inr dec None st1 st2 show ?thesis
        by (auto simp: checkForVODViaMstore_def Let_def)
    qed (use Inr dec in \<open>simp add: checkForVODViaMstore_def Let_def\<close>)
  qed (simp add: checkForVODViaMstore_def Let_def)
  then obtain err st1 where "checkForVODViaMstore S order cs ds st = Ok (err, st1)" by blast
  then show ?thesis by (cases err) (simp_all add: pollMstore_pass_def)
qed

end

end
