(* ===== verification/Sync_Properties.thy ===== *)
theory Sync_Properties
  imports Satellite_Sync
begin

text \<open>
  Properties of the satellite synchronisation: the index stays consistent through any sequence
  of polls and failures, contents that leave the satellite leave the index and are reported, new
  ones are indexed and reported; and two ways in which contents get lost.
\<close>

section \<open>A hub in memory\<close>

text \<open>The receiver lists the ids \<open>ids\<close> and answers every metadata request with \<open>vod\<close>.\<close>

definition mem_sat :: "string list \<Rightarrow> VodInfo \<Rightarrow> mem_db sat_env" where
  "mem_sat ids vod = \<lparr>se_capi = mem_capi (\<lambda>_. None), http_get = \<lambda>_ url. Inr url,
     dec_list = \<lambda>_. (\<lparr>vl_Status = ''0'', ListContents = map (\<lambda>i. \<lparr>ContentID = i\<rparr>) ids\<rparr>, None),
     dec_vod = \<lambda>_. (vod, None), se_now = \<lambda>_. 0, size_text = \<lambda>_. ''0''\<rparr>"

definition demo_vod :: "string \<Rightarrow> string \<Rightarrow> VodInfo" where
  "demo_vod c a = \<lparr>vod_Status = ''0'', Title = [], Contentid = a, Contentbroadcastcommandid = ''b'', MovieId = [],
     ValidityStartDate = 0, ValidityEndDate = 0, CID = c, VideoFilename = ''/x/m'', TrailerFilename = [],
     CoverFilename = [], URLForDataFiles = [], DataFiles = [], ThumbnailFilename = []\<rparr>"

definition mem_sat_state :: "mem_db FileSystem \<Rightarrow> mem_db sat_state" where
  "mem_sat_state fs = \<lparr>ss_capi = mem_state fs, http_calls = 0, clock_reads = 0\<rparr>"

lemma mem_sat_simps [simp]:
  "se_capi (mem_sat ids vod) = mem_capi (\<lambda>_. None)" "ss_fs (mem_sat_state fs) = fs" "size_text (mem_sat ids vod) d = ''0''"
  "se_now (mem_sat ids vod) n = 0" "clock_reads (mem_sat_state fs) = 0"
  "Contentid (demo_vod c a) = a" "CID (demo_vod c a) = c"
  by (simp_all add: mem_sat_def mem_sat_state_def demo_vod_def)

interpretation mem_sat: sat_hub "mem_sat ids vod" for ids vod
  by (rule sat_hub.intro, rule cloud_env.intro) (simp add: mem_bolt_spec)

abbreviation demo_fs :: "mem_db FileSystem" where
  "demo_fs \<equiv> mem_fs [(''a'', ''+1.+p.+c.'')] [(''k'', ''a'')] []"

lemma demo_fs_inv: "index_inv mem_bolt demo_fs"
  by (auto simp: index_inv_def split: if_splits)

definition mem_list :: "string list \<Rightarrow> VodList" where
  "mem_list ids = \<lparr>vl_Status = ''0'', ListContents = map (\<lambda>i. \<lparr>ContentID = i\<rparr>) ids\<rparr>"

lemma demo_deletion:
  obtains st' where "handleDeletedContents (mem_sat ids vod) rev (mem_list ids') (mem_sat_state demo_fs) = Ok (None, st')"
  using mem_sat.handleDeleted_nil [where st = "mem_sat_state demo_fs" and ids = ids and
      vod = vod and order = rev and vl = "mem_list ids'"] that by (auto simp: mem_commits)

lemma demo_indexing:
  assumes "index_inv mem_bolt fs" "fits c a" "fits a ''.+/+c+/+m.+b.''"
  obtains st' where "getMstoreFiles (mem_sat ids v) (demo_vod c a) ''/c'' ''/x'' (mem_sat_state fs) = Ok ((a, None), st')"
  using mem_sat.getMstoreFiles_nil [where st = "mem_sat_state fs" and voda = v and ids = ids and
      vod = "demo_vod c a" and cs = "''/c''" and ds = "''/x''" and bytes = "''.+/+c+/+m.+b.''"] assms that
  by (auto simp: mem_commits info_codec_def content_info_def demo_vod_def enc_int_def Replace1.simps HasPrefix_def)

lemma sat_hub_of: "bolt_spec (ca_bolt (se_capi S)) \<Longrightarrow> sat_hub S"
  by (intro sat_hub.intro cloud_env.intro)

section \<open>Properties\<close>

text \<open>
  A poll keeps the index consistent and cannot crash. From a state in which the three buckets
  exist, every satellite id points to a content with an asset record and no two satellite ids
  share a content, a poll returns, in a state with the same invariant, whatever the receiver
  answers and whichever transactions fail.
\<close>

theorem poll_keeps_index:
  assumes "bolt_spec (ca_bolt (se_capi S))" and "\<forall>xs. mset (order xs) = mset xs"
    and "index_inv (ca_bolt (se_capi S)) (ss_fs st)"
  shows "\<exists>st'. pollMstore_pass S order containerStorage deviceStorage st = Ok st' \<and>
    index_inv (ca_bolt (se_capi S)) (ss_fs st')"
  using sat_hub.poll_total [OF sat_hub_of [OF assms(1)] assms(3,2)]
    sat_hub.poll_inv [OF sat_hub_of [OF assms(1)] _ assms(2,3)] by blast

theorem poll_keeps_index_witness:
  "\<exists>st'. pollMstore_pass (mem_sat [] (demo_vod ''k'' ''a'')) rev ''/c'' ''/x'' (mem_sat_state demo_fs) = Ok st' \<and>
     index_inv mem_bolt (ss_fs st')"
  using poll_keeps_index [of "mem_sat [] (demo_vod ''k'' ''a'')" rev "mem_sat_state demo_fs" "''/c''" "''/x''"]
  by (simp add: mem_bolt_spec demo_fs_inv)

text \<open>
  C21: Removed contents leave the index. When \<open>handleDeletedContents\<close> returns nil, exactly the
  satellite ids that are still listed are left, and exactly the asset records of the contents
  whose satellite id is no longer listed are gone.
\<close>

theorem deleted_contents_removed:
  assumes "bolt_spec (ca_bolt (se_capi S))" and "\<forall>xs. mset (order xs) = mset xs"
    and "index_inv (ca_bolt (se_capi S)) (ss_fs st)"
    and "handleDeletedContents S order vodlist st = Ok (None, st')"
  shows "satellites (ca_bolt (se_capi S)) (ss_fs st') =
      (\<lambda>k. if k \<in> ContentID ` set (ListContents vodlist) then satellites (ca_bolt (se_capi S)) (ss_fs st) k else None) \<and>
    assets (ca_bolt (se_capi S)) (ss_fs st') =
      (\<lambda>a. if \<exists>k. satellites (ca_bolt (se_capi S)) (ss_fs st) k = Some a \<and> k \<notin> ContentID ` set (ListContents vodlist)
           then None else assets (ca_bolt (se_capi S)) (ss_fs st) a)"
  using sat_hub.removed_contents(1,2) [OF sat_hub_of [OF assms(1)] assms(4,2,3)] by blast

theorem deleted_contents_removed_witness:
  "\<exists>st'. handleDeletedContents (mem_sat [] (demo_vod ''k'' ''a'')) rev (mem_list []) (mem_sat_state demo_fs) = Ok (None, st') \<and>
     assets mem_bolt (ss_fs st') ''a'' = None"
proof -
  obtain st' where run: "handleDeletedContents (mem_sat [] (demo_vod ''k'' ''a'')) rev (mem_list []) (mem_sat_state demo_fs) =
      Ok (None, st')" by (rule demo_deletion)
  from deleted_contents_removed [OF _ _ _ run] have "assets mem_bolt (ss_fs st') ''a'' = None"
    by (auto simp: mem_bolt_spec demo_fs_inv mem_list_def split: if_splits)
  with run show ?thesis by blast
qed

text \<open>
  C22: Every removal is reported. When the transactions commit and the requests can be encoded and
  stored, then for each content that was removed the pending bucket holds, under the content id
  with the prefix \<^verbatim>\<open>DL_\<close>, a deletion request that asks for both kinds of telemetry and names
  the satellite id and the broadcast command the content was indexed with.
\<close>

theorem deletion_reported:
  fixes S st
  defines "E \<equiv> se_capi S"
  defines "info k a \<equiv> \<lparr>SesCid = k, del_CommandId = CommandId (fst (unmarshal (ca_info E)
    (case assets (ca_bolt E) (ss_fs st) a of None \<Rightarrow> [] | Some i \<Rightarrow> i)))\<rparr>"
  assumes "bolt_spec (ca_bolt E)" and "\<forall>xs. mset (order xs) = mset xs"
    and "index_inv (ca_bolt E) (ss_fs st)" and "commits (ca_bolt E)"
    and "\<forall>k a n. satellites (ca_bolt E) (ss_fs st) k = Some a \<longrightarrow>
      (\<exists>data. marshal (ca_json E) (delete_request a (se_now S n) (info k a)) = Inr data \<and> fits (''DL_'' @ a) data)"
    and "handleDeletedContents S order vodlist st = Ok (None, st')"
    and "satellites (ca_bolt E) (ss_fs st) k = Some a" "k \<notin> ContentID ` set (ListContents vodlist)"
  shows "\<exists>n data. marshal (ca_json E) (delete_request a (se_now S n) (info k a)) = Inr data \<and>
    pending (ca_bolt E) (ss_fs st') (''DL_'' @ a) = Some data"
proof -
  note hub = sat_hub_of [OF assms(3) [unfolded E_def]]
  have "info = (\<lambda>k a. sat_hub.known_info S (ss_fs st) (k, a))"
    by (intro ext) (simp add: info_def E_def sat_hub.known_info_def [OF hub])
  with sat_hub.removed_contents(4) [OF hub assms(8,4)] assms show ?thesis by (simp add: E_def)
qed

theorem deletion_reported_witness:
  "\<exists>st'. handleDeletedContents (mem_sat [] (demo_vod ''k'' ''a'')) rev (mem_list []) (mem_sat_state demo_fs) = Ok (None, st') \<and>
     pending mem_bolt (ss_fs st') ''DL_a'' =
       Some ''+D+L+_+a.+l...+1.+1.+s+e+s+C+i+d.+k.+c+o+m+m+a+n+d+I+d.+c.''"
proof -
  obtain st' where run: "handleDeletedContents (mem_sat [] (demo_vod ''k'' ''a'')) rev (mem_list []) (mem_sat_state demo_fs) =
      Ok (None, st')" by (rule demo_deletion)
  have info: "CommandId (fst (unmarshal info_codec ''+1.+p.+c.'')) = ''c''" by (simp add: info_codec_def)
  have enc: "marshal api_codec (delete_request ''a'' 0 \<lparr>SesCid = ''k'', del_CommandId = ''c''\<rparr>) =
      Inr ''+D+L+_+a.+l...+1.+1.+s+e+s+C+i+d.+k.+c+o+m+m+a+n+d+I+d.+c.''"
    by (simp add: api_codec_def delete_request_def enc_int_def enc_bool_def)
  have fit: "fits ''DL_a'' ''+D+L+_+a.+l...+1.+1.+s+e+s+C+i+d.+k.+c+o+m+m+a+n+d+I+d.+c.''"
    by (simp add: fits_def max_key_def max_value_def)
  from deletion_reported [where k = "''k''" and a = "''a''", OF _ _ _ _ _ run] info enc fit
  have "pending mem_bolt (ss_fs st') ''DL_a'' =
       Some ''+D+L+_+a.+l...+1.+1.+s+e+s+C+i+d.+k.+c+o+m+m+a+n+d+I+d.+c.''"
    by (auto simp: mem_bolt_spec mem_commits demo_fs_inv mem_list_def split: if_splits)
  with run show ?thesis by blast
qed

text \<open>
  C23: A new content is indexed and reported. When \<open>getMstoreFiles\<close> returns nil for a content that is
  not in the index, the satellite id points to the content, the asset record is the one built from
  the metadata (with the container's path for the device's), and, when the transaction commits and
  the request fits, the pending bucket holds a download request with the same data. For a content
  that is already indexed nothing changes.
\<close>

theorem new_content_indexed:
  fixes S st vod containerStorage deviceStorage
  defines "E \<equiv> se_capi S" and "now \<equiv> se_now S (clock_reads st)"
    and "dir \<equiv> Dir (Replace1 (VideoFilename vod) deviceStorage containerStorage)"
  assumes "bolt_spec (ca_bolt E)" and "getMstoreFiles S vod containerStorage deviceStorage st = Ok ((h, None), st')"
  shows "(assets (ca_bolt E) (ss_fs st) (Contentid vod) \<noteq> None \<longrightarrow> st' = st) \<and>
    (assets (ca_bolt E) (ss_fs st) (Contentid vod) = None \<longrightarrow>
      satellites (ca_bolt E) (ss_fs st') = (satellites (ca_bolt E) (ss_fs st))(CID vod \<mapsto> Contentid vod) \<and>
      (\<exists>bytes. marshal (ca_info E) (content_info vod now containerStorage deviceStorage) = Inr bytes \<and>
         assets (ca_bolt E) (ss_fs st') = (assets (ca_bolt E) (ss_fs st))(Contentid vod \<mapsto> bytes)) \<and>
      (\<forall>data. commits (ca_bolt E) \<longrightarrow> fits (Contentid vod) data \<longrightarrow>
         marshal (ca_json E) (download_request (Contentid vod) now (CID vod) (size_text S dir)
           (Contentbroadcastcommandid vod) dir) = Inr data \<longrightarrow>
         pending (ca_bolt E) (ss_fs st') (Contentid vod) = Some data))"
proof -
  note hub = sat_hub_of [OF assms(4) [unfolded E_def]]
  note request = sat_hub.getMstoreFiles_request [OF hub assms(5)]
  from assms(5) show ?thesis
  proof (rule sat_hub.getMstoreFiles_cases [OF hub])
    fix bytes fs
    assume new: "assets (ca_bolt (se_capi S)) (ss_fs st) (Contentid vod) = None"
      and enc: "marshal (ca_info (se_capi S)) (content_info vod (se_now S (clock_reads st)) containerStorage deviceStorage) = Inr bytes"
      and create: "CreateSatelliteIndexing (ca_bolt (se_capi S)) (CID vod) (Contentid vod) bytes (ss_fs st) = (Ok (), fs)"
      and same: "same_index (ca_bolt (se_capi S)) fs (ss_fs st')"
    note eff = bolt_spec.CreateSatelliteIndexing_Ok [OF assms(4) [unfolded E_def] create]
    have "satellites (ca_bolt (se_capi S)) (ss_fs st') = satellites (ca_bolt (se_capi S)) fs"
      "assets (ca_bolt (se_capi S)) (ss_fs st') = assets (ca_bolt (se_capi S)) fs"
      using same_index_get [OF same] by blast+
    with new enc eff(2,3) request show ?thesis by (simp add: E_def now_def dir_def)
  qed (auto simp: E_def)
qed

theorem new_content_indexed_witness:
  "\<exists>h st'. getMstoreFiles (mem_sat [] (demo_vod ''k'' ''a'')) (demo_vod ''k'' ''a'') ''/c'' ''/x''
       (mem_sat_state (mem_fs [] [] [])) = Ok ((h, None), st') \<and>
     satellites mem_bolt (ss_fs st') = [''k'' \<mapsto> ''a''] \<and> assets mem_bolt (ss_fs st') = [''a'' \<mapsto> ''.+/+c+/+m.+b.'']"
proof -
  let ?S = "mem_sat [] (demo_vod ''k'' ''a'')" and ?st = "mem_sat_state (mem_fs [] [] [])"
  obtain h st' where run: "getMstoreFiles ?S (demo_vod ''k'' ''a'') ''/c'' ''/x'' ?st = Ok ((h, None), st')"
    by (rule demo_indexing [of "mem_fs [] [] []" "''k''" "''a''"]) (simp_all add: index_inv_def fits_def max_key_def max_value_def)
  from new_content_indexed [OF _ run] run show ?thesis
    by (simp add: mem_bolt_spec info_codec_def content_info_def demo_vod_def enc_int_def Replace1.simps HasPrefix_def)
qed

text \<open>
  A content that is broadcast again under a new satellite id is dropped. It is in the current
  list under the new id, but because the index still has it under the old one it is not indexed
  again, and then it is deleted together with the old id; only a later poll indexes it again.
\<close>

theorem rebroadcast_dropped:
  fixes S
  defines "B \<equiv> ca_bolt (se_capi S)"
  assumes "bolt_spec B" and "\<forall>xs. mset (order xs) = mset xs" and "index_inv B (ss_fs st)"
    and "satellites B (ss_fs st) old = Some (Contentid vod)" "old \<notin> ContentID ` set (ListContents vodlist)"
    and "CID vod \<in> ContentID ` set (ListContents vodlist)"
    and "getMstoreFiles S vod containerStorage deviceStorage st = Ok (r, st1)"
    and "handleDeletedContents S order vodlist st1 = Ok (None, st2)"
  shows "r = (Contentid vod, None) \<and> st1 = st \<and> assets B (ss_fs st2) (Contentid vod) = None \<and>
    satellites B (ss_fs st2) (CID vod) \<noteq> Some (Contentid vod)"
proof -
  have found: "assets B (ss_fs st) (Contentid vod) \<noteq> None" using assms(4,5) unfolding index_inv_def by blast
  then have same: "r = (Contentid vod, None)" "st1 = st"
    using assms(8) by (auto simp: getMstoreFiles_def DoesContentIdExist_def bucket_get_def Let_def B_def split: if_splits)
  note rem = sat_hub.removed_contents(1,2) [OF sat_hub_of [OF assms(2) [unfolded B_def]] assms(9,3), folded B_def, unfolded same, OF assms(4)]
  have "satellites B (ss_fs st) (CID vod) \<noteq> Some (Contentid vod)"
    using assms(4-7) unfolding index_inv_def by blast
  with rem assms(5,6) same show ?thesis by auto
qed

theorem rebroadcast_dropped_witness:
  "\<exists>st2. handleDeletedContents (mem_sat [''n''] (demo_vod ''n'' ''a'')) rev (mem_list [''n'']) (mem_sat_state demo_fs) = Ok (None, st2) \<and>
     assets mem_bolt (ss_fs st2) ''a'' = None"
proof -
  let ?S = "mem_sat [''n''] (demo_vod ''n'' ''a'')" and ?st = "mem_sat_state demo_fs"
  obtain st2 where run: "handleDeletedContents ?S rev (mem_list [''n'']) ?st = Ok (None, st2)" by (rule demo_deletion)
  have files: "getMstoreFiles ?S (demo_vod ''n'' ''a'') ''/c'' ''/x'' ?st = Ok ((''a'', None), ?st)"
    using demo_fs_inv by (simp add: getMstoreFiles_def DoesContentIdExist_def bucket_get_def Let_def index_inv_def has_buckets_def)
  from rebroadcast_dropped [OF _ _ _ _ _ _ files run, of "''k''"] run show ?thesis
    by (simp add: mem_bolt_spec demo_fs_inv mem_list_def)
qed

text \<open>
  A content whose satellite id is reused stays behind. When the metadata of a listed id names a
  new content, the id is moved to the new content; the record of the old one stays in the index,
  but no satellite id points to it any more, so no removal (which follows satellite ids) reaches it.
\<close>

theorem reused_id_orphans:
  fixes S
  defines "B \<equiv> ca_bolt (se_capi S)"
  assumes "bolt_spec B" and "index_inv B (ss_fs st)"
    and "satellites B (ss_fs st) (CID vod) = Some old" and "assets B (ss_fs st) (Contentid vod) = None"
    and "getMstoreFiles S vod containerStorage deviceStorage st = Ok ((h, None), st')"
  shows "assets B (ss_fs st') old = assets B (ss_fs st) old \<and> assets B (ss_fs st') old \<noteq> None \<and>
    (\<forall>k. satellites B (ss_fs st') k \<noteq> Some old)"
proof -
  have old: "assets B (ss_fs st) old \<noteq> None" "old \<noteq> Contentid vod"
    using assms(3-5) unfolding index_inv_def by metis+
  have inj: "k = CID vod" if "satellites B (ss_fs st) k = Some old" for k
    using that assms(3,4) unfolding index_inv_def by metis
  from assms(6) show ?thesis
  proof (rule sat_hub.getMstoreFiles_cases [OF sat_hub_of [OF assms(2) [unfolded B_def]]])
    fix bytes fs
    assume create: "CreateSatelliteIndexing (ca_bolt (se_capi S)) (CID vod) (Contentid vod) bytes (ss_fs st) = (Ok (), fs)"
      and same: "same_index (ca_bolt (se_capi S)) fs (ss_fs st')"
    note eff = bolt_spec.CreateSatelliteIndexing_Ok(2,3) [OF assms(2) create [folded B_def]]
    with same_index_get [OF same, folded B_def] old inj show ?thesis by auto
  qed (use assms(5) in \<open>simp_all add: B_def\<close>)
qed

theorem reused_id_orphans_witness:
  "\<exists>st'. getMstoreFiles (mem_sat [''k''] (demo_vod ''k'' ''b'')) (demo_vod ''k'' ''b'') ''/c'' ''/x'' (mem_sat_state demo_fs) =
       Ok ((''b'', None), st') \<and> assets mem_bolt (ss_fs st') ''a'' \<noteq> None \<and> (\<forall>k. satellites mem_bolt (ss_fs st') k \<noteq> Some ''a'')"
proof -
  obtain st' where run: "getMstoreFiles (mem_sat [''k''] (demo_vod ''k'' ''b'')) (demo_vod ''k'' ''b'') ''/c'' ''/x''
      (mem_sat_state demo_fs) = Ok ((''b'', None), st')"
    by (rule demo_indexing [of demo_fs "''k''" "''b''"]) (simp_all add: demo_fs_inv fits_def max_key_def max_value_def)
  from reused_id_orphans [OF _ _ _ _ run, of "''a''"] run show ?thesis by (simp add: mem_bolt_spec demo_fs_inv)
qed

end
