(* ===== verification/Wire_Format.thy ===== *)
theory Wire_Format
  imports Go_Lib "HOL-Library.Word" "HOL-Library.Sublist"
begin

text \<open>
  The binary stream of the metadata routes, \<^verbatim>\<open>src/route_handler.go\<close> lines 99 to 151 and 222 to 333:
  integers of 4 and 8 bytes in big-endian order, strings with their length in front, files with their
  name and their length in front. The response writer of the HTTP server is a parameter \<open>wr\<close>; the
  locale \<open>writer_spec\<close> states the contract of \<^verbatim>\<open>io.Writer\<close>. A decoder of the stream, the counterpart a
  client of the hub needs, is defined at the end, with the round trip.
\<close>

section \<open>Integers in big-endian order\<close>

definition PutUint32 :: "32 word \<Rightarrow> bytes" where
  "PutUint32 v = map (\<lambda>s. char_of (unat (drop_bit s v))) [24, 16, 8, 0]"

definition PutUint64 :: "64 word \<Rightarrow> bytes" where
  "PutUint64 v = map (\<lambda>s. char_of (unat (drop_bit s v))) [56, 48, 40, 32, 24, 16, 8, 0]"

section \<open>The writers\<close>

text \<open>One call of \<^verbatim>\<open>context.Writer.Write\<close>: the number of bytes written, the error, the stream after it.\<close>

type_synonym 'w writer = "'w \<Rightarrow> bytes \<Rightarrow> (nat \<times> error option) \<times> 'w"

text \<open>
  The loop of \<^verbatim>\<open>writeBytes\<close> goes on until everything is written; with a writer that accepts nothing and
  reports no error it never ends (\<open>None\<close>).
\<close>

partial_function (option) write_loop :: "'w writer \<Rightarrow> bytes \<Rightarrow> nat \<Rightarrow> 'w \<Rightarrow> (int \<times> 'w) option" where
  "write_loop wr value written w =
     (if written < length value then
        (case wr w (drop written value) of ((tempWritten, err), w) \<Rightarrow>
           if err \<noteq> None then Some (-1, w) else write_loop wr value (written + tempWritten) w)
      else Some (int written, w))"

definition writeBytes :: "'w writer \<Rightarrow> bytes \<Rightarrow> 'w \<Rightarrow> (int \<times> 'w) option" where
  "writeBytes wr value w = write_loop wr value 0 w"

text \<open>Two writes in sequence, the second one only if the first did not fail.\<close>

definition then_write :: "(int \<times> 'w) option \<Rightarrow> ('w \<Rightarrow> (int \<times> 'w) option) \<Rightarrow> (int \<times> 'w) option" where
  "then_write r k = (case r of None \<Rightarrow> None | Some (n, w) \<Rightarrow> if n < 0 then Some (-1, w) else k w)"

definition writeString :: "'w writer \<Rightarrow> string \<Rightarrow> 'w \<Rightarrow> (int \<times> 'w) option" where
  "writeString wr value w =
     then_write (writeBytes wr (PutUint32 (of_nat (length value))) w) (\<lambda>w.
     then_write (writeBytes wr value w) (\<lambda>w. Some (int (length value), w)))"

definition writeInt32 :: "'w writer \<Rightarrow> int \<Rightarrow> 'w \<Rightarrow> (int \<times> 'w) option" where
  "writeInt32 wr value w = writeBytes wr (PutUint32 (of_int value)) w"

definition writeInt64 :: "'w writer \<Rightarrow> int \<Rightarrow> 'w \<Rightarrow> (int \<times> 'w) option" where
  "writeInt64 wr value w = writeBytes wr (PutUint64 (of_int value)) w"

text \<open>
  \<^verbatim>\<open>writeFile\<close>: \<open>handle\<close> is what the open file still has to deliver, \<open>None\<close> when reading it fails. A read
  fills the buffer of 512 KB or returns the rest; at the end it is the error \<^verbatim>\<open>io.EOF\<close>.
\<close>

definition file_buffer :: nat where
  "file_buffer = 512 * 1024"

function writeFile :: "'w writer \<Rightarrow> bytes option \<Rightarrow> nat \<Rightarrow> nat \<Rightarrow> 'w \<Rightarrow> (nat \<times> 'w) option" where
  "writeFile wr handle fileSize written w =
     (if written < fileSize then
        (case handle of
           None \<Rightarrow> Some (written, w)
         | Some rest \<Rightarrow>
             if rest = [] then Some (written, w)
             else case writeBytes wr (take file_buffer rest) w of
               None \<Rightarrow> None
             | Some (n, w) \<Rightarrow>
                 if n < 0 then Some (written, w)
                 else writeFile wr (Some (drop file_buffer rest)) fileSize (written + length (take file_buffer rest)) w)
      else Some (written, w))"
  by pat_completeness auto
termination
  by (relation "measure (\<lambda>(wr, handle, fileSize, written, w). case handle of None \<Rightarrow> 0 | Some rest \<Rightarrow> length rest)")
    (auto simp: file_buffer_def)

declare writeFile.simps [simp del]

text \<open>
  One file of the loop of \<^verbatim>\<open>writeMetadataFiles\<close> (lines 230 to 258). The result of \<^verbatim>\<open>writeFile\<close> is printed
  and not looked at.
\<close>

definition write_file_entry :: "'w writer \<Rightarrow> os_faults \<Rightarrow> disk \<Rightarrow> string \<Rightarrow> 'w \<Rightarrow> (int \<times> 'w) option" where
  "write_file_entry wr osf disk filePath w =
     then_write (writeString wr (Base filePath) w) (\<lambda>w.
       case os_Stat osf filePath disk of
         Ok (_, fileSize) \<Rightarrow>
           then_write (writeInt64 wr (int fileSize) w) (\<lambda>w.
             case os_Open osf filePath disk of
               Ok handle \<Rightarrow>
                 (case writeFile wr handle fileSize 0 w of None \<Rightarrow> None | Some (_, w) \<Rightarrow> Some (0, w))
             | _ \<Rightarrow> Some (-1, w))
       | _ \<Rightarrow> Some (-1, w))"

fun write_each :: "('a \<Rightarrow> 'w \<Rightarrow> (int \<times> 'w) option) \<Rightarrow> 'a list \<Rightarrow> 'w \<Rightarrow> (int \<times> 'w) option" where
  "write_each f [] w = Some (0, w)"
| "write_each f (x # xs) w = then_write (f x w) (write_each f xs)"

definition writeMetadataFiles :: "'w writer \<Rightarrow> os_faults \<Rightarrow> disk \<Rightarrow> string list \<Rightarrow> 'w \<Rightarrow> (int \<times> 'w) option" where
  "writeMetadataFiles wr osf disk metadataFiles w =
     then_write (writeInt32 wr (int (length metadataFiles)) w) (\<lambda>w.
     then_write (write_each (write_file_entry wr osf disk) metadataFiles w) (\<lambda>w.
       Some (int (length metadataFiles), w)))"

text \<open>The entries of a listing, \<^verbatim>\<open>FolderStructureEntry\<close> of \<^verbatim>\<open>src/database.go\<close>.\<close>

record FolderStructureEntry =
  fe_ID :: string
  HasChildren :: bool
  InfoMetadataFileName :: string
  fe_Size :: int
  MetadataFiles :: "string list"

text \<open>
  One child of the loop of \<^verbatim>\<open>serveMetadata\<close> (lines 119 to 151): a failure of the first three writes ends
  the request, a failure of \<^verbatim>\<open>writeMetadataFiles\<close> is printed and the loop goes on.
\<close>

definition write_child :: "'w writer \<Rightarrow> os_faults \<Rightarrow> disk \<Rightarrow> FolderStructureEntry \<Rightarrow> 'w \<Rightarrow> (int \<times> 'w) option" where
  "write_child wr osf disk child w =
     then_write (writeString wr (fe_ID child) w) (\<lambda>w.
     then_write (writeInt32 wr (if HasChildren child then 1 else 0) w) (\<lambda>w.
     then_write (writeInt64 wr (fe_Size child) w) (\<lambda>w.
       case writeMetadataFiles wr osf disk (MetadataFiles child) w of None \<Rightarrow> None | Some (_, w) \<Rightarrow> Some (0, w))))"

definition write_children :: "'w writer \<Rightarrow> os_faults \<Rightarrow> disk \<Rightarrow> FolderStructureEntry list \<Rightarrow> 'w \<Rightarrow> (int \<times> 'w) option" where
  "write_children wr osf disk children w =
     then_write (writeInt32 wr (int (length children)) w) (write_each (write_child wr osf disk) children)"

section \<open>What the writers send\<close>

text \<open>
  The contract of \<^verbatim>\<open>io.Writer\<close>: a call writes a prefix of its argument and reports its length, and a
  call that writes less than everything returns an error. \<open>sent\<close> is what the client has received.
\<close>

locale writer_spec =
  fixes wr :: "'w writer" and sent :: "'w \<Rightarrow> bytes"
  assumes write_prefix: "wr w b = ((n, e), w') \<Longrightarrow> n \<le> length b \<and> sent w' = sent w @ take n b"
    and write_all: "wr w b = ((n, None), w') \<Longrightarrow> n = length b"
begin

text \<open>Under the contract the loop ends after one call.\<close>

lemma writeBytes_once:
  "writeBytes wr value w =
     (if value = [] then Some (0, w)
      else case wr w value of ((n, e), w') \<Rightarrow> Some (if e \<noteq> None then -1 else int (length value), w'))"
proof (cases "value = []")
  case False
  obtain n e w' where c: "wr w value = ((n, e), w')" by (metis prod.exhaust)
  show ?thesis
  proof (cases e)
    case None
    with c write_all have "n = length value" by blast
    with False None c show ?thesis
      unfolding writeBytes_def by (subst write_loop.simps, simp) (subst write_loop.simps, simp)
  next
    case (Some x)
    with False c show ?thesis unfolding writeBytes_def by (subst write_loop.simps) simp
  qed
qed (simp add: writeBytes_def write_loop.simps)

end

text \<open>
  A connection that has failed once stays failed, as a TCP connection does: \<open>broken\<close>.
\<close>

locale stream_spec = writer_spec wr sent for wr :: "'w writer" and sent :: "'w \<Rightarrow> bytes" +
  fixes broken :: "'w \<Rightarrow> bool"
  assumes write_error: "wr w b = ((n, Some x), w') \<Longrightarrow> broken w'"
    and write_ok: "wr w b = ((n, None), w') \<Longrightarrow> b \<noteq> [] \<Longrightarrow> \<not> broken w"
    and write_broken: "wr w b = ((n, e), w') \<Longrightarrow> broken w \<Longrightarrow> sent w' = sent w \<and> broken w'"

text \<open>
  The result \<open>r\<close> of an operation started at \<open>w\<close> that is meant to send \<open>bs\<close>: it returns; if the
  connection is still up it reports no failure and all of \<open>bs\<close> has been sent, otherwise a prefix of
  \<open>bs\<close>, and nothing if the connection was down before.
\<close>

definition emits :: "('w \<Rightarrow> bytes) \<Rightarrow> ('w \<Rightarrow> bool) \<Rightarrow> bytes \<Rightarrow> 'w \<Rightarrow> (int \<times> 'w) option \<Rightarrow> bool" where
  "emits sent broken bs w r = (case r of None \<Rightarrow> False | Some (n, w') \<Rightarrow>
     (if broken w then broken w' \<and> sent w' = sent w
      else if broken w' then \<exists>k \<le> length bs. sent w' = sent w @ take k bs
      else 0 \<le> n \<and> sent w' = sent w @ bs))"

lemma emits_cases:
  assumes "emits sent broken bs w r"
  obtains (down) n w' where "r = Some (n, w')" "broken w" "broken w'" "sent w' = sent w"
  | (cut) n w' k where "r = Some (n, w')" "\<not> broken w" "broken w'" "k \<le> length bs" "sent w' = sent w @ take k bs"
  | (up) n w' where "r = Some (n, w')" "\<not> broken w" "\<not> broken w'" "0 \<le> n" "sent w' = sent w @ bs"
proof -
  obtain n w' where r: "r = Some (n, w')" using assms by (auto simp: emits_def split: option.splits)
  consider "broken w" | "\<not> broken w" "broken w'" | "\<not> broken w" "\<not> broken w'" by blast
  then show thesis
  proof cases
    case 1
    with assms r down [of n w'] show thesis by (simp add: emits_def)
  next
    case 2
    with assms r obtain k where "k \<le> length bs" "sent w' = sent w @ take k bs" by (auto simp: emits_def)
    with 2 r cut [of n w' k] show thesis by simp
  next
    case 3
    with assms r up [of n w'] show thesis by (simp add: emits_def)
  qed
qed

lemma emits_down: "r = Some (n, w') \<Longrightarrow> broken w \<Longrightarrow> broken w' \<Longrightarrow> sent w' = sent w \<Longrightarrow> emits sent broken bs w r"
  by (simp add: emits_def)

lemma emits_cut:
  "r = Some (n, w') \<Longrightarrow> \<not> broken w \<Longrightarrow> broken w' \<Longrightarrow> k \<le> length bs \<Longrightarrow> sent w' = sent w @ take k bs \<Longrightarrow>
   emits sent broken bs w r"
  by (auto simp: emits_def)

lemma emits_up:
  "r = Some (n, w') \<Longrightarrow> \<not> broken w \<Longrightarrow> \<not> broken w' \<Longrightarrow> 0 \<le> n \<Longrightarrow> sent w' = sent w @ bs \<Longrightarrow> emits sent broken bs w r"
  by (simp add: emits_def)

text \<open>
  Sequencing, also when the failure of the first operation is not looked at: what follows a failure
  sends nothing.
\<close>

lemma emits_seq:
  assumes r: "emits sent broken bs w r" and k: "\<And>w'. emits sent broken cs w' (k w')"
    and q: "\<And>n w'. r = Some (n, w') \<Longrightarrow> q = k w' \<or> (n < 0 \<and> q = Some (m, w'))"
  shows "emits sent broken (bs @ cs) w q"
  using r
proof (cases rule: emits_cases)
  case (down n w')
  obtain m' w2 where w2: "q = Some (m', w2)" "broken w2" "sent w2 = sent w'"
    using k [of w'] q [OF down(1)] down(3) by (auto simp: emits_def split: option.splits)
  from emits_down [OF this(1)] this(2,3) down show ?thesis by simp
next
  case (cut n w' j)
  obtain m' w2 where w2: "q = Some (m', w2)" "broken w2" "sent w2 = sent w'"
    using k [of w'] q [OF cut(1)] cut(3) by (auto simp: emits_def split: option.splits)
  from emits_cut [OF this(1), where k = j] this(2,3) cut show ?thesis by simp
next
  case (up n w')
  then have "q = k w'" using q [OF up(1)] by simp
  from k [of w', folded this] show ?thesis
  proof (cases rule: emits_cases)
    case (cut n2 w2 j)
    from emits_cut [OF this(1), where k = "length bs + j"] this up show ?thesis by simp
  next
    case (up n2 w2)
    from emits_up [OF this(1)] this \<open>sent w' = sent w @ bs\<close> \<open>\<not> broken w\<close> show ?thesis by simp
  qed (use up in simp)
qed

lemma emits_then:
  assumes "emits sent broken bs w r" "\<And>w'. emits sent broken cs w' (k w')"
  shows "emits sent broken (bs @ cs) w (then_write r k)"
  using assms by (rule emits_seq [where m = "-1"]) (auto simp: then_write_def)

lemma emits_done: "emits sent broken [] w (Some (int n, w))"
  by (simp add: emits_def)

lemma emits_last: "emits sent broken bs w r \<Longrightarrow> emits sent broken bs w (then_write r (\<lambda>w. Some (int n, w)))"
  using emits_then [of sent broken bs w r "[]" "\<lambda>w. Some (int n, w)"] by (simp add: emits_done)

lemma write_each_Cons: "write_each f (x # xs) = (\<lambda>w. then_write (f x w) (write_each f xs))"
  by (rule ext) simp

text \<open>An operation whose result is dropped.\<close>

lemma emits_ignore:
  assumes "emits sent broken bs w r"
  shows "emits sent broken bs w (case r of None \<Rightarrow> None | Some (_, w) \<Rightarrow> Some (0, w))"
  using assms by (auto simp: emits_def split: option.splits if_splits)

lemma emits_then_ignore:
  assumes "emits sent broken bs w r"
    and "\<And>w'. emits sent broken cs w' (case k w' of None \<Rightarrow> None | Some (_, w) \<Rightarrow> Some (0, w))"
  shows "emits sent broken (bs @ cs) w (case then_write r k of None \<Rightarrow> None | Some (_, w) \<Rightarrow> Some (0, w))"
  using assms by (rule emits_seq [where m = 0]) (auto simp: then_write_def)

lemma emits_each:
  assumes "\<And>x w. x \<in> set xs \<Longrightarrow> emits sent broken (enc x) w (f x w)"
  shows "emits sent broken (concat (map enc xs)) w (write_each f xs w)"
  using assms
proof (induction xs arbitrary: w)
  case Nil
  then show ?case using emits_done [of sent broken w 0] by simp
next
  case (Cons x xs)
  then have x: "emits sent broken (enc x) w (f x w)" by simp
  have "emits sent broken (concat (map enc xs)) w' (write_each f xs w')" for w' by (rule Cons.IH) (use Cons.prems in simp)
  from emits_then [OF x this] show ?case by simp
qed

text \<open>The bytes of a string, a file and a child as the format has them.\<close>

definition string_bytes :: "string \<Rightarrow> bytes" where
  "string_bytes s = PutUint32 (of_nat (length s)) @ s"

definition file_bytes :: "string \<times> bytes \<Rightarrow> bytes" where
  "file_bytes = (\<lambda>(name, content). string_bytes name @ PutUint64 (of_nat (length content)) @ content)"

definition files_bytes :: "(string \<times> bytes) list \<Rightarrow> bytes" where
  "files_bytes fs = PutUint32 (of_nat (length fs)) @ concat (map file_bytes fs)"

type_synonym child_info = "string \<times> bool \<times> int \<times> (string \<times> bytes) list"

definition child_bytes :: "child_info \<Rightarrow> bytes" where
  "child_bytes = (\<lambda>(i, has, sz, fs). string_bytes i @ PutUint32 (if has then 1 else 0) @ PutUint64 (of_int sz) @ files_bytes fs)"

definition listing_bytes :: "child_info list \<Rightarrow> bytes" where
  "listing_bytes cs = PutUint32 (of_nat (length cs)) @ concat (map child_bytes cs)"

text \<open>The files of a child that are there and can be read.\<close>

definition readable :: "os_faults \<Rightarrow> disk \<Rightarrow> string \<Rightarrow> bool" where
  "readable osf disk p \<longleftrightarrow> osf (Stat p) disk = None \<and> osf (OpenRead p) disk = None \<and> osf (Read p) disk = None \<and>
     (case map_of disk p of Some (File _) \<Rightarrow> True | _ \<Rightarrow> False)"

definition child_info :: "disk \<Rightarrow> FolderStructureEntry \<Rightarrow> child_info" where
  "child_info disk c = (fe_ID c, HasChildren c, fe_Size c, map (\<lambda>p. (Base p, content_of disk p)) (MetadataFiles c))"

context stream_spec
begin

lemma writeBytes_emits: "emits sent broken value w (writeBytes wr value w)"
proof (cases "value = []")
  case False
  obtain n e w' where c: "wr w value = ((n, e), w')" by (metis prod.exhaust)
  note spec = write_prefix [OF c] write_broken [OF c]
  show ?thesis
  proof (cases e)
    case None
    with c False write_all write_ok spec show ?thesis
      by (auto simp: writeBytes_once emits_def)
  next
    case (Some x)
    with c False write_error spec show ?thesis by (auto simp: writeBytes_once emits_def)
  qed
qed (simp add: writeBytes_once emits_def)

lemma writeInt32_emits: "emits sent broken (PutUint32 (of_int v)) w (writeInt32 wr v w)"
  by (simp add: writeInt32_def writeBytes_emits)

lemma writeInt64_emits: "emits sent broken (PutUint64 (of_int v)) w (writeInt64 wr v w)"
  by (simp add: writeInt64_def writeBytes_emits)

lemma writeString_emits: "emits sent broken (string_bytes s) w (writeString wr s w)"
  unfolding writeString_def string_bytes_def
  by (rule emits_then [OF writeBytes_emits emits_last [OF writeBytes_emits]])

lemma writeFile_emits:
  "fileSize = written + length rest \<Longrightarrow>
   emits sent broken rest w (map_option (\<lambda>(_, w). (0, w)) (writeFile wr (Some rest) fileSize written w))"
proof (induction "length rest" arbitrary: rest written w rule: less_induct)
  case less
  show ?case
  proof (cases "rest = []")
    case True
    with less.prems show ?thesis by (subst writeFile.simps) (simp add: emits_def)
  next
    case False
    let ?b = "take file_buffer rest" and ?r = "drop file_buffer rest"
    have len: "length ?r < length rest" using False by (simp add: file_buffer_def)
    have k: "emits sent broken ?r w'
        (map_option (\<lambda>(_, w). (0, w)) (writeFile wr (Some ?r) fileSize (written + length ?b) w'))" for w'
      by (rule less.hyps [OF len]) (use less.prems in simp)
    have "emits sent broken (?b @ ?r) w (map_option (\<lambda>(_, w). (0, w)) (writeFile wr (Some rest) fileSize written w))"
    proof (rule emits_seq [OF writeBytes_emits k])
      fix n w' assume c: "writeBytes wr ?b w = Some (n, w')"
      show "map_option (\<lambda>(_, w). (0, w)) (writeFile wr (Some rest) fileSize written w) =
          map_option (\<lambda>(_, w). (0, w)) (writeFile wr (Some ?r) fileSize (written + length ?b) w') \<or>
        n < 0 \<and> map_option (\<lambda>(_, w). (0, w)) (writeFile wr (Some rest) fileSize written w) = Some (0, w')"
        using False less.prems c by (subst (1 3) writeFile.simps) simp
    qed
    then show ?thesis by simp
  qed
qed

lemma write_file_entry_emits:
  assumes "readable osf disk p"
  shows "emits sent broken (file_bytes (Base p, content_of disk p)) w (write_file_entry wr osf disk p w)"
proof -
  obtain c where c: "map_of disk p = Some (File c)" using assms by (auto simp: readable_def split: option.splits entry.splits)
  have "emits sent broken c w' (case writeFile wr (Some c) (length c) 0 w' of None \<Rightarrow> None | Some (_, w) \<Rightarrow> Some (0, w))" for w'
    using writeFile_emits [of "length c" 0 c w'] by (auto split: option.splits)
  then have "emits sent broken (file_bytes (Base p, c)) w
      (then_write (writeString wr (Base p) w) (\<lambda>w. then_write (writeInt64 wr (int (length c)) w)
        (\<lambda>w. case writeFile wr (Some c) (length c) 0 w of None \<Rightarrow> None | Some (_, w) \<Rightarrow> Some (0, w))))"
    using writeInt64_emits [of "int (length c)"] unfolding file_bytes_def
    by (auto intro!: emits_then writeString_emits)
  with assms c show ?thesis
    by (simp add: write_file_entry_def content_of_def readable_def os_Stat_def os_Open_def)
qed

lemma writeMetadataFiles_emits:
  assumes "\<forall>p \<in> set ps. readable osf disk p"
  shows "emits sent broken (files_bytes (map (\<lambda>p. (Base p, content_of disk p)) ps)) w (writeMetadataFiles wr osf disk ps w)"
proof -
  have "emits sent broken (concat (map (\<lambda>p. file_bytes (Base p, content_of disk p)) ps)) w'
      (write_each (write_file_entry wr osf disk) ps w')" for w'
    by (rule emits_each) (use assms write_file_entry_emits in simp)
  from emits_last [OF this, where n = "length ps"] have
    "emits sent broken (concat (map (\<lambda>p. file_bytes (Base p, content_of disk p)) ps)) w'
      (then_write (write_each (write_file_entry wr osf disk) ps w') (\<lambda>w. Some (int (length ps), w)))" for w' .
  from emits_then [OF writeInt32_emits this, of "int (length ps)" w] show ?thesis
    by (simp add: writeMetadataFiles_def files_bytes_def comp_def)
qed

lemma write_child_emits:
  assumes "\<forall>p \<in> set (MetadataFiles c). readable osf disk p"
  shows "emits sent broken (child_bytes (child_info disk c)) w (write_child wr osf disk c w)"
  using writeInt32_emits [of 1] writeInt32_emits [of 0] unfolding write_child_def child_info_def child_bytes_def
  by (cases "HasChildren c")
    (auto intro!: emits_then writeString_emits writeInt64_emits emits_ignore writeMetadataFiles_emits [OF assms, rule_format])

text \<open>A file that cannot be examined, after files that can: its name is sent and nothing more of the child.\<close>

lemma write_child_missing:
  assumes files: "MetadataFiles c = ps @ p # qs" "\<forall>q \<in> set ps. readable osf disk q" and p: "\<not> is_Ok (os_Stat osf p disk)"
  shows "emits sent broken
    (string_bytes (fe_ID c) @ PutUint32 (if HasChildren c then 1 else 0) @ PutUint64 (of_int (fe_Size c)) @
     PutUint32 (of_nat (length (MetadataFiles c))) @
     concat (map (\<lambda>q. file_bytes (Base q, content_of disk q)) ps) @ string_bytes (Base p))
    w (write_child wr osf disk c w)"
proof -
  let ?ign = "\<lambda>r. case r of None \<Rightarrow> None | Some (_, w) \<Rightarrow> Some (0 :: int, w)"
  let ?fail = "\<lambda>w :: 'w. Some (-1 :: int, w)"
  have entry: "write_file_entry wr osf disk p w = then_write (writeString wr (Base p) w) ?fail" for w
    using p by (auto simp: write_file_entry_def is_Ok_iff intro!: arg_cong [where f = "then_write _"] split: res.splits)
  have each: "emits sent broken (concat (map (\<lambda>q. file_bytes (Base q, content_of disk q)) ps) @ string_bytes (Base p)) w
      (?ign (then_write (write_each (write_file_entry wr osf disk) (ps @ p # qs) w) k))" for w k
    using files(2)
  proof (induction ps arbitrary: w)
    case Nil
    have "emits sent broken (string_bytes (Base p) @ []) w (?ign (then_write (writeString wr (Base p) w) ?fail))"
      by (rule emits_then_ignore [OF writeString_emits]) (simp add: emits_def)
    moreover have "then_write (then_write (then_write r ?fail) g) k = then_write r ?fail" for r g
      by (auto simp: then_write_def split: option.split)
    ultimately show ?case by (simp add: entry)
  next
    case (Cons q ps)
    have "then_write (then_write r g) k = then_write r (\<lambda>w. then_write (g w) k)" for r :: "(int \<times> 'w) option" and g
      by (auto simp: then_write_def split: option.split)
    moreover have "emits sent broken
        (file_bytes (Base q, content_of disk q) @ (concat (map (\<lambda>q. file_bytes (Base q, content_of disk q)) ps) @ string_bytes (Base p))) w
        (?ign (then_write (write_file_entry wr osf disk q w)
          (\<lambda>w. then_write (write_each (write_file_entry wr osf disk) (ps @ p # qs) w) k)))"
      by (rule emits_then_ignore [OF write_file_entry_emits Cons.IH]) (use Cons.prems in simp_all)
    ultimately show ?case by simp
  qed
  have "emits sent broken (PutUint32 (of_int (int (length (MetadataFiles c)))) @
      (concat (map (\<lambda>q. file_bytes (Base q, content_of disk q)) ps) @ string_bytes (Base p))) w
      (?ign (writeMetadataFiles wr osf disk (MetadataFiles c) w))" for w
    unfolding writeMetadataFiles_def files(1) by (rule emits_then_ignore [OF writeInt32_emits each])
  then show ?thesis
    using writeInt32_emits [of 1] writeInt32_emits [of 0] unfolding write_child_def
    by (cases "HasChildren c") (auto intro!: emits_then writeString_emits writeInt64_emits)
qed

lemma write_children_emits:
  assumes "\<forall>c \<in> set cs. \<forall>p \<in> set (MetadataFiles c). readable osf disk p"
  shows "emits sent broken (listing_bytes (map (child_info disk) cs)) w (write_children wr osf disk cs w)"
proof -
  have "emits sent broken (concat (map (\<lambda>c. child_bytes (child_info disk c)) cs)) w'
      (write_each (write_child wr osf disk) cs w')" for w'
    by (rule emits_each) (use assms write_child_emits in simp)
  from emits_then [OF writeInt32_emits this, of "int (length cs)" w] show ?thesis
    by (simp add: write_children_def listing_bytes_def comp_def)
qed

end

section \<open>A decoder\<close>

definition of_be :: "bytes \<Rightarrow> nat" where
  "of_be bs = foldl (\<lambda>n b. 256 * n + of_char b) 0 bs"

definition get_bytes :: "nat \<Rightarrow> bytes \<Rightarrow> (bytes \<times> bytes) option" where
  "get_bytes n bs = (if length bs < n then None else Some (take n bs, drop n bs))"

definition get_u32 :: "bytes \<Rightarrow> (32 word \<times> bytes) option" where
  "get_u32 bs = map_option (\<lambda>(x, r). (of_nat (of_be x), r)) (get_bytes 4 bs)"

definition get_u64 :: "bytes \<Rightarrow> (64 word \<times> bytes) option" where
  "get_u64 bs = map_option (\<lambda>(x, r). (of_nat (of_be x), r)) (get_bytes 8 bs)"

definition get_string :: "bytes \<Rightarrow> (string \<times> bytes) option" where
  "get_string bs = Option.bind (get_u32 bs) (\<lambda>(n, bs). get_bytes (unat n) bs)"

definition get_file :: "bytes \<Rightarrow> ((string \<times> bytes) \<times> bytes) option" where
  "get_file bs = Option.bind (get_string bs) (\<lambda>(name, bs). Option.bind (get_u64 bs) (\<lambda>(n, bs).
     map_option (\<lambda>(content, bs). ((name, content), bs)) (get_bytes (unat n) bs)))"

fun get_many :: "(bytes \<Rightarrow> ('a \<times> bytes) option) \<Rightarrow> nat \<Rightarrow> bytes \<Rightarrow> ('a list \<times> bytes) option" where
  "get_many g 0 bs = Some ([], bs)"
| "get_many g (Suc n) bs = Option.bind (g bs) (\<lambda>(x, bs). map_option (\<lambda>(xs, bs). (x # xs, bs)) (get_many g n bs))"

definition get_list :: "(bytes \<Rightarrow> ('a \<times> bytes) option) \<Rightarrow> bytes \<Rightarrow> ('a list \<times> bytes) option" where
  "get_list g bs = Option.bind (get_u32 bs) (\<lambda>(n, bs). get_many g (unat n) bs)"

definition get_child :: "bytes \<Rightarrow> (child_info \<times> bytes) option" where
  "get_child bs = Option.bind (get_string bs) (\<lambda>(i, bs). Option.bind (get_u32 bs) (\<lambda>(has, bs).
     Option.bind (get_u64 bs) (\<lambda>(sz, bs).
     map_option (\<lambda>(fs, bs). ((i, has = 1, sint sz, fs), bs)) (get_list get_file bs))))"

definition get_listing :: "bytes \<Rightarrow> (child_info list \<times> bytes) option" where
  "get_listing bs = get_list get_child bs"

text \<open>Reading back an integer.\<close>

lemma of_char_char_of: "of_char (char_of (n :: nat) :: char) = n mod 256"
  by simp

lemma be_bytes:
  "of_be (map (\<lambda>i. char_of (n div 256 ^ i)) (rev [0..<k])) = n mod 256 ^ k"
proof (induction k)
  case (Suc k)
  have shift: "foldl (\<lambda>n b. 256 * n + of_char b) m bs = 256 ^ length bs * m + of_be bs" for m and bs :: bytes
  proof (induction bs arbitrary: m)
    case (Cons b bs)
    from Cons [of "256 * m + of_char b"] Cons [of "of_char b"] show ?case by (simp add: of_be_def algebra_simps)
  qed (simp add: of_be_def)
  have "of_be (map (\<lambda>i. char_of (n div 256 ^ i)) (rev [0..<Suc k])) = 256 ^ k * (n div 256 ^ k mod 256) + n mod 256 ^ k"
    using Suc shift [of "n div 256 ^ k mod 256" "map (\<lambda>i. char_of (n div 256 ^ i)) (rev [0..<k])"]
    by (simp add: of_be_def)
  also have "\<dots> = n mod 256 ^ Suc k"
    using mod_mult2_eq [of n "256 ^ k" 256] by (simp add: mult.commute)
  finally show ?case .
qed (simp add: of_be_def)

lemma unat_shift: "unat (drop_bit k (v :: 'l::len word)) = unat v div 2 ^ k"
  by (simp only: unat_drop_bit_eq drop_bit_eq_div [where 'a = nat])

lemma PutUint32_be: "PutUint32 v = map (\<lambda>i. char_of (unat v div 256 ^ i)) (rev [0..<4])"
  by (simp add: PutUint32_def unat_shift upt_rec)

lemma PutUint64_be: "PutUint64 v = map (\<lambda>i. char_of (unat v div 256 ^ i)) (rev [0..<8])"
  by (simp add: PutUint64_def unat_shift upt_rec)

lemma length_PutUint [simp]: "length (PutUint32 v) = 4" "length (PutUint64 x) = 8"
  by (simp_all add: PutUint32_def PutUint64_def)

lemma get_u32 [simp]: "get_u32 (PutUint32 v @ bs) = Some (v, bs)"
proof -
  have "of_be (PutUint32 v) = unat v mod 256 ^ 4" unfolding PutUint32_be by (rule be_bytes)
  also have "\<dots> = unat v" using unsigned_less [of v, where 'a = nat] by (intro mod_less) simp
  finally show ?thesis by (simp add: get_u32_def get_bytes_def)
qed

lemma get_u64 [simp]: "get_u64 (PutUint64 v @ bs) = Some (v, bs)"
proof -
  have "of_be (PutUint64 v) = unat v mod 256 ^ 8" unfolding PutUint64_be by (rule be_bytes)
  also have "\<dots> = unat v" using unsigned_less [of v, where 'a = nat] by (intro mod_less) simp
  finally show ?thesis by (simp add: get_u64_def get_bytes_def)
qed

lemma get_bytes [simp]: "get_bytes (length s) (s @ bs) = Some (s, bs)"
  by (simp add: get_bytes_def)

text \<open>Lengths that fit the format.\<close>

definition file_fits :: "string \<times> bytes \<Rightarrow> bool" where
  "file_fits = (\<lambda>(name, content). length name < 2 ^ 32 \<and> length content < 2 ^ 64)"

definition child_fits :: "child_info \<Rightarrow> bool" where
  "child_fits = (\<lambda>(i, has, sz, fs). length i < 2 ^ 32 \<and> - (2 ^ 63) \<le> sz \<and> sz < 2 ^ 63 \<and> length fs < 2 ^ 32 \<and>
     (\<forall>f \<in> set fs. file_fits f))"

lemma unat_small: "n < 2 ^ LENGTH('l) \<Longrightarrow> unat (of_nat n :: 'l::len word) = n"
  by (simp add: unat_of_nat)

lemma get_string [simp]: "length s < 2 ^ 32 \<Longrightarrow> get_string (string_bytes s @ bs) = Some (s, bs)"
  using unat_small [of "length s", where 'l = 32] by (simp add: get_string_def string_bytes_def)

lemma get_file: "file_fits f \<Longrightarrow> get_file (file_bytes f @ bs) = Some (f, bs)"
  using unat_small [of "length (snd f)", where 'l = 64]
  by (simp add: get_file_def file_bytes_def file_fits_def case_prod_beta)

lemma get_many:
  assumes "\<And>x bs. x \<in> set xs \<Longrightarrow> g (enc x @ bs) = Some (x, bs)"
  shows "get_many g (length xs) (concat (map enc xs) @ bs) = Some (xs, bs)"
  using assms by (induction xs) simp_all

lemma get_list:
  assumes "\<And>x bs. x \<in> set xs \<Longrightarrow> g (enc x @ bs) = Some (x, bs)" "length xs < 2 ^ 32"
  shows "get_list g (PutUint32 (of_nat (length xs)) @ concat (map enc xs) @ bs) = Some (xs, bs)"
  using get_many [of xs g enc bs] assms unat_small [of "length xs", where 'l = 32] by (simp add: get_list_def)

lemma get_child: "child_fits c \<Longrightarrow> get_child (child_bytes c @ bs) = Some (c, bs)"
proof -
  assume fits: "child_fits c"
  obtain i has sz fs where c: "c = (i, has, sz, fs)" by (cases c)
  have fs: "get_list get_file (files_bytes fs @ bs) = Some (fs, bs)"
    using get_list [of fs get_file file_bytes bs] fits get_file
    by (simp add: c child_fits_def files_bytes_def)
  have "sint (word_of_int sz :: 64 word) = sz"
    using fits by (simp add: c child_fits_def sint_sbintrunc' signed_take_bit_int_eq_self)
  with fits fs show ?thesis
    by (simp add: c child_fits_def get_child_def child_bytes_def)
qed

lemma get_listing:
  "\<forall>c \<in> set cs. child_fits c \<Longrightarrow> length cs < 2 ^ 32 \<Longrightarrow> get_listing (listing_bytes cs @ bs) = Some (cs, bs)"
  using get_list [of cs get_child child_bytes bs] get_child by (simp add: get_listing_def listing_bytes_def)

section \<open>A connection\<close>

text \<open>
  A connection that breaks after a number of bytes: what the client has received and how many bytes it
  will still take.
\<close>

definition conn_write :: "(bytes \<times> nat) writer" where
  "conn_write = (\<lambda>(got, room) b.
     if length b \<le> room then ((length b, None), (got @ b, room - length b))
     else ((room, Some ''broken pipe''), (got @ take room b, 0)))"

interpretation conn: stream_spec conn_write fst "\<lambda>(_, room). room = 0"
  by unfold_locales (auto simp: conn_write_def simp flip: length_greater_0_conv split: if_splits)

lemma conn_writeBytes:
  "length v \<le> room \<Longrightarrow> writeBytes conn_write v (got, room) = Some (int (length v), got @ v, room - length v)"
  unfolding conn.writeBytes_once by (simp add: conn_write_def)

section \<open>Properties\<close>

text \<open>
  C9: The listing of a folder reaches the client intact or is cut off. Over any connection that keeps
  the contract of \<^verbatim>\<open>io.Writer\<close> and stays down once it is down, and for metadata files that can be read,
  the part of \<^verbatim>\<open>serveMetadata\<close> that writes the response returns; what the client has then received is a
  prefix of the encoded listing, and all of it when the connection is still up. Decoding the encoded
  listing gives back, for each child, its id, its flag, its size and the names and contents of its
  metadata files.
\<close>

theorem listing_round_trip:
  assumes "stream_spec wr sent broken" "\<not> broken w"
    and files: "\<forall>c \<in> set cs. \<forall>p \<in> set (MetadataFiles c). readable osf disk p"
    and fits: "\<forall>c \<in> set cs. child_fits (child_info disk c)" "length cs < 2 ^ 32"
  shows "\<exists>n w' bs. write_children wr osf disk cs w = Some (n, w') \<and>
    prefix (sent w') (sent w @ bs) \<and> (\<not> broken w' \<longrightarrow> sent w' = sent w @ bs) \<and>
    get_listing bs = Some (map (child_info disk) cs, [])"
proof -
  let ?bs = "listing_bytes (map (child_info disk) cs)"
  have "get_listing ?bs = Some (map (child_info disk) cs, [])"
    using get_listing [of "map (child_info disk) cs" "[]"] fits by simp
  moreover from stream_spec.write_children_emits [OF assms(1) files, of w] obtain n w' where
    "write_children wr osf disk cs w = Some (n, w')" "prefix (sent w') (sent w @ ?bs)" "\<not> broken w' \<longrightarrow> sent w' = sent w @ ?bs"
    using assms(2) by (cases rule: emits_cases) (auto simp: take_is_prefix)
  ultimately show ?thesis by blast
qed

definition demo_children :: "FolderStructureEntry list" where
  "demo_children = [\<lparr>fe_ID = ''n'', HasChildren = True, InfoMetadataFileName = [], fe_Size = 7, MetadataFiles = [''/d/m'']\<rparr>]"

theorem listing_round_trip_witness:
  "\<exists>n w' bs. write_children conn_write (\<lambda>_ _. None) [(''/d/m'', File ''hi'')] demo_children ([], 100) = Some (n, w') \<and>
     prefix (fst w') bs \<and> get_listing bs = Some ([(''n'', True, 7, [(''m'', ''hi'')])], [])"
proof -
  have "child_info [(''/d/m'', File ''hi'')] (hd demo_children) = (''n'', True, 7, [(''m'', ''hi'')])"
    by (simp add: child_info_def demo_children_def content_of_def Base_def)
  moreover have "readable (\<lambda>_ _. None) [(''/d/m'', File ''hi'')] ''/d/m''" by (simp add: readable_def)
  ultimately show ?thesis
    using listing_round_trip [OF conn.stream_spec_axioms, of "([], 100)" demo_children "\<lambda>_ _. None" "[(''/d/m'', File ''hi'')]"]
    by (simp add: demo_children_def child_fits_def file_fits_def) blast
qed

text \<open>
  C40: A metadata file that has disappeared derails the stream. When the first child announces its
  metadata files and one of them cannot be examined any more, \<^verbatim>\<open>writeMetadataFiles\<close> stops after the name
  of that file, and \<^verbatim>\<open>serveMetadata\<close> goes on with the next child: over a connection that stays up the
  client receives the number of files and the name, but neither a length nor a content, immediately
  followed by the remaining children.
\<close>

theorem missing_file_derails:
  assumes "stream_spec wr sent broken" "\<not> broken w"
    and "MetadataFiles c = ps @ p # qs" "\<forall>q \<in> set ps. readable osf disk q" "\<not> is_Ok (os_Stat osf p disk)"
    and rest: "\<forall>c \<in> set cs. \<forall>q \<in> set (MetadataFiles c). readable osf disk q"
    and up: "write_children wr osf disk (c # cs) w = Some (n, w')" "\<not> broken w'"
  shows "sent w' = sent w @ PutUint32 (of_nat (length (c # cs))) @
    (string_bytes (fe_ID c) @ PutUint32 (if HasChildren c then 1 else 0) @ PutUint64 (of_int (fe_Size c)) @
     PutUint32 (of_nat (length (MetadataFiles c))) @
     concat (map (\<lambda>q. file_bytes (Base q, content_of disk q)) ps) @ string_bytes (Base p)) @
    concat (map (child_bytes \<circ> child_info disk) cs)"
proof -
  have "emits sent broken (concat (map (\<lambda>c. child_bytes (child_info disk c)) cs)) w1 (write_each (write_child wr osf disk) cs w1)" for w1
    by (rule emits_each) (use rest stream_spec.write_child_emits [OF assms(1)] in simp)
  note tail = emits_then [OF stream_spec.write_child_missing [OF assms(1,3-5)] this]
  note all = emits_then [OF stream_spec.writeInt32_emits [OF assms(1)] tail, of "int (length (c # cs))" w]
  have "emits sent broken (PutUint32 (of_nat (length (c # cs))) @
    ((string_bytes (fe_ID c) @ PutUint32 (if HasChildren c then 1 else 0) @ PutUint64 (of_int (fe_Size c)) @
     PutUint32 (of_nat (length (MetadataFiles c))) @
     concat (map (\<lambda>q. file_bytes (Base q, content_of disk q)) ps) @ string_bytes (Base p)) @
    concat (map (child_bytes \<circ> child_info disk) cs))) w (write_children wr osf disk (c # cs) w)"
    using all by (simp add: write_children_def comp_def write_each_Cons del: write_each.simps split del: if_split)
  then show ?thesis using up assms(2) by (cases rule: emits_cases) auto
qed

theorem missing_file_derails_witness:
  "\<exists>n w'. write_children conn_write (\<lambda>_ _. None) [] demo_children ([], 100) = Some (n, w') \<and>
     fst w' = PutUint32 1 @ string_bytes ''n'' @ PutUint32 1 @ PutUint64 7 @ PutUint32 1 @ string_bytes ''m''"
proof -
  let ?c = "hd demo_children"
  have stat: "\<not> is_Ok (os_Stat (\<lambda>_ _. None) ''/d/m'' [])" by (simp add: os_Stat_def)
  obtain n w' where r: "write_children conn_write (\<lambda>_ _. None) [] [?c] ([], 100) = Some (n, w')" "snd w' \<noteq> 0"
    by (simp add: demo_children_def write_children_def write_child_def writeMetadataFiles_def write_file_entry_def
        then_write_def writeInt32_def writeInt64_def writeString_def conn_writeBytes os_Stat_def Base_def)
  then have "fst w' = PutUint32 1 @ string_bytes ''n'' @ PutUint32 1 @ PutUint64 7 @ PutUint32 1 @ string_bytes ''m''"
    using missing_file_derails [OF conn.stream_spec_axioms _ _ _ stat _ r(1), of "[]" "[]"]
    by (simp add: demo_children_def Base_def case_prod_beta)
  with r show ?thesis by (simp add: demo_children_def)
qed

end
