(* ===== verification/Folder_Tree.thy ===== *)
theory Folder_Tree
  imports File_Index
begin

text \<open>
  The folder hierarchy of \<^verbatim>\<open>src/filesys/filesys.go\<close> (lines 110 to 117 and 456 to 1144): the older
  logic of the device, which the HTTP routes, the deletion of old contents and the integrity check
  still call. Three buckets hold it:
  \<^item> \<^verbatim>\<open>Tree\<close>: a node to the name of its parent followed by the names of its children, each a string of
    \<open>nodeLength\<close> bytes;
  \<^item> \<^verbatim>\<open>FolderNameMapping\<close>: a node to the folder name users see;
  \<^item> \<^verbatim>\<open>SatelliteMapping\<close>: a node to the directory of a folder that came by satellite.
  A loop over a value of \<^verbatim>\<open>Tree\<close> skips its first slot, the parent. A slice that reaches beyond the end
  of a value is \<open>Panic\<close>; the invariant \<open>tree_inv\<close> excludes such values.
\<close>

abbreviation Tree :: string where "Tree \<equiv> ''Tree''"
abbreviation FolderNameMapping :: string where "FolderNameMapping \<equiv> ''FolderNameMapping''"
abbreviation SatelliteMapping :: string where "SatelliteMapping \<equiv> ''SatelliteMapping''"

section \<open>Nodes, names and paths\<close>

definition CreateHomeFolder :: "os_faults \<Rightarrow> 'db FileSystem \<Rightarrow> disk \<Rightarrow> unit res \<times> disk" where
  "CreateHomeFolder osf fs disk = os_MkdirAll osf (Join [homeDirLocation fs, homeNode fs]) disk"

definition put_if_absent :: "'db bolt \<Rightarrow> string \<Rightarrow> bytes \<Rightarrow> bytes \<Rightarrow> 'db \<Rightarrow> 'db res" where
  "put_if_absent B b k v db =
     bind_res (bucket_get B db b k) (\<lambda>old.
       if old = None then wrap_err ''[Filesystem][CreateHome] '' (bucket_put B b k v db) else Ok db)"

definition CreateHome :: "'db bolt \<Rightarrow> 'db FileSystem \<Rightarrow> unit res \<times> 'db FileSystem" where
  "CreateHome B fs =
     fs_update B (\<lambda>db. bind_res (put_if_absent B Tree (homeNode fs) (homeNode fs) db)
       (put_if_absent B FolderNameMapping (homeNode fs) ''home'')) fs"

definition GetFolderNameForNode :: "'db bolt \<Rightarrow> 'db FileSystem \<Rightarrow> bytes \<Rightarrow> string res" where
  "GetFolderNameForNode B fs node =
     bind_res (bucket_get B (nodesDB fs) FolderNameMapping node) (\<lambda>t.
       case t of
         None \<Rightarrow> Err ''[Filesystem][GetFolderNameForNode] can't find node  in FolderNameMapping Bucket''
       | Some folder_name \<Rightarrow> Ok folder_name)"

definition GetChildrenForNode :: "'db bolt \<Rightarrow> 'db FileSystem \<Rightarrow> bytes \<Rightarrow> bytes res" where
  "GetChildrenForNode B fs root =
     bind_res (bucket_get B (nodesDB fs) Tree root) (\<lambda>t.
       case t of
         None \<Rightarrow> Err ''[Filesystem][GetChildrenForNode] can't find node  in Tree Bucket. Empty node''
       | Some children \<Rightarrow> Ok children)"

text \<open>
  The loop over the children of a node, from the slot after the parent on: the first one with the
  given folder name.
\<close>

function find_child :: "'db bolt \<Rightarrow> 'db FileSystem \<Rightarrow> bytes \<Rightarrow> string \<Rightarrow> bytes option res" where
  "find_child B fs rest folder =
     (if rest = [] then Ok None
      else if nodeLength fs = 0 then Diverge
      else if length rest < nodeLength fs then Panic
      else bind_res (GetFolderNameForNode B fs (take (nodeLength fs) rest)) (\<lambda>name.
        if name = folder then Ok (Some (take (nodeLength fs) rest))
        else find_child B fs (drop (nodeLength fs) rest) folder))"
  by pat_completeness auto
termination
  by (relation "measure (\<lambda>(B, fs, rest, folder). length rest)") auto

declare find_child.simps [simp del]

fun node_from :: "'db bolt \<Rightarrow> 'db FileSystem \<Rightarrow> bytes \<Rightarrow> string list \<Rightarrow> bytes res" where
  "node_from B fs root [] = Ok root"
| "node_from B fs root (folder # hierarchy) =
     bind_res (GetChildrenForNode B fs root) (\<lambda>children.
     bind_res (find_child B fs (drop (nodeLength fs) children) folder) (\<lambda>found.
       case found of
         None \<Rightarrow> Err (''[Filesystem][GetFolderNameForNode] can't find the node for folder '' @ folder @ '' in the hierarchy'')
       | Some node \<Rightarrow> node_from B fs node hierarchy))"

definition getNodeForPath :: "'db bolt \<Rightarrow> 'db FileSystem \<Rightarrow> string list \<Rightarrow> bytes res" where
  "getNodeForPath B fs hierarchy = node_from B fs (homeNode fs) hierarchy"

function names_from :: "'db bolt \<Rightarrow> 'db FileSystem \<Rightarrow> bytes \<Rightarrow> string list res" where
  "names_from B fs rest =
     (if rest = [] then Ok []
      else if nodeLength fs = 0 then Diverge
      else if length rest < nodeLength fs then Panic
      else bind_res (GetFolderNameForNode B fs (take (nodeLength fs) rest)) (\<lambda>name.
        bind_res (names_from B fs (drop (nodeLength fs) rest)) (\<lambda>names. Ok (name # names))))"
  by pat_completeness auto
termination
  by (relation "measure (\<lambda>(B, fs, rest). length rest)") auto

declare names_from.simps [simp del]

definition getChildrenNamesForNode :: "'db bolt \<Rightarrow> 'db FileSystem \<Rightarrow> bytes \<Rightarrow> string list res" where
  "getChildrenNamesForNode B fs parent =
     bind_res (GetChildrenForNode B fs parent) (\<lambda>children. names_from B fs (drop (nodeLength fs) children))"

definition path_parts :: "string \<Rightarrow> string list" where
  "path_parts path = Split (Trim path CHR ''/'') CHR ''/''"

section \<open>Creating folders\<close>

definition InsertNode :: "'db bolt \<Rightarrow> bytes \<Rightarrow> bytes \<Rightarrow> 'db FileSystem \<Rightarrow> unit res \<times> 'db FileSystem" where
  "InsertNode B node parent =
     fs_update B (\<lambda>db.
       bind_res (wrap_err ''[Filesystem][InsertNode] '' (bucket_put B Tree node parent db)) (\<lambda>db.
       case bolt_get B db Tree parent of
         None \<Rightarrow> Err (''[Filesystem][InsertNode] parent node '' @ parent @ '' doesn't exist in Tree Bucket'')
       | Some children \<Rightarrow>
           wrap_err ''[Filesystem][InsertNode] '' (bucket_put B Tree parent (children @ node) db)))"

definition put_name :: "'db bolt \<Rightarrow> bytes \<Rightarrow> string \<Rightarrow> 'db FileSystem \<Rightarrow> unit res \<times> 'db FileSystem" where
  "put_name B node folder_name =
     fs_update B (\<lambda>db. wrap_err ''[Filesystem][CreateFolder] '' (bucket_put B FolderNameMapping node folder_name db))"

text \<open>
  The checks that \<^verbatim>\<open>CreateFolder\<close> and \<^verbatim>\<open>CreateDownloadNewFolder\<close> start with: the folder's name, a new
  node and its parent. An empty hierarchy is an index out of range.
\<close>

definition new_node ::
    "'db bolt \<Rightarrow> (nat \<Rightarrow> string) \<Rightarrow> string list \<Rightarrow> 'db FileSystem \<Rightarrow> nat \<Rightarrow> (string \<times> bytes \<times> bytes) res \<times> nat" where
  "new_node B uuid hierarchy fs n =
     (if hierarchy = [] then (Panic, n)
      else case RandStringBytes uuid (homeNode fs) n of
        None \<Rightarrow> (Diverge, n)
      | Some (node, n) \<Rightarrow>
          (bind_res (getNodeForPath B fs (butlast hierarchy)) (\<lambda>parent.
           bind_res (getChildrenNamesForNode B fs parent) (\<lambda>current_children.
             if stringInSlice current_children (last hierarchy)
             then Err ''[Filesystem][CreateFolder] A folder with the same name at the requested level already exists''
             else Ok (last hierarchy, node, parent))), n))"

definition node_path :: "'db FileSystem \<Rightarrow> bytes \<Rightarrow> string" where
  "node_path fs node = Join [homeDirLocation fs, homeNode fs, node]"

definition CreateFolder ::
    "'db bolt \<Rightarrow> (nat \<Rightarrow> string) \<Rightarrow> os_faults \<Rightarrow> string list \<Rightarrow> nat \<Rightarrow> disk \<Rightarrow> 'db FileSystem \<Rightarrow>
     string res \<times> nat \<times> disk \<times> 'db FileSystem" where
  "CreateFolder B uuid osf hierarchy n disk fs =
     (case new_node B uuid hierarchy fs n of
        (Ok (folder_name, node, parent), n) \<Rightarrow>
          (case put_name B node folder_name fs of
             (Ok _, fs) \<Rightarrow>
               (case InsertNode B node parent fs of
                  (Ok _, fs) \<Rightarrow>
                    (case os_MkdirAll osf (node_path fs node) disk of
                       (r, disk) \<Rightarrow> (bind_res r (\<lambda>_. Ok node), n, disk, fs))
                | (r, fs) \<Rightarrow> (bind_res r (\<lambda>_. Ok []), n, disk, fs))
           | (r, fs) \<Rightarrow> (bind_res r (\<lambda>_. Ok []), n, disk, fs))
      | (r, n) \<Rightarrow> (bind_res r (\<lambda>_. Ok []), n, disk, fs))"

definition MarkFolderSatellite :: "'db bolt \<Rightarrow> bytes \<Rightarrow> string \<Rightarrow> 'db FileSystem \<Rightarrow> unit res \<times> 'db FileSystem" where
  "MarkFolderSatellite B node satelliteFolderPath =
     fs_update B (\<lambda>db. wrap_err ''[Filesystem][MarkFolderSatellite] ''
       (bucket_put B SatelliteMapping node satelliteFolderPath db))"

definition CreateDownloadNewFolder ::
    "'db bolt \<Rightarrow> (nat \<Rightarrow> string) \<Rightarrow> os_faults \<Rightarrow> string list \<Rightarrow>
     (string \<Rightarrow> string list list \<Rightarrow> disk \<Rightarrow> unit res \<times> disk) \<Rightarrow> string list list \<Rightarrow> bool \<Rightarrow> string \<Rightarrow>
     nat \<Rightarrow> disk \<Rightarrow> 'db FileSystem \<Rightarrow> unit res \<times> nat \<times> disk \<times> 'db FileSystem" where
  "CreateDownloadNewFolder B uuid osf hierarchy dfunc downloadParams isSatellite satelliteFolderPath n disk fs =
     (case new_node B uuid hierarchy fs n of
        (Ok (folder_name, node, parent), n) \<Rightarrow>
          (let actual_path = node_path fs node in
           case os_MkdirAll osf actual_path disk of
             (Ok _, disk) \<Rightarrow>
               (case dfunc actual_path downloadParams disk of
                  (Ok _, disk) \<Rightarrow>
                    (case put_name B node folder_name fs of
                       (Ok _, fs) \<Rightarrow>
                         (case InsertNode B node parent fs of
                            (Ok _, fs) \<Rightarrow>
                              (case (if isSatellite then MarkFolderSatellite B node satelliteFolderPath fs else (Ok (), fs)) of
                                 (r, fs) \<Rightarrow> (r, n, disk, fs))
                          | (r, fs) \<Rightarrow> (r, n, disk, fs))
                     | (r, fs) \<Rightarrow> (r, n, disk, fs))
                | (Err err, disk) \<Rightarrow>
                    (case os_RemoveAll osf actual_path disk of
                       (Err f_err, disk) \<Rightarrow> (Err f_err, n, disk, fs)
                     | (_, disk) \<Rightarrow> (Err err, n, disk, fs))
                | (r, disk) \<Rightarrow> (r, n, disk, fs))
           | (r, disk) \<Rightarrow> (r, n, disk, fs))
      | (r, n) \<Rightarrow> (bind_res r (\<lambda>_. Ok ()), n, disk, fs))"

definition Old_InitFileSystem :: "'db bolt \<Rightarrow> os_faults \<Rightarrow> disk \<Rightarrow> 'db FileSystem \<Rightarrow> unit res \<times> disk \<times> 'db FileSystem" where
  "Old_InitFileSystem B osf disk fs =
     (case CreateBucket B Tree fs of
        (Ok _, fs) \<Rightarrow>
          (case CreateBucket B FolderNameMapping fs of
             (Ok _, fs) \<Rightarrow>
               (case CreateBucket B SatelliteMapping fs of
                  (Ok _, fs) \<Rightarrow>
                    (case CreateHome B fs of
                       (Ok _, fs) \<Rightarrow> (case CreateHomeFolder osf fs disk of (r, disk) \<Rightarrow> (r, disk, fs))
                     | (r, fs) \<Rightarrow> (r, disk, fs))
                | (r, fs) \<Rightarrow> (r, disk, fs))
           | (r, fs) \<Rightarrow> (r, disk, fs))
      | (r, fs) \<Rightarrow> (r, disk, fs))"

section \<open>Reading folders\<close>

text \<open>The value and the error are both returned.\<close>

definition GetSatelliteFolderPath :: "'db bolt \<Rightarrow> 'db FileSystem \<Rightarrow> string \<Rightarrow> (string \<times> error option) res" where
  "GetSatelliteFolderPath B fs node =
     bind_res (bucket_get B (nodesDB fs) SatelliteMapping node) (\<lambda>path.
       case path of
         None \<Rightarrow> Ok ([], Some (''Satellite folder '' @ node @ '' does not exist''))
       | Some p \<Rightarrow> Ok (p, None))"

definition IsSatelliteFolder :: "'db bolt \<Rightarrow> 'db FileSystem \<Rightarrow> string \<Rightarrow> bool res" where
  "IsSatelliteFolder B fs node = bind_res (GetSatelliteFolderPath B fs node) (\<lambda>(_, err). Ok (err = None))"

definition IsSatelliteLeaf :: "'db bolt \<Rightarrow> 'db FileSystem \<Rightarrow> string \<Rightarrow> bool res" where
  "IsSatelliteLeaf B fs abstractPath =
     (case getNodeForPath B fs (path_parts abstractPath) of
        Err _ \<Rightarrow> Ok False
      | r \<Rightarrow> bind_res r (IsSatelliteFolder B fs))"

definition GetActualPathForAbstractedPath :: "'db bolt \<Rightarrow> 'db FileSystem \<Rightarrow> string \<Rightarrow> string res" where
  "GetActualPathForAbstractedPath B fs path =
     bind_res (getNodeForPath B fs (path_parts path)) (\<lambda>node.
     bind_res (GetSatelliteFolderPath B fs node) (\<lambda>(satellitePath, err).
       Ok (if err = None then satellitePath else node_path fs node)))"

definition IsLeaf :: "'db bolt \<Rightarrow> disk \<Rightarrow> 'db FileSystem \<Rightarrow> string \<Rightarrow> bool res" where
  "IsLeaf B disk fs actual_path_folder =
     (if \<not> os_exists disk actual_path_folder
      then Err (''[Filesystem][IsLeaf] stat '' @ actual_path_folder @ '': no such file or directory'')
      else bind_res (GetChildrenForNode B fs (last (path_parts actual_path_folder)))
        (\<lambda>children. Ok (length children = nodeLength fs)))"

definition GetFileType :: "string \<Rightarrow> string res" where
  "GetFileType file_name =
     (let temp = Split file_name CHR ''_'' in
      if length temp = 1 then Err ''[Filesystem][GetFileType] file does't have a type'' else Ok (hd temp))"

text \<open>
  \<^verbatim>\<open>GetChildrenInfo\<close>: \<open>pfunc\<close> computes what is listed of a child from its directory, with an effect on
  the state \<open>'s\<close> (it writes to the log). The error of the name lookup is dropped.
\<close>

function children_info ::
    "'db bolt \<Rightarrow> 'db FileSystem \<Rightarrow> (string \<Rightarrow> 's \<Rightarrow> 'i list res \<times> 's) \<Rightarrow> bytes \<Rightarrow> 's \<Rightarrow> (string \<times> 'i list) list res \<times> 's" where
  "children_info B fs pfunc rest s =
     (if nodeLength fs = 0 \<or> length rest < nodeLength fs then (Ok [], s)
      else let child = take (nodeLength fs) rest in
        (case (case GetFolderNameForNode B fs child of Err _ \<Rightarrow> Ok [] | r \<Rightarrow> r) of
           Ok folder_name \<Rightarrow>
             (case pfunc (node_path fs child) s of
                (Ok child_ret, s) \<Rightarrow>
                  (case children_info B fs pfunc (drop (nodeLength fs) rest) s of
                     (infos, s) \<Rightarrow> (bind_res infos (\<lambda>infos. Ok ((folder_name, child_ret) # infos)), s))
              | (r, s) \<Rightarrow> (bind_res r (\<lambda>_. Ok []), s))
         | r \<Rightarrow> (bind_res r (\<lambda>_. Ok []), s)))"
  by pat_completeness auto
termination
  by (relation "measure (\<lambda>(B, fs, pfunc, rest, s). length rest)") auto

declare children_info.simps [simp del]

text \<open>\<^verbatim>\<open>make\<close> of a slice of negative length panics: a value shorter than one slot.\<close>

definition GetChildrenInfo ::
    "'db bolt \<Rightarrow> 'db FileSystem \<Rightarrow> (string \<Rightarrow> 's \<Rightarrow> 'i list res \<times> 's) \<Rightarrow> string \<Rightarrow> 's \<Rightarrow> (string \<times> 'i list) list res \<times> 's" where
  "GetChildrenInfo B fs pfunc path s =
     (case bind_res (getNodeForPath B fs (path_parts path)) (GetChildrenForNode B fs) of
        Ok children \<Rightarrow>
          if nodeLength fs = 0 \<or> length children < nodeLength fs then (Panic, s)
          else children_info B fs pfunc (drop (nodeLength fs) children) s
      | r \<Rightarrow> (bind_res r (\<lambda>_. Ok []), s))"

text \<open>
  The traversals recurse over the tree; they end when the tree has no cycle. \<open>fuel\<close> bounds the depth,
  and running out of it is \<open>Diverge\<close>. A missing name reads as the empty string, a missing node as a
  node without children.
\<close>

definition name_or_empty :: "'db bolt \<Rightarrow> 'db FileSystem \<Rightarrow> bytes \<Rightarrow> string res" where
  "name_or_empty B fs node = (case GetFolderNameForNode B fs node of Err _ \<Rightarrow> Ok [] | r \<Rightarrow> r)"

definition children_or_empty :: "'db bolt \<Rightarrow> 'db FileSystem \<Rightarrow> bytes \<Rightarrow> bytes res" where
  "children_or_empty B fs node = (case GetChildrenForNode B fs node of Err _ \<Rightarrow> Ok [] | r \<Rightarrow> r)"

function for_children :: "nat \<Rightarrow> (bytes \<Rightarrow> 's \<Rightarrow> 's res) \<Rightarrow> bytes \<Rightarrow> 's \<Rightarrow> 's res" where
  "for_children n f rest s =
     (if rest = [] then Ok s
      else if n = 0 then Diverge
      else if length rest < n then Panic
      else bind_res (f (take n rest) s) (for_children n f (drop n rest)))"
  by pat_completeness auto
termination
  by (relation "measure (\<lambda>(n, f, rest, s). length rest)") auto

declare for_children.simps [simp del]

fun preOrderTraversal :: "'db bolt \<Rightarrow> 'db FileSystem \<Rightarrow> nat \<Rightarrow> bytes \<Rightarrow> string \<Rightarrow> string list res" where
  "preOrderTraversal B fs 0 root prefix = Diverge"
| "preOrderTraversal B fs (Suc fuel) root prefix =
     bind_res (name_or_empty B fs root) (\<lambda>folder_name.
     bind_res (children_or_empty B fs root) (\<lambda>children.
       if length children = nodeLength fs then Ok [prefix @ ''/'' @ folder_name]
       else for_children (nodeLength fs)
         (\<lambda>child ans. bind_res (preOrderTraversal B fs fuel child (prefix @ ''/'' @ folder_name)) (\<lambda>l. Ok (ans @ l)))
         (drop (nodeLength fs) children) []))"

definition strip_home :: "string \<Rightarrow> string \<Rightarrow> string res" where
  "strip_home homeNodeName x =
     (if length x < length homeNodeName + 1 then Panic else Ok (drop (length homeNodeName + 1) x))"

fun map_res :: "('a \<Rightarrow> 'b res) \<Rightarrow> 'a list \<Rightarrow> 'b list res" where
  "map_res f [] = Ok []"
| "map_res f (x # xs) = bind_res (f x) (\<lambda>y. bind_res (map_res f xs) (\<lambda>ys. Ok (y # ys)))"

definition GetLeavesList :: "'db bolt \<Rightarrow> 'db FileSystem \<Rightarrow> nat \<Rightarrow> string \<Rightarrow> string list res" where
  "GetLeavesList B fs fuel actual_path =
     (let all = (Trim actual_path CHR ''/'' = []) in
      bind_res (if all then Ok (homeNode fs) else getNodeForPath B fs (path_parts actual_path)) (\<lambda>startingNode.
      bind_res (preOrderTraversal B fs fuel startingNode []) (\<lambda>ans.
      bind_res (if all
                then bind_res (name_or_empty B fs startingNode) (\<lambda>homeNodeName. map_res (strip_home homeNodeName) ans)
                else Ok ans) (\<lambda>ans.
      Ok (filter (\<lambda>x. x \<noteq> []) ans)))))"

text \<open>\<open>recursivelyPrintNode\<close> returns the lines it prints.\<close>

fun recursivelyPrintNode :: "'db bolt \<Rightarrow> 'db FileSystem \<Rightarrow> nat \<Rightarrow> bytes \<Rightarrow> nat \<Rightarrow> string list res" where
  "recursivelyPrintNode B fs 0 root level = Diverge"
| "recursivelyPrintNode B fs (Suc fuel) root level =
     bind_res (name_or_empty B fs root) (\<lambda>folder_name.
     bind_res (children_or_empty B fs root) (\<lambda>children.
       for_children (nodeLength fs)
         (\<lambda>child lines. bind_res (recursivelyPrintNode B fs fuel child (level + 1)) (\<lambda>l. Ok (lines @ l)))
         (drop (nodeLength fs) children) [replicate level (CHR 9) @ folder_name]))"

definition PrintFileSystem :: "'db bolt \<Rightarrow> 'db FileSystem \<Rightarrow> nat \<Rightarrow> string list res" where
  "PrintFileSystem B fs fuel = recursivelyPrintNode B fs fuel (homeNode fs) 0"

section \<open>Deleting folders\<close>

definition delete_in :: "'db bolt \<Rightarrow> string \<Rightarrow> bytes \<Rightarrow> 'db FileSystem \<Rightarrow> unit res \<times> 'db FileSystem" where
  "delete_in B b node =
     fs_update B (\<lambda>db. wrap_err ''[Filesystem][DeleteNodeSubtree] '' (bucket_delete B b node db))"

text \<open>
  The part of \<^verbatim>\<open>DeleteNodeSubtree\<close> after its children (lines 1003 to 1061): the entries of the node in
  \<^verbatim>\<open>Tree\<close> and \<^verbatim>\<open>FolderNameMapping\<close>, then, for a satellite folder, its entry and its directory, then the
  directory of the node.
\<close>

definition remove_dir :: "os_faults \<Rightarrow> string \<Rightarrow> disk \<times> 'db FileSystem \<Rightarrow> unit res \<times> disk \<times> 'db FileSystem" where
  "remove_dir osf path = (\<lambda>(disk, fs). case os_RemoveAll osf path disk of (r, disk) \<Rightarrow> (r, disk, fs))"

definition delete_satellite ::
    "'db bolt \<Rightarrow> os_faults \<Rightarrow> bytes \<Rightarrow> disk \<times> 'db FileSystem \<Rightarrow> unit res \<times> disk \<times> 'db FileSystem" where
  "delete_satellite B osf node = (\<lambda>(disk, fs).
     case GetSatelliteFolderPath B fs node of
       Ok (satelliteFolderPath, None) \<Rightarrow>
         (case delete_in B SatelliteMapping node fs of
            (Ok _, fs) \<Rightarrow>
              if \<not> os_exists disk satelliteFolderPath then (Ok (), disk, fs)
              else remove_dir osf satelliteFolderPath (disk, fs)
          | (r, fs) \<Rightarrow> (r, disk, fs))
     | Ok (_, Some _) \<Rightarrow> (Ok (), disk, fs)
     | r \<Rightarrow> (bind_res r (\<lambda>_. Ok ()), disk, fs))"

definition delete_node ::
    "'db bolt \<Rightarrow> os_faults \<Rightarrow> bytes \<Rightarrow> disk \<times> 'db FileSystem \<Rightarrow> unit res \<times> disk \<times> 'db FileSystem" where
  "delete_node B osf node = (\<lambda>(disk, fs).
     case delete_in B Tree node fs of
       (Ok _, fs) \<Rightarrow>
         (case delete_in B FolderNameMapping node fs of
            (Ok _, fs) \<Rightarrow>
              (case delete_satellite B osf node (disk, fs) of
                 (Ok _, disk, fs) \<Rightarrow> remove_dir osf (node_path fs node) (disk, fs)
               | r \<Rightarrow> r)
          | (r, fs) \<Rightarrow> (r, disk, fs))
     | (r, fs) \<Rightarrow> (r, disk, fs))"

text \<open>The errors of the recursive calls are dropped.\<close>

definition drop_error :: "unit res \<times> 's \<Rightarrow> 's res" where
  "drop_error = (\<lambda>(r, s). case r of Panic \<Rightarrow> Panic | Diverge \<Rightarrow> Diverge | _ \<Rightarrow> Ok s)"

fun DeleteNodeSubtree ::
    "'db bolt \<Rightarrow> os_faults \<Rightarrow> nat \<Rightarrow> bytes \<Rightarrow> disk \<times> 'db FileSystem \<Rightarrow> unit res \<times> disk \<times> 'db FileSystem" where
  "DeleteNodeSubtree B osf 0 node s = (Diverge, s)"
| "DeleteNodeSubtree B osf (Suc fuel) node s =
     (case GetChildrenForNode B (snd s) node of
        Ok children \<Rightarrow>
          (case for_children (nodeLength (snd s)) (\<lambda>child s. drop_error (DeleteNodeSubtree B osf fuel child s))
                  (drop (nodeLength (snd s)) children) s of
             Ok s \<Rightarrow> delete_node B osf node s
           | r \<Rightarrow> (bind_res r (\<lambda>_. Ok ()), s))
      | r \<Rightarrow> (bind_res r (\<lambda>_. Ok ()), s))"

text \<open>The transaction of \<^verbatim>\<open>DeleteFolder\<close> that takes the node out of its parent (lines 1072 to 1091).\<close>

definition unlink_node :: "'db bolt \<Rightarrow> nat \<Rightarrow> bytes \<Rightarrow> 'db \<Rightarrow> 'db res" where
  "unlink_node B n node db =
     bind_res (bucket_get B db Tree node) (\<lambda>entry.
     case entry of
       None \<Rightarrow> Panic
     | Some v \<Rightarrow>
         if length v < n then Panic
         else let parent = take n v in
           bind_res (for_children n (\<lambda>child acc. Ok (if child = node then acc else acc @ child))
               (case bolt_get B db Tree parent of None \<Rightarrow> [] | Some children \<Rightarrow> children) []) (\<lambda>children.
             wrap_err ''[Filesystem][DeleteNodeSubtree] '' (bucket_put B Tree parent children db)))"

definition DeleteFolder ::
    "'db bolt \<Rightarrow> os_faults \<Rightarrow> nat \<Rightarrow> string list \<Rightarrow> disk \<times> 'db FileSystem \<Rightarrow> unit res \<times> disk \<times> 'db FileSystem" where
  "DeleteFolder B osf fuel hierarchy = (\<lambda>(disk, fs).
     case getNodeForPath B fs hierarchy of
       Ok node \<Rightarrow>
         (case fs_update B (unlink_node B (nodeLength fs) node) fs of
            (Panic, fs) \<Rightarrow> (Panic, disk, fs)
          | (Diverge, fs) \<Rightarrow> (Diverge, disk, fs)
          | (err, fs) \<Rightarrow>
              (case (case GetSatelliteFolderPath B fs node of
                       Ok (satelliteFolderPath, None) \<Rightarrow>
                         (case err of Err e \<Rightarrow> (Err e, disk, fs) | _ \<Rightarrow> remove_dir osf satelliteFolderPath (disk, fs))
                     | Ok (_, Some _) \<Rightarrow> (Ok (), disk, fs)
                     | r \<Rightarrow> (bind_res r (\<lambda>_. Ok ()), disk, fs)) of
                 (Ok _, disk, fs) \<Rightarrow>
                   (case remove_dir osf (node_path fs node) (disk, fs) of
                      (Ok _, s) \<Rightarrow> DeleteNodeSubtree B osf fuel node s
                    | r \<Rightarrow> r)
               | r \<Rightarrow> r))
     | r \<Rightarrow> (bind_res r (\<lambda>_. Ok ()), disk, fs))"

text \<open>\<open>delete_empty k\<close> is the loop of \<^verbatim>\<open>RecursiveDeleteFolder\<close> for the prefixes of length \<open>k\<close> down to 1.\<close>

fun delete_empty ::
    "'db bolt \<Rightarrow> os_faults \<Rightarrow> nat \<Rightarrow> string list \<Rightarrow> nat \<Rightarrow> disk \<times> 'db FileSystem \<Rightarrow> unit res \<times> disk \<times> 'db FileSystem" where
  "delete_empty B osf fuel hierarchy 0 s = (Ok (), s)"
| "delete_empty B osf fuel hierarchy (Suc k) s =
     (case getNodeForPath B (snd s) (take (Suc k) hierarchy) of
        Ok node \<Rightarrow>
          (case GetChildrenForNode B (snd s) node of
             Ok children \<Rightarrow>
               if length children = nodeLength (snd s)
               then (case DeleteFolder B osf fuel (take (Suc k) hierarchy) s of
                       (Ok _, s) \<Rightarrow> delete_empty B osf fuel hierarchy k s
                     | r \<Rightarrow> r)
               else (Ok (), s)
           | r \<Rightarrow> (bind_res r (\<lambda>_. Ok ()), s))
      | r \<Rightarrow> (bind_res r (\<lambda>_. Ok ()), s))"

definition RecursiveDeleteFolder ::
    "'db bolt \<Rightarrow> os_faults \<Rightarrow> nat \<Rightarrow> string list \<Rightarrow> disk \<times> 'db FileSystem \<Rightarrow> unit res \<times> disk \<times> 'db FileSystem" where
  "RecursiveDeleteFolder B osf fuel hierarchy s =
     (case DeleteFolder B osf fuel hierarchy s of
        (Ok _, s) \<Rightarrow> delete_empty B osf fuel hierarchy (length hierarchy - 1) s
      | r \<Rightarrow> r)"

end
