(* ===== verification/Folder_Paths.thy ===== *)
theory Folder_Paths
  imports Folder_Tree "HOL-Library.Sublist"
begin

text \<open>
  What the folder hierarchy of \<open>Folder_Tree\<close> promises: its buckets stand for a tree (\<open>kids\<close>, the
  names, the invariant \<open>tree_inv\<close>), the lookup of a path is a walk in that tree, and creating a
  folder adds exactly one path.
\<close>

section \<open>The tree the buckets stand for\<close>

text \<open>A value of \<^verbatim>\<open>Tree\<close>, cut into slots of \<open>n\<close> bytes.\<close>

function slots :: "nat \<Rightarrow> bytes \<Rightarrow> bytes list" where
  "slots n v = (if n = 0 \<or> v = [] then [] else take n v # slots n (drop n v))"
  by pat_completeness auto
termination
  by (relation "measure (\<lambda>(n, v). length v)") auto

declare slots.simps [simp del]

abbreviation tree_of :: "'db bolt \<Rightarrow> 'db FileSystem \<Rightarrow> bytes \<Rightarrow> bytes option" where
  "tree_of B fs \<equiv> bolt_get B (nodesDB fs) Tree"

abbreviation name_of :: "'db bolt \<Rightarrow> 'db FileSystem \<Rightarrow> bytes \<Rightarrow> bytes option" where
  "name_of B fs \<equiv> bolt_get B (nodesDB fs) FolderNameMapping"

definition kids :: "'db bolt \<Rightarrow> 'db FileSystem \<Rightarrow> bytes \<Rightarrow> bytes list" where
  "kids B fs node = (case tree_of B fs node of None \<Rightarrow> [] | Some v \<Rightarrow> slots (nodeLength fs) (drop (nodeLength fs) v))"

text \<open>
  The invariant of the hierarchy: values of \<^verbatim>\<open>Tree\<close> are whole, non-empty sequences of slots; the home
  node has the length of a slot, exists, has itself in its first slot and is nobody's child; every child of a node exists, has that node in its first slot and
  has a name; siblings have different names.
\<close>

definition tree_inv :: "'db bolt \<Rightarrow> 'db FileSystem \<Rightarrow> bool" where
  "tree_inv B fs \<longleftrightarrow> 0 < nodeLength fs \<and> length (homeNode fs) = nodeLength fs \<and>
     bolt_bucket B (nodesDB fs) Tree \<and> bolt_bucket B (nodesDB fs) FolderNameMapping \<and>
     (\<exists>v. tree_of B fs (homeNode fs) = Some v \<and> take (nodeLength fs) v = homeNode fs) \<and>
     (\<forall>k v. tree_of B fs k = Some v \<longrightarrow> v \<noteq> [] \<and> nodeLength fs dvd length v) \<and>
     (\<forall>k. \<forall>c \<in> set (kids B fs k). name_of B fs c \<noteq> None \<and> c \<noteq> homeNode fs \<and>
        (\<exists>v. tree_of B fs c = Some v \<and> take (nodeLength fs) v = k)) \<and>
     (\<forall>k. distinct (map (name_of B fs) (kids B fs k)))"

lemma tree_invD:
  assumes "tree_inv B fs"
  shows "0 < nodeLength fs" "bolt_bucket B (nodesDB fs) Tree" "bolt_bucket B (nodesDB fs) FolderNameMapping"
    "tree_of B fs (homeNode fs) \<noteq> None"
    "tree_of B fs k = Some v \<Longrightarrow> v \<noteq> []" "tree_of B fs k = Some v \<Longrightarrow> nodeLength fs dvd length v"
    "c \<in> set (kids B fs k) \<Longrightarrow> name_of B fs c \<noteq> None" "c \<in> set (kids B fs k) \<Longrightarrow> c \<noteq> homeNode fs"
    "c \<in> set (kids B fs k) \<Longrightarrow> \<exists>v. tree_of B fs c = Some v \<and> take (nodeLength fs) v = k"
    "distinct (map (name_of B fs) (kids B fs k))" "length (homeNode fs) = nodeLength fs"
    "\<exists>v. tree_of B fs (homeNode fs) = Some v \<and> take (nodeLength fs) v = homeNode fs"
  using assms unfolding tree_inv_def by blast+

section \<open>Slots\<close>

lemma slots_Nil [simp]: "slots n [] = []"
  by (simp add: slots.simps)

lemma slots_step: "0 < n \<Longrightarrow> v \<noteq> [] \<Longrightarrow> slots n v = take n v # slots n (drop n v)"
  by (subst slots.simps) simp

lemma slots_one: "0 < n \<Longrightarrow> length v = n \<Longrightarrow> slots n v = [v]"
  by (subst slots.simps) auto

text \<open>Induction over the slots of a value whose length is a multiple of the slot length.\<close>

lemma aligned_induct [consumes 2, case_names Nil slot]:
  assumes "0 < (n :: nat)" "n dvd length v" and "P []"
    and step: "\<And>v. v \<noteq> [] \<Longrightarrow> n \<le> length v \<Longrightarrow> slots n v = take n v # slots n (drop n v) \<Longrightarrow>
      P (drop n v) \<Longrightarrow> P v"
  shows "P v"
  using assms(2)
proof (induction "length v" arbitrary: v rule: less_induct)
  case less
  show ?case
  proof (cases "v = []")
    case False
    then have n: "n \<le> length v" using less.prems by (simp add: dvd_imp_le)
    then have "n dvd length (drop n v)" using less.prems by (simp add: dvd_diff_nat)
    with less n False step [of v] slots_step [of n v] \<open>0 < n\<close> show ?thesis by simp
  qed (use assms(3) in simp)
qed

lemma slots_append:
  assumes "0 < n" "n dvd length v"
  shows "slots n (v @ w) = slots n v @ slots n w"
  using assms
proof (induction v rule: aligned_induct)
  case (slot v)
  then show ?case using slots_step [of n "v @ w"] assms(1) by simp
qed simp

lemma slots_length:
  assumes "0 < n" "n dvd length v" "c \<in> set (slots n v)"
  shows "length c = n"
  using assms
  by (induction v rule: aligned_induct) auto

lemma find_append:
  "find P (xs @ ys) = (case find P xs of None \<Rightarrow> find P ys | Some x \<Rightarrow> Some x)"
  by (induction xs) auto

lemma find_SomeD: "find P xs = Some x \<Longrightarrow> x \<in> set xs \<and> P x"
  by (induction xs) (auto split: if_splits)

section \<open>Walking a tree\<close>

text \<open>
  Looking up a path in a tree given by its children and names: the node, or the first folder of the
  path that is not there.
\<close>

fun walk :: "(bytes \<Rightarrow> bytes list) \<Rightarrow> (bytes \<Rightarrow> string option) \<Rightarrow> bytes \<Rightarrow> string list \<Rightarrow> string + bytes" where
  "walk ks nm root [] = Inr root"
| "walk ks nm root (folder # hierarchy) =
     (case find (\<lambda>c. nm c = Some folder) (ks root) of
        None \<Rightarrow> Inl folder
      | Some node \<Rightarrow> walk ks nm node hierarchy)"

lemma walk_append:
  "walk ks nm root (h @ h') = (case walk ks nm root h of Inl f \<Rightarrow> Inl f | Inr m \<Rightarrow> walk ks nm m h')"
  by (induction h arbitrary: root) (auto split: option.splits)

lemma walk_Inl:
  "walk ks nm root h = Inl g \<Longrightarrow>
   \<exists>h1 h2 m. h = h1 @ g # h2 \<and> walk ks nm root h1 = Inr m \<and> find (\<lambda>c. nm c = Some g) (ks m) = None"
proof (induction h arbitrary: root)
  case (Cons f h)
  show ?case
  proof (cases "find (\<lambda>c. nm c = Some f) (ks root)")
    case None
    with Cons.prems show ?thesis by (intro exI [of _ "[] :: string list"] exI [of _ h] exI [of _ root]) simp
  next
    case (Some c)
    with Cons obtain h1 h2 m where "h = h1 @ g # h2" "walk ks nm c h1 = Inr m"
      "find (\<lambda>c. nm c = Some g) (ks m) = None" by fastforce
    with Some show ?thesis by (intro exI [of _ "f # h1"] exI [of _ h2] exI [of _ m]) simp
  qed
qed simp

lemma walk_snoc:
  "walk ks nm root (h @ [f]) = Inr m \<Longrightarrow>
   \<exists>k. walk ks nm root h = Inr k \<and> m \<in> set (ks k) \<and> nm m = Some f"
  by (auto simp: walk_append dest!: find_SomeD split: sum.splits option.splits)

lemma walk_node:
  assumes "walk ks nm root h = Inr m"
  shows "m = root \<or> (\<exists>k. m \<in> set (ks k))"
  using assms by (cases h rule: rev_cases) (auto dest: walk_snoc)

text \<open>A node that knows its parent has one path only.\<close>

lemma walk_unique:
  assumes parent: "\<And>k c. c \<in> set (ks k) \<Longrightarrow> c \<noteq> root \<and> par c = k"
    and "walk ks nm root h = Inr m" "walk ks nm root h' = Inr m"
  shows "h = h'"
  using assms(2,3)
proof (induction h arbitrary: m h' rule: rev_induct)
  case Nil
  then show ?case using parent by (cases h' rule: rev_cases) (auto dest!: walk_snoc)
next
  case (snoc f h)
  then obtain k where k: "walk ks nm root h = Inr k" "m \<in> set (ks k)" "nm m = Some f"
    by (blast dest: walk_snoc)
  with parent snoc.prems(2) obtain g f' where h': "h' = g @ [f']"
    by (cases h' rule: rev_cases) auto
  with snoc.prems(2) obtain k' where k': "walk ks nm root g = Inr k'" "m \<in> set (ks k')" "nm m = Some f'"
    by (blast dest: walk_snoc)
  have "k' = k" "f' = f" using parent [OF k(2)] parent [OF k'(2)] k(3) k'(3) by simp_all
  with snoc.IH [OF k(1)] k'(1) h' show ?case by simp
qed

text \<open>Growing a tree keeps the nodes of its paths.\<close>

lemma walk_mono:
  assumes "walk ks nm root h = Inr m"
    and "\<And>k. \<exists>new. ks' k = ks k @ new" and "\<And>c k. c \<in> set (ks k) \<Longrightarrow> nm' c = nm c"
  shows "walk ks' nm' root h = Inr m"
  using assms(1)
proof (induction h arbitrary: root)
  case (Cons f h)
  then obtain c where c: "find (\<lambda>c. nm c = Some f) (ks root) = Some c" "walk ks nm c h = Inr m"
    by (auto split: option.splits)
  obtain new where new: "ks' root = ks root @ new" using assms(2) by blast
  have "find (\<lambda>c. nm' c = Some f) (ks root) = find (\<lambda>c. nm c = Some f) (ks root)"
    using assms(3) by (intro find_cong) auto
  with c(1) new have "find (\<lambda>c. nm' c = Some f) (ks' root) = Some c"
    by (simp add: find_append)
  with Cons.IH [OF c(2)] show ?case by simp
qed simp

text \<open>
  Adding the fresh node \<open>c\<close> with name \<open>f\<close> below the node of \<open>hp\<close> adds the path \<open>hp @ [f]\<close> and
  changes no other.
\<close>

lemma walk_insert:
  assumes parent: "\<And>k c. c \<in> set (ks k) \<Longrightarrow> c \<noteq> root \<and> par c = k"
    and p: "walk ks nm root hp = Inr p" and free: "find (\<lambda>c. nm c = Some f) (ks p) = None"
    and fresh: "\<And>k. c \<notin> set (ks k)" "ks c = []" "c \<noteq> p"
  defines "ks' \<equiv> ks(p := ks p @ [c])" and "nm' \<equiv> nm(c := Some f)"
  shows "walk ks' nm' root (hp @ f # h) = (case h of [] \<Rightarrow> Inr c | g # _ \<Rightarrow> Inl g)"
    and "\<not> prefix (hp @ [f]) h' \<Longrightarrow> walk ks' nm' root h' = walk ks nm root h'"
proof -
  have nm: "nm' d = nm d" if "d \<in> set (ks k)" for d k using fresh(1) [of k] that by (auto simp: nm'_def)
  have grow: "walk ks' nm' root h = Inr m" if "walk ks nm root h = Inr m" for h m
    by (rule walk_mono [OF that]) (use nm in \<open>auto simp: ks'_def\<close>)
  have same: "find (\<lambda>d. nm' d = Some g) (ks k) = find (\<lambda>d. nm d = Some g) (ks k)" for g k
    using nm by (intro find_cong) auto
  have "find (\<lambda>d. nm' d = Some f) (ks' p) = Some c"
    using same [of f p] free by (simp add: ks'_def find_append) (simp add: nm'_def)
  then show "walk ks' nm' root (hp @ f # h) = (case h of [] \<Rightarrow> Inr c | g # _ \<Rightarrow> Inl g)"
    using grow [OF p] fresh by (simp add: walk_append ks'_def split: list.split)
  show "walk ks' nm' root h' = walk ks nm root h'" if no: "\<not> prefix (hp @ [f]) h'"
  proof (cases "walk ks nm root h'")
    case (Inl g)
    then obtain h1 h2 m where h: "h' = h1 @ g # h2" "walk ks nm root h1 = Inr m"
      "find (\<lambda>c. nm c = Some g) (ks m) = None" by (blast dest: walk_Inl)
    have "m \<noteq> p \<or> g \<noteq> f"
      using walk_unique [OF parent h(2), of hp] p no h(1) by (auto simp: prefix_def)
    then have "find (\<lambda>c. nm' c = Some g) (ks' m) = None"
      using same [of g m] h(3) by (auto simp: ks'_def find_append) (auto simp: nm'_def)
    with grow [OF h(2)] h(1) Inl show ?thesis by (simp add: walk_append)
  qed (use grow in simp)
qed

section \<open>Lookups are walks\<close>

abbreviation tree_walk :: "'db bolt \<Rightarrow> 'db FileSystem \<Rightarrow> bytes \<Rightarrow> string list \<Rightarrow> string + bytes" where
  "tree_walk B fs \<equiv> walk (kids B fs) (name_of B fs)"

definition no_folder :: "string \<Rightarrow> error" where
  "no_folder folder = ''[Filesystem][GetFolderNameForNode] can't find the node for folder '' @ folder @ '' in the hierarchy''"

lemma name_lookup:
  "bolt_bucket B (nodesDB fs) FolderNameMapping \<Longrightarrow> name_of B fs c \<noteq> None \<Longrightarrow>
   GetFolderNameForNode B fs c = Ok (the (name_of B fs c))"
  by (auto simp: GetFolderNameForNode_def bucket_get_def)

lemma find_child_slots:
  assumes "0 < nodeLength fs" "nodeLength fs dvd length rest" "bolt_bucket B (nodesDB fs) FolderNameMapping"
    and "\<forall>c \<in> set (slots (nodeLength fs) rest). name_of B fs c \<noteq> None"
  shows "find_child B fs rest folder = Ok (find (\<lambda>c. name_of B fs c = Some folder) (slots (nodeLength fs) rest))"
  using assms(1,2,4)
proof (induction rest rule: aligned_induct)
  case (slot v)
  then show ?case using assms(1,3) by (subst find_child.simps) (auto simp: name_lookup)
qed (subst find_child.simps, simp)

lemma names_from_slots:
  assumes "0 < nodeLength fs" "nodeLength fs dvd length rest" "bolt_bucket B (nodesDB fs) FolderNameMapping"
    and "\<forall>c \<in> set (slots (nodeLength fs) rest). name_of B fs c \<noteq> None"
  shows "names_from B fs rest = Ok (map (\<lambda>c. the (name_of B fs c)) (slots (nodeLength fs) rest))"
  using assms(1,2,4)
proof (induction rest rule: aligned_induct)
  case (slot v)
  then show ?case using assms(1,3) by (subst names_from.simps) (auto simp: name_lookup)
qed (subst names_from.simps, simp)

lemma children_slots:
  assumes "tree_inv B fs" "tree_of B fs k \<noteq> None"
  obtains v where "GetChildrenForNode B fs k = Ok v" "kids B fs k = slots (nodeLength fs) (drop (nodeLength fs) v)"
    "nodeLength fs dvd length (drop (nodeLength fs) v)"
proof -
  from assms(2) obtain v where v: "tree_of B fs k = Some v" by blast
  moreover have "nodeLength fs dvd length (drop (nodeLength fs) v)"
    using tree_invD(6) [OF assms(1) v] by (simp add: dvd_diff_nat)
  ultimately show thesis
    using tree_invD(2) [OF assms(1)] that by (simp add: GetChildrenForNode_def bucket_get_def kids_def)
qed

lemma tree_named:
  "tree_inv B fs \<Longrightarrow> kids B fs k = slots n v \<Longrightarrow> \<forall>c \<in> set (slots n v). name_of B fs c \<noteq> None"
  using tree_invD(7) by metis

lemma node_from_walk:
  assumes "tree_inv B fs" "tree_of B fs root \<noteq> None"
  shows "node_from B fs root h = (case tree_walk B fs root h of Inr m \<Rightarrow> Ok m | Inl f \<Rightarrow> Err (no_folder f))"
  using assms(2)
proof (induction h arbitrary: root)
  case (Cons f h)
  obtain v where v: "GetChildrenForNode B fs root = Ok v" "kids B fs root = slots (nodeLength fs) (drop (nodeLength fs) v)"
    "nodeLength fs dvd length (drop (nodeLength fs) v)"
    using children_slots [OF assms(1) Cons.prems] by blast
  have found: "find_child B fs (drop (nodeLength fs) v) f = Ok (find (\<lambda>c. name_of B fs c = Some f) (kids B fs root))"
    using find_child_slots [of fs "drop (nodeLength fs) v" B f] tree_invD(1,3) [OF assms(1)] v tree_named [OF assms(1)]
    by simp
  show ?case
  proof (cases "find (\<lambda>c. name_of B fs c = Some f) (kids B fs root)")
    case None
    with v(1) found show ?thesis by (simp add: no_folder_def)
  next
    case (Some c)
    then have "tree_of B fs c \<noteq> None" using tree_invD(9) [OF assms(1), of c root] by (auto dest: find_SomeD)
    with Cons.IH v(1) found Some show ?thesis by simp
  qed
qed simp

lemma tree_walk_exists:
  assumes "tree_inv B fs" "tree_walk B fs (homeNode fs) h = Inr m"
  shows "tree_of B fs m \<noteq> None"
  using walk_node [OF assms(2)] tree_invD(4,9) [OF assms(1)] by fastforce

lemma getNodeForPath_walk:
  "tree_inv B fs \<Longrightarrow> getNodeForPath B fs h =
     (case tree_walk B fs (homeNode fs) h of Inr m \<Rightarrow> Ok m | Inl f \<Rightarrow> Err (no_folder f))"
  unfolding getNodeForPath_def by (rule node_from_walk) (auto dest: tree_invD(4))

lemma children_names:
  assumes "tree_inv B fs" "tree_of B fs k \<noteq> None"
  shows "getChildrenNamesForNode B fs k = Ok (map (\<lambda>c. the (name_of B fs c)) (kids B fs k))"
proof -
  obtain v where "GetChildrenForNode B fs k = Ok v" "kids B fs k = slots (nodeLength fs) (drop (nodeLength fs) v)"
    "nodeLength fs dvd length (drop (nodeLength fs) v)"
    using children_slots [OF assms] by blast
  then show ?thesis
    using names_from_slots [of fs "drop (nodeLength fs) v" B] tree_invD(1,3) [OF assms(1)] tree_named [OF assms(1)]
    by (simp add: getChildrenNamesForNode_def)
qed

lemma stringInSlice_iff [simp]: "stringInSlice list a \<longleftrightarrow> a \<in> set list"
  by (induction list) auto

section \<open>Creating a folder\<close>

text \<open>The node below a path is free when no child of it has the folder's name.\<close>

lemma name_taken:
  assumes "tree_inv B fs"
  shows "f \<in> set (map (\<lambda>c. the (name_of B fs c)) (kids B fs k)) \<longleftrightarrow>
    find (\<lambda>c. name_of B fs c = Some f) (kids B fs k) \<noteq> None"
proof -
  have "the (name_of B fs c) = f \<longleftrightarrow> name_of B fs c = Some f" if "c \<in> set (kids B fs k)" for c
    using tree_invD(7) [OF assms that] by auto
  then show ?thesis by (auto simp: find_None_iff image_iff)
qed

lemma new_node_cases:
  assumes inv: "tree_inv B fs" and h: "hierarchy \<noteq> []"
    and draw: "RandStringBytes uuid (homeNode fs) n = Some (node, n')"
  obtains (no_parent) f where "getNodeForPath B fs (butlast hierarchy) = Err (no_folder f)"
      "new_node B uuid hierarchy fs n = (Err (no_folder f), n')"
  | (taken) m where "getNodeForPath B fs hierarchy = Ok m"
      "new_node B uuid hierarchy fs n =
        (Err ''[Filesystem][CreateFolder] A folder with the same name at the requested level already exists'', n')"
  | (free) parent where "tree_walk B fs (homeNode fs) (butlast hierarchy) = Inr parent"
      "find (\<lambda>c. name_of B fs c = Some (last hierarchy)) (kids B fs parent) = None"
      "new_node B uuid hierarchy fs n = (Ok (last hierarchy, node, parent), n')"
proof (cases "tree_walk B fs (homeNode fs) (butlast hierarchy)")
  case (Inl f)
  then show ?thesis
    using no_parent [of f] h draw by (simp add: new_node_def getNodeForPath_walk [OF inv])
next
  case (Inr parent)
  have names: "getChildrenNamesForNode B fs parent = Ok (map (\<lambda>c. the (name_of B fs c)) (kids B fs parent))"
    using children_names [OF inv tree_walk_exists [OF inv Inr]] .
  have split: "tree_walk B fs (homeNode fs) hierarchy =
      (case find (\<lambda>c. name_of B fs c = Some (last hierarchy)) (kids B fs parent) of
         None \<Rightarrow> Inl (last hierarchy) | Some m \<Rightarrow> Inr m)"
    using walk_append [of "kids B fs" "name_of B fs" "homeNode fs" "butlast hierarchy" "[last hierarchy]"] h Inr
    by (simp split: option.splits)
  show ?thesis
  proof (cases "find (\<lambda>c. name_of B fs c = Some (last hierarchy)) (kids B fs parent)")
    case None
    then show ?thesis
      using free [OF Inr] h draw names Inr name_taken [OF inv, of "last hierarchy" parent]
      by (simp add: new_node_def getNodeForPath_walk [OF inv])
  next
    case (Some m)
    then show ?thesis
      using taken [of m] h draw names Inr split name_taken [OF inv, of "last hierarchy" parent]
      by (simp add: new_node_def getNodeForPath_walk [OF inv])
  qed
qed

text \<open>What inserting a node does to the tree, given its effect on the two buckets.\<close>

lemma kid_length:
  assumes "tree_inv B fs" "c \<in> set (kids B fs k)"
  shows "length c = nodeLength fs"
proof (cases "tree_of B fs k")
  case (Some v)
  then have "nodeLength fs dvd length (drop (nodeLength fs) v)"
    using tree_invD(6) [OF assms(1) Some] by (simp add: dvd_diff_nat)
  with slots_length [OF tree_invD(1) [OF assms(1)] this] assms(2) Some show ?thesis by (simp add: kids_def)
qed (use assms(2) in \<open>simp add: kids_def\<close>)

lemma walk_length:
  assumes "tree_inv B fs" "tree_walk B fs (homeNode fs) h = Inr m"
  shows "length m = nodeLength fs"
  using walk_node [OF assms(2)] tree_invD(11) [OF assms(1)] kid_length [OF assms(1)] by blast

lemma fresh_not_kid: "tree_inv B fs \<Longrightarrow> tree_of B fs node = None \<Longrightarrow> node \<notin> set (kids B fs k)"
  using tree_invD(9) by fastforce

definition inserted :: "'db bolt \<Rightarrow> bytes \<Rightarrow> bytes \<Rightarrow> string \<Rightarrow> 'db FileSystem \<Rightarrow> 'db FileSystem \<Rightarrow> bool" where
  "inserted B node p f fs fs' \<longleftrightarrow> fs' = fs\<lparr>nodesDB := nodesDB fs'\<rparr> \<and>
     bolt_bucket B (nodesDB fs') = bolt_bucket B (nodesDB fs) \<and>
     tree_of B fs' = (tree_of B fs)(node \<mapsto> p, p \<mapsto> the (tree_of B fs p) @ node) \<and>
     name_of B fs' = (name_of B fs)(node \<mapsto> f)"

lemma insertedD:
  assumes "inserted B node p f fs fs'"
  shows "nodeLength fs' = nodeLength fs" "homeNode fs' = homeNode fs" "homeDirLocation fs' = homeDirLocation fs"
    "bolt_bucket B (nodesDB fs') = bolt_bucket B (nodesDB fs)"
    "tree_of B fs' = (tree_of B fs)(node \<mapsto> p, p \<mapsto> the (tree_of B fs p) @ node)"
    "name_of B fs' = (name_of B fs)(node \<mapsto> f)"
proof -
  from assms have "fs' = fs\<lparr>nodesDB := nodesDB fs'\<rparr>" by (simp add: inserted_def)
  then show "nodeLength fs' = nodeLength fs" "homeNode fs' = homeNode fs" "homeDirLocation fs' = homeDirLocation fs"
    by (metis FileSystem.select_convs FileSystem.update_convs(4) FileSystem.surjective)+
qed (use assms in \<open>simp_all add: inserted_def\<close>)

lemma kids_inserted:
  assumes inv: "tree_inv B fs" and ins: "inserted B node p f fs fs'"
    and fresh: "tree_of B fs node = None" "length node = nodeLength fs"
    and p: "tree_of B fs p \<noteq> None" "length p = nodeLength fs"
  shows "kids B fs' = (kids B fs)(p := kids B fs p @ [node])"
proof
  fix k
  obtain v where v: "tree_of B fs p = Some v" using p(1) by blast
  have n: "0 < nodeLength fs" by (rule tree_invD(1) [OF inv])
  have "nodeLength fs dvd length v" "nodeLength fs \<le> length v" "nodeLength fs dvd length (drop (nodeLength fs) v)"
    using tree_invD(5,6) [OF inv v] by (auto simp: dvd_imp_le dvd_diff_nat)
  then have "slots (nodeLength fs) (drop (nodeLength fs) (v @ node)) = slots (nodeLength fs) (drop (nodeLength fs) v) @ [node]"
    using slots_append [OF n] slots_one [OF n fresh(2)] by simp
  then show "kids B fs' k = ((kids B fs)(p := kids B fs p @ [node])) k"
    using v fresh p(2) insertedD(1,5) [OF ins]
    by (auto simp: kids_def split: option.split)
qed

lemma tree_inv_inserted:
  assumes inv: "tree_inv B fs" and ins: "inserted B node p f fs fs'"
    and fresh: "tree_of B fs node = None" "length node = nodeLength fs"
    and p: "tree_of B fs p \<noteq> None" "length p = nodeLength fs"
    and free: "find (\<lambda>c. name_of B fs c = Some f) (kids B fs p) = None"
  shows "tree_inv B fs'"
proof -
  note ks = kids_inserted [OF inv ins fresh p]
  note D = tree_invD [OF inv] and I = insertedD [OF ins]
  obtain v where v: "tree_of B fs p = Some v" using p(1) by blast
  have v': "v \<noteq> []" "nodeLength fs \<le> length v" using D(5,6) [OF v] by (auto simp: dvd_imp_le)
  have home: "homeNode fs \<noteq> node" using D(4) fresh(1) by metis
  have np: "node \<noteq> p" using p(1) fresh(1) by metis
  have slot: "w \<noteq> [] \<and> nodeLength fs' dvd length w" if "tree_of B fs' k = Some w" for k w
  proof (cases "k = p")
    case True
    then show ?thesis using that v v' D(6) [OF v] fresh(2) I(1,5) by (auto split: if_splits)
  next
    case False
    then show ?thesis using that p(2) D(1) D(5,6) [of k w] I(1,5) by (cases "k = node") auto
  qed
  have kid: "name_of B fs' c \<noteq> None \<and> c \<noteq> homeNode fs' \<and> (\<exists>w. tree_of B fs' c = Some w \<and> take (nodeLength fs') w = k)"
    if "c \<in> set (kids B fs' k)" for c k
  proof (cases "c = node")
    case True
    then have "k = p" using that fresh_not_kid [OF inv fresh(1)] by (auto simp: ks split: if_splits)
    with True show ?thesis using home np p(2) I by auto
  next
    case False
    then have c: "c \<in> set (kids B fs k)" using that by (auto simp: ks split: if_splits)
    then obtain w where w: "tree_of B fs c = Some w" "take (nodeLength fs) w = k" using D(9) by blast
    with D(7,8) [OF c] False v v' I show ?thesis by (cases "c = p") auto
  qed
  have other: "map (name_of B fs') (kids B fs k) = map (name_of B fs) (kids B fs k)" for k
    using fresh_not_kid [OF inv fresh(1)] I(6) by auto
  have "distinct (map (name_of B fs') (kids B fs' k))" for k
  proof (cases "k = p")
    case True
    have "Some f \<notin> set (map (name_of B fs) (kids B fs p))" using free by (auto simp: find_None_iff image_iff)
    moreover have "map (name_of B fs') (kids B fs' p) = map (name_of B fs) (kids B fs p) @ [Some f]"
      using other [of p] I(6) by (simp add: ks)
    ultimately show ?thesis using True D(10) [of p] by simp
  next
    case False
    then show ?thesis using D(10) [of k] other [of k] by (simp add: ks del: map_eq_conv)
  qed
  moreover have "\<exists>w. tree_of B fs' (homeNode fs') = Some w \<and> take (nodeLength fs') w = homeNode fs'"
    using D(12) v v' home I(1,2,5) by (cases "p = homeNode fs") auto
  ultimately show ?thesis using slot kid D(1-3) D(11) I(1,2,4) unfolding tree_inv_def by auto
qed

context bolt_spec
begin

lemma put_name_Ok:
  assumes "put_name B node f fs = (Ok u, fs')"
  shows "fs' = fs\<lparr>nodesDB := nodesDB fs'\<rparr>" "bolt_bucket B (nodesDB fs') = bolt_bucket B (nodesDB fs)"
    "tree_of B fs' = tree_of B fs" "name_of B fs' = (name_of B fs)(node \<mapsto> f)"
proof -
  note ok = fs_update_Ok [OF assms [unfolded put_name_def]]
  from ok(1) have "bucket_put B FolderNameMapping node f (nodesDB fs) = Ok (nodesDB fs')" by simp
  from bucket_put_Ok(1,2) [OF this] ok(2) show "fs' = fs\<lparr>nodesDB := nodesDB fs'\<rparr>"
    "bolt_bucket B (nodesDB fs') = bolt_bucket B (nodesDB fs)"
    "tree_of B fs' = tree_of B fs" "name_of B fs' = (name_of B fs)(node \<mapsto> f)" by auto
qed

lemma InsertNode_Ok:
  assumes "InsertNode B node p fs = (Ok u, fs')" "node \<noteq> p"
  shows "fs' = fs\<lparr>nodesDB := nodesDB fs'\<rparr>" "bolt_bucket B (nodesDB fs') = bolt_bucket B (nodesDB fs)"
    "tree_of B fs' = (tree_of B fs)(node \<mapsto> p, p \<mapsto> the (tree_of B fs p) @ node)" "name_of B fs' = name_of B fs"
proof -
  note ok = fs_update_Ok [OF assms(1) [unfolded InsertNode_def]]
  from ok(1) obtain db1 v where db1: "bucket_put B Tree node p (nodesDB fs) = Ok db1"
    and v: "bolt_get B db1 Tree p = Some v" and put: "bucket_put B Tree p (v @ node) db1 = Ok (nodesDB fs')"
    by (auto split: option.splits)
  from v bucket_put_Ok(1) [OF db1] assms(2) have "tree_of B fs p = Some v" by auto
  with bucket_put_Ok(1,2) [OF db1] bucket_put_Ok(1,2) [OF put] ok(2) show "fs' = fs\<lparr>nodesDB := nodesDB fs'\<rparr>"
    "bolt_bucket B (nodesDB fs') = bolt_bucket B (nodesDB fs)"
    "tree_of B fs' = (tree_of B fs)(node \<mapsto> p, p \<mapsto> the (tree_of B fs p) @ node)" "name_of B fs' = name_of B fs"
    by auto
qed

lemma put_insert:
  assumes "put_name B node f fs = (Ok u, fs1)" "InsertNode B node p fs1 = (Ok u', fs')" "node \<noteq> p"
  shows "inserted B node p f fs fs'"
proof -
  note A = put_name_Ok [OF assms(1)] and I = InsertNode_Ok [OF assms(2,3)]
  have "fs' = fs\<lparr>nodesDB := nodesDB fs'\<rparr>" by (subst I(1), subst A(1)) simp
  with A I show ?thesis by (simp add: inserted_def)
qed


lemma CreateFolder_Ok:
  assumes inv: "tree_inv B fs" and draw: "RandStringBytes uuid (homeNode fs) n = Some (node, m)"
    and fresh: "tree_of B fs node = None" "length node = nodeLength fs"
    and ok: "CreateFolder B uuid osf hierarchy n disk fs = (Ok x, n', disk', fs')"
  obtains p where "x = node" "hierarchy \<noteq> []" "tree_walk B fs (homeNode fs) (butlast hierarchy) = Inr p"
    "find (\<lambda>c. name_of B fs c = Some (last hierarchy)) (kids B fs p) = None"
    "inserted B node p (last hierarchy) fs fs'" "os_MkdirAll osf (node_path fs' node) disk = (Ok (), disk')"
proof -
  have h: "hierarchy \<noteq> []" using ok by (auto simp: CreateFolder_def new_node_def)
  from inv h draw show thesis
  proof (cases rule: new_node_cases)
    case (free p)
    obtain r1 fs1 where put: "put_name B node (last hierarchy) fs = (r1, fs1)" by fastforce
    obtain r2 fs2 where ins: "InsertNode B node p fs1 = (r2, fs2)" by fastforce
    obtain r3 disk3 where mk: "os_MkdirAll osf (node_path fs2 node) disk = (r3, disk3)" by fastforce
    have "r1 = Ok ()" using ok free(3) put by (cases r1) (auto simp: CreateFolder_def)
    moreover have "r2 = Ok ()" using ok free(3) put ins calculation by (cases r2) (auto simp: CreateFolder_def)
    moreover have "r3 = Ok () \<and> x = node \<and> fs2 = fs' \<and> disk3 = disk'"
      using ok free(3) put ins mk calculation by (cases r3) (auto simp: CreateFolder_def)
    ultimately have put: "put_name B node (last hierarchy) fs = (Ok (), fs1)" and ins: "InsertNode B node p fs1 = (Ok (), fs')"
      and mk: "os_MkdirAll osf (node_path fs' node) disk = (Ok (), disk')" and x: "x = node"
      using put ins mk by simp_all
    have "node \<noteq> p" using tree_walk_exists [OF inv free(1)] fresh(1) by metis
    with put_insert [OF put ins] that [OF x h free(1,2) _ mk] show ?thesis by blast
  qed (use ok in \<open>simp_all add: CreateFolder_def\<close>)
qed

lemma put_name_commits:
  assumes "commits B" "bolt_bucket B (nodesDB fs) FolderNameMapping" "fits node f"
  shows "\<exists>fs'. put_name B node f fs = (Ok (), fs')"
proof -
  obtain db where "bucket_put B FolderNameMapping node f (nodesDB fs) = Ok db"
    using bucket_put_succeeds assms(2,3) unfolding fits_def by blast
  then show ?thesis using assms(1) by (simp add: put_name_def fs_update_def commits_def)
qed

lemma InsertNode_commits:
  assumes "commits B" "bolt_bucket B (nodesDB fs) Tree" "fits node p" "tree_of B fs p = Some v" "fits p (v @ node)" "node \<noteq> p"
  shows "\<exists>fs'. InsertNode B node p fs = (Ok (), fs')"
proof -
  obtain db1 where db1: "bucket_put B Tree node p (nodesDB fs) = Ok db1"
    using bucket_put_succeeds assms(2,3) unfolding fits_def by blast
  with bucket_put_Ok(1,2) [OF db1] assms(2,4,6) have "bolt_bucket B db1 Tree" "bolt_get B db1 Tree p = Some v" by auto
  moreover from this(1) obtain db2 where "bucket_put B Tree p (v @ node) db1 = Ok db2"
    using bucket_put_succeeds assms(5) unfolding fits_def by blast
  ultimately show ?thesis using assms(1) db1 by (simp add: InsertNode_def fs_update_def commits_def)
qed

lemma put_insert_commits:
  assumes com: "commits B" and inv: "tree_inv B fs" and fresh: "tree_of B fs node = None"
    and fit: "fits node f" "fits node (homeNode fs)" "\<forall>k v. tree_of B fs k = Some v \<longrightarrow> fits k (v @ node)"
    and p: "tree_walk B fs (homeNode fs) h = Inr p"
  shows "\<exists>fs1 fs2. put_name B node f fs = (Ok (), fs1) \<and> InsertNode B node p fs1 = (Ok (), fs2) \<and> inserted B node p f fs fs2"
proof -
  obtain v where v: "tree_of B fs p = Some v" using tree_walk_exists [OF inv p] by blast
  have np: "node \<noteq> p" using v fresh by auto
  have fp: "fits node p" using fit(2) walk_length [OF inv p] tree_invD(11) [OF inv] by (simp add: fits_def)
  obtain fs1 where fs1: "put_name B node f fs = (Ok (), fs1)"
    using put_name_commits [OF com tree_invD(3) [OF inv] fit(1)] by blast
  note A = put_name_Ok [OF fs1]
  obtain fs2 where "InsertNode B node p fs1 = (Ok (), fs2)"
    using InsertNode_commits [OF com _ fp _ _ np, of fs1 v] A(2,3) tree_invD(2) [OF inv] v fit(3) by auto
  with fs1 put_insert [OF fs1 this np] show ?thesis by blast
qed

lemma CreateFolder_free:
  assumes com: "commits B" and inv: "tree_inv B fs" and fresh: "tree_of B fs node = None" "length node = nodeLength fs"
    and fit: "fits node (last hierarchy)" "fits node (homeNode fs)" "\<forall>k v. tree_of B fs k = Some v \<longrightarrow> fits k (v @ node)"
    and mk: "osf (MkdirAll (node_path fs node)) disk = None"
    and p: "tree_walk B fs (homeNode fs) (butlast hierarchy) = Inr p"
    and "find (\<lambda>c. name_of B fs c = Some (last hierarchy)) (kids B fs p) = None"
    and new: "new_node B uuid hierarchy fs n = (Ok (last hierarchy, node, p), n')"
  shows "fst (CreateFolder B uuid osf hierarchy n disk fs) = Ok node"
proof -
  obtain fs1 fs2 where fs2: "put_name B node (last hierarchy) fs = (Ok (), fs1)" "InsertNode B node p fs1 = (Ok (), fs2)"
    "inserted B node p (last hierarchy) fs fs2"
    using put_insert_commits [OF com inv fresh(1) fit p] by blast
  have "node_path fs2 node = node_path fs node" using insertedD(2,3) [OF fs2(3)] by (simp add: node_path_def)
  with mk new fs2 show ?thesis by (simp add: CreateFolder_def os_MkdirAll_def)
qed

lemma CreateBucket_keeps:
  assumes "CreateBucket B b fs = (Ok u, fs')"
  shows "fs' = fs\<lparr>nodesDB := nodesDB fs'\<rparr>"
  using fs_update_Ok(2) [OF assms [unfolded CreateBucket_def]] .

lemma InitFileSystem_buckets:
  assumes "InitFileSystem B fs = (Ok u, fs')"
  shows "bolt_bucket B (nodesDB fs') b \<longleftrightarrow>
    b \<in> {AssetPathMapping, SatelliteIdtoAssetIdMapping, PendingAPIRequestMapping} \<or> bolt_bucket B (nodesDB fs) b"
proof -
  from assms obtain fs1 fs2 where
    s: "CreateBucket B AssetPathMapping fs = (Ok (), fs1)" "CreateBucket B SatelliteIdtoAssetIdMapping fs1 = (Ok (), fs2)"
      "CreateBucket B PendingAPIRequestMapping fs2 = (Ok (), fs')"
    by (auto simp: InitFileSystem_def split: prod.splits res.splits)
  show ?thesis using CreateBucket_Ok(1) [OF s(1)] CreateBucket_Ok(1) [OF s(2)] CreateBucket_Ok(1) [OF s(3)] by auto
qed

lemma put_if_absent_Ok:
  assumes "put_if_absent B b k v db = Ok db'" "bolt_get B db b k = None"
  shows "bolt_get B db' b' k' = (if b' = b \<and> k' = k then Some v else bolt_get B db b' k')"
    "bolt_bucket B db' b' = bolt_bucket B db b'"
proof -
  from assms have put: "bucket_put B b k v db = Ok db'"
    by (auto simp: put_if_absent_def bucket_get_def split: if_splits)
  from bucket_put_Ok(1,2) [OF put] show "bolt_get B db' b' k' = (if b' = b \<and> k' = k then Some v else bolt_get B db b' k')"
    "bolt_bucket B db' b' = bolt_bucket B db b'" .
qed

lemma Old_InitFileSystem_Ok:
  assumes "Old_InitFileSystem B osf disk fs = (Ok u, disk', fs')"
    and empty: "\<forall>k. tree_of B fs k = None \<and> name_of B fs k = None"
  shows "nodeLength fs' = nodeLength fs" "homeNode fs' = homeNode fs"
    "bolt_bucket B (nodesDB fs') Tree" "bolt_bucket B (nodesDB fs') FolderNameMapping"
    "tree_of B fs' = [homeNode fs \<mapsto> homeNode fs]" "name_of B fs' = [homeNode fs \<mapsto> ''home'']"
proof -
  from assms(1) obtain fs1 fs2 fs3 where
    s: "CreateBucket B Tree fs = (Ok (), fs1)" "CreateBucket B FolderNameMapping fs1 = (Ok (), fs2)"
      "CreateBucket B SatelliteMapping fs2 = (Ok (), fs3)" "CreateHome B fs3 = (Ok (), fs')"
    by (auto simp: Old_InitFileSystem_def split: prod.splits res.splits)
  note C = CreateBucket_Ok [OF s(1)] CreateBucket_Ok [OF s(2)] CreateBucket_Ok [OF s(3)]
  have same: "nodeLength fs3 = nodeLength fs" "homeNode fs3 = homeNode fs"
    by (subst CreateBucket_keeps [OF s(3)], subst CreateBucket_keeps [OF s(2)], subst CreateBucket_keeps [OF s(1)], simp)+
  note H = fs_update_Ok [OF s(4) [unfolded CreateHome_def]]
  from H(1) obtain db where t: "put_if_absent B Tree (homeNode fs) (homeNode fs) (nodesDB fs3) = Ok db"
    and n: "put_if_absent B FolderNameMapping (homeNode fs) ''home'' db = Ok (nodesDB fs')"
    by (auto simp: same)
  have t0: "bolt_get B (nodesDB fs3) Tree (homeNode fs) = None" using empty by (simp add: C)
  note T = put_if_absent_Ok [OF t t0]
  have n0: "bolt_get B db FolderNameMapping (homeNode fs) = None" using empty by (simp add: C T)
  note N = put_if_absent_Ok [OF n n0]
  show "nodeLength fs' = nodeLength fs" "homeNode fs' = homeNode fs" by (subst H(2), simp add: same)+
  show "bolt_bucket B (nodesDB fs') Tree" "bolt_bucket B (nodesDB fs') FolderNameMapping" by (simp_all add: N T C)
  show "tree_of B fs' = [homeNode fs \<mapsto> homeNode fs]" "name_of B fs' = [homeNode fs \<mapsto> ''home'']"
    using empty by (auto simp: N T C)
qed

end

lemma tree_parent:
  "tree_inv B fs \<Longrightarrow> c \<in> set (kids B fs k) \<Longrightarrow>
   c \<noteq> homeNode fs \<and> take (nodeLength fs) (the (tree_of B fs c)) = k"
  using tree_invD(8,9) by fastforce

lemma getNodeForPath_unique:
  assumes "tree_inv B fs" "getNodeForPath B fs h = Ok m" "getNodeForPath B fs h' = Ok m"
  shows "h = h'"
proof (rule walk_unique)
  show "tree_walk B fs (homeNode fs) h = Inr m" "tree_walk B fs (homeNode fs) h' = Inr m"
    using assms(2,3) by (auto simp: getNodeForPath_walk [OF assms(1)] split: sum.splits)
qed (rule tree_parent [OF assms(1)])

lemma tree_walk_inserted:
  assumes inv: "tree_inv B fs" and ins: "inserted B node p f fs fs'"
    and fresh: "tree_of B fs node = None" "length node = nodeLength fs"
    and p: "tree_of B fs p \<noteq> None" "length p = nodeLength fs"
    and hp: "tree_walk B fs (homeNode fs) hp = Inr p"
    and free: "find (\<lambda>c. name_of B fs c = Some f) (kids B fs p) = None"
  shows "tree_walk B fs' (homeNode fs') (hp @ f # h) = (case h of [] \<Rightarrow> Inr node | g # _ \<Rightarrow> Inl g)"
    and "\<not> prefix (hp @ [f]) h' \<Longrightarrow> tree_walk B fs' (homeNode fs') h' = tree_walk B fs (homeNode fs) h'"
proof -
  have "node \<noteq> p" using p(1) fresh(1) by metis
  moreover have "kids B fs node = []" using fresh(1) by (simp add: kids_def)
  moreover note kids_inserted [OF inv ins fresh p] insertedD(2,6) [OF ins]
  ultimately show "tree_walk B fs' (homeNode fs') (hp @ f # h) = (case h of [] \<Rightarrow> Inr node | g # _ \<Rightarrow> Inl g)"
    and "\<not> prefix (hp @ [f]) h' \<Longrightarrow> tree_walk B fs' (homeNode fs') h' = tree_walk B fs (homeNode fs) h'"
    using walk_insert(1) [OF tree_parent [OF inv] hp free fresh_not_kid [OF inv fresh(1)], of h]
      walk_insert(2) [OF tree_parent [OF inv] hp free fresh_not_kid [OF inv fresh(1)], of h'] by simp_all
qed

lemma append_butlast_last: "xs \<noteq> [] \<Longrightarrow> butlast xs @ last xs # ys = xs @ ys"
  by (induction xs) auto

lemma Clean_not_Nil: "Clean p \<noteq> []"
  by (simp add: Clean_def Let_def)

lemma node_path_not_Nil: "tree_inv B fs \<Longrightarrow> node_path fs node \<noteq> []"
  using tree_invD(1,11) [of B fs] by (auto simp: node_path_def Join_def Clean_not_Nil split: list.splits)

section \<open>Properties\<close>

text \<open>Lookups after a folder has been inserted.\<close>

lemma inserted_lookup:
  assumes inv: "tree_inv B fs" and ins: "inserted B node p (last hierarchy) fs fs'"
    and fresh: "tree_of B fs node = None" "length node = nodeLength fs"
    and p: "tree_walk B fs (homeNode fs) (butlast hierarchy) = Inr p"
    and free: "find (\<lambda>c. name_of B fs c = Some (last hierarchy)) (kids B fs p) = None" and h0: "hierarchy \<noteq> []"
  shows "tree_inv B fs'"
    and "getNodeForPath B fs' (hierarchy @ h) = (case h of [] \<Rightarrow> Ok node | f # _ \<Rightarrow> Err (no_folder f))"
    and "\<not> prefix hierarchy h' \<Longrightarrow> getNodeForPath B fs' h' = getNodeForPath B fs h'"
proof -
  note p' = tree_walk_exists [OF inv p] walk_length [OF inv p]
  show inv': "tree_inv B fs'" by (rule tree_inv_inserted [OF inv ins fresh p' free])
  show "getNodeForPath B fs' (hierarchy @ h) = (case h of [] \<Rightarrow> Ok node | f # _ \<Rightarrow> Err (no_folder f))"
    using tree_walk_inserted(1) [OF inv ins fresh p' p free, of h] append_butlast_last [OF h0]
    by (simp add: getNodeForPath_walk [OF inv'] split: list.splits)
  show "getNodeForPath B fs' h' = getNodeForPath B fs h'" if "\<not> prefix hierarchy h'"
    using tree_walk_inserted(2) [OF inv ins fresh p' p free, of h'] that h0
    by (simp add: getNodeForPath_walk [OF inv'] getNodeForPath_walk [OF inv])
qed

text \<open>A small hierarchy: the home folder with one folder \<^verbatim>\<open>tv\<close>, its node \<^verbatim>\<open>a\<close>.\<close>

definition demo_tree :: "mem_db FileSystem" where
  "demo_tree = \<lparr>nodeLength = 1, homeNode = ''h'', homeDirLocation = ''/d'',
     nodesDB = [Tree \<mapsto> [(''h'', ''ha''), (''a'', ''h'')], FolderNameMapping \<mapsto> [(''h'', ''home''), (''a'', ''tv'')]]\<rparr>"

lemma demo_tree_simps [simp]:
  "tree_of mem_bolt demo_tree = [''h'' \<mapsto> ''ha'', ''a'' \<mapsto> ''h'']"
  "name_of mem_bolt demo_tree = [''h'' \<mapsto> ''home'', ''a'' \<mapsto> ''tv'']"
  "nodeLength demo_tree = 1" "homeNode demo_tree = ''h''" "homeDirLocation demo_tree = ''/d''"
  "bolt_bucket mem_bolt (nodesDB demo_tree) Tree" "bolt_bucket mem_bolt (nodesDB demo_tree) FolderNameMapping"
  by (auto simp: demo_tree_def mem_defs)

lemma demo_kids: "kids mem_bolt demo_tree k = (if k = ''h'' then [''a''] else [])"
  by (simp add: kids_def slots.simps)

lemma demo_inv: "tree_inv mem_bolt demo_tree"
  by (simp add: tree_inv_def demo_kids)

lemma demo_draw: "RandStringBytes (\<lambda>_. ''b'') (homeNode demo_tree) 0 = Some (''b'', 1)"
  by (subst RandStringBytes.simps) simp

lemma demo_created:
  "fst (CreateFolder mem_bolt (\<lambda>_. ''b'') (\<lambda>_ _. None) [''tv'', ''news''] 0 [] demo_tree) = Ok ''b''"
  by (rule mem.CreateFolder_free [where p = "''a''" and n' = 1])
    (auto simp: mem_commits demo_inv demo_kids fits_def max_key_def max_value_def new_node_def demo_draw [simplified]
      getNodeForPath_walk [OF demo_inv] children_names [OF demo_inv] split: if_splits)

text \<open>
  C26: The lookup of a path is a walk in the tree. On a well-formed hierarchy \<^verbatim>\<open>getNodeForPath\<close> neither
  panics nor loops: it returns the node the path leads to from the home folder, each step taken to the
  child with the next name, or an error that names the first folder of the path that does not exist;
  and two paths never lead to the same node.
\<close>

theorem folder_lookup:
  assumes "tree_inv B fs"
  shows "getNodeForPath B fs h =
      (case walk (kids B fs) (name_of B fs) (homeNode fs) h of Inr m \<Rightarrow> Ok m | Inl f \<Rightarrow> Err (no_folder f)) \<and>
    (\<forall>m h'. getNodeForPath B fs h = Ok m \<longrightarrow> getNodeForPath B fs h' = Ok m \<longrightarrow> h = h')"
  using getNodeForPath_walk [OF assms, of h] getNodeForPath_unique [OF assms] by blast

theorem folder_lookup_witness:
  "getNodeForPath mem_bolt demo_tree [''tv''] = Ok ''a'' \<and>
   getNodeForPath mem_bolt demo_tree [''tv'', ''news''] = Err (no_folder ''news'')"
  using folder_lookup [OF demo_inv, of "[''tv'']"] folder_lookup [OF demo_inv, of "[''tv'', ''news'']"]
  by (simp add: demo_kids)

text \<open>
  C6: Creating a folder adds exactly its path. When \<^verbatim>\<open>CreateFolder\<close> returns without an error, having
  drawn a node name that is not in use, the hierarchy is well-formed again, the new path leads to the
  new node, nothing is below it yet, every path that does not go through it leads where it led, and
  the directory of the node exists on disk.
\<close>

theorem create_folder_path:
  assumes "bolt_spec B" and inv: "tree_inv B fs"
    and draw: "RandStringBytes uuid (homeNode fs) n = Some (node, m)"
    and fresh: "tree_of B fs node = None" "length node = nodeLength fs"
    and ok: "CreateFolder B uuid osf hierarchy n disk fs = (Ok x, n', disk', fs')"
  shows "x = node \<and> tree_inv B fs' \<and> os_exists disk' (node_path fs node) \<and>
    getNodeForPath B fs' (hierarchy @ h) = (case h of [] \<Rightarrow> Ok node | f # _ \<Rightarrow> Err (no_folder f)) \<and>
    (\<forall>h'. \<not> prefix hierarchy h' \<longrightarrow> getNodeForPath B fs' h' = getNodeForPath B fs h')"
proof -
  from bolt_spec.CreateFolder_Ok [OF assms] obtain p where x: "x = node" and h0: "hierarchy \<noteq> []"
    and p: "tree_walk B fs (homeNode fs) (butlast hierarchy) = Inr p"
    and free: "find (\<lambda>c. name_of B fs c = Some (last hierarchy)) (kids B fs p) = None"
    and ins: "inserted B node p (last hierarchy) fs fs'"
    and mk: "os_MkdirAll osf (node_path fs' node) disk = (Ok (), disk')" by blast
  have "node_path fs' node = node_path fs node" by (simp add: node_path_def insertedD(2,3) [OF ins])
  then have "os_exists disk' (node_path fs node)"
    using mk mkdirs_exists [OF node_path_not_Nil [OF inv]] by (auto simp: os_MkdirAll_def split: option.splits)
  with inserted_lookup [OF inv ins fresh p free h0] x show ?thesis by blast
qed

theorem create_folder_path_witness:
  "case CreateFolder mem_bolt (\<lambda>_. ''b'') (\<lambda>_ _. None) [''tv'', ''news''] 0 [] demo_tree of
     (r, n, disk, fs) \<Rightarrow> r = Ok ''b'' \<and> tree_inv mem_bolt fs \<and> os_exists disk ''/d/h/b'' \<and>
       getNodeForPath mem_bolt fs [''tv'', ''news''] = Ok ''b'' \<and> getNodeForPath mem_bolt fs [''tv''] = Ok ''a''"
proof -
  obtain r n disk fs where c: "CreateFolder mem_bolt (\<lambda>_. ''b'') (\<lambda>_ _. None) [''tv'', ''news''] 0 [] demo_tree = (r, n, disk, fs)"
    by (metis prod_cases4)
  have r: "r = Ok ''b''"
    using demo_created c by simp
  have "getNodeForPath mem_bolt demo_tree [''tv''] = Ok ''a''"
    by (simp add: getNodeForPath_walk [OF demo_inv] demo_kids)
  then show ?thesis
    using create_folder_path [OF mem_bolt_spec demo_inv demo_draw _ _ c [unfolded r], of "[]"] r c
    by (simp add: node_path_def Join_def Clean_def clean_step_def HasPrefix_def)
qed

text \<open>
  C27: When \<^verbatim>\<open>CreateFolder\<close> succeeds and when not. If the store commits, the node and the values fit it
  and the directory can be made, then a folder whose parent path exists and whose name is free is
  created; if the parent path does not exist the error is that of its lookup, if the path exists
  already the error says so, and in both cases neither the store nor the disk is changed.
\<close>

theorem create_folder_outcome:
  assumes "bolt_spec B" and inv: "tree_inv B fs" and com: "commits B"
    and draw: "RandStringBytes uuid (homeNode fs) n = Some (node, m)"
    and fresh: "tree_of B fs node = None" "length node = nodeLength fs"
    and fit: "fits node (last hierarchy)" "fits node (homeNode fs)" "\<forall>k v. tree_of B fs k = Some v \<longrightarrow> fits k (v @ node)"
    and mk: "osf (MkdirAll (node_path fs node)) disk = None" and h: "hierarchy \<noteq> []"
  shows "(case CreateFolder B uuid osf hierarchy n disk fs of (r, n', disk', fs') \<Rightarrow>
    (case getNodeForPath B fs (butlast hierarchy) of
       Ok p \<Rightarrow>
         (case getNodeForPath B fs hierarchy of
            Ok _ \<Rightarrow> r = Err ''[Filesystem][CreateFolder] A folder with the same name at the requested level already exists'' \<and>
              disk' = disk \<and> fs' = fs
          | _ \<Rightarrow> r = Ok node)
     | e \<Rightarrow> (\<exists>f. e = Err (no_folder f) \<and> r = Err (no_folder f)) \<and> disk' = disk \<and> fs' = fs))"
  using inv h draw
proof (cases rule: new_node_cases)
  case (taken k)
  then obtain p where "getNodeForPath B fs (butlast hierarchy) = Ok p"
    using walk_append [of "kids B fs" "name_of B fs" "homeNode fs" "butlast hierarchy" "[last hierarchy]"] h
    by (auto simp: getNodeForPath_walk [OF inv] split: sum.splits)
  with taken show ?thesis by (simp add: CreateFolder_def)
next
  case (free p)
  have "\<not> is_Ok (getNodeForPath B fs hierarchy)"
    using walk_append [of "kids B fs" "name_of B fs" "homeNode fs" "butlast hierarchy" "[last hierarchy]"] h free(1,2)
    by (simp add: getNodeForPath_walk [OF inv] is_Ok_iff)
  moreover have "fst (CreateFolder B uuid osf hierarchy n disk fs) = Ok node"
    by (rule bolt_spec.CreateFolder_free
      [where osf = osf and disk = disk and uuid = uuid and n = n, OF assms(1) com inv fresh fit mk free])
  ultimately show ?thesis
    using free(1) by (auto simp: getNodeForPath_walk [OF inv] is_Ok_iff split: res.splits)
qed (auto simp: CreateFolder_def)

theorem create_folder_outcome_witness:
  "fst (CreateFolder mem_bolt (\<lambda>_. ''b'') (\<lambda>_ _. None) [''tv'', ''news''] 0 [] demo_tree) = Ok ''b'' \<and>
   fst (CreateFolder mem_bolt (\<lambda>_. ''b'') (\<lambda>_ _. None) [''tv''] 0 [] demo_tree) =
     Err ''[Filesystem][CreateFolder] A folder with the same name at the requested level already exists''"
proof -
  have "\<forall>k v. tree_of mem_bolt demo_tree k = Some v \<longrightarrow> fits k (v @ ''b'')"
    by (simp add: fits_def max_key_def max_value_def)
  note out = create_folder_outcome [OF mem_bolt_spec demo_inv mem_commits demo_draw _ _ _ _ this,
      where osf = "\<lambda>_ _. None" and disk = "[]"]
  show ?thesis
    using out [of "[''tv'', ''news'']"] out [of "[''tv'']"]
    by (simp add: fits_def max_key_def max_value_def getNodeForPath_walk [OF demo_inv] demo_kids split: prod.splits)
qed

text \<open>
  C28: The hierarchy is well-formed from its creation on. \<^verbatim>\<open>Old_InitFileSystem\<close> on a store that has no
  folders yet, when it returns without an error, leaves a well-formed hierarchy: the home folder, named
  \<^verbatim>\<open>home\<close>, without children.
\<close>

theorem old_init_tree:
  assumes "bolt_spec B" and "0 < nodeLength fs" "length (homeNode fs) = nodeLength fs"
    and empty: "\<forall>k. tree_of B fs k = None \<and> name_of B fs k = None"
    and ok: "Old_InitFileSystem B osf disk fs = (Ok u, disk', fs')"
  shows "tree_inv B fs' \<and> name_of B fs' (homeNode fs) = Some ''home'' \<and> (\<forall>k. kids B fs' k = []) \<and>
    getNodeForPath B fs' [] = Ok (homeNode fs)"
proof -
  from bolt_spec.Old_InitFileSystem_Ok [OF assms(1) ok empty] have I:
    "nodeLength fs' = nodeLength fs" "homeNode fs' = homeNode fs"
    "bolt_bucket B (nodesDB fs') Tree" "bolt_bucket B (nodesDB fs') FolderNameMapping"
    "tree_of B fs' = [homeNode fs \<mapsto> homeNode fs]" "name_of B fs' = [homeNode fs \<mapsto> ''home'']" .
  then have kids: "kids B fs' k = []" for k using assms(3) by (simp add: kids_def)
  have "homeNode fs \<noteq> []" using assms(2,3) by auto
  with I kids assms(2,3) show ?thesis by (simp add: tree_inv_def getNodeForPath_def)
qed

theorem old_init_tree_witness:
  "case Old_InitFileSystem mem_bolt (\<lambda>_ _. None) [] (demo_tree\<lparr>nodesDB := Map.empty\<rparr>) of
     (r, disk, fs) \<Rightarrow> r = Ok () \<and> tree_inv mem_bolt fs \<and> name_of mem_bolt fs ''h'' = Some ''home''"
proof -
  obtain r disk fs where i: "Old_InitFileSystem mem_bolt (\<lambda>_ _. None) [] (demo_tree\<lparr>nodesDB := Map.empty\<rparr>) = (r, disk, fs)"
    by (metis prod_cases3)
  then have r: "r = Ok ()"
    by (simp add: Old_InitFileSystem_def CreateBucket_def CreateHome_def CreateHomeFolder_def fs_update_def mem_defs
        put_if_absent_def bucket_get_def bucket_put_def os_MkdirAll_def demo_tree_def max_key_def max_value_def)
  show ?thesis
    using old_init_tree [OF mem_bolt_spec _ _ _ i [unfolded r]] r i by (simp add: mem_bolt_def)
qed

lemma no_tree_lookup: "\<not> bolt_bucket B (nodesDB fs) Tree \<Longrightarrow> getNodeForPath B fs (path_parts path) = Panic"
  by (cases "path_parts path") (simp_all add: path_parts_def getNodeForPath_def GetChildrenForNode_def bucket_get_def)

text \<open>
  A new hub has no folder hierarchy. After \<^verbatim>\<open>InitFileSystem\<close>, the start-up of the hub, on a store
  without the bucket \<^verbatim>\<open>Tree\<close>, listing the children of any path and resolving any path panic: the
  bucket these operations read is created by \<^verbatim>\<open>Old_InitFileSystem\<close> only, which nothing calls.
\<close>

theorem new_hub_has_no_folders:
  assumes "bolt_spec B" and "\<not> bolt_bucket B (nodesDB fs) Tree" and "InitFileSystem B fs = (Ok u, fs')"
  shows "GetChildrenInfo B fs' pfunc path s = (Panic, s) \<and> GetActualPathForAbstractedPath B fs' path = Panic \<and>
    IsSatelliteLeaf B fs' path = Panic"
proof -
  have "\<not> bolt_bucket B (nodesDB fs') Tree"
    using bolt_spec.InitFileSystem_buckets [OF assms(1,3), of Tree] assms(2) by simp
  then have "getNodeForPath B fs' (path_parts path) = Panic" by (rule no_tree_lookup)
  then show ?thesis by (simp add: GetChildrenInfo_def GetActualPathForAbstractedPath_def IsSatelliteLeaf_def)
qed

theorem new_hub_has_no_folders_witness:
  "case InitFileSystem mem_bolt (demo_tree\<lparr>nodesDB := Map.empty\<rparr>) of
     (r, fs) \<Rightarrow> r = Ok () \<and> GetActualPathForAbstractedPath mem_bolt fs ''/tv'' = Panic"
proof -
  obtain r fs where i: "InitFileSystem mem_bolt (demo_tree\<lparr>nodesDB := Map.empty\<rparr>) = (r, fs)"
    by fastforce
  then have r: "r = Ok ()"
    by (simp add: InitFileSystem_def CreateBucket_def fs_update_def mem_defs)
  show ?thesis
    using new_hub_has_no_folders [OF mem_bolt_spec _ i [unfolded r], of "\<lambda>_ s. (Ok ([] :: string list), s)" "''/tv''" "()"] r i
    by (simp add: mem_bolt_def)
qed

end
