(* ===== verification/Folder_Deletion.thy ===== *)
theory Folder_Deletion
  imports Folder_Paths
begin

text \<open>
  Deleting folders: \<^verbatim>\<open>DeleteNodeSubtree\<close> removes exactly the nodes below its argument, and
  \<^verbatim>\<open>DeleteFolder\<close> therefore removes exactly the paths that go through the folder, given enough fuel;
  the number of nodes in the bucket is enough. The operations are those of \<open>Folder_Tree\<close>; the facts
  here are about the maps the three buckets hold (\<open>tree_of\<close>, \<open>name_of\<close>, \<open>sat_of\<close>).
\<close>

lemma getNode_Ok: "tree_inv B fs \<Longrightarrow> getNodeForPath B fs h = Ok x \<longleftrightarrow> tree_walk B fs (homeNode fs) h = Inr x"
  by (cases "tree_walk B fs (homeNode fs) h") (simp_all add: getNodeForPath_walk)

section \<open>The nodes below a node\<close>

abbreviation sat_of :: "'db bolt \<Rightarrow> 'db FileSystem \<Rightarrow> bytes \<Rightarrow> bytes option" where
  "sat_of B fs \<equiv> bolt_get B (nodesDB fs) SatelliteMapping"

inductive below :: "(bytes \<Rightarrow> bytes list) \<Rightarrow> bytes \<Rightarrow> bytes \<Rightarrow> bool" for ks where
  here: "below ks m m"
| child: "c \<in> set (ks m) \<Longrightarrow> below ks c x \<Longrightarrow> below ks m x"

inductive_cases belowE: "below ks m x"

lemma below_trans: "below ks m x \<Longrightarrow> below ks x y \<Longrightarrow> below ks m y"
  by (induction rule: below.induct) (auto intro: below.child)

lemma below_iff: "below ks m x \<longleftrightarrow> x = m \<or> (\<exists>c \<in> set (ks m). below ks c x)"
  by (auto intro: below.intros elim: belowE)

lemma below_cong:
  assumes "\<And>k. below ks m k \<Longrightarrow> ks' k = ks k"
  shows "below ks' m x = below ks m x"
proof
  show "below ks m x" if "below ks' m x"
    using that assms
  proof (induction rule: below.induct)
    case (child c m x)
    then have "c \<in> set (ks m)" by (metis below.here)
    with child show ?case by (metis below.child)
  qed (rule below.here)
  show "below ks' m x" if "below ks m x"
    using that assms
  proof (induction rule: below.induct)
    case (child c m x)
    then have "c \<in> set (ks' m)" by (metis below.here)
    with child show ?case by (metis below.child)
  qed (rule below.here)
qed

text \<open>Chains of children from \<open>m\<close> on have at most \<open>fuel\<close> nodes.\<close>

fun height_le :: "(bytes \<Rightarrow> bytes list) \<Rightarrow> nat \<Rightarrow> bytes \<Rightarrow> bool" where
  "height_le ks 0 m = False"
| "height_le ks (Suc fuel) m = (\<forall>c \<in> set (ks m). height_le ks fuel c)"

lemma height_le_mono:
  assumes "height_le ks fuel m" and sub: "\<And>k. set (ks' k) \<subseteq> set (ks k)" and "fuel \<le> fuel'"
  shows "height_le ks' fuel' m"
  using assms(1,3)
proof (induction fuel arbitrary: m fuel')
  case (Suc fuel)
  then obtain f where f: "fuel' = Suc f" "fuel \<le> f" by (cases fuel') auto
  have "height_le ks' f c" if "c \<in> set (ks' m)" for c
    using Suc.IH [OF _ f(2)] Suc.prems(1) sub that by auto
  with f(1) show ?case by simp
qed simp

text \<open>A set of nodes that contains the children of its nodes.\<close>

definition closed_under :: "(bytes \<Rightarrow> bytes list) \<Rightarrow> bytes set \<Rightarrow> bool" where
  "closed_under ks D \<longleftrightarrow> (\<forall>x \<in> D. set (ks x) \<subseteq> D)"

lemma closed_below: "closed_under ks D \<Longrightarrow> m \<in> D \<Longrightarrow> below ks m x \<Longrightarrow> x \<in> D"
  unfolding closed_under_def by (rotate_tac 2, induction rule: below.induct) auto

lemma closed_union_below: "closed_under ks D \<Longrightarrow> closed_under ks (D \<union> {x. below ks m x})"
  unfolding closed_under_def by (auto intro: below_trans [OF _ below.child [OF _ below.here]])

section \<open>A loop over children\<close>

lemma for_children_slots:
  assumes "0 < n" "n dvd length rest"
  shows "for_children n f rest s = fold_res f (slots n rest) s"
  using assms
proof (induction rest arbitrary: s rule: aligned_induct)
  case Nil
  then show ?case by (subst for_children.simps) simp
next
  case (slot v)
  then show ?case
    using assms(1) by (subst for_children.simps) (auto intro!: arg_cong [where f = "bind_res (f (take n v) s)"])
qed

section \<open>Deleting a subtree\<close>

text \<open>
  The disk after the directories of the nodes of \<open>D\<close> and their satellite directories were removed, with all that is in
  them: what is still there is unchanged, what is outside these directories is still there, nothing is left of the
  directories of the nodes, and the satellite directories are gone.
\<close>

definition swept :: "'db bolt \<Rightarrow> bytes set \<Rightarrow> 'db FileSystem \<Rightarrow> disk \<Rightarrow> disk \<Rightarrow> bool" where
  "swept B D fs d d' \<longleftrightarrow> (\<forall>q. os_exists d' q \<longrightarrow> map_of d' q = map_of d q) \<and>
     (\<forall>q. (\<forall>x \<in> D. \<not> in_tree (node_path fs x) q \<and> (\<forall>p. sat_of B fs x = Some p \<longrightarrow> \<not> in_tree p q)) \<longrightarrow> map_of d' q = map_of d q) \<and>
     (\<forall>x \<in> D. \<forall>q. x \<noteq> [] \<longrightarrow> in_tree (node_path fs x) q \<longrightarrow> \<not> os_exists d' q) \<and>
     (\<forall>x \<in> D. \<forall>p. sat_of B fs x = Some p \<longrightarrow> p \<noteq> [] \<longrightarrow> \<not> os_exists d' p)"

lemma sweptD:
  assumes "swept B D fs d d'"
  shows "os_exists d' q \<Longrightarrow> map_of d' q = map_of d q"
    "(\<And>x. x \<in> D \<Longrightarrow> \<not> in_tree (node_path fs x) q \<and> (\<forall>p. sat_of B fs x = Some p \<longrightarrow> \<not> in_tree p q)) \<Longrightarrow> map_of d' q = map_of d q"
    "x \<in> D \<Longrightarrow> x \<noteq> [] \<Longrightarrow> in_tree (node_path fs x) q \<Longrightarrow> \<not> os_exists d' q"
    "x \<in> D \<Longrightarrow> sat_of B fs x = Some p \<Longrightarrow> p \<noteq> [] \<Longrightarrow> \<not> os_exists d' p"
  using assms unfolding swept_def by blast+

lemma swept_refl [simp]: "swept B {} fs d d"
  by (simp add: swept_def)

lemma swept_trans:
  assumes 1: "swept B D fs d d1" and 2: "swept B D' fs1 d1 d2"
    and fs1: "\<And>x. node_path fs1 x = node_path fs x" "sat_of B fs1 = sat_of B fs |` (- D)"
  shows "swept B (D \<union> D') fs d d2"
proof -
  note D1 = sweptD [OF 1] and D2 = sweptD [OF 2, unfolded fs1(1)]
  have gone: "\<not> os_exists d2 q" if "\<not> os_exists d1 q" for q
    using D2(1) [of q] that by (cases "map_of d2 q") (simp_all add: os_exists_def)
  have "map_of d2 q = map_of d q" if "os_exists d2 q" for q
    using D2(1) [OF that] D1(1) [of q] that by (simp add: os_exists_def)
  moreover have "map_of d2 q = map_of d q"
    if "\<forall>x \<in> D \<union> D'. \<not> in_tree (node_path fs x) q \<and> (\<forall>p. sat_of B fs x = Some p \<longrightarrow> \<not> in_tree p q)" for q
  proof -
    have "map_of d2 q = map_of d1 q" by (rule D2(2)) (use that in \<open>auto simp: fs1(2) restrict_map_def split: if_splits\<close>)
    also have "\<dots> = map_of d q" by (rule D1(2)) (use that in blast)
    finally show ?thesis .
  qed
  moreover have "\<not> os_exists d2 q" if "x \<in> D \<union> D'" "x \<noteq> []" "in_tree (node_path fs x) q" for x q
    using that D1(3) [of x q] D2(3) [of x q] gone by blast
  moreover have "\<not> os_exists d2 p" if "x \<in> D \<union> D'" "sat_of B fs x = Some p" "p \<noteq> []" for x p
    using that D1(4) [of x p] D2(4) [of x p] gone by (cases "x \<in> D") (auto simp: fs1(2))
  ultimately show ?thesis unfolding swept_def by blast
qed

text \<open>What remains after deleting the nodes of \<open>D\<close> from the hierarchy of \<open>fs\<close>.\<close>

definition pruned :: "'db bolt \<Rightarrow> bytes set \<Rightarrow> disk \<times> 'db FileSystem \<Rightarrow> disk \<times> 'db FileSystem \<Rightarrow> bool" where
  "pruned B D s s' \<longleftrightarrow> snd s' = (snd s)\<lparr>nodesDB := nodesDB (snd s')\<rparr> \<and>
     bolt_bucket B (nodesDB (snd s')) = bolt_bucket B (nodesDB (snd s)) \<and>
     tree_of B (snd s') = tree_of B (snd s) |` (- D) \<and> name_of B (snd s') = name_of B (snd s) |` (- D) \<and>
     sat_of B (snd s') = sat_of B (snd s) |` (- D) \<and>
     (\<forall>b. b \<notin> {Tree, FolderNameMapping, SatelliteMapping} \<longrightarrow> bolt_get B (nodesDB (snd s')) b = bolt_get B (nodesDB (snd s)) b) \<and>
     swept B D (snd s) (fst s) (fst s')"

lemma prunedD:
  assumes "pruned B D s s'"
  shows "nodeLength (snd s') = nodeLength (snd s)" "homeNode (snd s') = homeNode (snd s)"
    "node_path (snd s') x = node_path (snd s) x"
    "bolt_bucket B (nodesDB (snd s')) = bolt_bucket B (nodesDB (snd s))"
    "tree_of B (snd s') = tree_of B (snd s) |` (- D)" "name_of B (snd s') = name_of B (snd s) |` (- D)"
    "sat_of B (snd s') = sat_of B (snd s) |` (- D)"
    "b \<notin> {Tree, FolderNameMapping, SatelliteMapping} \<Longrightarrow> bolt_get B (nodesDB (snd s')) b = bolt_get B (nodesDB (snd s)) b"
    "swept B D (snd s) (fst s) (fst s')"
proof -
  have fs: "snd s' = (snd s)\<lparr>nodesDB := nodesDB (snd s')\<rparr>" using assms by (simp add: pruned_def)
  show "nodeLength (snd s') = nodeLength (snd s)" "homeNode (snd s') = homeNode (snd s)"
    "node_path (snd s') x = node_path (snd s) x"
    by (subst fs, simp add: node_path_def)+
qed (use assms in \<open>simp_all add: pruned_def\<close>)

lemma restrict_UNIV [simp]: "m |` UNIV = m"
  by (simp add: restrict_map_def)

lemma pruned_refl: "pruned B {} s s"
  by (simp add: pruned_def)

lemma pruned_trans:
  assumes 1: "pruned B D s s1" and 2: "pruned B D' s1 s2"
  shows "pruned B (D \<union> D') s s2"
proof -
  have "snd s2 = (snd s)\<lparr>nodesDB := nodesDB (snd s2)\<rparr>"
    using 1 2 unfolding pruned_def by (metis (mono_tags) FileSystem.fold_congs(4) FileSystem.surjective FileSystem.update_convs(4))
  moreover have "swept B (D \<union> D') (snd s) (fst s) (fst s2)"
    by (rule swept_trans [OF prunedD(9) [OF 1] prunedD(9) [OF 2] prunedD(3) [OF 1] prunedD(7) [OF 1]])
  ultimately show ?thesis
    using prunedD(4-8) [OF 1] prunedD(4-8) [OF 2] unfolding pruned_def
    by (simp add: Int_commute Compl_Un)
qed

text \<open>An operating system without faults and a store that commits, for the claims that a deletion succeeds.\<close>

abbreviation no_faults :: "os_faults \<Rightarrow> bool" where
  "no_faults osf \<equiv> \<forall>c d. osf c d = None"

abbreviation tree_buckets :: "'db bolt \<Rightarrow> 'db FileSystem \<Rightarrow> bool" where
  "tree_buckets B fs \<equiv> bolt_bucket B (nodesDB fs) Tree \<and> bolt_bucket B (nodesDB fs) FolderNameMapping \<and>
     bolt_bucket B (nodesDB fs) SatelliteMapping"

lemma Join_not_blank: "x \<noteq> [] \<Longrightarrow> x \<in> set xs \<Longrightarrow> Join xs \<noteq> []"
proof -
  assume "x \<noteq> []" "x \<in> set xs"
  then have "dropWhile (\<lambda>e. e = []) xs \<noteq> []" by (auto simp: dropWhile_eq_Nil_conv)
  then show "Join xs \<noteq> []" by (auto simp: Join_def Clean_def Let_def split: list.split)
qed

lemma node_path_not_blank [simp]: "x \<noteq> [] \<Longrightarrow> node_path fs x \<noteq> []"
  by (simp add: node_path_def Join_not_blank [of x])

lemma remove_dir_Ok:
  assumes "no_faults osf"
  shows "\<exists>d'. remove_dir osf p (d, fs) = (Ok (), d', fs) \<and> (\<forall>q. map_of d' q = (if p \<noteq> [] \<and> in_tree p q then None else map_of d q))"
  using assms by (simp add: remove_dir_def os_RemoveAll_def removed_lookup)

text \<open>The entry of \<open>node\<close> is gone from the bucket \<open>b\<close>, nothing else has changed.\<close>

definition cleared :: "'db bolt \<Rightarrow> string \<Rightarrow> bytes \<Rightarrow> 'db FileSystem \<Rightarrow> 'db FileSystem \<Rightarrow> bool" where
  "cleared B b node fs fs' \<longleftrightarrow> fs' = fs\<lparr>nodesDB := nodesDB fs'\<rparr> \<and>
     bolt_bucket B (nodesDB fs') = bolt_bucket B (nodesDB fs) \<and>
     (\<forall>b' k. bolt_get B (nodesDB fs') b' k = (if b' = b \<and> k = node then None else bolt_get B (nodesDB fs) b' k))"

lemma clearedD:
  assumes "cleared B b node fs fs'"
  shows "fs' = fs\<lparr>nodesDB := nodesDB fs'\<rparr>" "bolt_bucket B (nodesDB fs') = bolt_bucket B (nodesDB fs)"
    "bolt_get B (nodesDB fs') b' k = (if b' = b \<and> k = node then None else bolt_get B (nodesDB fs) b' k)"
  using assms unfolding cleared_def by blast+

context bolt_spec
begin

lemma delete_in_Ok:
  assumes "commits B" "bolt_bucket B (nodesDB fs) b"
  shows "\<exists>fs'. delete_in B b node fs = (Ok (), fs') \<and> cleared B b node fs fs'"
proof -
  obtain db where db: "bucket_delete B b node (nodesDB fs) = Ok db" using bucket_delete_succeeds [OF assms(2)] by blast
  have "delete_in B b node fs = (Ok (), fs\<lparr>nodesDB := db\<rparr>)"
    using assms(1) db by (simp add: delete_in_def fs_update_def commits_def)
  with bucket_delete_Ok(1,2) [OF db] show ?thesis by (auto simp: cleared_def)
qed

lemma delete_satellite_Ok:
  assumes "commits B" "no_faults osf" "bolt_bucket B (nodesDB fs) SatelliteMapping"
  shows "\<exists>d' fs'. delete_satellite B osf node (d, fs) = (Ok (), d', fs') \<and> cleared B SatelliteMapping node fs fs' \<and>
    (\<forall>q. os_exists d' q \<longrightarrow> map_of d' q = map_of d q) \<and>
    (\<forall>q. (\<forall>p. sat_of B fs node = Some p \<longrightarrow> \<not> in_tree p q) \<longrightarrow> map_of d' q = map_of d q) \<and>
    (\<forall>p. sat_of B fs node = Some p \<longrightarrow> p \<noteq> [] \<longrightarrow> \<not> os_exists d' p)"
proof (cases "sat_of B fs node")
  case None
  then have "delete_satellite B osf node (d, fs) = (Ok (), d, fs)"
    using assms(3) by (simp add: delete_satellite_def GetSatelliteFolderPath_def bucket_get_def)
  moreover have "cleared B SatelliteMapping node fs fs" using None by (auto simp: cleared_def)
  ultimately show ?thesis using None by auto
next
  case (Some p)
  obtain fs' where fs': "delete_in B SatelliteMapping node fs = (Ok (), fs')" "cleared B SatelliteMapping node fs fs'"
    using delete_in_Ok [OF assms(1,3)] by blast
  obtain d' where d': "remove_dir osf p (d, fs') = (Ok (), d', fs')"
      "\<forall>q. map_of d' q = (if p \<noteq> [] \<and> in_tree p q then None else map_of d q)"
    using remove_dir_Ok [OF assms(2)] by metis
  have "delete_satellite B osf node (d, fs) = (if os_exists d p then (Ok (), d', fs') else (Ok (), d, fs'))"
    using Some assms(3) fs'(1) d'(1) by (simp add: delete_satellite_def GetSatelliteFolderPath_def bucket_get_def)
  with fs'(2) d'(2) Some show ?thesis by (cases "os_exists d p") (auto simp: os_exists_def in_tree_def)
qed

lemma delete_node_Ok:
  assumes "commits B" "no_faults osf" "tree_buckets B (snd s)"
  shows "\<exists>s'. delete_node B osf m s = (Ok (), s') \<and> pruned B {m} s s'"
proof -
  obtain d fs where s: "s = (d, fs)" by fastforce
  have b: "bolt_bucket B (nodesDB fs) Tree" "bolt_bucket B (nodesDB fs) FolderNameMapping"
    "bolt_bucket B (nodesDB fs) SatelliteMapping" using assms(3) s by simp_all
  obtain fs1 where 1: "delete_in B Tree m fs = (Ok (), fs1)" "cleared B Tree m fs fs1"
    using delete_in_Ok [OF assms(1) b(1)] by blast
  note c1 = clearedD [OF 1(2)]
  obtain fs2 where 2: "delete_in B FolderNameMapping m fs1 = (Ok (), fs2)" "cleared B FolderNameMapping m fs1 fs2"
    using delete_in_Ok [OF assms(1) b(2) [folded c1(2)]] by blast
  note c2 = clearedD [OF 2(2)]
  obtain d3 fs3 where 3: "delete_satellite B osf m (d, fs2) = (Ok (), d3, fs3)" "cleared B SatelliteMapping m fs2 fs3"
    "\<forall>q. os_exists d3 q \<longrightarrow> map_of d3 q = map_of d q"
    "\<forall>q. (\<forall>p. sat_of B fs2 m = Some p \<longrightarrow> \<not> in_tree p q) \<longrightarrow> map_of d3 q = map_of d q"
    "\<forall>p. sat_of B fs2 m = Some p \<longrightarrow> p \<noteq> [] \<longrightarrow> \<not> os_exists d3 p"
    using delete_satellite_Ok [OF assms(1,2) b(3) [folded c1(2), folded c2(2)]] by blast
  note c3 = clearedD [OF 3(2)]
  obtain d4 where 4: "remove_dir osf (node_path fs3 m) (d3, fs3) = (Ok (), d4, fs3)"
    "\<forall>q. map_of d4 q = (if node_path fs3 m \<noteq> [] \<and> in_tree (node_path fs3 m) q then None else map_of d3 q)"
    using remove_dir_Ok [OF assms(2)] by blast
  have fs3: "fs3 = fs\<lparr>nodesDB := nodesDB fs3\<rparr>" by (subst c3(1), subst c2(1), subst c1(1)) simp
  have path: "node_path fs3 m = node_path fs m" by (subst fs3) (simp add: node_path_def)
  have sat: "sat_of B fs2 m = sat_of B fs m" by (simp add: c1(3) c2(3))
  have "swept B {m} fs d d4"
    unfolding swept_def using 3(3,4,5) 4(2) unfolding path sat by (auto simp: os_exists_def split: if_splits)
  then have "pruned B {m} s (d4, fs3)"
    using fs3 unfolding pruned_def s
    by (auto simp: c1(2) c2(2) c3(2) c1(3) c2(3) c3(3) restrict_map_def fun_eq_iff)
  moreover have "delete_node B osf m s = (Ok (), d4, fs3)"
    using 1(1) 2(1) 3(1) 4(1) by (simp add: delete_node_def s)
  ultimately show ?thesis by blast
qed

text \<open>
  The recursion, relative to the state \<open>s0\<close> in which it started: from a state in which the nodes of
  the closed set \<open>D\<close> are gone already, it goes to one in which those below \<open>m\<close> are gone as well.
\<close>

lemma DeleteNodeSubtree_prunes:
  assumes com: "commits B" and osf: "no_faults osf" and buckets: "tree_buckets B (snd s0)"
    and n: "0 < nodeLength (snd s0)"
    and slots: "\<And>k v. tree_of B (snd s0) k = Some v \<Longrightarrow> nodeLength (snd s0) dvd length v"
    and kids: "\<And>k c. c \<in> set (kids B (snd s0) k) \<Longrightarrow> tree_of B (snd s0) c \<noteq> None"
  defines "ks \<equiv> kids B (snd s0)"
  shows "pruned B D s0 s \<Longrightarrow> closed_under ks D \<Longrightarrow> height_le ks fuel m \<Longrightarrow> tree_of B (snd s0) m \<noteq> None \<Longrightarrow>
    \<exists>r s'. DeleteNodeSubtree B osf fuel m s = (r, s') \<and> pruned B (D \<union> {x. below ks m x}) s0 s' \<and>
      r \<noteq> Panic \<and> r \<noteq> Diverge \<and> (m \<notin> D \<longrightarrow> r = Ok ())"
proof (induction fuel arbitrary: m s D)
  case (Suc fuel)
  have P: "nodeLength (snd s) = nodeLength (snd s0)" "tree_of B (snd s) = tree_of B (snd s0) |` (- D)"
      "tree_buckets B (snd s)"
    using prunedD(1,4,5) [OF Suc.prems(1)] buckets by auto
  show ?case
  proof (cases "m \<in> D")
    case True
    then have "D \<union> {x. below ks m x} = D" using closed_below [OF Suc.prems(2)] by blast
    with Suc.prems(1) True P show ?thesis by (simp add: GetChildrenForNode_def bucket_get_def)
  next
    case False
    obtain v where v: "tree_of B (snd s0) m = Some v" using Suc.prems(4) by blast
    have ks: "ks m = slots (nodeLength (snd s0)) (drop (nodeLength (snd s0)) v)" by (simp add: ks_def kids_def v)
    have loop: "\<exists>s'. fold_res (\<lambda>child s. drop_error (DeleteNodeSubtree B osf fuel child s)) cs s = Ok s' \<and>
        pruned B (D \<union> (\<Union>c \<in> set cs. {x. below ks c x})) s0 s' \<and> closed_under ks (D \<union> (\<Union>c \<in> set cs. {x. below ks c x}))"
      if "pruned B D s0 s" "closed_under ks D" "set cs \<subseteq> set (ks m)" for cs s D
      using that
    proof (induction cs arbitrary: s D)
      case (Cons c cs)
      have c: "height_le ks fuel c" "tree_of B (snd s0) c \<noteq> None"
        using Cons.prems(3) Suc.prems(3) kids [of c m] by (auto simp: ks_def)
      from Suc.IH [OF Cons.prems(1,2) c] obtain r s' where s': "DeleteNodeSubtree B osf fuel c s = (r, s')"
        "pruned B (D \<union> {x. below ks c x}) s0 s'" "r \<noteq> Panic" "r \<noteq> Diverge" by blast
      then have "drop_error (DeleteNodeSubtree B osf fuel c s) = Ok s'" by (cases r) (auto simp: drop_error_def)
      with Cons.IH [OF s'(2) closed_union_below [OF Cons.prems(2)]] Cons.prems(3) show ?case
        by (simp add: Un_assoc)
    qed simp
    obtain s' where s': "fold_res (\<lambda>child s. drop_error (DeleteNodeSubtree B osf fuel child s)) (ks m) s = Ok s'"
      "pruned B (D \<union> (\<Union>c \<in> set (ks m). {x. below ks c x})) s0 s'"
      using loop [OF Suc.prems(1,2) subset_refl] by blast
    obtain s'' where s'': "delete_node B osf m s' = (Ok (), s'')" "pruned B {m} s' s''"
      using delete_node_Ok [OF com osf, of s' m] prunedD(4) [OF s'(2)] buckets by metis
    have D: "D \<union> (\<Union>c \<in> set (ks m). {x. below ks c x}) \<union> {m} = D \<union> {x. below ks m x}"
      by (auto simp: below_iff [of ks m])
    have "n dvd length (drop n v)" if "n = nodeLength (snd s0)" for n
      using slots [OF v] that by (simp add: dvd_diff_nat)
    then have "DeleteNodeSubtree B osf (Suc fuel) m s = (Ok (), s'')"
      using P v False n s'(1) s''(1) by (simp add: GetChildrenForNode_def bucket_get_def for_children_slots ks)
    with pruned_trans [OF s'(2) s''(2), unfolded D] show ?thesis by blast
  qed
qed simp

end

section \<open>Taking a node out of its parent\<close>

lemma concat_slots: "0 < n \<Longrightarrow> concat (slots n v) = v"
proof (induction n v rule: slots.induct)
  case (1 n v)
  then show ?case by (subst slots.simps) auto
qed

lemma slots_concat: "0 < n \<Longrightarrow> \<forall>c \<in> set cs. length c = n \<Longrightarrow> slots n (concat cs) = cs"
proof (induction cs)
  case (Cons c cs)
  then have "c @ concat cs \<noteq> []" by auto
  with Cons slots_step [of n "c @ concat cs"] show ?case by simp
qed simp

lemma length_concat_filter: "length (concat (filter P xs)) \<le> length (concat xs)"
  by (induction xs) auto

lemma drop_slot_fold:
  "fold_res (\<lambda>child acc. Ok (if child = node then acc else acc @ child)) cs acc = Ok (acc @ concat (filter (\<lambda>c. c \<noteq> node) cs))"
  by (induction cs arbitrary: acc) auto

text \<open>The value of a parent without the slot of \<open>node\<close>.\<close>

definition without :: "nat \<Rightarrow> bytes \<Rightarrow> bytes \<Rightarrow> bytes" where
  "without n node v = concat (filter (\<lambda>c. c \<noteq> node) (slots n v))"

lemma without_slots:
  assumes "0 < n" "n dvd length v" "v \<noteq> []" "take n v \<noteq> node"
  shows "without n node v \<noteq> []" "n dvd length (without n node v)" "take n (without n node v) = take n v"
    "slots n (drop n (without n node v)) = filter (\<lambda>c. c \<noteq> node) (slots n (drop n v))" "length (without n node v) \<le> length v"
proof -
  have len: "length c = n" if "c \<in> set (slots n v)" for c using slots_length [OF assms(1,2) that] .
  have step: "slots n v = take n v # slots n (drop n v)" by (rule slots_step [OF assms(1,3)])
  have hd: "without n node v = take n v @ concat (filter (\<lambda>c. c \<noteq> node) (slots n (drop n v)))"
    using assms(4) by (simp add: without_def step)
  have l: "length (take n v) = n" using len [of "take n v"] step by simp
  show "take n (without n node v) = take n v" using l by (simp add: hd)
  show "without n node v \<noteq> []" using l assms(1) by (auto simp: hd)
  have "slots n (without n node v) = filter (\<lambda>c. c \<noteq> node) (slots n v)"
    unfolding without_def by (rule slots_concat [OF assms(1)]) (auto dest: len)
  have rest: "slots n (concat (filter (\<lambda>c. c \<noteq> node) (slots n (drop n v)))) = filter (\<lambda>c. c \<noteq> node) (slots n (drop n v))"
    by (rule slots_concat [OF assms(1)]) (auto simp: step intro: len)
  then show "slots n (drop n (without n node v)) = filter (\<lambda>c. c \<noteq> node) (slots n (drop n v))"
    using l by (simp add: hd)
  have "n dvd length (concat cs)" if "\<forall>c \<in> set cs. length c = n" for cs :: "bytes list"
    using that by (induction cs) auto
  from this [of "filter (\<lambda>c. c \<noteq> node) (slots n v)"] len show "n dvd length (without n node v)" by (simp add: without_def)
  show "length (without n node v) \<le> length v"
    using length_concat_filter [of _ "slots n v"] concat_slots [OF assms(1), of v] by (simp add: without_def)
qed

context bolt_spec
begin

lemma unlink_Ok:
  assumes com: "commits B" and inv: "tree_inv B fs" and w: "tree_of B fs node = Some w" "take (nodeLength fs) w = p"
    and v: "tree_of B fs p = Some v" "take (nodeLength fs) v \<noteq> node" and fit: "fits p v"
  shows "\<exists>fs'. fs_update B (unlink_node B (nodeLength fs) node) fs = (Ok (), fs') \<and> fs' = fs\<lparr>nodesDB := nodesDB fs'\<rparr> \<and>
    bolt_bucket B (nodesDB fs') = bolt_bucket B (nodesDB fs) \<and>
    (\<forall>b k. bolt_get B (nodesDB fs') b k =
      (if b = Tree \<and> k = p then Some (without (nodeLength fs) node v) else bolt_get B (nodesDB fs) b k))"
proof -
  note D = tree_invD(1,2) [OF inv] tree_invD(5,6) [OF inv v(1)] tree_invD(5,6) [OF inv w(1)]
  have "nodeLength fs \<le> length w" using D(5,6) by (auto simp: dvd_imp_le)
  have "fits p (without (nodeLength fs) node v)"
    using fit without_slots(5) [OF D(1) D(4,3) v(2)] by (simp add: fits_def)
  then obtain db where db: "bucket_put B Tree p (without (nodeLength fs) node v) (nodesDB fs) = Ok db"
    using bucket_put_succeeds [OF D(2)] unfolding fits_def by blast
  have "unlink_node B (nodeLength fs) node (nodesDB fs) = Ok db"
    using w v(1) D(1,2,4) db \<open>nodeLength fs \<le> length w\<close>
    by (simp add: unlink_node_def bucket_get_def for_children_slots drop_slot_fold without_def Let_def)
  then have "fs_update B (unlink_node B (nodeLength fs) node) fs = (Ok (), fs\<lparr>nodesDB := db\<rparr>)"
    using com by (simp add: fs_update_def commits_def)
  with bucket_put_Ok(1,2) [OF db] show ?thesis by auto
qed

end

section \<open>The depth of the tree\<close>

lemma find_distinct:
  "distinct (map f xs) \<Longrightarrow> c \<in> set xs \<Longrightarrow> f c = y \<Longrightarrow> find (\<lambda>d. f d = y) xs = Some c"
  by (induction xs) force+

lemma walk_kid:
  assumes "tree_inv B fs" "tree_walk B fs root h = Inr m" "c \<in> set (kids B fs m)" "name_of B fs c = Some f"
  shows "tree_walk B fs root (h @ [f]) = Inr c"
  using assms find_distinct [of "name_of B fs" "kids B fs m" c "Some f"] tree_invD(10) [OF assms(1), of m]
  by (simp add: walk_append)

lemma below_walk:
  assumes inv: "tree_inv B fs" and "below (kids B fs) m x"
  shows "\<exists>r. tree_walk B fs m r = Inr x"
  using assms(2)
proof (induction rule: below.induct)
  case (here m)
  show ?case by (intro exI [of _ "[]"]) simp
next
  case (child c m x)
  then obtain r f where "tree_walk B fs c r = Inr x" "name_of B fs c = Some f"
    using tree_invD(7) [OF inv] by blast
  with walk_kid [OF inv, of m "[]" m c f] child.hyps(1) show ?case
    by (intro exI [of _ "f # r"]) (auto split: option.splits)
qed

lemma walk_below: "walk ks nm m r = Inr x \<Longrightarrow> below ks m x"
  by (induction r arbitrary: m)
    (auto intro: below.intros dest!: find_SomeD split: option.splits)

lemma tree_walk_unique:
  "tree_inv B fs \<Longrightarrow> tree_walk B fs (homeNode fs) h = Inr m \<Longrightarrow> tree_walk B fs (homeNode fs) h' = Inr m \<Longrightarrow> h = h'"
  by (rule walk_unique [OF tree_parent])

lemma walk_prefix:
  assumes "walk ks nm root h = Inr m" "i \<le> length h"
  shows "\<exists>x. walk ks nm root (take i h) = Inr x"
  using assms(1) walk_append [of ks nm root "take i h" "drop i h"] by (auto split: sum.splits)

context bolt_spec
begin

lemma path_bound:
  assumes inv: "tree_inv B fs" and h: "tree_walk B fs (homeNode fs) h = Inr m"
  shows "length h < length (bolt_items B (nodesDB fs) Tree)"
proof -
  have "\<forall>i \<le> length h. \<exists>x. tree_walk B fs (homeNode fs) (take i h) = Inr x" using walk_prefix [OF h] by blast
  then obtain nd where nd: "\<And>i. i \<le> length h \<Longrightarrow> tree_walk B fs (homeNode fs) (take i h) = Inr (nd i)" by metis
  have "inj_on nd {..length h}"
  proof (rule inj_onI)
    fix i j assume ij: "i \<in> {..length h}" "j \<in> {..length h}" "nd i = nd j"
    then have "take i h = take j h" using tree_walk_unique [OF inv nd [of i]] nd [of j] by auto
    with ij(1,2) show "i = j" by (metis atMost_iff length_take min.absorb2)
  qed
  moreover have "nd ` {..length h} \<subseteq> fst ` set (bolt_items B (nodesDB fs) Tree)"
    using tree_walk_exists [OF inv nd] by (auto simp: items_keys)
  ultimately have "card {..length h} \<le> card (fst ` set (bolt_items B (nodesDB fs) Tree))"
    by (metis card_image card_mono finite_imageI finite_set)
  also have "\<dots> \<le> length (bolt_items B (nodesDB fs) Tree)"
    using card_image_le [OF finite_set] card_length le_trans by blast
  finally show ?thesis by simp
qed

lemma height_bound:
  assumes inv: "tree_inv B fs"
  shows "tree_walk B fs (homeNode fs) h = Inr m \<Longrightarrow> length (bolt_items B (nodesDB fs) Tree) \<le> length h + fuel \<Longrightarrow>
    height_le (kids B fs) fuel m"
proof (induction fuel arbitrary: h m)
  case 0
  with path_bound [OF inv 0(1)] show ?case by simp
next
  case (Suc fuel)
  have "height_le (kids B fs) fuel c" if c: "c \<in> set (kids B fs m)" for c
  proof -
    obtain f where "name_of B fs c = Some f" using tree_invD(7) [OF inv c] by blast
    from Suc.IH [OF walk_kid [OF inv Suc.prems(1) c this]] Suc.prems(2) show ?thesis by simp
  qed
  then show ?case by simp
qed

end

section \<open>A tree without a subtree\<close>

lemma walk_cong:
  assumes "\<And>h1 g h2 m. h = h1 @ g # h2 \<Longrightarrow> walk ks nm root h1 = Inr m \<Longrightarrow>
      find (\<lambda>c. nm' c = Some g) (ks' m) = find (\<lambda>c. nm c = Some g) (ks m)"
  shows "walk ks' nm' root h = walk ks nm root h"
  using assms
proof (induction h arbitrary: root)
  case (Cons f h)
  have eq: "find (\<lambda>c. nm' c = Some f) (ks' root) = find (\<lambda>c. nm c = Some f) (ks root)"
    by (rule Cons.prems [of "[]"]) simp_all
  show ?case
  proof (cases "find (\<lambda>c. nm c = Some f) (ks root)")
    case (Some c)
    have "walk ks' nm' c h = walk ks nm c h"
    proof (rule Cons.IH)
      fix h1 g h2 m assume "h = h1 @ g # h2" "walk ks nm c h1 = Inr m"
      with Some show "find (\<lambda>c. nm' c = Some g) (ks' m) = find (\<lambda>c. nm c = Some g) (ks m)"
        by (intro Cons.prems [of "f # h1" g h2 m]) simp_all
    qed
    with Some eq show ?thesis by simp
  qed (simp add: eq)
qed simp

lemma find_filter:
  "(\<And>x. x \<in> set xs \<Longrightarrow> P x \<Longrightarrow> Q x) \<Longrightarrow> find P (filter Q xs) = find P xs"
  by (induction xs) auto

lemma below_last: "below ks m x \<Longrightarrow> x = m \<or> (\<exists>k. below ks m k \<and> x \<in> set (ks k))"
  by (induction rule: below.induct) (auto intro: below.intros)

text \<open>
  \<open>node\<close> is a folder of a well-formed hierarchy with the path \<open>hierarchy\<close>; \<open>fs'\<close> is what is left after
  taking the node out of its parent \<open>p\<close> and deleting the nodes below it.
\<close>

definition removed ::
    "'db bolt \<Rightarrow> 'db FileSystem \<Rightarrow> 'db FileSystem \<Rightarrow> string list \<Rightarrow> bytes \<Rightarrow> bytes \<Rightarrow> bytes \<Rightarrow> bool" where
  "removed B fs fs' hierarchy node p v \<longleftrightarrow> tree_inv B fs \<and> hierarchy \<noteq> [] \<and>
     tree_walk B fs (homeNode fs) (butlast hierarchy) = Inr p \<and> tree_of B fs p = Some v \<and>
     node \<in> set (kids B fs p) \<and> name_of B fs node = Some (last hierarchy) \<and>
     nodeLength fs' = nodeLength fs \<and> homeNode fs' = homeNode fs \<and>
     bolt_bucket B (nodesDB fs') = bolt_bucket B (nodesDB fs) \<and>
     tree_of B fs' = (tree_of B fs)(p \<mapsto> without (nodeLength fs) node v) |` (- {x. below (kids B fs) node x}) \<and>
     name_of B fs' = name_of B fs |` (- {x. below (kids B fs) node x})"

text \<open>The node, its path and its subtree; these facts do not depend on \<open>fs'\<close>.\<close>

lemma node_walk:
  assumes inv: "tree_inv B fs" "hierarchy \<noteq> []" and p: "tree_walk B fs (homeNode fs) (butlast hierarchy) = Inr p"
    and node: "node \<in> set (kids B fs p)" "name_of B fs node = Some (last hierarchy)"
  shows "tree_walk B fs (homeNode fs) hierarchy = Inr node"
  using walk_kid [OF inv(1) p node] inv(2) by simp

lemma below_path:
  assumes "tree_inv B fs" "tree_walk B fs (homeNode fs) hierarchy = Inr node" "below (kids B fs) node x"
  shows "\<exists>r. tree_walk B fs (homeNode fs) (hierarchy @ r) = Inr x"
  using below_walk [OF assms(1,3)] assms(2) by (auto simp: walk_append)

lemma not_below_prefix:
  assumes "tree_inv B fs" "tree_walk B fs (homeNode fs) hierarchy = Inr node"
    and "tree_walk B fs (homeNode fs) h = Inr m" "\<not> prefix hierarchy h"
  shows "\<not> below (kids B fs) node m"
  using below_path [OF assms(1,2), of m] tree_walk_unique [OF assms(1,3)] assms(4) by (auto simp: prefix_def)

lemma not_prefix_butlast: "xs \<noteq> [] \<Longrightarrow> \<not> prefix xs (butlast xs)"
  by (metis append_butlast_last_id not_Cons_self2 prefix_order.antisym prefixI append_self_conv)

lemma home_not_below:
  assumes "tree_inv B fs" "node \<in> set (kids B fs p)"
  shows "\<not> below (kids B fs) node (homeNode fs)"
  using below_last [of "kids B fs" node "homeNode fs"] tree_invD(8) [OF assms(1)] assms(2) by metis

lemma kid_below:
  assumes inv: "tree_inv B fs" and "node \<in> set (kids B fs p)" "\<not> below (kids B fs) node k"
    and "c \<in> set (kids B fs k)" "below (kids B fs) node c"
  shows "k = p \<and> c = node"
  using below_last [OF assms(5)] tree_parent [OF inv assms(2)] tree_parent [OF inv assms(4)] tree_parent [OF inv] assms(3)
  by metis

text \<open>The first slot of the parent, its own parent, is another node.\<close>

lemma first_slot:
  assumes inv: "tree_inv B fs" and h: "hierarchy \<noteq> []"
    and p: "tree_walk B fs (homeNode fs) (butlast hierarchy) = Inr p" "tree_of B fs p = Some v"
    and node: "node \<in> set (kids B fs p)" "name_of B fs node = Some (last hierarchy)"
  shows "take (nodeLength fs) v \<noteq> node"
proof (cases "butlast hierarchy" rule: rev_cases)
  case Nil
  with p(1) have "p = homeNode fs" by simp
  with tree_invD(12) [OF inv] p(2) tree_invD(8) [OF inv node(1)] show ?thesis by auto
next
  case (snoc g f)
  from walk_snoc [OF p(1) [unfolded snoc]] obtain q where
    q: "tree_walk B fs (homeNode fs) g = Inr q" "p \<in> set (kids B fs q)" by blast
  with tree_parent [OF inv q(2)] p(2) have first: "take (nodeLength fs) v = q" by simp
  have "hierarchy = g @ [f] @ [last hierarchy]" using snoc h by (metis append_assoc append_butlast_last_id)
  then have "g \<noteq> hierarchy" by (metis append_is_Nil_conv append_self_conv not_Cons_self2)
  with tree_walk_unique [OF inv q(1)] node_walk [OF inv h p(1) node] first show ?thesis by metis
qed

lemma removedD:
  assumes "removed B fs fs' hierarchy node p v"
  shows "tree_inv B fs" "hierarchy \<noteq> []" "tree_walk B fs (homeNode fs) (butlast hierarchy) = Inr p"
    "tree_of B fs p = Some v" "node \<in> set (kids B fs p)" "name_of B fs node = Some (last hierarchy)"
    "nodeLength fs' = nodeLength fs" "homeNode fs' = homeNode fs"
    "bolt_bucket B (nodesDB fs') = bolt_bucket B (nodesDB fs)"
    "tree_of B fs' = (tree_of B fs)(p \<mapsto> without (nodeLength fs) node v) |` (- {x. below (kids B fs) node x})"
    "name_of B fs' = name_of B fs |` (- {x. below (kids B fs) node x})"
  using assms by (simp_all add: removed_def)

lemma kids_removed:
  assumes "removed B fs fs' hierarchy node p v"
  shows "kids B fs' k = (if below (kids B fs) node k then [] else filter (\<lambda>c. c \<noteq> node) (kids B fs k))"
proof -
  note R = removedD [OF assms]
  note D = tree_invD [OF R(1)]
  note path = node_walk [OF R(1,2,3,5,6)]
  have first: "take (nodeLength fs) v \<noteq> node" by (rule first_slot [OF R(1-6)])
  note w = without_slots [OF D(1) D(6) [OF R(4)] D(5) [OF R(4)] first]
  show ?thesis
  proof (cases "below (kids B fs) node k \<or> k = p")
    case True
    moreover have "\<not> below (kids B fs) node p" by (rule not_below_prefix [OF R(1) path R(3) not_prefix_butlast [OF R(2)]])
    ultimately show ?thesis using R(4,7,10) w(4) by (auto simp: kids_def)
  next
    case False
    then have "node \<notin> set (kids B fs k)" using tree_parent [OF R(1)] R(5) by metis
    then have "filter (\<lambda>c. c \<noteq> node) (kids B fs k) = kids B fs k" by (auto simp: filter_id_conv)
    with False R(7,10) show ?thesis by (auto simp: kids_def split: option.split)
  qed
qed

lemma removed_name:
  assumes "removed B fs fs' hierarchy node p v" "\<not> below (kids B fs) node k" "c \<in> set (kids B fs k)" "c \<noteq> node"
  shows "\<not> below (kids B fs) node c" "name_of B fs' c = name_of B fs c"
proof -
  note R = removedD [OF assms(1)]
  show "\<not> below (kids B fs) node c" using kid_below [OF R(1,5) assms(2,3)] assms(4) by blast
  then show "name_of B fs' c = name_of B fs c" by (simp add: R(11))
qed

lemma tree_inv_removed:
  assumes "removed B fs fs' hierarchy node p v"
  shows "tree_inv B fs'"
proof -
  note R = removedD [OF assms] and D = tree_invD [OF removedD(1) [OF assms]]
  note ks = kids_removed [OF assms] and nm = removed_name [OF assms]
  note w = without_slots [OF D(1) D(6) [OF R(4)] D(5) [OF R(4)] first_slot [OF R(1-6)]]
  have tree: "\<exists>x. tree_of B fs k = Some x \<and> take (nodeLength fs) y = take (nodeLength fs) x \<and> y \<noteq> [] \<and> nodeLength fs dvd length y"
    if "tree_of B fs' k = Some y" for k y
    using that w R(4) D(5,6) [of k y] by (auto simp: R(10) restrict_map_def split: if_splits)
  have some: "\<exists>y. tree_of B fs' k = Some y \<and> take (nodeLength fs) y = take (nodeLength fs) x"
    if "tree_of B fs k = Some x" "\<not> below (kids B fs) node k" for k x
    using that w(3) R(4) by (auto simp: R(10))
  have home: "\<exists>y. tree_of B fs' (homeNode fs') = Some y \<and> take (nodeLength fs') y = homeNode fs'"
    using D(12) some home_not_below [OF R(1,5)] R(7,8) by metis
  have kid: "name_of B fs' c \<noteq> None \<and> c \<noteq> homeNode fs' \<and> (\<exists>y. tree_of B fs' c = Some y \<and> take (nodeLength fs') y = k)"
    if "c \<in> set (kids B fs' k)" for c k
  proof -
    from that have c: "\<not> below (kids B fs) node k" "c \<in> set (kids B fs k)" "c \<noteq> node" by (auto simp: ks split: if_splits)
    obtain x where x: "tree_of B fs c = Some x" "take (nodeLength fs) x = k" using D(9) [OF c(2)] by blast
    from some [OF x(1) nm(1) [OF c]] x(2) D(7,8) [OF c(2)] nm(2) [OF c] show ?thesis by (auto simp: R(7,8))
  qed
  have "map (name_of B fs') (kids B fs' k) = map (name_of B fs) (kids B fs' k)" for k
    using nm(2) by (auto simp: ks split: if_splits)
  moreover have "distinct (map (name_of B fs) (kids B fs' k))" for k
    using D(10) [of k] by (simp add: ks distinct_map_filter)
  ultimately have dist: "distinct (map (name_of B fs') (kids B fs' k))" for k by metis
  have vals: "y \<noteq> [] \<and> nodeLength fs' dvd length y" if "tree_of B fs' k = Some y" for k y
    using tree [OF that] R(7) by auto
  have "0 < nodeLength fs'" "length (homeNode fs') = nodeLength fs'" "bolt_bucket B (nodesDB fs') Tree"
    "bolt_bucket B (nodesDB fs') FolderNameMapping" using D(1-3) D(11) R(7-9) by simp_all
  with home kid dist vals show ?thesis unfolding tree_inv_def by blast
qed

lemma tree_walk_removed:
  assumes "removed B fs fs' hierarchy node p v"
  shows "\<not> prefix hierarchy h \<Longrightarrow> tree_walk B fs' (homeNode fs') h = tree_walk B fs (homeNode fs) h"
    and "prefix hierarchy h \<Longrightarrow> tree_walk B fs' (homeNode fs') h = Inl (last hierarchy)"
proof -
  note R = removedD [OF assms] and ks = kids_removed [OF assms]
  note path = node_walk [OF R(1,2,3,5,6)]
  have same: "find (\<lambda>c. name_of B fs' c = Some g) (kids B fs' m) = find (\<lambda>c. name_of B fs c = Some g) (kids B fs m)"
    if h: "tree_walk B fs (homeNode fs) h1 = Inr m" and no: "\<not> prefix hierarchy h1" "h1 @ [g] \<noteq> hierarchy" for h1 g m
  proof -
    have m: "\<not> below (kids B fs) node m" by (rule not_below_prefix [OF R(1) path h no(1)])
    have "find (\<lambda>c. name_of B fs' c = Some g) (kids B fs' m) =
        find (\<lambda>c. name_of B fs c = Some g) (filter (\<lambda>c. c \<noteq> node) (kids B fs m))"
      using removed_name(2) [OF assms m] m by (auto simp: ks intro!: find_cong)
    also have "\<dots> = find (\<lambda>c. name_of B fs c = Some g) (kids B fs m)"
      using walk_kid [OF R(1) h, of node g] tree_walk_unique [OF R(1) path] no(2) by (intro find_filter) metis
    finally show ?thesis .
  qed
  have keep: "tree_walk B fs' (homeNode fs') h = tree_walk B fs (homeNode fs) h" if no: "\<not> prefix hierarchy h" for h
    unfolding R(8)
  proof (rule walk_cong)
    fix h1 g h2 m
    assume h: "h = h1 @ g # h2" and "tree_walk B fs (homeNode fs) h1 = Inr m"
    with no show "find (\<lambda>c. name_of B fs' c = Some g) (kids B fs' m) = find (\<lambda>c. name_of B fs c = Some g) (kids B fs m)"
      by (intro same [of h1 m g]) (auto simp: prefix_def)
  qed
  then show "\<not> prefix hierarchy h \<Longrightarrow> tree_walk B fs' (homeNode fs') h = tree_walk B fs (homeNode fs) h" .
  have p: "tree_walk B fs' (homeNode fs') (butlast hierarchy) = Inr p"
    using keep [OF not_prefix_butlast [OF R(2)]] R(3) by simp
  have "name_of B fs' c \<noteq> Some (last hierarchy)" if "c \<in> set (kids B fs' p)" for c
  proof
    assume n: "name_of B fs' c = Some (last hierarchy)"
    from that have c: "\<not> below (kids B fs) node p" "c \<in> set (kids B fs p)" "c \<noteq> node" by (auto simp: ks split: if_splits)
    with n removed_name(2) [OF assms c] R(6) have "name_of B fs c = name_of B fs node" by simp
    with tree_invD(10) [OF R(1), of p] c(2,3) R(5) show False by (auto simp: distinct_map dest: inj_onD)
  qed
  then have "find (\<lambda>c. name_of B fs' c = Some (last hierarchy)) (kids B fs' p) = None" by (simp add: find_None_iff)
  with p have "tree_walk B fs' (homeNode fs') (butlast hierarchy @ last hierarchy # r) = Inl (last hierarchy)" for r
    by (simp add: walk_append)
  then show "prefix hierarchy h \<Longrightarrow> tree_walk B fs' (homeNode fs') h = Inl (last hierarchy)"
    using append_butlast_last [OF R(2)] by (metis prefix_def)
qed

section \<open>Deleting a folder\<close>

context bolt_spec
begin

text \<open>The directories that \<^verbatim>\<open>DeleteFolder\<close> removes before it deletes the subtree.\<close>

lemma delete_folder_dirs:
  assumes osf: "no_faults osf" and node: "getNodeForPath B fs hierarchy = Ok node"
    and fs1: "fs_update B (unlink_node B (nodeLength fs) node) fs = (Ok (), fs1)"
    and sat: "bolt_bucket B (nodesDB fs1) SatelliteMapping"
  shows "\<exists>d1. (\<forall>q. os_exists d1 q \<longrightarrow> map_of d1 q = map_of disk q) \<and>
    (\<forall>q. \<not> in_tree (node_path fs1 node) q \<and> (\<forall>p. sat_of B fs1 node = Some p \<longrightarrow> \<not> in_tree p q) \<longrightarrow> map_of d1 q = map_of disk q) \<and>
    DeleteFolder B osf fuel hierarchy (disk, fs) = DeleteNodeSubtree B osf fuel node (d1, fs1)"
proof -
  note rm = remove_dir_Ok [OF osf, of _ _ fs1]
  show ?thesis
  proof (cases "sat_of B fs1 node")
    case None
    obtain d1 where d1: "remove_dir osf (node_path fs1 node) (disk, fs1) = (Ok (), d1, fs1)"
        "\<forall>q. map_of d1 q = (if node_path fs1 node \<noteq> [] \<and> in_tree (node_path fs1 node) q then None else map_of disk q)"
      using rm by blast
    have "DeleteFolder B osf fuel hierarchy (disk, fs) = DeleteNodeSubtree B osf fuel node (d1, fs1)"
      using d1(1) None sat node fs1 by (simp add: DeleteFolder_def GetSatelliteFolderPath_def bucket_get_def)
    moreover have "\<forall>q. os_exists d1 q \<longrightarrow> map_of d1 q = map_of disk q"
      "\<forall>q. \<not> in_tree (node_path fs1 node) q \<longrightarrow> map_of d1 q = map_of disk q" using d1(2) by (simp_all add: os_exists_def)
    ultimately show ?thesis by blast
  next
    case (Some q)
    obtain d0 where d0: "remove_dir osf q (disk, fs1) = (Ok (), d0, fs1)"
        "\<forall>r. map_of d0 r = (if q \<noteq> [] \<and> in_tree q r then None else map_of disk r)" using rm by blast
    obtain d1 where d1: "remove_dir osf (node_path fs1 node) (d0, fs1) = (Ok (), d1, fs1)"
        "\<forall>q. map_of d1 q = (if node_path fs1 node \<noteq> [] \<and> in_tree (node_path fs1 node) q then None else map_of d0 q)"
      using rm by blast
    have "DeleteFolder B osf fuel hierarchy (disk, fs) = DeleteNodeSubtree B osf fuel node (d1, fs1)"
      using d0(1) d1(1) Some sat node fs1 by (simp add: DeleteFolder_def GetSatelliteFolderPath_def bucket_get_def)
    moreover have "\<forall>q. os_exists d1 q \<longrightarrow> map_of d1 q = map_of disk q"
      "\<forall>r. \<not> in_tree (node_path fs1 node) r \<and> (\<forall>p. sat_of B fs1 node = Some p \<longrightarrow> \<not> in_tree p r) \<longrightarrow> map_of d1 r = map_of disk r"
      using d0(2) d1(2) Some by (simp_all add: os_exists_def)
    ultimately show ?thesis by blast
  qed
qed

lemma DeleteFolder_removes:
  assumes com: "commits B" and osf: "no_faults osf" and inv: "tree_inv B fs" and sat: "bolt_bucket B (nodesDB fs) SatelliteMapping"
    and fit: "\<forall>k v. tree_of B fs k = Some v \<longrightarrow> fits k v"
    and h: "hierarchy \<noteq> []" "getNodeForPath B fs hierarchy = Ok node" and height: "height_le (kids B fs) fuel node"
  obtains disk' fs' p v where "DeleteFolder B osf fuel hierarchy (disk, fs) = (Ok (), disk', fs')"
    "removed B fs fs' hierarchy node p v" "fs' = fs\<lparr>nodesDB := nodesDB fs'\<rparr>"
    "swept B {x. below (kids B fs) node x} fs disk disk'" "sat_of B fs' = sat_of B fs |` (- {x. below (kids B fs) node x})"
    "\<forall>b. b \<notin> {Tree, FolderNameMapping, SatelliteMapping} \<longrightarrow> bolt_get B (nodesDB fs') b = bolt_get B (nodesDB fs) b"
proof -
  have hw: "tree_walk B fs (homeNode fs) hierarchy = Inr node"
    using h(2) by (simp add: getNode_Ok [OF inv])
  have "tree_walk B fs (homeNode fs) (butlast hierarchy @ [last hierarchy]) = Inr node" using hw h(1) by simp
  from walk_snoc [OF this] obtain p where p: "tree_walk B fs (homeNode fs) (butlast hierarchy) = Inr p"
    and node: "node \<in> set (kids B fs p)" "name_of B fs node = Some (last hierarchy)" by blast
  obtain w where w: "tree_of B fs node = Some w" "take (nodeLength fs) w = p" using tree_invD(9) [OF inv node(1)] by blast
  obtain v where v: "tree_of B fs p = Some v" using tree_walk_exists [OF inv p] by blast
  note first = first_slot [OF inv h(1) p v node]
  obtain fs1 where fs1: "fs_update B (unlink_node B (nodeLength fs) node) fs = (Ok (), fs1)" "fs1 = fs\<lparr>nodesDB := nodesDB fs1\<rparr>"
    "bolt_bucket B (nodesDB fs1) = bolt_bucket B (nodesDB fs)"
    "\<forall>b k. bolt_get B (nodesDB fs1) b k =
      (if b = Tree \<and> k = p then Some (without (nodeLength fs) node v) else bolt_get B (nodesDB fs) b k)"
    using unlink_Ok [OF com inv w v first] fit v by blast
  have same: "nodeLength fs1 = nodeLength fs" "homeNode fs1 = homeNode fs" "node_path fs1 x = node_path fs x" for x
    by (subst fs1(2), simp add: node_path_def)+
  have ks1: "kids B fs1 k = (if k = p then filter (\<lambda>c. c \<noteq> node) (kids B fs p) else kids B fs k)" for k
    using fs1(4) same(1) v without_slots(4) [OF tree_invD(1) [OF inv] tree_invD(6,5) [OF inv v] first]
    by (auto simp: kids_def split: option.split)
  have np: "\<not> below (kids B fs) node p" by (rule not_below_prefix [OF inv hw p not_prefix_butlast [OF h(1)]])
  have below1: "below (kids B fs1) node x = below (kids B fs) node x" for x
    by (rule below_cong) (use np in \<open>auto simp: ks1\<close>)
  have T1: "tree_of B fs1 = (tree_of B fs)(p \<mapsto> without (nodeLength fs) node v)" "name_of B fs1 = name_of B fs"
      "sat_of B fs1 = sat_of B fs"
    using fs1(4) by auto
  obtain d1 where d1: "\<forall>q. os_exists d1 q \<longrightarrow> map_of d1 q = map_of disk q"
    "\<forall>q. \<not> in_tree (node_path fs node) q \<and> (\<forall>p. sat_of B fs node = Some p \<longrightarrow> \<not> in_tree p q) \<longrightarrow> map_of d1 q = map_of disk q"
    "DeleteFolder B osf fuel hierarchy (disk, fs) = DeleteNodeSubtree B osf fuel node (d1, fs1)"
    using delete_folder_dirs [OF osf h(2) fs1(1), of disk fuel] sat unfolding fs1(3) same(3) T1(3) by blast
  have t1: "tree_buckets B (snd (d1, fs1))" using tree_invD(2,3) [OF inv] sat fs1(3) by simp
  have n1: "0 < nodeLength (snd (d1, fs1))" using tree_invD(1) [OF inv] same(1) by simp
  have s1: "nodeLength (snd (d1, fs1)) dvd length y" if "tree_of B (snd (d1, fs1)) k = Some y" for k y
    using that fs1(4) same(1) tree_invD(6) [OF inv, of k y]
      without_slots(2) [OF tree_invD(1) [OF inv] tree_invD(6,5) [OF inv v] first] by (auto split: if_splits)
  have k1: "tree_of B (snd (d1, fs1)) c \<noteq> None" if "c \<in> set (kids B (snd (d1, fs1)) k)" for k c
    using that tree_invD(9) [OF inv, of c k] fs1(4) by (auto simp: ks1 split: if_splits)
  have "height_le (kids B fs1) fuel node"
    by (rule height_le_mono [OF height]) (auto simp: ks1)
  then have "height_le (kids B (snd (d1, fs1))) fuel node" by simp
  moreover have "tree_of B (snd (d1, fs1)) node \<noteq> None" using fs1(4) w(1) by simp
  moreover have "closed_under (kids B (snd (d1, fs1))) {}" by (simp add: closed_under_def)
  ultimately have "\<exists>r s'. DeleteNodeSubtree B osf fuel node (d1, fs1) = (r, s') \<and>
      pruned B ({} \<union> {x. below (kids B (snd (d1, fs1))) node x}) (d1, fs1) s' \<and> r \<noteq> Panic \<and> r \<noteq> Diverge \<and> (node \<notin> {} \<longrightarrow> r = Ok ())"
    by (intro DeleteNodeSubtree_prunes [OF com osf t1 n1 s1 k1 pruned_refl])
  then obtain s' where s': "DeleteNodeSubtree B osf fuel node (d1, fs1) = (Ok (), s')"
    "pruned B {x. below (kids B fs) node x} (d1, fs1) s'" by (auto simp: below1)
  note P = prunedD [OF s'(2)]
  have "removed B fs (snd s') hierarchy node p v"
    using inv h(1) p v node P(1,2,4-6) same fs1(3) by (simp add: removed_def T1)
  moreover have "snd s' = fs\<lparr>nodesDB := nodesDB (snd s')\<rparr>"
    using s'(2) fs1(2) unfolding pruned_def by (metis FileSystem.update_convs(4) FileSystem.surjective FileSystem.cases_scheme snd_conv)
  moreover have "swept B {x. below (kids B fs) node x} fs disk (fst s')"
  proof -
    note S = sweptD [OF P(9), unfolded snd_conv fst_conv same(3) T1(3)]
    have node: "below (kids B fs) node node" by (rule below.here)
    have "map_of (fst s') q = map_of disk q" if "os_exists (fst s') q" for q
      using S(1) [OF that] d1(1) that by (simp add: os_exists_def)
    moreover have "map_of (fst s') q = map_of disk q" if "\<forall>x \<in> {x. below (kids B fs) node x}. \<not> in_tree (node_path fs x) q \<and>
        (\<forall>p. sat_of B fs x = Some p \<longrightarrow> \<not> in_tree p q)" for q
      using S(2) [of q] d1(2) that node by simp
    ultimately show ?thesis using S(3,4) unfolding swept_def by blast
  qed
  moreover have "\<forall>b. b \<notin> {Tree, FolderNameMapping, SatelliteMapping} \<longrightarrow> bolt_get B (nodesDB (snd s')) b = bolt_get B (nodesDB fs) b"
  proof (intro allI impI)
    fix b assume b: "b \<notin> {Tree, FolderNameMapping, SatelliteMapping}"
    have "bolt_get B (nodesDB fs1) b = bolt_get B (nodesDB fs) b" by (rule ext) (use b fs1(4) in simp)
    with P(8) [OF b] show "bolt_get B (nodesDB (snd s')) b = bolt_get B (nodesDB fs) b" by simp
  qed
  ultimately show thesis using that [of "fst s'" "snd s'" p v] s'(1) d1(3) P(7) by (simp add: T1)
qed

end

section \<open>The effect of a deletion\<close>

text \<open>The nodes whose paths start with \<open>folder\<close>, and the state after the folder \<open>folder\<close> is deleted.\<close>

definition nodes_under :: "'db bolt \<Rightarrow> 'db FileSystem \<Rightarrow> string list \<Rightarrow> bytes set" where
  "nodes_under B fs folder = {x. \<exists>h. prefix folder h \<and> getNodeForPath B fs h = Ok x}"

definition folder_gone :: "'db bolt \<Rightarrow> string list \<Rightarrow> disk \<times> 'db FileSystem \<Rightarrow> disk \<times> 'db FileSystem \<Rightarrow> bool" where
  "folder_gone B folder s s' \<longleftrightarrow> tree_inv B (snd s') \<and> snd s' = (snd s)\<lparr>nodesDB := nodesDB (snd s')\<rparr> \<and>
     bolt_bucket B (nodesDB (snd s')) = bolt_bucket B (nodesDB (snd s)) \<and>
     (\<forall>h. getNodeForPath B (snd s') h = (if prefix folder h then Err (no_folder (last folder)) else getNodeForPath B (snd s) h)) \<and>
     swept B (nodes_under B (snd s) folder) (snd s) (fst s) (fst s') \<and>
     name_of B (snd s') = name_of B (snd s) |` (- nodes_under B (snd s) folder) \<and>
     sat_of B (snd s') = sat_of B (snd s) |` (- nodes_under B (snd s) folder) \<and>
     (\<forall>b. b \<notin> {Tree, FolderNameMapping, SatelliteMapping} \<longrightarrow> bolt_get B (nodesDB (snd s')) b = bolt_get B (nodesDB (snd s)) b) \<and>
     (\<forall>k. tree_of B (snd s') k =
       (if k \<in> nodes_under B (snd s) folder then None
        else if getNodeForPath B (snd s) (butlast folder) = Ok k
          then map_option (\<lambda>v. concat (filter (\<lambda>c. getNodeForPath B (snd s) folder \<noteq> Ok c) (slots (nodeLength (snd s)) v))) (tree_of B (snd s) k)
        else tree_of B (snd s) k))"

lemma folder_goneD:
  assumes "folder_gone B folder s s'"
  shows "tree_inv B (snd s')" "snd s' = (snd s)\<lparr>nodesDB := nodesDB (snd s')\<rparr>"
    "bolt_bucket B (nodesDB (snd s')) = bolt_bucket B (nodesDB (snd s))"
    "getNodeForPath B (snd s') h = (if prefix folder h then Err (no_folder (last folder)) else getNodeForPath B (snd s) h)"
    "swept B (nodes_under B (snd s) folder) (snd s) (fst s) (fst s')"
    "name_of B (snd s') = name_of B (snd s) |` (- nodes_under B (snd s) folder)"
    "sat_of B (snd s') = sat_of B (snd s) |` (- nodes_under B (snd s) folder)"
    "b \<notin> {Tree, FolderNameMapping, SatelliteMapping} \<Longrightarrow> bolt_get B (nodesDB (snd s')) b = bolt_get B (nodesDB (snd s)) b"
    "tree_of B (snd s') k =
       (if k \<in> nodes_under B (snd s) folder then None
        else if getNodeForPath B (snd s) (butlast folder) = Ok k
          then map_option (\<lambda>v. concat (filter (\<lambda>c. getNodeForPath B (snd s) folder \<noteq> Ok c) (slots (nodeLength (snd s)) v))) (tree_of B (snd s) k)
        else tree_of B (snd s) k)"
  using assms unfolding folder_gone_def by blast+

text \<open>The same as one equation for the entries of all buckets.\<close>

lemma folder_gone_get:
  assumes "folder_gone B folder s s'"
  shows "bolt_get B (nodesDB (snd s')) b k =
    (if b \<in> {Tree, FolderNameMapping, SatelliteMapping} \<and> k \<in> nodes_under B (snd s) folder then None
     else if b = Tree \<and> getNodeForPath B (snd s) (butlast folder) = Ok k
       then map_option (\<lambda>v. concat (filter (\<lambda>c. getNodeForPath B (snd s) folder \<noteq> Ok c) (slots (nodeLength (snd s)) v))) (tree_of B (snd s) k)
     else bolt_get B (nodesDB (snd s)) b k)"
proof -
  note G = folder_goneD [OF assms]
  consider "b = Tree" | "b = FolderNameMapping" | "b = SatelliteMapping" | "b \<notin> {Tree, FolderNameMapping, SatelliteMapping}" by blast
  then show ?thesis
  proof cases
    case 1
    then show ?thesis using G(9) [of k] by simp
  qed (use G(6-8) in \<open>simp_all add: restrict_map_def\<close>)
qed

lemma nodes_under_below:
  assumes inv: "tree_inv B fs" and node: "getNodeForPath B fs folder = Ok node"
  shows "nodes_under B fs folder = {x. below (kids B fs) node x}"
proof -
  have walk: "tree_walk B fs (homeNode fs) folder = Inr node"
    using node by (simp add: getNode_Ok [OF inv])
  have "below (kids B fs) node x" if "prefix folder h" "getNodeForPath B fs h = Ok x" for h x
  proof -
    from \<open>prefix folder h\<close> obtain r where "h = folder @ r" by (rule prefixE)
    then show ?thesis
      using that(2) walk walk_below by (auto simp: getNodeForPath_walk [OF inv] walk_append split: sum.splits)
  qed
  moreover have "\<exists>h. prefix folder h \<and> getNodeForPath B fs h = Ok x" if below: "below (kids B fs) node x" for x
  proof -
    obtain r where "tree_walk B fs (homeNode fs) (folder @ r) = Inr x" using below_path [OF inv walk below] by blast
    then have "getNodeForPath B fs (folder @ r) = Ok x" by (simp add: getNodeForPath_walk [OF inv])
    then show ?thesis by (intro exI [of _ "folder @ r"]) simp
  qed
  ultimately show ?thesis unfolding nodes_under_def by blast
qed

lemma tree_walk_not_blank:
  assumes "tree_inv B fs" "tree_walk B fs (homeNode fs) h = Inr x"
  shows "x \<noteq> []"
proof -
  have "length x = nodeLength fs"
  proof (cases h rule: rev_cases)
    case Nil
    with assms tree_invD(11) [OF assms(1)] show ?thesis by simp
  next
    case (snoc g f)
    from walk_snoc [OF assms(2) [unfolded snoc]] obtain p where "x \<in> set (kids B fs p)" by blast
    then obtain v where v: "tree_of B fs p = Some v" "x \<in> set (slots (nodeLength fs) (drop (nodeLength fs) v))"
      by (cases "tree_of B fs p") (simp_all add: kids_def)
    have "nodeLength fs dvd length (drop (nodeLength fs) v)"
      using tree_invD(6) [OF assms(1) v(1)] by (simp add: dvd_diff_nat)
    then show ?thesis by (rule slots_length [OF tree_invD(1) [OF assms(1)] _ v(2)])
  qed
  with tree_invD(1) [OF assms(1)] show ?thesis by auto
qed

lemma DeleteFolder_gone:
  assumes "bolt_spec B" and "commits B" and "no_faults osf" and inv: "tree_inv B fs"
    and "bolt_bucket B (nodesDB fs) SatelliteMapping" and "\<forall>k v. tree_of B fs k = Some v \<longrightarrow> fits k v"
    and "folder \<noteq> []" and node: "getNodeForPath B fs folder = Ok node" and "height_le (kids B fs) fuel node"
  shows "\<exists>s'. DeleteFolder B osf fuel folder (disk, fs) = (Ok (), s') \<and> folder_gone B folder (disk, fs) s'"
proof -
  obtain disk' fs' p v where d: "DeleteFolder B osf fuel folder (disk, fs) = (Ok (), disk', fs')"
    "removed B fs fs' folder node p v" "fs' = fs\<lparr>nodesDB := nodesDB fs'\<rparr>"
    "swept B {x. below (kids B fs) node x} fs disk disk'" "sat_of B fs' = sat_of B fs |` (- {x. below (kids B fs) node x})"
    "\<forall>b. b \<notin> {Tree, FolderNameMapping, SatelliteMapping} \<longrightarrow> bolt_get B (nodesDB fs') b = bolt_get B (nodesDB fs) b"
    using bolt_spec.DeleteFolder_removes [OF assms, of disk] by blast
  note R = removedD [OF d(2)] and inv' = tree_inv_removed [OF d(2)] and D = nodes_under_below [OF inv node]
  have paths: "getNodeForPath B fs' h =
      (if prefix folder h then Err (no_folder (last folder)) else getNodeForPath B fs h)" for h
    using tree_walk_removed [OF d(2), of h] by (simp add: getNodeForPath_walk [OF inv'] getNodeForPath_walk [OF inv])
  have "getNodeForPath B fs (butlast folder) = Ok k \<longleftrightarrow> k = p" for k
    using R(3) by (auto simp: getNodeForPath_walk [OF inv])
  then have tree: "tree_of B fs' k = (if k \<in> {x. below (kids B fs) node x} then None
      else if getNodeForPath B fs (butlast folder) = Ok k
        then map_option (\<lambda>v. concat (filter (\<lambda>c. getNodeForPath B fs folder \<noteq> Ok c) (slots (nodeLength fs) v))) (tree_of B fs k)
      else tree_of B fs k)" for k
    using R(4) by (auto simp: R(10) node without_def intro!: arg_cong [of _ _ concat] filter_cong)
  have "folder_gone B folder (disk, fs) (disk', fs')"
    unfolding folder_gone_def D snd_conv fst_conv
    by (intro conjI allI impI) (fact inv' d(3) R(9) paths d(4) R(11) d(5) d(6) [rule_format] tree)+
  with d(1) show ?thesis by blast
qed

section \<open>Properties\<close>

text \<open>The hierarchy of the witness: home, with \<^verbatim>\<open>tv\<close> below it, \<^verbatim>\<open>news\<close> below \<^verbatim>\<open>tv\<close>, and \<^verbatim>\<open>radio\<close>.\<close>

definition demo_deep :: "mem_db FileSystem" where
  "demo_deep = \<lparr>nodeLength = 1, homeNode = ''h'', homeDirLocation = ''/d'',
     nodesDB = [Tree \<mapsto> [(''h'', ''hac''), (''a'', ''hb''), (''b'', ''a''), (''c'', ''h'')],
       FolderNameMapping \<mapsto> [(''h'', ''home''), (''a'', ''tv''), (''b'', ''news''), (''c'', ''radio'')],
       SatelliteMapping \<mapsto> [(''b'', ''/sat/b'')]]\<rparr>"

lemma demo_deep_simps [simp]:
  "tree_of mem_bolt demo_deep = [''h'' \<mapsto> ''hac'', ''a'' \<mapsto> ''hb'', ''b'' \<mapsto> ''a'', ''c'' \<mapsto> ''h'']"
  "name_of mem_bolt demo_deep = [''h'' \<mapsto> ''home'', ''a'' \<mapsto> ''tv'', ''b'' \<mapsto> ''news'', ''c'' \<mapsto> ''radio'']"
  "nodeLength demo_deep = 1" "homeNode demo_deep = ''h''" "homeDirLocation demo_deep = ''/d''"
  "bolt_bucket mem_bolt (nodesDB demo_deep) Tree" "bolt_bucket mem_bolt (nodesDB demo_deep) FolderNameMapping"
  "bolt_bucket mem_bolt (nodesDB demo_deep) SatelliteMapping"
  "length (bolt_items mem_bolt (nodesDB demo_deep) Tree) = 4"
  by (auto simp: demo_deep_def mem_defs)

lemma demo_deep_kids:
  "kids mem_bolt demo_deep k = (if k = ''h'' then [''a'', ''c''] else if k = ''a'' then [''b''] else [])"
  by (simp add: kids_def slots.simps)

lemma demo_deep_inv: "tree_inv mem_bolt demo_deep"
  by (auto simp: tree_inv_def demo_deep_kids split: if_splits)

text \<open>
  C7: \<^verbatim>\<open>DeleteFolder\<close> removes a folder with everything below it and nothing else. On a well-formed
  hierarchy, with a store that commits and a disk that does not fail, deleting an existing path other
  than the home folder succeeds (the recursion needs at most as many levels as there are nodes). Afterwards the
  hierarchy is well-formed, every path that starts with the deleted one is unknown, and every other path is
  resolved as before. In the store, the entries of the deleted nodes are gone from the three buckets of the
  hierarchy, the slot of the folder is gone from its parent, and every other entry of every bucket is as
  before. On the disk, nothing is left of the directories of the deleted nodes, their satellite directories are gone,
  what is outside all these directories is as before, and what is left anywhere is unchanged. (A satellite directory is
  removed with all it holds, also when another folder's directory is in it.)
\<close>

theorem delete_folder_path:
  assumes "bolt_spec B" and "commits B" and "no_faults osf" and inv: "tree_inv B fs"
    and "bolt_bucket B (nodesDB fs) SatelliteMapping"
    and "\<forall>k v. tree_of B fs k = Some v \<longrightarrow> fits k v"
    and "hierarchy \<noteq> []" and node: "getNodeForPath B fs hierarchy = Ok node"
    and "length (bolt_items B (nodesDB fs) Tree) \<le> fuel + length hierarchy"
  defines "deleted \<equiv> {x. \<exists>h. prefix hierarchy h \<and> getNodeForPath B fs h = Ok x}"
  shows "\<exists>disk' fs'. DeleteFolder B osf fuel hierarchy (disk, fs) = (Ok (), disk', fs') \<and>
    tree_inv B fs' \<and> fs' = fs\<lparr>nodesDB := nodesDB fs'\<rparr> \<and>
    (\<forall>h. getNodeForPath B fs' h =
      (if prefix hierarchy h then Err (no_folder (last hierarchy)) else getNodeForPath B fs h)) \<and>
    (\<forall>b k. bolt_get B (nodesDB fs') b k =
      (if b \<in> {Tree, FolderNameMapping, SatelliteMapping} \<and> k \<in> deleted then None
       else if b = Tree \<and> getNodeForPath B fs (butlast hierarchy) = Ok k
         then map_option (\<lambda>v. concat (filter (\<lambda>c. c \<noteq> node) (slots (nodeLength fs) v))) (bolt_get B (nodesDB fs) Tree k)
       else bolt_get B (nodesDB fs) b k)) \<and>
    (\<forall>x \<in> deleted. \<forall>q. in_tree (node_path fs x) q \<longrightarrow> \<not> os_exists disk' q) \<and>
    (\<forall>x \<in> deleted. \<forall>p. bolt_get B (nodesDB fs) SatelliteMapping x = Some p \<longrightarrow> p \<noteq> [] \<longrightarrow> \<not> os_exists disk' p) \<and>
    (\<forall>q. (\<forall>x \<in> deleted. \<not> in_tree (node_path fs x) q \<and>
        (\<forall>p. bolt_get B (nodesDB fs) SatelliteMapping x = Some p \<longrightarrow> \<not> in_tree p q)) \<longrightarrow> map_of disk' q = map_of disk q) \<and>
    (\<forall>q. os_exists disk' q \<longrightarrow> map_of disk' q = map_of disk q)"
proof -
  have walk: "tree_walk B fs (homeNode fs) hierarchy = Inr node"
    using node by (simp add: getNode_Ok [OF inv])
  have "height_le (kids B fs) fuel node" using bolt_spec.height_bound [OF assms(1) inv walk, of fuel] assms(9) by simp
  with DeleteFolder_gone [OF assms(1-8)] obtain disk' fs' where
    run: "DeleteFolder B osf fuel hierarchy (disk, fs) = (Ok (), disk', fs')" and gone: "folder_gone B hierarchy (disk, fs) (disk', fs')"
    by fastforce
  note G = folder_goneD [OF gone, unfolded snd_conv fst_conv nodes_under_def, folded deleted_def]
  note S = sweptD [OF G(5)]
  have "x \<noteq> []" if "x \<in> deleted" for x
  proof -
    from that obtain h where "getNodeForPath B fs h = Ok x" by (auto simp: deleted_def)
    then show ?thesis using tree_walk_not_blank [OF inv] by (simp add: getNode_Ok [OF inv])
  qed
  then have "\<forall>x \<in> deleted. \<forall>q. in_tree (node_path fs x) q \<longrightarrow> \<not> os_exists disk' q" using S(3) by blast
  moreover have "bolt_get B (nodesDB fs') b k =
      (if b \<in> {Tree, FolderNameMapping, SatelliteMapping} \<and> k \<in> deleted then None
       else if b = Tree \<and> getNodeForPath B fs (butlast hierarchy) = Ok k
         then map_option (\<lambda>v. concat (filter (\<lambda>c. c \<noteq> node) (slots (nodeLength fs) v))) (bolt_get B (nodesDB fs) Tree k)
       else bolt_get B (nodesDB fs) b k)" for b k
    using folder_gone_get [OF gone, of b k, unfolded snd_conv nodes_under_def, folded deleted_def] by (simp add: node eq_commute [of node])
  moreover note run G(1,2) G(4) S(4) S(1) S(2)
  ultimately show ?thesis by blast
qed

theorem delete_folder_path_witness:
  "\<exists>disk fs. DeleteFolder mem_bolt (\<lambda>_ _. None) 4 [''tv''] ([], demo_deep) = (Ok (), disk, fs) \<and>
     getNodeForPath mem_bolt fs [''tv''] = Err (no_folder ''tv'') \<and>
     getNodeForPath mem_bolt fs [''tv'', ''news''] = Err (no_folder ''tv'') \<and>
     getNodeForPath mem_bolt fs [''radio''] = Ok ''c''"
proof -
  have n: "getNodeForPath mem_bolt demo_deep [''tv''] = Ok ''a''" "getNodeForPath mem_bolt demo_deep [''radio''] = Ok ''c''"
    by (simp_all add: getNodeForPath_walk [OF demo_deep_inv] demo_deep_kids)
  have "\<forall>k v. tree_of mem_bolt demo_deep k = Some v \<longrightarrow> fits k v"
    by (simp add: fits_def max_key_def max_value_def)
  from delete_folder_path [OF mem_bolt_spec mem_commits _ demo_deep_inv _ this _ n(1), of "\<lambda>_ _. None" 4 "[]"] n(2)
  show ?thesis by fastforce
qed

end
