(* ===== verification/Folder_Removal.thy ===== *)
theory Folder_Removal
  imports Folder_Deletion
begin

text \<open>
  Deleting a folder together with the parents that become empty (\<^verbatim>\<open>RecursiveDeleteFolder\<close> of
  \<^verbatim>\<open>src/filesys/filesys.go\<close>): its effect is that of deleting one folder, the topmost of the parents all of
  whose other descendants are on the path. The operation is \<open>RecursiveDeleteFolder\<close> of \<open>Folder_Tree\<close>.
\<close>

section \<open>Two deletions in a row\<close>

lemma nodes_under_step:
  assumes "folder_gone B (pre @ [f]) s0 s1"
  shows "nodes_under B (snd s0) pre = nodes_under B (snd s0) (pre @ [f]) \<union> nodes_under B (snd s1) pre"
proof -
  note paths = folder_goneD(4) [OF assms]
  have "x \<in> nodes_under B (snd s0) (pre @ [f]) \<union> nodes_under B (snd s1) pre"
    if "prefix pre h" "getNodeForPath B (snd s0) h = Ok x" for h x
    using that paths [of h] by (cases "prefix (pre @ [f]) h") (auto simp: nodes_under_def)
  moreover have "x \<in> nodes_under B (snd s0) pre" if "prefix (pre @ [f]) h" "getNodeForPath B (snd s0) h = Ok x" for h x
    using that append_prefixD by (auto simp: nodes_under_def)
  moreover have "x \<in> nodes_under B (snd s0) pre" if "prefix pre h" "getNodeForPath B (snd s1) h = Ok x" for h x
    using that paths [of h] by (auto simp: nodes_under_def split: if_splits)
  ultimately show ?thesis unfolding nodes_under_def by blast
qed

lemma gone_same:
  assumes "folder_gone B folder s0 s1"
  shows "nodeLength (snd s1) = nodeLength (snd s0)" "homeNode (snd s1) = homeNode (snd s0)"
    "node_path (snd s1) x = node_path (snd s0) x"
  by (subst folder_goneD(2) [OF assms], simp add: node_path_def)+

lemma gone_trans:
  assumes 1: "folder_gone B (pre @ [f]) s0 s1" and 2: "folder_gone B pre s1 s2" and pre: "pre \<noteq> []"
  shows "folder_gone B pre s0 s2"
proof -
  note G1 = folder_goneD [OF 1] and G2 = folder_goneD [OF 2] and D = nodes_under_step [OF 1]
  have no: "\<not> prefix (pre @ [f]) pre" "\<not> prefix (pre @ [f]) (butlast pre)"
    using prefix_length_le by fastforce+
  have "snd s2 = (snd s0)\<lparr>nodesDB := nodesDB (snd s2)\<rparr>"
    using G1(2) G2(2) by (metis (mono_tags) FileSystem.fold_congs(4) FileSystem.surjective FileSystem.update_convs(4))
  moreover have "bolt_bucket B (nodesDB (snd s2)) = bolt_bucket B (nodesDB (snd s0))" using G1(3) G2(3) by simp
  moreover have "getNodeForPath B (snd s2) h = (if prefix pre h then Err (no_folder (last pre)) else getNodeForPath B (snd s0) h)" for h
    using G1(4) [of h] G2(4) [of h] append_prefixD by auto
  moreover have "swept B (nodes_under B (snd s0) pre) (snd s0) (fst s0) (fst s2)"
    unfolding D by (rule swept_trans [OF G1(5) G2(5) gone_same(3) [OF 1] G1(7)])
  moreover have "name_of B (snd s2) = name_of B (snd s0) |` (- nodes_under B (snd s0) pre)"
      "sat_of B (snd s2) = sat_of B (snd s0) |` (- nodes_under B (snd s0) pre)"
    using G1(6,7) G2(6,7) unfolding D by (simp_all add: Int_commute Compl_Un)
  moreover have "bolt_get B (nodesDB (snd s2)) b = bolt_get B (nodesDB (snd s0)) b" if "b \<notin> {Tree, FolderNameMapping, SatelliteMapping}" for b
    using G1(8) [OF that] G2(8) [OF that] by simp
  moreover have "tree_of B (snd s2) k = (if k \<in> nodes_under B (snd s0) pre then None
      else if getNodeForPath B (snd s0) (butlast pre) = Ok k
        then map_option (\<lambda>v. concat (filter (\<lambda>c. getNodeForPath B (snd s0) pre \<noteq> Ok c) (slots (nodeLength (snd s0)) v))) (tree_of B (snd s0) k)
      else tree_of B (snd s0) k)" for k
  proof -
    have same: "getNodeForPath B (snd s1) pre = getNodeForPath B (snd s0) pre"
        "getNodeForPath B (snd s1) (butlast pre) = getNodeForPath B (snd s0) (butlast pre)"
      using G1(4) no by simp_all
    show ?thesis
    proof (cases "k \<in> nodes_under B (snd s1) pre")
      case True
      then show ?thesis using G2(9) [of k] by (simp add: D)
    next
      case False
      then have "getNodeForPath B (snd s0) pre \<noteq> Ok k" using same(1) by (auto simp: nodes_under_def)
      with G1(9) [of k] have "tree_of B (snd s1) k = (if k \<in> nodes_under B (snd s0) (pre @ [f]) then None else tree_of B (snd s0) k)" by simp
      with G2(9) [of k] False show ?thesis by (simp add: D same gone_same(1) [OF 1])
    qed
  qed
  ultimately show ?thesis using G2(1) unfolding folder_gone_def by blast
qed

section \<open>What is left of the parent\<close>

lemma gone_fits:
  assumes gone: "folder_gone B folder s0 s1" and n: "0 < nodeLength (snd s0)"
    and fit: "\<forall>k v. tree_of B (snd s0) k = Some v \<longrightarrow> fits k v"
  shows "\<forall>k v. tree_of B (snd s1) k = Some v \<longrightarrow> fits k v"
proof (intro allI impI)
  fix k v assume v: "tree_of B (snd s1) k = Some v"
  obtain w where w: "tree_of B (snd s0) k = Some w" "length v \<le> length w"
  proof (cases "tree_of B (snd s0) k")
    case (Some w)
    have "length (concat (filter P (slots (nodeLength (snd s0)) w))) \<le> length w" for P
      using length_concat_filter [of P "slots (nodeLength (snd s0)) w"] concat_slots [OF n, of w] by simp
    with Some that folder_goneD(9) [OF gone, of k] v show thesis by (auto split: if_splits)
  qed (use folder_goneD(9) [OF gone, of k] v in \<open>auto split: if_splits\<close>)
  with fit have "fits k w" by blast
  with w(2) show "fits k v" by (simp add: fits_def)
qed

lemma gone_kids:
  assumes gone: "folder_gone B (pre @ [f]) s0 s1" and inv: "tree_inv B (snd s0)"
    and m: "getNodeForPath B (snd s0) pre = Ok m" and c: "getNodeForPath B (snd s0) (pre @ [f]) = Ok c"
  shows "kids B (snd s1) m = filter (\<lambda>x. x \<noteq> c) (kids B (snd s0) m)" "c \<in> set (kids B (snd s0) m)" "tree_of B (snd s1) m \<noteq> None"
proof -
  let ?fs = "snd s0"
  have walk: "tree_walk B ?fs (homeNode ?fs) pre = Inr m" "tree_walk B ?fs (homeNode ?fs) (pre @ [f]) = Inr c"
    using m c by (simp_all add: getNode_Ok [OF inv])
  from walk_snoc [OF walk(2)] walk(1) have kid: "c \<in> set (kids B ?fs m)" "name_of B ?fs c = Some f" by auto
  then show "c \<in> set (kids B ?fs m)" by simp
  obtain v where v: "tree_of B ?fs m = Some v" using tree_walk_exists [OF inv walk(1)] by blast
  have first: "take (nodeLength ?fs) v \<noteq> c"
    using first_slot [OF inv, of "pre @ [f]" m v c] walk(1) v kid by simp
  have "m \<notin> nodes_under B ?fs (pre @ [f])"
  proof
    assume "m \<in> nodes_under B ?fs (pre @ [f])"
    then obtain h where "prefix (pre @ [f]) h" "tree_walk B ?fs (homeNode ?fs) h = Inr m"
      by (auto simp: nodes_under_def getNode_Ok [OF inv])
    with tree_walk_unique [OF inv walk(1)] have "prefix (pre @ [f]) pre" by metis
    then show False using prefix_length_le by fastforce
  qed
  then have tree: "tree_of B (snd s1) m = Some (without (nodeLength ?fs) c v)"
    using folder_goneD(9) [OF gone, of m] m c v by (auto simp: without_def intro!: arg_cong [of _ _ concat] filter_cong)
  then show "tree_of B (snd s1) m \<noteq> None" by simp
  show "kids B (snd s1) m = filter (\<lambda>x. x \<noteq> c) (kids B ?fs m)"
    using without_slots(4) [OF tree_invD(1) [OF inv] tree_invD(6,5) [OF inv v] first]
    by (simp add: kids_def tree v gone_same(1) [OF gone])
qed

text \<open>The value of a node without children is its own slot.\<close>

lemma no_children:
  assumes inv: "tree_inv B fs" and v: "tree_of B fs m = Some v"
  shows "length v = nodeLength fs \<longleftrightarrow> kids B fs m = []"
proof -
  have n: "0 < nodeLength fs" "nodeLength fs \<le> length v"
    using tree_invD(1) [OF inv] tree_invD(5) [OF inv v] dvd_imp_le [OF tree_invD(6) [OF inv v]] by simp_all
  then have "length v = nodeLength fs \<longleftrightarrow> drop (nodeLength fs) v = []" by auto
  also have "\<dots> \<longleftrightarrow> kids B fs m = []"
    using slots_step [OF n(1), of "drop (nodeLength fs) v"] by (cases "drop (nodeLength fs) v = []") (simp_all add: kids_def v slots.simps [of _ "[]"])
  finally show ?thesis .
qed

section \<open>Deleting the empty parents\<close>

text \<open>The folder of the first \<open>i\<close> names of \<open>h\<close> has one child, the folder of the first \<open>i + 1\<close>.\<close>

definition only_child :: "'db bolt \<Rightarrow> 'db FileSystem \<Rightarrow> string list \<Rightarrow> nat \<Rightarrow> bool" where
  "only_child B fs h i \<longleftrightarrow> (\<exists>m c. getNodeForPath B fs (take i h) = Ok m \<and> getNodeForPath B fs (take (Suc i) h) = Ok c \<and> kids B fs m = [c])"

lemma filter_one: "distinct xs \<Longrightarrow> c \<in> set xs \<Longrightarrow> filter (\<lambda>x. x \<noteq> c) xs = [] \<longleftrightarrow> xs = [c]"
  by (cases xs; cases "tl xs") (auto simp: filter_empty_conv)

lemma path_prefix:
  assumes inv: "tree_inv B fs" and "getNodeForPath B fs h = Ok node" "i \<le> length h"
  shows "\<exists>m. getNodeForPath B fs (take i h) = Ok m"
  using assms(2) walk_prefix [OF _ assms(3)] by (auto simp: getNode_Ok [OF inv])

lemma delete_empty_gone:
  assumes B: "bolt_spec B" "commits B" "no_faults osf" and inv: "tree_inv B (snd s0)"
    and sat: "bolt_bucket B (nodesDB (snd s0)) SatelliteMapping" and fit: "\<forall>k v. tree_of B (snd s0) k = Some v \<longrightarrow> fits k v"
    and h: "getNodeForPath B (snd s0) h = Ok node" and fuel: "0 < fuel"
  shows "k < length h \<Longrightarrow> folder_gone B (take (Suc k) h) s0 s1 \<Longrightarrow>
    \<exists>j s2. j \<le> k \<and> delete_empty B osf fuel h k s1 = (Ok (), s2) \<and> folder_gone B (take (Suc j) h) s0 s2 \<and>
      (\<forall>i. j < i \<and> i \<le> k \<longrightarrow> only_child B (snd s0) h i) \<and> (0 < j \<longrightarrow> \<not> only_child B (snd s0) h j)"
proof (induction k arbitrary: s1)
  case 0
  then show ?case by (intro exI [of _ 0] exI [of _ s1]) simp
next
  case (Suc k)
  let ?pre = "take (Suc k) h"
  have split: "take (Suc (Suc k)) h = ?pre @ [h ! Suc k]" using Suc.prems(1) by (simp add: take_Suc_conv_app_nth)
  note gone = Suc.prems(2) [unfolded split]
  obtain m c where m: "getNodeForPath B (snd s0) ?pre = Ok m" and c: "getNodeForPath B (snd s0) (take (Suc (Suc k)) h) = Ok c"
    using path_prefix [OF inv h] Suc.prems(1) by (metis Suc_leI less_imp_le)
  note K = gone_kids [OF gone inv m c [unfolded split]] and G = folder_goneD [OF gone]
  have m1: "getNodeForPath B (snd s1) ?pre = Ok m" using G(4) [of ?pre] m prefix_length_le by fastforce
  obtain v where v: "tree_of B (snd s1) m = Some v" using K(3) by blast
  have children: "GetChildrenForNode B (snd s1) m = Ok v"
    using v tree_invD(2) [OF G(1)] by (simp add: GetChildrenForNode_def bucket_get_def)
  have only: "only_child B (snd s0) h (Suc k) \<longleftrightarrow> kids B (snd s1) m = []"
  proof -
    have "distinct (kids B (snd s0) m)" using tree_invD(10) [OF inv, of m] by (simp add: distinct_map)
    then have "filter (\<lambda>x. x \<noteq> c) (kids B (snd s0) m) = [] \<longleftrightarrow> kids B (snd s0) m = [c]"
      using K(2) by (rule filter_one)
    with m c show ?thesis by (simp add: only_child_def K(1))
  qed
  show ?case
  proof (cases "kids B (snd s1) m = []")
    case False
    then have "delete_empty B osf fuel h (Suc k) s1 = (Ok (), s1)"
      using m1 children no_children [OF G(1) v] by simp
    with False only Suc.prems(2) show ?thesis by (intro exI [of _ "Suc k"] exI [of _ s1]) (auto simp del: delete_empty.simps)
  next
    case True
    have pre: "?pre \<noteq> []" using Suc.prems(1) by auto
    have height: "height_le (kids B (snd s1)) fuel m" using True fuel by (cases fuel) simp_all
    have "\<exists>s'. DeleteFolder B osf fuel ?pre (fst s1, snd s1) = (Ok (), s') \<and> folder_gone B ?pre (fst s1, snd s1) s'"
      by (rule DeleteFolder_gone [OF B G(1) _ gone_fits [OF gone tree_invD(1) [OF inv] fit] pre m1 height]) (simp add: G(3) sat)
    then obtain s' where s': "DeleteFolder B osf fuel ?pre s1 = (Ok (), s')" "folder_gone B ?pre s1 s'" by auto
    from Suc.IH [OF _ gone_trans [OF gone s'(2) pre]] Suc.prems(1) obtain j s2 where
      j: "j \<le> k" "delete_empty B osf fuel h k s' = (Ok (), s2)" "folder_gone B (take (Suc j) h) s0 s2"
        "\<forall>i. j < i \<and> i \<le> k \<longrightarrow> only_child B (snd s0) h i" "0 < j \<longrightarrow> \<not> only_child B (snd s0) h j" by auto
    have "delete_empty B osf fuel h (Suc k) s1 = (Ok (), s2)"
      using m1 children no_children [OF G(1) v] True s'(1) j(2) by simp
    with j True only show ?thesis by (intro exI [of _ j] exI [of _ s2]) (auto simp: le_Suc_eq simp del: delete_empty.simps)
  qed
qed

text \<open>
  Deleting a folder with the parents that become empty is deleting its topmost parent \<open>take j h\<close> (or the folder
  itself) such that every folder from there down to the deleted one has just one child.
\<close>

lemma RecursiveDeleteFolder_gone:
  assumes "bolt_spec B" "commits B" "no_faults osf" and inv: "tree_inv B fs"
    and "bolt_bucket B (nodesDB fs) SatelliteMapping" "\<forall>k v. tree_of B fs k = Some v \<longrightarrow> fits k v"
    and h: "h \<noteq> []" "getNodeForPath B fs h = Ok node" and fuel: "length (bolt_items B (nodesDB fs) Tree) \<le> fuel"
  shows "\<exists>j s'. RecursiveDeleteFolder B osf fuel h (disk, fs) = (Ok (), s') \<and> 0 < j \<and> j \<le> length h \<and>
    folder_gone B (take j h) (disk, fs) s' \<and> (\<forall>i. j \<le> i \<and> i < length h \<longrightarrow> only_child B fs h i) \<and>
    (1 < j \<longrightarrow> \<not> only_child B fs h (j - 1))"
proof -
  have walk: "tree_walk B fs (homeNode fs) h = Inr node" using h(2) by (simp add: getNode_Ok [OF inv])
  have "0 < fuel" using bolt_spec.path_bound [OF assms(1) inv walk] fuel by linarith
  have "height_le (kids B fs) fuel node" using bolt_spec.height_bound [OF assms(1) inv walk, of fuel] fuel by simp
  from DeleteFolder_gone [OF assms(1-8) this, of disk] obtain s1 where
    s1: "DeleteFolder B osf fuel h (disk, fs) = (Ok (), s1)" "folder_gone B h (disk, fs) s1" by blast
  have len: "length h - 1 < length h" "take (Suc (length h - 1)) h = h" using h(1) by simp_all
  from delete_empty_gone [of B osf "(disk, fs)" h node fuel, OF assms(1-3) _ _ _ _ \<open>0 < fuel\<close> len(1), of s1] inv assms(5,6) h(2) s1(2) len(2)
  obtain j s2 where j: "j \<le> length h - 1" "delete_empty B osf fuel h (length h - 1) s1 = (Ok (), s2)"
      "folder_gone B (take (Suc j) h) (disk, fs) s2"
      "\<forall>i. j < i \<and> i \<le> length h - 1 \<longrightarrow> only_child B fs h i" "0 < j \<longrightarrow> \<not> only_child B fs h j" by auto
  have "Suc j \<le> length h" using j(1) h(1) by (cases h) auto
  with j s1(1) show ?thesis
    by (intro exI [of _ "Suc j"] exI [of _ s2]) (auto simp: RecursiveDeleteFolder_def)
qed

end
