(* ===== verification/Go_Files.thy ===== *)
theory Go_Files
  imports Go_Lib "HOL-Library.List_Lexorder" "HOL-Library.Char_ord"
begin

text \<open>
  Reading directories and scanning text: \<^verbatim>\<open>ioutil.ReadDir\<close>, which lists the entries of a directory
  sorted by name, and \<^verbatim>\<open>bufio.Scanner\<close> over the lines of a file.
\<close>

section \<open>Directories\<close>

definition dir_names :: "string \<Rightarrow> disk \<Rightarrow> string list" where
  "dir_names p d = sort (remdups (filter (\<lambda>n. n \<noteq> [] \<and> CHR ''/'' \<notin> set n)
     (map (drop (length p + 1)) (filter (\<lambda>q. HasPrefix q (p @ ''/'')) (map fst d)))))"

definition os_ReadDir :: "os_faults \<Rightarrow> string \<Rightarrow> disk \<Rightarrow> (string \<times> entry) list res" where
  "os_ReadDir osf p d =
     (case osf (ReadDir p) d of Some e \<Rightarrow> Err e
      | None \<Rightarrow>
        (case map_of d p of
           None \<Rightarrow> Err (''open '' @ p @ '': no such file or directory'')
         | Some (File _) \<Rightarrow> Err (''readdirent: not a directory'')
         | Some Directory \<Rightarrow> Ok (List.map_filter (\<lambda>n. map_option (Pair n) (map_of d (p @ ''/'' @ n))) (dir_names p d))))"

lemma dir_names_iff: "n \<in> set (dir_names p d) \<longleftrightarrow> n \<noteq> [] \<and> CHR ''/'' \<notin> set n \<and> os_exists d (p @ ''/'' @ n)"
proof -
  have "(\<exists>q. HasPrefix q (p @ ''/'') \<and> q \<in> fst ` set d \<and> n = drop (length p + 1) q) \<longleftrightarrow> p @ ''/'' @ n \<in> fst ` set d"
  proof
    assume "\<exists>q. HasPrefix q (p @ ''/'') \<and> q \<in> fst ` set d \<and> n = drop (length p + 1) q"
    then obtain q where q: "take (length p + 1) q = p @ ''/''" "q \<in> fst ` set d" "n = drop (length p + 1) q"
      by (auto simp: HasPrefix_def)
    have "q = take (length p + 1) q @ drop (length p + 1) q" by (simp only: append_take_drop_id)
    then have "q = p @ ''/'' @ n" by (simp only: q(1) q(3) [symmetric] append_assoc)
    with q(2) show "p @ ''/'' @ n \<in> fst ` set d" by simp
  next
    assume "p @ ''/'' @ n \<in> fst ` set d"
    then show "\<exists>q. HasPrefix q (p @ ''/'') \<and> q \<in> fst ` set d \<and> n = drop (length p + 1) q"
      by (intro exI [of _ "p @ ''/'' @ n"]) (simp add: HasPrefix_def)
  qed
  then show ?thesis
    by (auto simp: dir_names_def os_exists_def map_of_eq_None_iff image_iff)
qed

lemma dir_names_distinct: "distinct (dir_names p d)"
  by (simp add: dir_names_def)

lemma ReadDir_Ok:
  assumes "os_ReadDir osf p d = Ok l"
  shows "(n, e) \<in> set l \<longleftrightarrow> n \<noteq> [] \<and> CHR ''/'' \<notin> set n \<and> map_of d (p @ ''/'' @ n) = Some e"
    and "map fst l = dir_names p d"
proof -
  have l: "l = List.map_filter (\<lambda>n. map_option (Pair n) (map_of d (p @ ''/'' @ n))) (dir_names p d)"
    using assms by (auto simp: os_ReadDir_def split: option.splits entry.splits)
  show "(n, e) \<in> set l \<longleftrightarrow> n \<noteq> [] \<and> CHR ''/'' \<notin> set n \<and> map_of d (p @ ''/'' @ n) = Some e"
    unfolding l by (auto simp: List.map_filter_def dir_names_iff os_exists_def image_iff intro!: bexI [of _ n])
  have "map fst (List.map_filter (\<lambda>n. map_option (Pair n) (map_of d (p @ ''/'' @ n))) ns) = ns"
    if "\<forall>n \<in> set ns. os_exists d (p @ ''/'' @ n)" for ns
    using that by (induction ns) (auto simp: List.map_filter_simps os_exists_def)
  then show "map fst l = dir_names p d" by (simp add: l dir_names_iff)
qed

section \<open>Lines\<close>

text \<open>
  \<^verbatim>\<open>bufio.Scanner\<close> with its default settings: the lines of the text without their line feed and a
  carriage return before it; a line that does not fit the buffer of 64 KB together with its line feed
  ends the scan.
\<close>

definition strip_cr :: "string \<Rightarrow> string" where
  "strip_cr l = (if l \<noteq> [] \<and> last l = CHR 13 then butlast l else l)"

definition scan_lines :: "bytes \<Rightarrow> string list" where
  "scan_lines text =
     (let ls = Split text (CHR 10)
      in map strip_cr (takeWhile (\<lambda>l. length l < 65536) (if last ls = [] then butlast ls else ls)))"

lemma Split_lines: "\<forall>l \<in> set ls. CHR 10 \<notin> set l \<Longrightarrow> Split (concat (map (\<lambda>l. l @ [CHR 10]) ls)) (CHR 10) = ls @ [[]]"
  by (induction ls) (simp_all add: Split_append_sep)

lemma scan_lines:
  assumes "\<forall>l \<in> set ls. CHR 10 \<notin> set l \<and> length l < 65536 \<and> (l = [] \<or> last l \<noteq> CHR 13)"
  shows "scan_lines (concat (map (\<lambda>l. l @ [CHR 10]) ls)) = ls"
proof -
  have "map strip_cr ls = ls" using assms by (intro map_idI) (auto simp: strip_cr_def)
  then show ?thesis using assms by (simp add: scan_lines_def Split_lines takeWhile_eq_all_conv [THEN iffD2])
qed

section \<open>Simple paths\<close>

text \<open>Absolute paths whose components are plain names: \<^verbatim>\<open>Join\<close>, \<^verbatim>\<open>Dir\<close> and \<^verbatim>\<open>Base\<close> do what their names say.\<close>

definition simple :: "string \<Rightarrow> bool" where
  "simple s \<longleftrightarrow> s \<noteq> [] \<and> CHR ''/'' \<notin> set s \<and> s \<noteq> ''.'' \<and> s \<noteq> ''..''"

definition abs_path :: "string list \<Rightarrow> string" where
  "abs_path cs = CHR ''/'' # Join_with CHR ''/'' cs"

lemma Join_with_append: "xs \<noteq> [] \<Longrightarrow> ys \<noteq> [] \<Longrightarrow> Join_with c (xs @ ys) = Join_with c xs @ c # Join_with c ys"
proof (induction c xs rule: Join_with.induct)
  case (2 c x)
  then show ?case by (cases ys) auto
qed auto

lemma abs_path_append: "cs \<noteq> [] \<Longrightarrow> ds \<noteq> [] \<Longrightarrow> abs_path (cs @ ds) = abs_path cs @ abs_path ds"
  by (simp add: abs_path_def Join_with_append)

lemma Split_abs: "cs \<noteq> [] \<Longrightarrow> \<forall>c \<in> set cs. CHR ''/'' \<notin> set c \<Longrightarrow> Split (abs_path cs) CHR ''/'' = [] # cs"
  by (simp add: abs_path_def Split_Join)

lemma abs_path_inj:
  assumes "abs_path cs = abs_path ds" "cs \<noteq> []" "ds \<noteq> []" "\<forall>c \<in> set (cs @ ds). CHR ''/'' \<notin> set c"
  shows "cs = ds"
proof -
  have "[] # cs = Split (abs_path cs) CHR ''/''" by (rule Split_abs [symmetric]) (use assms in simp_all)
  also have "\<dots> = [] # ds" unfolding assms(1) by (rule Split_abs) (use assms in simp_all)
  finally show ?thesis by simp
qed

lemma clean_simple: "\<forall>c \<in> set cs. simple c \<Longrightarrow> foldl (clean_step True) st cs = rev cs @ st"
  by (induction cs arbitrary: st) (auto simp: clean_step_def simple_def)

lemma Clean_abs:
  assumes "cs \<noteq> []" "\<forall>c \<in> set cs. simple c"
  shows "Clean (abs_path cs) = abs_path cs"
proof -
  have s: "Split (abs_path cs) CHR ''/'' = [] # cs" using assms by (intro Split_abs) (auto simp: simple_def)
  have "HasPrefix (abs_path cs) ''/''" by (simp add: HasPrefix_def abs_path_def)
  moreover have "foldl (clean_step True) [] ([] # cs) = rev cs"
    using clean_simple [OF assms(2), of "[]"] by (simp add: clean_step_def)
  ultimately show ?thesis unfolding Clean_def Let_def s by (simp del: foldl_Cons) (simp add: abs_path_def)
qed

lemma Join_abs:
  assumes "cs \<noteq> []" "ds \<noteq> []" "\<forall>c \<in> set (cs @ ds). simple c"
  shows "Join (abs_path cs # ds) = abs_path (cs @ ds)"
proof -
  have "Join_with CHR ''/'' (abs_path cs # ds) = abs_path (cs @ ds)"
    using assms(2) by (cases ds) (simp_all add: abs_path_append [OF assms(1)] abs_path_def [of "_ # _"])
  then show ?thesis using Clean_abs [of "cs @ ds"] assms by (simp add: Join_def abs_path_def)
qed

lemma Base_abs:
  assumes "\<forall>c \<in> set (cs @ [n]). simple c"
  shows "Base (abs_path (cs @ [n])) = n"
proof -
  have n: "n \<noteq> []" "CHR ''/'' \<notin> set n" using assms by (simp_all add: simple_def)
  from n(1) obtain m x where m0: "n = m @ [x]" by (metis rev_exhaust)
  with n(2) have m: "n = m @ [x]" "x \<noteq> CHR ''/''" by auto
  obtain k where k: "abs_path (cs @ [n]) = k @ [x]"
    by (cases "cs = []") (auto simp: abs_path_def Join_with_append m)
  have "rev (dropWhile (\<lambda>x. x = CHR ''/'') (rev (abs_path (cs @ [n])))) = abs_path (cs @ [n])"
    unfolding k using m(2) by simp
  moreover have "Split (abs_path (cs @ [n])) CHR ''/'' = [] # cs @ [n]"
    using assms by (intro Split_abs) (auto simp: simple_def)
  ultimately show ?thesis by (simp add: Base_def abs_path_def)
qed

lemma Dir_abs:
  assumes "cs \<noteq> []" "\<forall>c \<in> set (cs @ [n]). simple c"
  shows "Dir (abs_path (cs @ [n])) = abs_path cs"
proof -
  have n: "CHR ''/'' \<notin> set n" using assms by (simp add: simple_def)
  have "abs_path (cs @ [n]) = (abs_path cs @ ''/'') @ n" using assms(1) by (simp add: abs_path_append abs_path_def [of "[n]"])
  then have r: "rev (abs_path (cs @ [n])) = rev n @ CHR ''/'' # rev (abs_path cs)" by simp
  have "dropWhile (\<lambda>x. x \<noteq> CHR ''/'') (rev n @ CHR ''/'' # rev (abs_path cs)) = CHR ''/'' # rev (abs_path cs)"
    by (subst dropWhile_append2) (use n in auto)
  then have "rev (dropWhile (\<lambda>x. x \<noteq> CHR ''/'') (rev (abs_path (cs @ [n])))) = abs_path cs @ ''/''"
    unfolding r by simp
  moreover have "Clean (abs_path cs @ ''/'') = abs_path cs"
  proof -
    have "Split (abs_path cs @ ''/'') CHR ''/'' = [] # cs @ [[]]"
      using Split_abs [of "cs @ [[]]"] assms by (auto simp: abs_path_append abs_path_def [of "[[]]"] simple_def)
    moreover have "HasPrefix (abs_path cs @ ''/'') ''/''" by (simp add: HasPrefix_def abs_path_def)
    moreover have "foldl (clean_step True) [] ([] # cs @ [[]]) = rev cs"
      using clean_simple [of cs "[]"] assms(2) by (simp add: clean_step_def)
    ultimately show ?thesis unfolding Clean_def Let_def by (simp del: foldl_Cons foldl_append) (simp add: abs_path_def)
  qed
  ultimately show ?thesis by (simp add: Dir_def)
qed

section \<open>What the calls keep\<close>

lemma mkdirs_lookup: "map_of (mkdirs d p) q = (if os_exists d q then map_of d q else if os_exists (mkdirs d p) q then Some Directory else None)"
proof (cases "os_exists d q")
  case True
  then show ?thesis by (simp add: mkdirs_keeps)
next
  case False
  then show ?thesis
    by (auto simp: mkdirs_def os_exists_def map_add_def split: option.splits dest!: map_of_SomeD)
qed

lemma mkdirs_new: "map_of d q = None \<Longrightarrow> map_of (mkdirs d p) q \<in> {None, Some Directory}"
  using mkdirs_lookup [of d p q] by (cases "map_of (mkdirs d p) q") (auto simp: os_exists_def)

lemma mkdirs_content [simp]: "content_of (mkdirs d p) q = content_of d q"
  by (subst content_of_def, subst mkdirs_lookup) (simp add: content_of_def os_exists_def)

end
