(* ===== verification/Sha256.thy ===== *)
theory Sha256
  imports Hub_Prelude "HOL-Library.Word"
begin

unbundle bit_operations_syntax

text \<open>
  SHA-256, the hash of Go's \<^verbatim>\<open>crypto/sha256\<close> (FIPS 180-4), and its hexadecimal form
  (\<^verbatim>\<open>hex.EncodeToString\<close>), which \<^verbatim>\<open>matchSHA256\<close> of \<^verbatim>\<open>src/utils.go\<close> compares. The lemma at the end
  evaluates the definition on the first example of the standard.
\<close>

text \<open>
  The standard takes the round constants from the fractional parts of the cube roots of the first 64
  primes, and the initial state from the square roots of the first eight. The tables pair a prime with
  its root in units of $2^{-32}$, rounded down (\<open>cube_roots_ok\<close>, \<open>square_roots_ok\<close>); the integral part is
  lost in the conversion to 32 bits.
\<close>

definition cube_roots :: "(int \<times> int) list" where
  "cube_roots =
    [(2, 5411319704), (3, 6194414737), (5, 7344290767), (7, 8215976869), (11, 9551921755),
     (13, 10098905585), (17, 11043570340), (19, 11460697813), (23, 12214315672),
     (29, 13195500289), (31, 13492127166), (37, 14311783875), (41, 14809980276),
     (43, 15046980094), (47, 15499789991), (53, 16133124468), (59, 16720292289),
     (61, 16907126662), (67, 17444216262), (71, 17784676812), (73, 17950125167),
     (79, 18429019306), (83, 18734950876), (89, 19175934170), (97, 19734090066),
     (101, 20001703533), (103, 20132865992), (107, 20390182855), (109, 20516441075),
     (113, 20764397895), (127, 21588763473), (131, 21813078375), (137, 22141143685),
     (139, 22248366392), (149, 22769593852), (151, 22871018771), (157, 23170020180),
     (163, 23461497531), (167, 23651862830), (173, 23931792517), (179, 24205322401),
     (181, 24295138891), (191, 24734567280), (193, 24820601251), (197, 24990902297),
     (199, 25075189284), (211, 25569408389), (223, 26045227120), (227, 26200031510),
     (229, 26276752392), (233, 26428864332), (239, 26653801653), (241, 26727943347),
     (251, 27092625994), (257, 27306805839), (263, 27517677555), (269, 27725365998),
     (271, 27793908591), (277, 27997534228), (281, 28131656200), (283, 28198240250),
     (293, 28526537963), (307, 28973835255), (311, 29099129074)]"

definition square_roots :: "(int \<times> int) list" where
  "square_roots =
    [(2, 6074000999), (3, 7439101573), (5, 9603838834), (7, 11363415354), (11, 14244795007),
     (13, 15485724812), (17, 17708603819), (19, 18721328409)]"

lemma cube_roots_ok: "list_all (\<lambda>(p, r). r ^ 3 \<le> p * 2 ^ 96 \<and> p * 2 ^ 96 < (r + 1) ^ 3) cube_roots"
  by code_simp

lemma square_roots_ok: "list_all (\<lambda>(p, r). r ^ 2 \<le> p * 2 ^ 64 \<and> p * 2 ^ 64 < (r + 1) ^ 2) square_roots"
  by code_simp

definition sha_K :: "32 word list" where
  "sha_K = map (of_int \<circ> snd) cube_roots"

definition sha_H :: "32 word list" where
  "sha_H = map (of_int \<circ> snd) square_roots"

definition small0 :: "32 word \<Rightarrow> 32 word" where
  "small0 x = word_rotr 7 x XOR word_rotr 18 x XOR drop_bit 3 x"

definition small1 :: "32 word \<Rightarrow> 32 word" where
  "small1 x = word_rotr 17 x XOR word_rotr 19 x XOR drop_bit 10 x"

definition big0 :: "32 word \<Rightarrow> 32 word" where
  "big0 x = word_rotr 2 x XOR word_rotr 13 x XOR word_rotr 22 x"

definition big1 :: "32 word \<Rightarrow> 32 word" where
  "big1 x = word_rotr 6 x XOR word_rotr 11 x XOR word_rotr 25 x"

text \<open>The message schedule, latest word first.\<close>

fun schedule :: "nat \<Rightarrow> 32 word list \<Rightarrow> 32 word list" where
  "schedule 0 ws = ws"
| "schedule (Suc n) ws = schedule n ((small1 (ws ! 1) + ws ! 6 + small0 (ws ! 14) + ws ! 15) # ws)"

fun sha_round :: "32 word list \<Rightarrow> 32 word \<times> 32 word \<Rightarrow> 32 word list" where
  "sha_round [a, b, c, d, e, f, g, h] (k, w) =
     (let t1 = h + big1 e + ((e AND f) XOR (NOT e AND g)) + k + w;
          t2 = big0 a + ((a AND b) XOR (a AND c) XOR (b AND c))
      in [t1 + t2, a, b, c, d + t1, e, f, g])"
| "sha_round s _ = s"

definition compress :: "32 word list \<Rightarrow> 32 word list \<Rightarrow> 32 word list" where
  "compress H block = map2 (+) H (foldl sha_round H (zip sha_K (rev (schedule 48 (rev block)))))"

fun words_of :: "int list \<Rightarrow> 32 word list" where
  "words_of (a # b # c # d # rest) = of_int (((a * 256 + b) * 256 + c) * 256 + d) # words_of rest"
| "words_of _ = []"

function blocks :: "32 word list \<Rightarrow> 32 word list list" where
  "blocks ws = (if length ws < 16 then [] else take 16 ws # blocks (drop 16 ws))"
  by pat_completeness auto
termination
  by (relation "measure length") auto

declare blocks.simps [simp del]

definition be64 :: "int \<Rightarrow> int list" where
  "be64 n = map (\<lambda>i. n div 256 ^ i mod 256) [7, 6, 5, 4, 3, 2, 1, 0]"

definition sha_pad :: "int list \<Rightarrow> int list" where
  "sha_pad m = m @ 128 # replicate ((119 - length m mod 64) mod 64) 0 @ be64 (8 * int (length m))"

definition sha256 :: "bytes \<Rightarrow> 32 word list" where
  "sha256 m = foldl compress sha_H (blocks (words_of (sha_pad (map of_char m))))"

definition hex_digit :: "nat \<Rightarrow> char" where
  "hex_digit n = ''0123456789abcdef'' ! n"

definition hex_word :: "32 word \<Rightarrow> string" where
  "hex_word w = map (\<lambda>i. hex_digit (nat (uint w div 16 ^ i mod 16))) [7, 6, 5, 4, 3, 2, 1, 0]"

definition sha256_hex :: "bytes \<Rightarrow> string" where
  "sha256_hex m = concat (map hex_word (sha256 m))"

lemma sha256_abc:
  "sha256_hex ''abc'' = ''ba7816bf8f01cfea414140de5dae2223b00361a396177a9cb410ff61f20015ad''"
  by code_simp

lemma sha256_length: "length (sha256 m) \<le> 8"
proof -
  have "length (foldl compress H bs) \<le> length H" for H bs
  proof (induction bs arbitrary: H)
    case (Cons b bs)
    have "length (compress H b) \<le> length H" by (simp add: compress_def)
    with Cons [of "compress H b"] show ?case by simp
  qed simp
  moreover have "length sha_H = 8" by (simp add: sha_H_def square_roots_def)
  ultimately show ?thesis unfolding sha256_def by (metis (no_types))
qed

lemma sha256_hex_length: "length (sha256_hex m) \<le> 64"
proof -
  have "length (sha256_hex m) = 8 * length (sha256 m)"
    by (simp add: sha256_hex_def hex_word_def length_concat comp_def sum_list_triv)
  with sha256_length [of m] show ?thesis by simp
qed

lemma hex_word_digits: "set (hex_word w) \<subseteq> set ''0123456789abcdef''"
proof -
  have digit: "hex_digit (nat (k mod 16)) \<in> set ''0123456789abcdef''" for k
    unfolding hex_digit_def by (rule nth_mem) (simp add: nat_less_iff)
  then show ?thesis unfolding hex_word_def set_map by (intro image_subsetI)
qed

lemma sha256_hex_digits: "set (sha256_hex m) \<subseteq> set ''0123456789abcdef''"
  unfolding sha256_hex_def set_concat set_map image_image by (intro UN_least hex_word_digits)

end
