(* ===== verification/File_Integrity.thy ===== *)
theory File_Integrity
  imports Folder_Tree Go_Files Sha256
begin

text \<open>
  The integrity of downloaded files. \<^verbatim>\<open>src/utils.go\<close>: the hash of a file is compared with the expected
  one (\<open>matchSHA256\<close>) and recorded in the file \<^verbatim>\<open>hashsum.txt\<close> of its directory (\<open>storeHashsum\<close>), the
  expiry date of a folder in \<^verbatim>\<open>deadline.txt\<close> (\<open>storeDeadline\<close>). \<^verbatim>\<open>src/telemetry_events.go\<close>: the scheduled
  check reads the recorded hashes back (\<open>gethashsum\<close>) and counts, over the whole folder hierarchy, the
  files checked and the files whose hash differs.
\<close>

section \<open>Recording\<close>

definition matchSHA256 :: "os_faults \<Rightarrow> disk \<Rightarrow> string \<Rightarrow> string \<Rightarrow> unit res" where
  "matchSHA256 osf disk filePath trueSHA =
     bind_res (os_Open osf filePath disk) (\<lambda>f.
       case f of
         None \<Rightarrow> Err (''read '' @ filePath)
       | Some content \<Rightarrow> if sha256_hex content = trueSHA then Ok () else Err ''hashsum did not match'')"

definition hash_line :: "string \<Rightarrow> string \<Rightarrow> string" where
  "hash_line filename hash = filename @ ''=>'' @ hash"

definition storeHashsum :: "os_faults \<Rightarrow> string \<Rightarrow> string \<Rightarrow> string \<Rightarrow> disk \<Rightarrow> unit res \<times> disk" where
  "storeHashsum osf pathdir filename hash disk =
     (let p = Join [pathdir, ''hashsum.txt''] in
      case os_OpenCreate osf p disk of
        (Ok _, disk) \<Rightarrow> write_end osf p (hash_line filename hash @ [CHR 10]) disk
      | (r, disk) \<Rightarrow> (r, disk))"

definition storeDeadline :: "os_faults \<Rightarrow> string \<Rightarrow> string \<Rightarrow> disk \<Rightarrow> unit res \<times> disk" where
  "storeDeadline osf path deadline disk =
     (let p = Join [path, ''deadline.txt''] in
      if IsNotExist osf p disk
      then (case os_OpenCreate osf p disk of
              (Ok _, disk) \<Rightarrow> write_start osf p deadline disk
            | (r, disk) \<Rightarrow> (r, disk))
      else (Ok (), disk))"

section \<open>Reading the recorded hashes\<close>

text \<open>\<^verbatim>\<open>regexp.MustCompile(`[=>]`).Split(line, -1)\<close>: both characters separate.\<close>

fun split_line :: "string \<Rightarrow> string list" where
  "split_line [] = [[]]"
| "split_line (x # xs) =
     (if x = CHR ''='' \<or> x = CHR ''>'' then [] # split_line xs
      else case split_line xs of [] \<Rightarrow> [[x]] | p # ps \<Rightarrow> (x # p) # ps)"

text \<open>A line with fewer than three parts is an index out of range.\<close>

definition put_line :: "string \<Rightarrow> (string \<rightharpoonup> string) \<Rightarrow> (string \<rightharpoonup> string) res" where
  "put_line line hashmap =
     (let linestrA = split_line line in
      if length linestrA < 3 then Panic else Ok (hashmap(linestrA ! 0 \<mapsto> linestrA ! 2)))"

definition gethashsum :: "os_faults \<Rightarrow> disk \<Rightarrow> string \<Rightarrow> (string \<rightharpoonup> string) res" where
  "gethashsum osf disk path =
     bind_res (os_Open osf path disk) (\<lambda>f.
       fold_res put_line (case f of None \<Rightarrow> [] | Some text \<Rightarrow> scan_lines text) Map.empty)"

section \<open>The check\<close>

text \<open>
  \<^verbatim>\<open>checkfiles\<close>: the numbers of corrupted and of checked files. The second loop of the function only
  prints the names that are recorded and missing.
\<close>

definition check_file :: "os_faults \<Rightarrow> disk \<Rightarrow> string \<Rightarrow> (string \<rightharpoonup> string) \<Rightarrow> string \<times> entry \<Rightarrow> nat \<times> nat \<Rightarrow> nat \<times> nat" where
  "check_file osf disk folderpath hashsummap = (\<lambda>(name, _) (c, t).
     case hashsummap name of
       None \<Rightarrow> (c, t)
     | Some hash \<Rightarrow>
         if is_Ok (matchSHA256 osf disk (Join [folderpath, name]) hash) then (c, t + 1) else (c + 1, t + 1))"

definition checkfiles :: "os_faults \<Rightarrow> disk \<Rightarrow> string \<Rightarrow> (string \<rightharpoonup> string) \<Rightarrow> nat \<times> nat" where
  "checkfiles osf disk folderpath hashsummap =
     fold (check_file osf disk folderpath hashsummap)
       (case os_ReadDir osf folderpath disk of Ok files \<Rightarrow> files | _ \<Rightarrow> []) (0, 0)"

text \<open>
  The loop over the subfolders of a folder (lines 143 to 156): a subfolder whose hashes cannot be
  read ends it, and the counts so far are lost.
\<close>

fun check_subfolders :: "os_faults \<Rightarrow> disk \<Rightarrow> string \<Rightarrow> (string \<times> entry) list \<Rightarrow> nat \<times> nat \<Rightarrow> (nat \<times> nat) res" where
  "check_subfolders osf disk actualPath [] s = Ok s"
| "check_subfolders osf disk actualPath ((name, e) # rest) (c, t) =
     (if e = Directory then
        (case gethashsum osf disk (Join [actualPath, name, ''hashsum.txt'']) of
           Ok hashsummap \<Rightarrow>
             (case checkfiles osf disk (Join [actualPath, name]) hashsummap of
                (c', t') \<Rightarrow> check_subfolders osf disk actualPath rest (c + c', t + t'))
         | Err _ \<Rightarrow> Ok (0, 0)
         | Panic \<Rightarrow> Panic | Diverge \<Rightarrow> Diverge)
      else check_subfolders osf disk actualPath rest (c, t))"

definition folderToCheck :: "'db bolt \<Rightarrow> os_faults \<Rightarrow> disk \<Rightarrow> 'db FileSystem \<Rightarrow> string \<Rightarrow> (nat \<times> nat) res" where
  "folderToCheck B osf disk fs folderName =
     (let actualPath = Join [GetHomeFolder fs, folderName] in
      bind_res (name_or_empty B fs folderName) (\<lambda>_.
      if IsNotExist osf actualPath disk then Ok (0, 0)
      else bind_res (GetSatelliteFolderPath B fs folderName) (\<lambda>(satellitePath, err).
        if err = None then
          (if IsNotExist osf satellitePath disk then Ok (0, 0)
           else case gethashsum osf disk (Join [actualPath, ''hashsum.txt'']) of
             Ok hashsummap \<Rightarrow> Ok (checkfiles osf disk satellitePath hashsummap)
           | Err _ \<Rightarrow> Ok (0, 0)
           | Panic \<Rightarrow> Panic | Diverge \<Rightarrow> Diverge)
        else check_subfolders osf disk actualPath
          (case os_ReadDir osf actualPath disk of Ok subfolders \<Rightarrow> subfolders | _ \<Rightarrow> []) (0, 0))))"

fun checkheirarchy :: "'db bolt \<Rightarrow> os_faults \<Rightarrow> disk \<Rightarrow> 'db FileSystem \<Rightarrow> nat \<Rightarrow> bytes \<Rightarrow> nat \<times> nat \<Rightarrow> (nat \<times> nat) res" where
  "checkheirarchy B osf disk fs 0 node s = Diverge"
| "checkheirarchy B osf disk fs (Suc fuel) node s =
     (case GetChildrenForNode B fs node of
        Ok children \<Rightarrow>
          for_children (nodeLength fs)
            (\<lambda>nodeToCheck (c, t). bind_res (folderToCheck B osf disk fs nodeToCheck) (\<lambda>(c', t').
               checkheirarchy B osf disk fs fuel nodeToCheck (c + c', t + t')))
            (drop (nodeLength fs) children) s
      | Err _ \<Rightarrow> Ok (0, 0)
      | Panic \<Rightarrow> Panic | Diverge \<Rightarrow> Diverge)"

text \<open>
  One pass of the endless loop of \<^verbatim>\<open>checkIntegrity\<close>: what it prints for each folder below home, its name
  and the two counts.
\<close>

definition checkIntegrity_pass :: "'db bolt \<Rightarrow> os_faults \<Rightarrow> disk \<Rightarrow> 'db FileSystem \<Rightarrow> nat \<Rightarrow> (string \<times> nat \<times> nat) list res" where
  "checkIntegrity_pass B osf disk fs fuel =
     bind_res (children_or_empty B fs (homeNode fs)) (\<lambda>children.
       for_children (nodeLength fs)
         (\<lambda>nodeToCheck reports.
            bind_res (name_or_empty B fs nodeToCheck) (\<lambda>foldername.
            bind_res (folderToCheck B osf disk fs nodeToCheck) (\<lambda>(c', t').
            bind_res (checkheirarchy B osf disk fs fuel nodeToCheck (0, 0)) (\<lambda>(c, t).
              Ok (reports @ [(foldername, c + c', t + t')])))))
         (drop (nodeLength fs) children) [])"

text \<open>\<^verbatim>\<open>getTotalFiles\<close>: the entries of the two subfolders, less one each for \<^verbatim>\<open>hashsum.txt\<close>.\<close>

definition files_below :: "os_faults \<Rightarrow> disk \<Rightarrow> string \<Rightarrow> int" where
  "files_below osf disk p =
     (if IsNotExist osf p disk then 0
      else (case os_ReadDir osf p disk of Ok files \<Rightarrow> int (length files) | _ \<Rightarrow> 0) - 1)"

definition getTotalFiles :: "os_faults \<Rightarrow> disk \<Rightarrow> string \<Rightarrow> int" where
  "getTotalFiles osf disk folderpath =
     files_below osf disk (Join [folderpath, ''metadatafiles'']) + files_below osf disk (Join [folderpath, ''bulkfiles''])"

section \<open>Recorded hashes are read back\<close>

text \<open>A text that a line of \<^verbatim>\<open>hashsum.txt\<close> can carry.\<close>

definition plain :: "string \<Rightarrow> bool" where
  "plain s \<longleftrightarrow> set s \<inter> {CHR ''='', CHR ''>'', CHR 10, CHR 13} = {}"

lemma split_line_plain: "set s \<inter> {CHR ''='', CHR ''>''} = {} \<Longrightarrow> split_line s = [s]"
  by (induction s) auto

lemma split_line_append:
  "set s \<inter> {CHR ''='', CHR ''>''} = {} \<Longrightarrow> c = CHR ''='' \<or> c = CHR ''>'' \<Longrightarrow> split_line (s @ c # r) = s # split_line r"
  by (induction s) auto

lemma split_hash_line: "plain name \<Longrightarrow> plain hash \<Longrightarrow> split_line (hash_line name hash) = [name, [], hash]"
  by (auto simp: hash_line_def plain_def split_line_append split_line_plain)

text \<open>A name with an equals sign in it is cut there and loses its hash.\<close>

lemma separator_in_name:
  assumes "plain a" "plain b"
  shows "put_line (hash_line (a @ ''='' @ b) hash) m = Ok (m(a \<mapsto> []))"
proof -
  have "split_line (hash_line (a @ ''='' @ b) hash) = a # b # [] # split_line hash"
    using assms by (auto simp: hash_line_def plain_def split_line_append)
  then show ?thesis by (simp add: put_line_def)
qed

definition hash_file :: "(string \<times> string) list \<Rightarrow> bytes" where
  "hash_file rs = concat (map (\<lambda>(n, h). hash_line n h @ [CHR 10]) rs)"

definition hash_fits :: "string \<times> string \<Rightarrow> bool" where
  "hash_fits = (\<lambda>(n, h). plain n \<and> plain h \<and> length n + length h < 65534)"

lemma put_lines:
  "\<forall>r \<in> set rs. hash_fits r \<Longrightarrow> fold_res put_line (map (\<lambda>(n, h). hash_line n h) rs) m = Ok (m ++ map_of (rev rs))"
proof (induction rs arbitrary: m)
  case (Cons r rs)
  then show ?case
    by (cases r) (simp add: put_line_def hash_fits_def split_hash_line map_add_assoc [symmetric] map_add_upd_left)
qed simp

lemma scan_hash_file: "\<forall>r \<in> set rs. hash_fits r \<Longrightarrow> scan_lines (hash_file rs) = map (\<lambda>(n, h). hash_line n h) rs"
proof -
  assume fits: "\<forall>r \<in> set rs. hash_fits r"
  have "CHR 10 \<notin> set l \<and> length l < 65536 \<and> (l = [] \<or> last l \<noteq> CHR 13)"
    if "l \<in> set (map (\<lambda>(n, h). hash_line n h) rs)" for l
  proof -
    from that obtain n h where "(n, h) \<in> set rs" and l: "l = hash_line n h" by auto
    with fits have f: "plain n" "plain h" "length n + length h < 65534" by (auto simp: hash_fits_def)
    then have no: "set l \<inter> {CHR 10, CHR 13} = {}" by (auto simp: l hash_line_def plain_def)
    then have "last l \<noteq> CHR 13" using last_in_set [of l] by (auto simp: l hash_line_def)
    with no f(3) show ?thesis by (simp add: l hash_line_def)
  qed
  then have "scan_lines (concat (map (\<lambda>l. l @ [CHR 10]) (map (\<lambda>(n, h). hash_line n h) rs))) = map (\<lambda>(n, h). hash_line n h) rs"
    by (intro scan_lines) blast
  then show ?thesis by (simp add: hash_file_def split_def comp_def)
qed

lemma gethashsum_file:
  assumes "map_of disk p = Some (File (hash_file rs))" "\<forall>r \<in> set rs. hash_fits r"
    and "osf (OpenRead p) disk = None" "osf (Read p) disk = None"
  shows "gethashsum osf disk p = Ok (map_of (rev rs))"
  using assms put_lines [of rs Map.empty] by (simp add: gethashsum_def os_Open_def scan_hash_file)

lemma storeHashsum_Ok:
  assumes "storeHashsum osf dir n h disk = (Ok (), disk')"
  defines "p \<equiv> Join [dir, ''hashsum.txt'']"
  shows "map_of disk' q = (if q = p then Some (File (content_of disk p @ hash_line n h @ [CHR 10])) else map_of disk q)"
  using assms
  by (auto simp: storeHashsum_def os_OpenCreate_def write_end_def can_write_def content_of_def os_exists_def Let_def
      split: option.splits if_splits entry.splits)

text \<open>Recording several files, one after the other.\<close>

fun store_all :: "os_faults \<Rightarrow> string \<Rightarrow> (string \<times> string) list \<Rightarrow> disk \<Rightarrow> unit res \<times> disk" where
  "store_all osf dir [] disk = (Ok (), disk)"
| "store_all osf dir ((n, h) # rs) disk =
     (case storeHashsum osf dir n h disk of (Ok _, disk) \<Rightarrow> store_all osf dir rs disk | r \<Rightarrow> r)"

lemma store_all_Ok:
  assumes "store_all osf dir rs disk = (Ok (), disk')" "rs \<noteq> []"
  defines "p \<equiv> Join [dir, ''hashsum.txt'']"
  shows "map_of disk' q = (if q = p then Some (File (content_of disk p @ hash_file rs)) else map_of disk q)"
  using assms(1,2)
proof (induction rs arbitrary: disk)
  case (Cons r rs)
  obtain n h where r: "r = (n, h)" by (cases r)
  from Cons.prems(1) obtain d1 where d1: "storeHashsum osf dir n h disk = (Ok (), d1)"
    "store_all osf dir rs d1 = (Ok (), disk')" by (auto simp: r split: prod.splits res.splits)
  note s = storeHashsum_Ok [OF d1(1), folded p_def]
  show ?case
  proof (cases "rs = []")
    case True
    with d1(2) s show ?thesis by (simp add: r hash_file_def)
  next
    case False
    from Cons.IH [OF d1(2) False] s show ?thesis by (simp add: r hash_file_def content_of_def)
  qed
qed simp

section \<open>What the check counts\<close>

lemma checkfiles_counts:
  assumes "os_ReadDir osf folder disk = Ok files"
  shows "checkfiles osf disk folder m =
    (length (filter (\<lambda>(n, _). \<exists>h. m n = Some h \<and> \<not> is_Ok (matchSHA256 osf disk (Join [folder, n]) h)) files),
     length (filter (\<lambda>(n, _). m n \<noteq> None) files))"
proof -
  have "fold (check_file osf disk folder m) fs (c, t) =
    (c + length (filter (\<lambda>(n, _). \<exists>h. m n = Some h \<and> \<not> is_Ok (matchSHA256 osf disk (Join [folder, n]) h)) fs),
     t + length (filter (\<lambda>(n, _). m n \<noteq> None) fs))" for fs c t
    by (induction fs arbitrary: c t) (auto simp: check_file_def split: option.splits)
  from this [of files 0 0] assms show ?thesis by (simp add: checkfiles_def)
qed

section \<open>Properties\<close>

text \<open>
  C25: The hashes recorded for the files of a directory are the ones the integrity check works with. When
  \<^verbatim>\<open>storeHashsum\<close> has succeeded for a list of files, in a directory without \<^verbatim>\<open>hashsum.txt\<close> before, then
  \<^verbatim>\<open>gethashsum\<close> returns exactly the recorded hashes, the last one for a name recorded twice; no other file
  of the disk has changed. The names and hashes must not contain \<^verbatim>\<open>=\<close>, \<^verbatim>\<open>>\<close> or line ends, and must fit the
  line buffer.
\<close>

theorem hashsum_round_trip:
  assumes "store_all osf dir rs disk = (Ok (), disk')" "rs \<noteq> []" "\<forall>r \<in> set rs. hash_fits r"
    and new: "\<not> os_exists disk (Join [dir, ''hashsum.txt''])"
    and "osf (OpenRead (Join [dir, ''hashsum.txt''])) disk' = None" "osf (Read (Join [dir, ''hashsum.txt''])) disk' = None"
  shows "gethashsum osf disk' (Join [dir, ''hashsum.txt'']) = Ok (map_of (rev rs)) \<and>
    (\<forall>q. q \<noteq> Join [dir, ''hashsum.txt''] \<longrightarrow> map_of disk' q = map_of disk q)"
proof -
  have "content_of disk (Join [dir, ''hashsum.txt'']) = []" using new by (simp add: content_of_def os_exists_def)
  with store_all_Ok [OF assms(1,2)] gethashsum_file [where osf = osf, OF _ assms(3,5,6)] show ?thesis by simp
qed

theorem hashsum_round_trip_witness:
  "case store_all (\<lambda>_ _. None) ''/d'' [(''a'', ''00''), (''b'', ''11'')] [(''/d'', Directory)] of
     (r, disk) \<Rightarrow> r = Ok () \<and> gethashsum (\<lambda>_ _. None) disk ''/d/hashsum.txt'' = Ok [''a'' \<mapsto> ''00'', ''b'' \<mapsto> ''11'']"
proof -
  have p: "Join [''/d'', ''hashsum.txt''] = ''/d/hashsum.txt''"
    by (simp add: Join_def Clean_def clean_step_def HasPrefix_def)
  obtain r disk where d: "store_all (\<lambda>_ _. None) ''/d'' [(''a'', ''00''), (''b'', ''11'')] [(''/d'', Directory)] = (r, disk)"
    by fastforce
  then have "r = Ok ()"
    by (auto simp: storeHashsum_def p os_OpenCreate_def can_write_def Dir_def Clean_def clean_step_def HasPrefix_def
        write_end_def Let_def os_exists_def)
  then show ?thesis
    using hashsum_round_trip [of "\<lambda>_ _. None", OF d [unfolded \<open>r = Ok ()\<close>]] d
    by (simp add: p hash_fits_def plain_def os_exists_def fun_upd_twist)
qed

end
