(* ===== verification/Go_Strconv.thy ===== *)
theory Go_Strconv
  imports Hub_Prelude
begin

text \<open>
  Package \<^verbatim>\<open>strconv\<close>: decimal numbers to text (\<^verbatim>\<open>FormatInt\<close>, \<^verbatim>\<open>Itoa\<close>) and back (\<^verbatim>\<open>ParseInt\<close> with base 10).
  \<^verbatim>\<open>ParseInt\<close> returns a value also with an error: 0 for a string that is no number, the nearest bound
  for one that does not fit the given number of bits. The hub often drops the error and uses the value.
\<close>

fun format_nat :: "nat \<Rightarrow> string" where
  "format_nat n = (if n < 10 then [char_of (48 + n)] else format_nat (n div 10) @ [char_of (48 + n mod 10)])"

declare format_nat.simps [simp del]

definition FormatInt :: "int \<Rightarrow> string" where
  "FormatInt i = (if i < 0 then CHR ''-'' # format_nat (nat (- i)) else format_nat (nat i))"

definition digit_of :: "char \<Rightarrow> nat option" where
  "digit_of c = (let d = of_char c in if 48 \<le> d \<and> d \<le> 57 then Some (d - 48) else None)"

fun parse_digits :: "int \<Rightarrow> string \<Rightarrow> int \<Rightarrow> int \<times> error option" where
  "parse_digits maxVal [] n = (n, None)"
| "parse_digits maxVal (c # cs) n =
     (case digit_of c of
        None \<Rightarrow> (0, Some ''invalid syntax'')
      | Some d \<Rightarrow>
          if maxVal < n * 10 + int d then (maxVal, Some ''value out of range'')
          else parse_digits maxVal cs (n * 10 + int d))"

definition ParseUint :: "nat \<Rightarrow> string \<Rightarrow> int \<times> error option" where
  "ParseUint bits s = (if s = [] then (0, Some ''invalid syntax'') else parse_digits (2 ^ bits - 1) s 0)"

definition ParseInt :: "nat \<Rightarrow> string \<Rightarrow> int \<times> error option" where
  "ParseInt bits s =
     (if s = [] then (0, Some ''invalid syntax'')
      else
        let neg = (hd s = CHR ''-'');
            rest = (if hd s = CHR ''-'' \<or> hd s = CHR ''+'' then tl s else s);
            cutoff = 2 ^ (bits - 1)
        in case ParseUint bits rest of (un, err) \<Rightarrow>
          if err = Some ''invalid syntax'' then (0, err)
          else if \<not> neg \<and> cutoff \<le> un then (cutoff - 1, Some ''value out of range'')
          else if neg \<and> cutoff < un then (- cutoff, Some ''value out of range'')
          else (if neg then - un else un, None))"

section \<open>The round trip\<close>

lemma digit_char [simp]: "d < 10 \<Longrightarrow> digit_of (char_of (48 + d)) = Some d"
  by (simp add: digit_of_def)

lemma format_nat_not_Nil [simp]: "format_nat n \<noteq> []"
  by (subst format_nat.simps) simp

lemma format_nat_digits: "c \<in> set (format_nat n) \<Longrightarrow> digit_of c \<noteq> None"
proof (induction n rule: format_nat.induct)
  case (1 n)
  from "1.prems" have "c \<in> set (if n < 10 then [char_of (48 + n)] else format_nat (n div 10) @ [char_of (48 + n mod 10)])"
    by (subst (asm) format_nat.simps)
  with "1.IH" show ?case by (auto split: if_splits)
qed

lemma format_nat_hd: "digit_of (hd (format_nat n)) \<noteq> None"
  by (rule format_nat_digits [of _ n]) simp

lemma parse_format:
  "int n \<le> maxVal \<Longrightarrow> parse_digits maxVal (format_nat n @ cs) 0 = parse_digits maxVal cs (int n)"
proof (induction n arbitrary: cs rule: format_nat.induct)
  case (1 n)
  show ?case
  proof (cases "n < 10")
    case True
    with "1.prems" show ?thesis by (subst format_nat.simps) simp
  next
    case False
    then have eq: "format_nat n @ cs = format_nat (n div 10) @ char_of (48 + n mod 10) # cs"
      by (subst format_nat.simps) simp
    have "int (n div 10) * 10 + int (n mod 10) = int n" by presburger
    then show ?thesis
      using False "1.prems" "1.IH" [of "char_of (48 + n mod 10) # cs"] by (simp add: eq)
  qed
qed

lemma format_nat_length: "n < 10 ^ k \<Longrightarrow> length (format_nat n) \<le> max 1 k"
proof (induction n arbitrary: k rule: format_nat.induct)
  case (1 n)
  show ?case
  proof (cases "n < 10")
    case True
    then show ?thesis by (subst format_nat.simps) simp
  next
    case False
    with "1.prems" obtain j where k: "k = Suc j" "j \<noteq> 0" by (cases k; cases "k - 1") auto
    with "1.prems" have "n div 10 < 10 ^ j" by simp
    from "1.IH" [OF False this] False k show ?thesis by (subst format_nat.simps) simp
  qed
qed

lemma ParseInt_FormatInt:
  assumes "0 < bits" "- (2 ^ (bits - 1)) \<le> i" "i < 2 ^ (bits - 1)"
  shows "ParseInt bits (FormatInt i) = (i, None)"
proof -
  have pow: "(2 :: int) ^ bits = 2 * 2 ^ (bits - 1)" using assms(1) by (cases bits) auto
  have p: "parse_digits (2 ^ bits - 1) (format_nat n) 0 = (int n, None)" if "int n \<le> 2 ^ (bits - 1)" for n
  proof -
    have "int n \<le> 2 ^ bits - 1" using that one_le_power [of "2 :: int" "bits - 1"] unfolding pow by linarith
    then show ?thesis using parse_format [of n "2 ^ bits - 1" "[]"] by simp
  qed
  have hd: "hd (format_nat n) \<noteq> CHR ''-''" "hd (format_nat n) \<noteq> CHR ''+''" for n
    using format_nat_hd [of n] by (auto simp: digit_of_def)
  show ?thesis
  proof (cases "i < 0")
    case True
    with assms p [of "nat (- i)"] show ?thesis by (simp add: ParseInt_def ParseUint_def FormatInt_def)
  next
    case False
    with assms p [of "nat i"] hd show ?thesis by (simp add: ParseInt_def ParseUint_def FormatInt_def)
  qed
qed

lemma FormatInt_length: "\<bar>i\<bar> < 10 ^ k \<Longrightarrow> length (FormatInt i) \<le> Suc (max 1 k)"
  using format_nat_length [of "nat (- i)" k] format_nat_length [of "nat i" k]
  by (auto simp: FormatInt_def nat_less_iff)

lemma FormatInt_not_Nil [simp]: "FormatInt i \<noteq> []"
  by (simp add: FormatInt_def)

end
