(* ===== verification/Folder_Downloads.thy ===== *)
theory Folder_Downloads
  imports File_Integrity Go_Strconv
begin

text \<open>
  Filling a new folder with files, the callbacks that \<^verbatim>\<open>CreateDownloadNewFolder\<close> runs:
  \<^verbatim>\<open>DownloadFiles\<close> of \<^verbatim>\<open>src/handle_method_calls.go\<close> (from a URL), \<^verbatim>\<open>copyFiles\<close> and
  \<^verbatim>\<open>generateSatelliteFolderIntegrity\<close> of \<^verbatim>\<open>src/satdata_mstore.go\<close> (from the receiver's disk). A row of
  \<open>fileInfos\<close> is the file's name, its source, its hash, its kind and the expiry date of the folder; the
  last row only carries the date.

  \<open>get url disk\<close> is what \<^verbatim>\<open>http.Get\<close> answers at that moment: an error, or the part of the body that can be
  read and the error that ended the reading.
\<close>

section \<open>Fetching one file\<close>

type_synonym http_get = "string \<Rightarrow> disk \<Rightarrow> error + bytes \<times> error option"

definition write_body :: "os_faults \<Rightarrow> string \<Rightarrow> bytes \<Rightarrow> disk \<Rightarrow> unit res \<times> disk" where
  "write_body osf p body disk = (if body = [] then (Ok (), disk) else write_end osf p body disk)"

definition DownloadFile :: "http_get \<Rightarrow> os_faults \<Rightarrow> string \<Rightarrow> string \<Rightarrow> disk \<Rightarrow> unit res \<times> disk" where
  "DownloadFile get osf filepath url disk =
     (case get url disk of
        Inl err \<Rightarrow> (Err err, disk)
      | Inr (body, ended) \<Rightarrow>
          (case os_Create osf filepath disk of
             (Ok _, disk) \<Rightarrow>
               (case write_body osf filepath body disk of
                  (Ok _, disk) \<Rightarrow> (case ended of None \<Rightarrow> (Ok (), disk) | Some err \<Rightarrow> (Err err, disk))
                | r \<Rightarrow> r)
           | r \<Rightarrow> r))"

text \<open>The error of the copying itself is dropped; the hash is compared afterwards.\<close>

definition copySingleFile :: "os_faults \<Rightarrow> string \<Rightarrow> string \<Rightarrow> disk \<Rightarrow> unit res \<times> disk" where
  "copySingleFile osf dest source disk =
     (case os_Open osf source disk of
        Ok sfile \<Rightarrow>
          (case os_Create osf dest disk of
             (Ok _, disk) \<Rightarrow>
               (Ok (), snd (write_body osf dest (if source = dest then [] else case sfile of None \<Rightarrow> [] | Some c \<Rightarrow> c) disk))
           | r \<Rightarrow> r)
      | r \<Rightarrow> (bind_res r (\<lambda>_. Ok ()), disk))"

section \<open>Fetching the files of a folder\<close>

record dl_cfg =
  METADATA_FOLDER :: string
  BULKFILE_FOLDER :: string

definition row_folder :: "dl_cfg \<Rightarrow> string list \<Rightarrow> string option" where
  "row_folder cfg x =
     (if x ! 3 = ''metadata'' then Some (METADATA_FOLDER cfg)
      else if x ! 3 = ''bulkfile'' then Some (BULKFILE_FOLDER cfg) else None)"

text \<open>
  One iteration of the loops of \<^verbatim>\<open>DownloadFiles\<close> and \<^verbatim>\<open>copyFiles\<close>, which differ in how a file is fetched.
  A row of another kind is skipped, a row that is too short is an index out of range.
\<close>

definition fetch_row ::
    "dl_cfg \<Rightarrow> os_faults \<Rightarrow> (string \<Rightarrow> string \<Rightarrow> disk \<Rightarrow> unit res \<times> disk) \<Rightarrow> string \<Rightarrow> string list \<Rightarrow> disk \<Rightarrow> unit res \<times> disk" where
  "fetch_row cfg osf fetch filePath x disk =
     (if length x < 4 then (Panic, disk)
      else case row_folder cfg x of
        None \<Rightarrow> (Ok (), disk)
      | Some folder \<Rightarrow>
          (let downloadpath = Join [filePath, folder, x ! 0] in
           case os_MkdirAll osf (Dir downloadpath) disk of
             (Ok _, disk) \<Rightarrow>
               (case fetch downloadpath (x ! 1) disk of
                  (Ok _, disk) \<Rightarrow>
                    (case matchSHA256 osf disk downloadpath (x ! 2) of
                       Ok _ \<Rightarrow>
                         (case storeHashsum osf (Dir downloadpath) (Base downloadpath) (x ! 2) disk of
                            (r, disk) \<Rightarrow> (wrap_err ''Could not store Hashsum in the text file: '' r, disk))
                     | r \<Rightarrow> (wrap_err ''Hashsum did not match: '' r, disk))
                | r \<Rightarrow> r)
           | r \<Rightarrow> r))"

fun fetch_rows ::
    "dl_cfg \<Rightarrow> os_faults \<Rightarrow> (string \<Rightarrow> string \<Rightarrow> disk \<Rightarrow> unit res \<times> disk) \<Rightarrow> string \<Rightarrow> string list list \<Rightarrow> disk \<Rightarrow> unit res \<times> disk" where
  "fetch_rows cfg osf fetch filePath [] disk = (Ok (), disk)"
| "fetch_rows cfg osf fetch filePath (x # xs) disk =
     (case fetch_row cfg osf fetch filePath x disk of
        (Ok _, disk) \<Rightarrow> fetch_rows cfg osf fetch filePath xs disk
      | r \<Rightarrow> r)"

text \<open>After the loop the date of the first row is stored; without a row, or with a short one, that is a panic.\<close>

definition put_deadline :: "os_faults \<Rightarrow> string \<Rightarrow> string list list \<Rightarrow> disk \<Rightarrow> unit res \<times> disk" where
  "put_deadline osf filePath fileInfos disk =
     (if fileInfos = [] \<or> length (hd fileInfos) < 5 then (Panic, disk)
      else case storeDeadline osf filePath (hd fileInfos ! 4) disk of
        (r, disk) \<Rightarrow> (wrap_err ''Could not store validity end date: '' r, disk))"

definition fetch_files ::
    "dl_cfg \<Rightarrow> os_faults \<Rightarrow> (string \<Rightarrow> string \<Rightarrow> disk \<Rightarrow> unit res \<times> disk) \<Rightarrow> string \<Rightarrow> string list list \<Rightarrow> disk \<Rightarrow> unit res \<times> disk" where
  "fetch_files cfg osf fetch filePath fileInfos disk =
     (case fetch_rows cfg osf fetch filePath (butlast fileInfos) disk of
        (Ok _, disk) \<Rightarrow> put_deadline osf filePath fileInfos disk
      | r \<Rightarrow> r)"

definition DownloadFiles :: "dl_cfg \<Rightarrow> http_get \<Rightarrow> os_faults \<Rightarrow> string \<Rightarrow> string list list \<Rightarrow> disk \<Rightarrow> unit res \<times> disk" where
  "DownloadFiles cfg get osf = fetch_files cfg osf (DownloadFile get osf)"

definition copyFiles :: "dl_cfg \<Rightarrow> os_faults \<Rightarrow> string \<Rightarrow> string list list \<Rightarrow> disk \<Rightarrow> unit res \<times> disk" where
  "copyFiles cfg osf = fetch_files cfg osf (copySingleFile osf)"

text \<open>The files of a satellite folder stay where the receiver put them; only their hashes are recorded.\<close>

fun integrity_rows :: "os_faults \<Rightarrow> string \<Rightarrow> string list list \<Rightarrow> disk \<Rightarrow> unit res \<times> disk" where
  "integrity_rows osf folderPath [] disk = (Ok (), disk)"
| "integrity_rows osf folderPath (x # xs) disk =
     (if length x < 3 then (Panic, disk)
      else case matchSHA256 osf disk (x ! 1) (x ! 2) of
        Ok _ \<Rightarrow>
          (case storeHashsum osf folderPath (Base (x ! 1)) (x ! 2) disk of
             (Ok _, disk) \<Rightarrow> integrity_rows osf folderPath xs disk
           | (r, disk) \<Rightarrow> (wrap_err ''Could not store Hashsum in the text file: '' r, disk))
      | Err err \<Rightarrow> (Err (''Hashsum did not match: '' @ err @ '' for file: '' @ x ! 1 @ '' value: '' @ x ! 2), disk)
      | r \<Rightarrow> (r, disk))"

definition generateSatelliteFolderIntegrity :: "os_faults \<Rightarrow> string \<Rightarrow> string list list \<Rightarrow> disk \<Rightarrow> unit res \<times> disk" where
  "generateSatelliteFolderIntegrity osf folderPath fileInfos disk =
     (if fileInfos = [] then (Err (''FileInfos length is 0 for folder %!(EXTRA string='' @ folderPath @ '', string= in generateSatelliteFolder)''), disk)
      else case integrity_rows osf folderPath (butlast fileInfos) disk of
        (Ok _, disk) \<Rightarrow> put_deadline osf folderPath fileInfos disk
      | r \<Rightarrow> r)"

text \<open>Taking back the files of a request that failed; the errors are printed.\<close>

definition delete_row :: "dl_cfg \<Rightarrow> os_faults \<Rightarrow> string \<Rightarrow> string list \<Rightarrow> disk \<Rightarrow> disk res" where
  "delete_row cfg osf path x disk =
     (if length x < 4 then Panic
      else Ok (case row_folder cfg x of
        None \<Rightarrow> disk
      | Some folder \<Rightarrow>
          if IsNotExist osf (Join [path, folder, x ! 0]) disk then disk
          else snd (os_Remove osf (Join [path, folder, x ! 0]) disk)))"

definition deleteFilesFromExistingFolder :: "dl_cfg \<Rightarrow> os_faults \<Rightarrow> string \<Rightarrow> string list list \<Rightarrow> disk \<Rightarrow> disk res" where
  "deleteFilesFromExistingFolder cfg osf path fileInfos = fold_res (delete_row cfg osf path) (butlast fileInfos)"

section \<open>What fetching promises\<close>

text \<open>A way to fetch a file changes no other file.\<close>

locale fetcher =
  fixes fetch :: "string \<Rightarrow> string \<Rightarrow> disk \<Rightarrow> unit res \<times> disk"
  assumes writes_only: "fetch p u d = (r, d') \<Longrightarrow> q \<noteq> p \<Longrightarrow> map_of d' q = map_of d q"

lemma os_Create_only: "os_Create osf p d = (r, d') \<Longrightarrow> q \<noteq> p \<Longrightarrow> map_of d' q = map_of d q"
  by (auto simp: os_Create_def split: option.splits)

lemma write_body_only: "write_body osf p b d = (r, d') \<Longrightarrow> q \<noteq> p \<Longrightarrow> map_of d' q = map_of d q"
  by (auto simp: write_body_def write_end_def split: option.splits if_splits)

interpretation download: fetcher "DownloadFile get osf" for get osf
proof
  fix p u d r d' q assume "DownloadFile get osf p u d = (r, d')" "q \<noteq> p"
  then show "map_of d' q = map_of d q"
    by (auto simp: DownloadFile_def split: sum.splits prod.splits res.splits option.splits
        dest!: os_Create_only [of _ p] write_body_only [of _ p])
qed

interpretation copy: fetcher "copySingleFile osf" for osf
proof
  fix p u d r d' q assume a: "copySingleFile osf p u d = (r, d')" "q \<noteq> p"
  have "map_of (snd (write_body osf p b d1)) q = map_of d1 q" for b d1
    using write_body_only [of osf p b d1] a(2) by (metis prod.collapse)
  with a show "map_of d' q = map_of d q"
    by (auto simp: copySingleFile_def split: prod.splits res.splits dest!: os_Create_only [of _ p])
qed

text \<open>Rows whose paths are plain and different, in a folder with a plain path.\<close>

definition good_rows :: "dl_cfg \<Rightarrow> string list \<Rightarrow> string list list \<Rightarrow> bool" where
  "good_rows cfg ds xs \<longleftrightarrow> ds \<noteq> [] \<and> (\<forall>c \<in> set ds. simple c) \<and> simple (METADATA_FOLDER cfg) \<and> simple (BULKFILE_FOLDER cfg) \<and>
     (\<forall>x \<in> set xs. row_folder cfg x \<noteq> None \<longrightarrow> simple (x ! 0) \<and> x ! 0 \<noteq> ''hashsum.txt'') \<and>
     distinct (map (\<lambda>x. (row_folder cfg x, x ! 0)) (filter (\<lambda>x. row_folder cfg x \<noteq> None) xs))"

definition row_path :: "dl_cfg \<Rightarrow> string list \<Rightarrow> string list \<Rightarrow> string" where
  "row_path cfg ds x = abs_path (ds @ [the (row_folder cfg x), x ! 0])"

definition hash_path :: "string list \<Rightarrow> string \<Rightarrow> string" where
  "hash_path ds f = abs_path (ds @ [f, ''hashsum.txt''])"

definition recorded :: "dl_cfg \<Rightarrow> string \<Rightarrow> string list list \<Rightarrow> (string \<times> string) list" where
  "recorded cfg f xs = map (\<lambda>x. (x ! 0, x ! 2)) (filter (\<lambda>x. row_folder cfg x = Some f) xs)"

lemma abs_path_eq:
  "cs \<noteq> [] \<Longrightarrow> ds \<noteq> [] \<Longrightarrow> \<forall>c \<in> set cs. simple c \<Longrightarrow> \<forall>c \<in> set ds. simple c \<Longrightarrow> abs_path cs = abs_path ds \<longleftrightarrow> cs = ds"
  using abs_path_inj [of cs ds] by (auto simp: simple_def)

lemma simple_hashsum [simp]: "simple ''hashsum.txt''"
  by (simp add: simple_def)

lemma row_folder_simple: "row_folder cfg x = Some f \<Longrightarrow> simple (METADATA_FOLDER cfg) \<Longrightarrow> simple (BULKFILE_FOLDER cfg) \<Longrightarrow> simple f"
  by (auto simp: row_folder_def split: if_splits)

lemma matched_file:
  "matchSHA256 osf d p h = Ok u \<Longrightarrow> \<exists>c. map_of d p = Some (File c) \<and> sha256_hex c = h"
  by (auto simp: matchSHA256_def os_Open_def split: option.splits entry.splits if_splits)

context fetcher
begin

lemma fetch_row_Ok:
  assumes ok: "fetch_row cfg osf fetch (abs_path ds) x d = (Ok u, d')" and f: "row_folder cfg x = Some f"
    and ds: "ds \<noteq> []" "\<forall>c \<in> set ds. simple c" "simple f" "simple (x ! 0)" "x ! 0 \<noteq> ''hashsum.txt''"
  shows "\<exists>c. map_of d' (row_path cfg ds x) = Some (File c) \<and> sha256_hex c = x ! 2"
    and "map_of d' (hash_path ds f) = Some (File (content_of d (hash_path ds f) @ hash_line (x ! 0) (x ! 2) @ [CHR 10]))"
    and "q \<noteq> row_path cfg ds x \<Longrightarrow> q \<noteq> hash_path ds f \<Longrightarrow> map_of d' q = map_of (mkdirs d (abs_path (ds @ [f]))) q"
proof -
  let ?p = "row_path cfg ds x" and ?h = "hash_path ds f"
  have p: "Join [abs_path ds, f, x ! 0] = ?p" using Join_abs [of ds "[f, x ! 0]"] ds f by (simp add: row_path_def)
  have dir: "Dir ?p = abs_path (ds @ [f])" using Dir_abs [of "ds @ [f]" "x ! 0"] ds f by (simp add: row_path_def)
  have base: "Base ?p = x ! 0" using Base_abs [of "ds @ [f]" "x ! 0"] ds f by (simp add: row_path_def)
  have h: "Join [Dir ?p, ''hashsum.txt''] = ?h"
    unfolding dir using Join_abs [of "ds @ [f]" "[''hashsum.txt'']"] ds by (simp add: hash_path_def)
  have ne: "?h \<noteq> ?p" using ds f by (simp add: hash_path_def row_path_def abs_path_eq)
  from ok f obtain d2 where d2: "fetch ?p (x ! 1) (mkdirs d (abs_path (ds @ [f]))) = (Ok (), d2)"
    "matchSHA256 osf d2 ?p (x ! 2) = Ok ()" "storeHashsum osf (Dir ?p) (x ! 0) (x ! 2) d2 = (Ok (), d')"
    by (auto simp: fetch_row_def p Let_def os_MkdirAll_def base dir split: if_splits option.splits prod.splits res.splits)
  note st = storeHashsum_Ok [OF d2(3), unfolded h]
  from matched_file [OF d2(2)] st ne show "\<exists>c. map_of d' ?p = Some (File c) \<and> sha256_hex c = x ! 2" by simp
  have "content_of d2 ?h = content_of d ?h"
    using writes_only [OF d2(1) ne] mkdirs_content [of d "abs_path (ds @ [f])" ?h] by (simp add: content_of_def)
  with st show "map_of d' ?h = Some (File (content_of d ?h @ hash_line (x ! 0) (x ! 2) @ [CHR 10]))" by simp
  show "map_of d' q = map_of (mkdirs d (abs_path (ds @ [f]))) q" if "q \<noteq> ?p" "q \<noteq> ?h"
    using st that writes_only [OF d2(1) that(1)] by simp
qed

end

text \<open>What the rows \<open>xs\<close> leave behind: every file with its hash, the hashes recorded, nothing else touched.\<close>

definition fetched :: "dl_cfg \<Rightarrow> string list \<Rightarrow> string list list \<Rightarrow> disk \<Rightarrow> disk \<Rightarrow> bool" where
  "fetched cfg ds xs d d' \<longleftrightarrow>
     (\<forall>x \<in> set xs. row_folder cfg x \<noteq> None \<longrightarrow> (\<exists>c. map_of d' (row_path cfg ds x) = Some (File c) \<and> sha256_hex c = x ! 2)) \<and>
     (\<forall>f. simple f \<longrightarrow> content_of d' (hash_path ds f) = content_of d (hash_path ds f) @ hash_file (recorded cfg f xs)) \<and>
     (\<forall>f. simple f \<longrightarrow> recorded cfg f xs \<noteq> [] \<longrightarrow> (\<exists>c. map_of d' (hash_path ds f) = Some (File c))) \<and>
     (\<forall>q. os_exists d q \<longrightarrow> (\<forall>x \<in> set xs. row_folder cfg x \<noteq> None \<longrightarrow> q \<noteq> row_path cfg ds x) \<longrightarrow>
       (\<forall>f. simple f \<longrightarrow> q \<noteq> hash_path ds f) \<longrightarrow> map_of d' q = map_of d q) \<and>
     (\<forall>f. simple f \<longrightarrow> recorded cfg f xs \<noteq> [] \<longrightarrow> map_of d (abs_path (ds @ [f])) = None \<longrightarrow>
       map_of d' (abs_path (ds @ [f])) = Some Directory)"

lemma fetchedI:
  assumes "\<And>x f. x \<in> set xs \<Longrightarrow> row_folder cfg x = Some f \<Longrightarrow> \<exists>c. map_of d' (row_path cfg ds x) = Some (File c) \<and> sha256_hex c = x ! 2"
    and "\<And>f. simple f \<Longrightarrow> content_of d' (hash_path ds f) = content_of d (hash_path ds f) @ hash_file (recorded cfg f xs)"
    and "\<And>f. simple f \<Longrightarrow> recorded cfg f xs \<noteq> [] \<Longrightarrow> \<exists>c. map_of d' (hash_path ds f) = Some (File c)"
    and "\<And>q. os_exists d q \<Longrightarrow> (\<forall>x \<in> set xs. row_folder cfg x \<noteq> None \<longrightarrow> q \<noteq> row_path cfg ds x) \<Longrightarrow>
      (\<forall>f. simple f \<longrightarrow> q \<noteq> hash_path ds f) \<Longrightarrow> map_of d' q = map_of d q"
    and "\<And>f. simple f \<Longrightarrow> recorded cfg f xs \<noteq> [] \<Longrightarrow> map_of d (abs_path (ds @ [f])) = None \<Longrightarrow>
      map_of d' (abs_path (ds @ [f])) = Some Directory"
  shows "fetched cfg ds xs d d'"
proof -
  have "\<forall>x \<in> set xs. row_folder cfg x \<noteq> None \<longrightarrow> (\<exists>c. map_of d' (row_path cfg ds x) = Some (File c) \<and> sha256_hex c = x ! 2)"
    using assms(1) by auto
  then show ?thesis unfolding fetched_def using assms(2-5) by simp
qed

lemma fetchedD:
  assumes "fetched cfg ds xs d d'"
  shows "x \<in> set xs \<Longrightarrow> row_folder cfg x = Some f \<Longrightarrow> \<exists>c. map_of d' (row_path cfg ds x) = Some (File c) \<and> sha256_hex c = x ! 2"
    and "simple f \<Longrightarrow> content_of d' (hash_path ds f) = content_of d (hash_path ds f) @ hash_file (recorded cfg f xs)"
    and "simple f \<Longrightarrow> recorded cfg f xs \<noteq> [] \<Longrightarrow> \<exists>c. map_of d' (hash_path ds f) = Some (File c)"
    and "os_exists d q \<Longrightarrow> (\<forall>x \<in> set xs. row_folder cfg x \<noteq> None \<longrightarrow> q \<noteq> row_path cfg ds x) \<Longrightarrow>
      (\<forall>f. simple f \<longrightarrow> q \<noteq> hash_path ds f) \<Longrightarrow> map_of d' q = map_of d q"
    and "simple f \<Longrightarrow> recorded cfg f xs \<noteq> [] \<Longrightarrow> map_of d (abs_path (ds @ [f])) = None \<Longrightarrow>
      map_of d' (abs_path (ds @ [f])) = Some Directory"
  using assms by (simp_all add: fetched_def)

lemma good_rowsD:
  assumes "good_rows cfg ds xs"
  shows "ds \<noteq> []" "\<forall>c \<in> set ds. simple c"
    and "x \<in> set xs \<Longrightarrow> row_folder cfg x = Some f \<Longrightarrow> simple f \<and> simple (x ! 0) \<and> x ! 0 \<noteq> ''hashsum.txt''"
proof -
  show "ds \<noteq> []" "\<forall>c \<in> set ds. simple c" using assms by (simp_all add: good_rows_def)
  assume x: "x \<in> set xs" "row_folder cfg x = Some f"
  from row_folder_simple [OF x(2)] assms have "simple f" by (simp add: good_rows_def)
  with x assms show "simple f \<and> simple (x ! 0) \<and> x ! 0 \<noteq> ''hashsum.txt''" by (simp add: good_rows_def)
qed

lemma good_rows_Cons:
  assumes "good_rows cfg ds (x # xs)"
  shows "good_rows cfg ds xs"
    and "row_folder cfg x = Some f \<Longrightarrow> y \<in> set xs \<Longrightarrow> row_folder cfg y = Some f \<Longrightarrow> x ! 0 \<noteq> y ! 0"
proof -
  show "good_rows cfg ds xs" using assms by (simp add: good_rows_def split: if_splits)
  assume f: "row_folder cfg x = Some f" "y \<in> set xs" "row_folder cfg y = Some f"
  then have "(row_folder cfg y, y ! 0) \<in> (\<lambda>x. (row_folder cfg x, x ! 0)) ` {x \<in> set xs. row_folder cfg x \<noteq> None}"
    by (intro imageI) simp
  moreover have "(row_folder cfg x, x ! 0) \<notin> (\<lambda>x. (row_folder cfg x, x ! 0)) ` {x \<in> set xs. row_folder cfg x \<noteq> None}"
    using assms f(1) by (simp add: good_rows_def)
  ultimately show "x ! 0 \<noteq> y ! 0" using f by (metis (no_types, lifting))
qed

lemma row_paths:
  assumes "good_rows cfg ds xs" "x \<in> set xs" "row_folder cfg x = Some f"
  shows "simple g \<Longrightarrow> row_path cfg ds x \<noteq> hash_path ds g"
    and "simple g \<Longrightarrow> simple n \<Longrightarrow> row_path cfg ds x = abs_path (ds @ [g, n]) \<longleftrightarrow> f = g \<and> x ! 0 = n"
    and "simple g \<Longrightarrow> row_path cfg ds x \<noteq> abs_path (ds @ [g])"
  using good_rowsD [OF assms(1)] good_rowsD(3) [OF assms] assms(3)
  by (simp_all add: row_path_def hash_path_def abs_path_eq)

lemma hash_paths:
  assumes "ds \<noteq> []" "\<forall>c \<in> set ds. simple c" "simple f" "simple g"
  shows "hash_path ds f = hash_path ds g \<longleftrightarrow> f = g" and "hash_path ds f \<noteq> abs_path (ds @ [g])"
  using assms by (simp_all add: hash_path_def abs_path_eq)

context fetcher
begin

lemma fetched_dir:
  assumes good: "good_rows cfg ds (x # xs)" and f: "row_folder cfg x = Some f"
    and ok: "fetch_row cfg osf fetch (abs_path ds) x d = (Ok u, d1)" and rest: "fetched cfg ds xs d1 d'"
    and g: "simple g" "recorded cfg g (x # xs) \<noteq> []" "map_of d (abs_path (ds @ [g])) = None"
  shows "map_of d' (abs_path (ds @ [g])) = Some Directory"
proof -
  note G = good_rowsD [OF good] and sf = good_rowsD(3) [OF good _ f, simplified]
  note R = fetch_row_Ok [OF ok f G(1,2), simplified sf simp_thms, OF TrueI TrueI TrueI]
  note P = row_paths [OF good _ f, simplified]
  show ?thesis
  proof (cases "map_of d1 (abs_path (ds @ [g])) = None")
    case True
    have "g \<noteq> f"
    proof
      assume "g = f"
      have "os_exists (mkdirs d (abs_path (ds @ [f]))) (abs_path (ds @ [f]))" by (rule mkdirs_exists) (simp add: abs_path_def)
      with True R(3) [of "abs_path (ds @ [f])"] P(3) [of f] hash_paths(2) [OF G(1,2), of f f] sf \<open>g = f\<close> show False
        by (auto simp: os_exists_def)
    qed
    with g(2) f have "recorded cfg g xs \<noteq> []" by (simp add: recorded_def)
    from fetchedD(5) [OF rest g(1) this True] show ?thesis .
  next
    case False
    have no: "abs_path (ds @ [g]) \<noteq> row_path cfg ds y" if "y \<in> set (x # xs)" "row_folder cfg y \<noteq> None" for y
      using row_paths(3) [OF good that(1) _ g(1)] that(2) by fastforce
    have h: "abs_path (ds @ [g]) \<noteq> hash_path ds k" if "simple k" for k
      using hash_paths(2) [OF G(1,2) that g(1)] by simp
    have "map_of d1 (abs_path (ds @ [g])) = map_of (mkdirs d (abs_path (ds @ [f]))) (abs_path (ds @ [g]))"
      by (rule R(3)) (use no [of x] h sf f in auto)
    with False mkdirs_new [OF g(3), of "abs_path (ds @ [f])"] have d1: "map_of d1 (abs_path (ds @ [g])) = Some Directory" by auto
    have "map_of d' (abs_path (ds @ [g])) = map_of d1 (abs_path (ds @ [g]))"
      by (rule fetchedD(4) [OF rest]) (use d1 no h in \<open>auto simp: os_exists_def\<close>)
    with d1 show ?thesis by simp
  qed
qed

lemma fetched_Cons:
  assumes good: "good_rows cfg ds (x # xs)" and f: "row_folder cfg x = Some f"
    and ok: "fetch_row cfg osf fetch (abs_path ds) x d = (Ok u, d1)" and rest: "fetched cfg ds xs d1 d'"
  shows "fetched cfg ds (x # xs) d d'"
proof -
  note G = good_rowsD [OF good] and sf = good_rowsD(3) [OF good _ f, simplified]
  note R = fetch_row_Ok [OF ok f G(1,2), simplified sf simp_thms, OF TrueI TrueI TrueI]
  note P = row_paths [OF good _ f, simplified]
  have px: "row_path cfg ds x \<noteq> row_path cfg ds y" if "y \<in> set xs" "row_folder cfg y = Some g" for y g
    using P(2) [of g "y ! 0"] good_rows_Cons(2) [OF good f that(1)] that good_rowsD(3) [OF good, of y g]
    by (auto simp: row_path_def [of cfg ds y])
  have keep: "map_of d1 q = map_of d q" if "os_exists d q" "q \<noteq> row_path cfg ds x" "q \<noteq> hash_path ds f" for q
    using R(3) [OF that(2,3)] mkdirs_keeps [OF that(1)] by simp
  have "map_of d' (row_path cfg ds x) = map_of d1 (row_path cfg ds x)"
    by (rule fetchedD(4) [OF rest]) (use R(1) px P(1) in \<open>auto simp: os_exists_def\<close>)
  with R(1) have 1: "\<exists>c. map_of d' (row_path cfg ds x) = Some (File c) \<and> sha256_hex c = x ! 2" by simp
  have 2: "content_of d' (hash_path ds g) = content_of d (hash_path ds g) @ hash_file (recorded cfg g (x # xs))"
    if "simple g" for g
  proof (cases "g = f")
    case True
    with R(2) fetchedD(2) [OF rest that] f show ?thesis
      by (simp add: content_of_def [of d1] recorded_def hash_file_def)
  next
    case False
    have "hash_path ds g \<noteq> hash_path ds f" using hash_paths(1) [OF G(1,2) that] sf False by simp
    from R(3) [OF P(1) [OF that, symmetric] this] have "content_of d1 (hash_path ds g) = content_of d (hash_path ds g)"
      using mkdirs_content [of d "abs_path (ds @ [f])" "hash_path ds g"] by (simp add: content_of_def)
    with fetchedD(2) [OF rest that] f False show ?thesis by (simp add: recorded_def)
  qed
  have 3: "\<exists>c. map_of d' (hash_path ds g) = Some (File c)" if "simple g" "recorded cfg g (x # xs) \<noteq> []" for g
  proof (cases "recorded cfg g xs = []")
    case True
    with that f have "g = f" by (auto simp: recorded_def split: if_splits)
    have "content_of d' (hash_path ds f) \<noteq> []" using 2 [OF that(1)] \<open>g = f\<close> f by (simp add: recorded_def hash_file_def)
    then show ?thesis by (auto simp: \<open>g = f\<close> content_of_def split: option.splits entry.splits)
  qed (use fetchedD(3) [OF rest that(1)] in simp)
  have 4: "map_of d' q = map_of d q" if "os_exists d q" "\<forall>y \<in> set (x # xs). row_folder cfg y \<noteq> None \<longrightarrow> q \<noteq> row_path cfg ds y"
    "\<forall>g. simple g \<longrightarrow> q \<noteq> hash_path ds g" for q
  proof -
    have k: "map_of d1 q = map_of d q" by (rule keep) (use that f sf in auto)
    moreover have "map_of d' q = map_of d1 q"
      by (rule fetchedD(4) [OF rest]) (use that k in \<open>auto simp: os_exists_def\<close>)
    ultimately show ?thesis by simp
  qed
  show ?thesis
  proof (rule fetchedI)
    show "\<exists>c. map_of d' (row_path cfg ds y) = Some (File c) \<and> sha256_hex c = y ! 2"
      if "y \<in> set (x # xs)" "row_folder cfg y = Some g" for y g
      using that 1 fetchedD(1) [OF rest] by (cases "y = x") auto
  qed (fact 2, fact 3, fact 4, rule fetched_dir [OF good f ok rest])
qed

lemma fetch_rows_Ok:
  "fetch_rows cfg osf fetch (abs_path ds) xs d = (Ok u, d') \<Longrightarrow> good_rows cfg ds xs \<Longrightarrow> fetched cfg ds xs d d'"
proof (induction xs arbitrary: d)
  case Nil
  then show ?case by (simp add: fetched_def recorded_def hash_file_def)
next
  case (Cons x xs)
  obtain d1 where d1: "fetch_row cfg osf fetch (abs_path ds) x d = (Ok (), d1)"
    "fetch_rows cfg osf fetch (abs_path ds) xs d1 = (Ok u, d')"
    using Cons.prems(1) by (auto split: prod.splits res.splits)
  note rest = Cons.IH [OF d1(2) good_rows_Cons(1) [OF Cons.prems(2)]]
  show ?case
  proof (cases "row_folder cfg x")
    case None
    with d1(1) have "d1 = d" by (simp add: fetch_row_def split: if_splits)
    with rest None show ?thesis by (simp add: fetched_def recorded_def)
  next
    case (Some f)
    from fetched_Cons [OF Cons.prems(2) Some d1(1) rest] show ?thesis .
  qed
qed

text \<open>The date is written last, into a file of its own.\<close>

lemma fetch_files_Ok:
  assumes ok: "fetch_files cfg osf fetch (abs_path ds) infos d = (Ok u, d')" and good: "good_rows cfg ds (butlast infos)"
  shows "\<exists>d1. fetched cfg ds (butlast infos) d d1 \<and> (\<forall>q. q \<noteq> abs_path (ds @ [''deadline.txt'']) \<longrightarrow> map_of d' q = map_of d1 q)"
proof -
  obtain d1 where d1: "fetch_rows cfg osf fetch (abs_path ds) (butlast infos) d = (Ok (), d1)"
    "put_deadline osf (abs_path ds) infos d1 = (Ok u, d')"
    using ok by (auto simp: fetch_files_def split: prod.splits res.splits)
  have "Join [abs_path ds, ''deadline.txt''] = abs_path (ds @ [''deadline.txt''])"
    using Join_abs [of ds "[''deadline.txt'']"] good_rowsD(1,2) [OF good] by (simp add: simple_def)
  with d1(2) have "map_of d' q = map_of d1 q" if "q \<noteq> abs_path (ds @ [''deadline.txt''])" for q
    using that by (auto simp: put_deadline_def storeDeadline_def os_OpenCreate_def write_start_def Let_def
        split: if_splits option.splits prod.splits)
  with fetch_rows_Ok [OF d1(1) good] show ?thesis by blast
qed

end

section \<open>A fetched folder passes the check\<close>

lemma recorded_Cons:
  "recorded cfg f (x # xs) = (if row_folder cfg x = Some f then (x ! 0, x ! 2) # recorded cfg f xs else recorded cfg f xs)"
  by (simp add: recorded_def)

lemma filter_names: "set (map fst (filter (\<lambda>(n, _). P n) l)) = fst ` set l \<inter> {n. P n}"
  by force

lemma recorded_names:
  assumes "good_rows cfg ds xs"
  shows "distinct (map fst (recorded cfg f xs))"
  using assms
proof (induction xs)
  case (Cons x xs)
  note good = good_rows_Cons [OF Cons.prems]
  have "x ! 0 \<notin> fst ` set (recorded cfg f xs)" if "row_folder cfg x = Some f"
  proof
    assume "x ! 0 \<in> fst ` set (recorded cfg f xs)"
    then obtain y where "y \<in> set xs" "row_folder cfg y = Some f" "x ! 0 = y ! 0" by (auto simp: recorded_def)
    with good(2) [OF that] show False by blast
  qed
  with Cons.IH [OF good(1)] show ?case by (simp add: recorded_Cons)
qed (simp add: recorded_def)

lemma recorded_iff: "(n, h) \<in> set (recorded cfg f xs) \<longleftrightarrow> (\<exists>x \<in> set xs. row_folder cfg x = Some f \<and> x ! 0 = n \<and> x ! 2 = h)"
  by (auto simp: recorded_def)

lemma checkfiles_clean:
  assumes list: "\<forall>p. osf (ReadDir p) d = None" "map_of d F = Some Directory" and rs: "distinct (map fst rs)"
    and files: "\<And>n h. (n, h) \<in> set rs \<Longrightarrow> n \<noteq> [] \<and> CHR ''/'' \<notin> set n \<and> os_exists d (F @ ''/'' @ n) \<and> is_Ok (matchSHA256 osf d (Join [F, n]) h)"
  shows "checkfiles osf d F (map_of (rev rs)) = (0, length rs)"
proof -
  obtain l where l: "os_ReadDir osf F d = Ok l" using list by (simp add: os_ReadDir_def)
  have m: "map_of (rev rs) n = Some h \<longleftrightarrow> (n, h) \<in> set rs" for n h
    using map_of_eq_Some_iff [of "rev rs" n h] rs by (simp add: rev_map [symmetric])
  have "n \<in> fst ` set l" if "(n, h) \<in> set rs" for n h
    using files [OF that] ReadDir_Ok(2) [OF l] dir_names_iff [of n F d] by (metis list.set_map)
  moreover have "map_of (rev rs) n \<noteq> None \<longleftrightarrow> (\<exists>h. (n, h) \<in> set rs)" for n using m by auto
  ultimately have listed: "set (map fst (filter (\<lambda>(n, _). map_of (rev rs) n \<noteq> None) l)) = fst ` set rs"
    unfolding filter_names by force
  have "distinct (map fst (filter (\<lambda>(n, _). map_of (rev rs) n \<noteq> None) l))"
    using dir_names_distinct [of F d] ReadDir_Ok(2) [OF l] by (metis distinct_map_filter)
  then have t: "length (filter (\<lambda>(n, _). map_of (rev rs) n \<noteq> None) l) = length rs"
    using distinct_card [of "map fst (filter (\<lambda>(n, _). map_of (rev rs) n \<noteq> None) l)"] distinct_card [OF rs] listed by simp
  have c: "filter (\<lambda>(n, _). \<exists>h. map_of (rev rs) n = Some h \<and> \<not> is_Ok (matchSHA256 osf d (Join [F, n]) h)) l = []"
    using files by (auto simp: filter_empty_conv m)
  show ?thesis unfolding checkfiles_counts [OF l] c t by simp
qed

section \<open>Properties\<close>

text \<open>
  C8: A downloaded folder passes the integrity check. The names in the rows are plain path elements other than
  \<open>hashsum.txt\<close>, and the rows that have a subfolder differ in it or in their name. When \<^verbatim>\<open>DownloadFiles\<close> or
  \<^verbatim>\<open>copyFiles\<close> then succeeds, every row of the metadata and bulk subfolders but the last row, which is the deadline's,
  has its file on the disk, with the hash of the row. For a subfolder that was not there before, is not called
  \<open>deadline.txt\<close>, is given a file, and whose names and hashes have none of the characters \<open>=\<close>, \<open>>\<close>, line feed and
  carriage return and are together shorter than 65534 bytes: if nothing fails when the disk is read, \<^verbatim>\<open>gethashsum\<close>
  reads exactly these hashes back, and \<^verbatim>\<open>checkfiles\<close> counts all its files as checked and none as corrupted.
\<close>

theorem downloads_pass_check:
  assumes dl: "dl = DownloadFiles cfg get osf \<or> dl = copyFiles cfg osf"
    and ok: "dl (abs_path ds) infos d = (Ok u, d')" and good: "good_rows cfg ds (butlast infos)"
  shows "(\<forall>x f. x \<in> set (butlast infos) \<longrightarrow> row_folder cfg x = Some f \<longrightarrow>
      (\<exists>c. map_of d' (abs_path (ds @ [f, x ! 0])) = Some (File c) \<and> sha256_hex c = x ! 2)) \<and>
    (\<forall>f. f \<in> {METADATA_FOLDER cfg, BULKFILE_FOLDER cfg} \<longrightarrow> f \<noteq> ''deadline.txt'' \<longrightarrow> recorded cfg f (butlast infos) \<noteq> [] \<longrightarrow>
      \<not> os_exists d (abs_path (ds @ [f])) \<longrightarrow> \<not> os_exists d (abs_path (ds @ [f, ''hashsum.txt''])) \<longrightarrow>
      (\<forall>r \<in> set (recorded cfg f (butlast infos)). hash_fits r) \<longrightarrow>
      (\<forall>p. osf (OpenRead p) d' = None \<and> osf (Read p) d' = None \<and> osf (ReadDir p) d' = None) \<longrightarrow>
      gethashsum osf d' (abs_path (ds @ [f, ''hashsum.txt''])) = Ok (map_of (rev (recorded cfg f (butlast infos)))) \<and>
      checkfiles osf d' (abs_path (ds @ [f])) (map_of (rev (recorded cfg f (butlast infos)))) =
        (0, length (recorded cfg f (butlast infos))))"
proof -
  let ?xs = "butlast infos"
  note G = good_rowsD [OF good]
  obtain d1 where d1: "fetched cfg ds ?xs d d1" "\<And>q. q \<noteq> abs_path (ds @ [''deadline.txt'']) \<Longrightarrow> map_of d' q = map_of d1 q"
    using dl download.fetch_files_Ok [OF _ good] copy.fetch_files_Ok [OF _ good] ok
    unfolding DownloadFiles_def copyFiles_def by metis
  have dead: "simple ''deadline.txt''" by (simp add: simple_def)
  have row: "\<exists>c. map_of d' (row_path cfg ds x) = Some (File c) \<and> sha256_hex c = x ! 2"
    if "x \<in> set ?xs" "row_folder cfg x = Some f" for x f
    using fetchedD(1) [OF d1(1) that] d1(2) [OF row_paths(3) [OF good that dead]] by simp
  have checked: "gethashsum osf d' (hash_path ds f) = Ok (map_of (rev (recorded cfg f ?xs))) \<and>
      checkfiles osf d' (abs_path (ds @ [f])) (map_of (rev (recorded cfg f ?xs))) = (0, length (recorded cfg f ?xs))"
    if f: "f \<in> {METADATA_FOLDER cfg, BULKFILE_FOLDER cfg}" "f \<noteq> ''deadline.txt''" "recorded cfg f ?xs \<noteq> []"
      and new: "\<not> os_exists d (abs_path (ds @ [f]))" "\<not> os_exists d (hash_path ds f)"
      and fits: "\<forall>r \<in> set (recorded cfg f ?xs). hash_fits r"
      and reads: "\<forall>p. osf (OpenRead p) d' = None \<and> osf (Read p) d' = None \<and> osf (ReadDir p) d' = None" for f
  proof -
    let ?F = "abs_path (ds @ [f])"
    have sf: "simple f" using f(1) good by (auto simp: good_rows_def)
    have F: "map_of d' ?F = Some Directory"
      using d1(2) [of ?F] fetchedD(5) [OF d1(1) sf f(3)] new(1) f(2) G(1,2) sf dead by (simp add: abs_path_eq os_exists_def)
    have H: "map_of d' (hash_path ds f) = Some (File (hash_file (recorded cfg f ?xs)))"
      using fetchedD(2,3) [OF d1(1) sf] f(3) new(2) d1(2) [of "hash_path ds f"] hash_paths(2) [OF G(1,2) sf dead]
      by (auto simp: content_of_def os_exists_def)
    have "checkfiles osf d' ?F (map_of (rev (recorded cfg f ?xs))) = (0, length (recorded cfg f ?xs))"
    proof (rule checkfiles_clean [OF _ F recorded_names [OF good]])
      fix n h assume "(n, h) \<in> set (recorded cfg f ?xs)"
      then obtain x where x: "x \<in> set ?xs" "row_folder cfg x = Some f" "n = x ! 0" "h = x ! 2" by (auto simp: recorded_iff)
      have n: "simple n" using G(3) [OF x(1,2)] x(3) by simp
      have p: "?F @ ''/'' @ n = row_path cfg ds x" "Join [?F, n] = row_path cfg ds x"
        using Join_abs [of "ds @ [f]" "[n]"] abs_path_append [of "ds @ [f]" "[n]"] G(1,2) sf n x(2,3)
        by (simp_all add: row_path_def abs_path_def [of "[_]"])
      from row [OF x(1,2)] reads n show "n \<noteq> [] \<and> CHR ''/'' \<notin> set n \<and> os_exists d' (?F @ ''/'' @ n) \<and> is_Ok (matchSHA256 osf d' (Join [?F, n]) h)"
        unfolding p by (auto simp: simple_def os_exists_def matchSHA256_def os_Open_def x(4))
    qed (use reads in simp)
    with gethashsum_file [where osf = osf, OF H fits] reads show ?thesis by simp
  qed
  show ?thesis
  proof (intro conjI allI impI)
    fix x f assume x: "x \<in> set ?xs" "row_folder cfg x = Some f"
    with row [OF x] show "\<exists>c. map_of d' (abs_path (ds @ [f, x ! 0])) = Some (File c) \<and> sha256_hex c = x ! 2" by (simp add: row_path_def)
  qed (use checked in \<open>auto simp: hash_path_def\<close>)
qed

lemma hash_fits_sha: "plain n \<Longrightarrow> length n < 1000 \<Longrightarrow> hash_fits (n, sha256_hex c)"
proof -
  assume n: "plain n" "length n < 1000"
  have "set (sha256_hex c) \<inter> {CHR ''='', CHR ''>'', CHR 10, CHR 13} = {}"
  proof -
    have "set ''0123456789abcdef'' \<inter> {CHR ''='', CHR ''>'', CHR 10, CHR 13} = {}" by simp
    with sha256_hex_digits [of c] show ?thesis by blast
  qed
  with n sha256_hex_length [of c] show ?thesis by (simp add: hash_fits_def plain_def)
qed

definition demo_cfg :: dl_cfg where
  "demo_cfg = \<lparr>METADATA_FOLDER = ''meta'', BULKFILE_FOLDER = ''bulk''\<rparr>"

definition demo_infos :: "string list list" where
  "demo_infos = [[''a'', ''u'', sha256_hex ''hi'', ''metadata'', ''5''], [[], [], [], [], ''5'']]"

theorem downloads_pass_check_witness:
  "case DownloadFiles demo_cfg (\<lambda>_ _. Inr (''hi'', None)) (\<lambda>_ _. None) ''/d'' demo_infos [(''/d'', Directory)] of
     (r, disk) \<Rightarrow> r = Ok () \<and> (\<exists>c. map_of disk ''/d/meta/a'' = Some (File c) \<and> sha256_hex c = sha256_hex ''hi'') \<and>
       gethashsum (\<lambda>_ _. None) disk ''/d/meta/hashsum.txt'' = Ok [''a'' \<mapsto> sha256_hex ''hi''] \<and>
       checkfiles (\<lambda>_ _. None) disk ''/d/meta'' [''a'' \<mapsto> sha256_hex ''hi''] = (0, 1)"
proof -
  obtain r d' where d: "DownloadFiles demo_cfg (\<lambda>_ _. Inr (''hi'', None)) (\<lambda>_ _. None) ''/d'' demo_infos [(''/d'', Directory)] = (r, d')"
    by fastforce
  have p: "Join [''/d'', ''meta'', ''a''] = ''/d/meta/a''" "Dir ''/d/meta/a'' = ''/d/meta''" "Base ''/d/meta/a'' = ''a''"
    "Join [''/d/meta'', ''hashsum.txt''] = ''/d/meta/hashsum.txt''" "Join [''/d'', ''deadline.txt''] = ''/d/deadline.txt''"
    "Dir ''/d/meta/hashsum.txt'' = ''/d/meta''" "Dir ''/d/deadline.txt'' = ''/d''"
    by (simp_all add: Join_def Clean_def clean_step_def HasPrefix_def Dir_def Base_def)
  have m: "mkdirs [(''/d'', Directory)] ''/d/meta'' = [(''/d/meta'', Directory), (''/d'', Directory)]"
    by (simp add: mkdirs_def os_exists_def)
  have a: "abs_path [''d''] = ''/d''" "abs_path [''d'', ''meta''] = ''/d/meta''" "hash_path [''d''] ''meta'' = ''/d/meta/hashsum.txt''"
    "abs_path [''d'', ''meta'', ''a''] = ''/d/meta/a''" "abs_path [''d'', ''meta'', ''hashsum.txt''] = ''/d/meta/hashsum.txt''"
    by (simp_all add: abs_path_def hash_path_def)
  have r: "r = Ok ()"
    using d by (simp add: DownloadFiles_def fetch_files_def demo_infos_def demo_cfg_def fetch_row_def row_folder_def p m
        os_MkdirAll_def DownloadFile_def os_Create_def write_body_def write_end_def can_write_def matchSHA256_def os_Open_def
        storeHashsum_def os_OpenCreate_def put_deadline_def storeDeadline_def IsNotExist_def write_start_def Let_def
        split: if_splits)
  note passed = downloads_pass_check [of "DownloadFiles demo_cfg (\<lambda>_ _. Inr (''hi'', None)) (\<lambda>_ _. None)" demo_cfg "\<lambda>_ _. Inr (''hi'', None)"
      "\<lambda>_ _. None" "[''d'']" demo_infos "[(''/d'', Directory)]" "()" d']
  have "\<exists>c. map_of d' ''/d/meta/a'' = Some (File c) \<and> sha256_hex c = sha256_hex ''hi''"
    using passed [THEN conjunct1, THEN spec, THEN spec, of "[''a'', ''u'', sha256_hex ''hi'', ''metadata'', ''5'']" "''meta''"] d r
    by (simp add: a demo_infos_def demo_cfg_def good_rows_def row_folder_def simple_def)
  moreover have "gethashsum (\<lambda>_ _. None) d' ''/d/meta/hashsum.txt'' = Ok [''a'' \<mapsto> sha256_hex ''hi''] \<and>
      checkfiles (\<lambda>_ _. None) d' ''/d/meta'' [''a'' \<mapsto> sha256_hex ''hi''] = (0, 1)"
    using passed [THEN conjunct2, THEN spec, of "''meta''"] d r hash_fits_sha [of "''a''" "''hi''"]
    by (simp add: a demo_infos_def demo_cfg_def good_rows_def row_folder_def recorded_def simple_def os_exists_def plain_def)
  ultimately show ?thesis using d r by simp
qed

end
