(* ===== verification/Key_Manager.thy ===== *)
theory Key_Manager
  imports Go_Lib
begin

text \<open>
  The public-key cache of \<^verbatim>\<open>src/keymanager/keymanager.go\<close>: a slice of fixed length filled from
  the left, then used as a FIFO queue. \<open>'k\<close> is the type of RSA public keys, \<open>parsePEM\<close> the
  parser of the JWT library. The locale \<open>fifo_cache\<close> states what a bounded FIFO promises; the
  cache is interpreted as one, which gives the contents after any sequence of additions.
\<close>

section \<open>The cache\<close>

record 'k KeyEntry =
  key :: "'k option" \<comment> \<open>nil in a zero entry\<close>
  fileName :: string

record 'k KeyManager =
  keys :: "'k KeyEntry list"
  maxLength :: int
  currentLength :: int
  PubkeysDir :: string

definition MakeKeyManager :: "int \<Rightarrow> string \<Rightarrow> 'k KeyManager res" where
  "MakeKeyManager maxLen dir =
     (if maxLen < 0 then Panic
      else Ok \<lparr>keys = replicate (nat maxLen) \<lparr>key = None, fileName = []\<rparr>, maxLength = maxLen,
               currentLength = 0, PubkeysDir = dir\<rparr>)"

text \<open>
  The critical section of \<open>AddKey\<close>. A full cache drops its oldest entry and the file of that
  entry; \<^verbatim>\<open>km.keys[0]\<close> is out of range when the cache has no slots.
\<close>

definition store_key ::
    "os_faults \<Rightarrow> 'k KeyEntry \<Rightarrow> 'k KeyManager \<times> disk \<Rightarrow> ('k KeyManager \<times> disk) res" where
  "store_key osf e = (\<lambda>(km, d).
     if currentLength km = maxLength km then
       (case keys km of
          [] \<Rightarrow> Panic
        | oldest # rest \<Rightarrow>
            Ok (km\<lparr>keys := rest @ [e]\<rparr>,
                snd (os_Remove osf (Join [PubkeysDir km, fileName oldest]) d)))
     else if currentLength km < 0 \<or> int (length (keys km)) \<le> currentLength km then Panic
     else Ok (km\<lparr>keys := (keys km)[nat (currentLength km) := e],
                currentLength := currentLength km + 1\<rparr>, d))"

definition AddKey ::
    "os_faults \<Rightarrow> (bytes \<Rightarrow> error + 'k) \<Rightarrow> string \<Rightarrow> 'k KeyManager \<times> disk \<Rightarrow>
     unit res \<times> 'k KeyManager \<times> disk" where
  "AddKey osf parsePEM publicKeyName = (\<lambda>(km, d).
     case os_ReadFile osf (Join [PubkeysDir km, publicKeyName]) d of
       Ok keyData \<Rightarrow>
         (case parsePEM keyData of
            Inl err \<Rightarrow> (Err err, km, d)
          | Inr k \<Rightarrow>
              (case store_key osf \<lparr>key = Some k, fileName = publicKeyName\<rparr> (km, d) of
                 Ok (km', d') \<Rightarrow> (Ok (), km', d')
               | _ \<Rightarrow> (Panic, km, d)))
     | Err err \<Rightarrow> (Err err, km, d)
     | _ \<Rightarrow> (Panic, km, d))"

text \<open>The loop over \<^verbatim>\<open>i < currentLength\<close> reads \<^verbatim>\<open>km.keys[i]\<close>, a panic when out of range.\<close>

definition GetKeyList :: "'k KeyManager \<Rightarrow> 'k option list res" where
  "GetKeyList km =
     (if int (length (keys km)) < currentLength km then Panic
      else Ok (map key (take (nat (currentLength km)) (keys km))))"

section \<open>Bounded FIFO caches\<close>

definition last_n :: "nat \<Rightarrow> 'a list \<Rightarrow> 'a list" where
  "last_n n xs = drop (length xs - n) xs"

lemma last_n_last_n: "last_n n (last_n n xs @ ys) = last_n n (xs @ ys)"
  by (cases "n \<le> length xs") (auto simp: last_n_def add.commute)

lemma map_last_n: "map f (last_n n xs) = last_n n (map f xs)"
  by (simp add: last_n_def drop_map)

locale fifo_cache =
  fixes contents :: "'s \<Rightarrow> 'a list" and cap :: "'s \<Rightarrow> nat" and invar :: "'s \<Rightarrow> bool"
    and push :: "'a \<Rightarrow> 's \<Rightarrow> 's res"
  assumes push_Ok: "invar s \<Longrightarrow> 0 < cap s \<Longrightarrow> \<exists>s'. push x s = Ok s'"
    and push_contents: "invar s \<Longrightarrow> push x s = Ok s' \<Longrightarrow>
      contents s' = (if length (contents s) = cap s then tl (contents s) else contents s) @ [x]"
    and push_cap: "push x s = Ok s' \<Longrightarrow> cap s' = cap s"
    and push_invar: "invar s \<Longrightarrow> push x s = Ok s' \<Longrightarrow> invar s'"
    and bounded: "invar s \<Longrightarrow> length (contents s) \<le> cap s"
begin

lemma push_last_n:
  assumes "invar s" "0 < cap s" "push x s = Ok s'"
  shows "contents s' = last_n (cap s) (contents s @ [x])"
proof (cases "length (contents s) = cap s")
  case True
  with push_contents [OF assms(1,3)] assms(2) show ?thesis
    by (cases "contents s") (auto simp: last_n_def)
next
  case False
  with push_contents [OF assms(1,3)] bounded [OF assms(1)] show ?thesis
    by (simp add: last_n_def)
qed

lemma pushes:
  assumes "invar s" "0 < cap s"
  shows "\<exists>s'. fold_res push xs s = Ok s' \<and> invar s' \<and> cap s' = cap s \<and>
    contents s' = last_n (cap s) (contents s @ xs)"
  using assms
proof (induction xs arbitrary: s)
  case Nil
  then show ?case using bounded [of s] by (simp add: last_n_def)
next
  case (Cons x xs)
  then obtain s1 where s1: "push x s = Ok s1" using push_Ok by blast
  with Cons.prems have "invar s1" "cap s1 = cap s" using push_invar push_cap by blast+
  moreover note push_last_n [OF Cons.prems s1]
  ultimately show ?case using Cons.IH [of s1] Cons.prems s1 last_n_last_n [of "cap s" "contents s @ [x]" xs]
    by simp
qed

end

section \<open>The key cache is a bounded FIFO\<close>

definition cached :: "'k KeyManager \<Rightarrow> 'k KeyEntry list" where
  "cached km = take (nat (currentLength km)) (keys km)"

definition km_inv :: "'k KeyManager \<Rightarrow> bool" where
  "km_inv km \<longleftrightarrow> 0 \<le> currentLength km \<and> currentLength km \<le> maxLength km \<and>
     int (length (keys km)) = maxLength km"

interpretation km_fifo: fifo_cache
  "\<lambda>(km, d). cached km" "\<lambda>(km, d). nat (maxLength km)" "\<lambda>(km, d). km_inv km" "store_key osf" for osf
proof (unfold_locales, goal_cases)
  case (1 s x)
  then show ?case by (cases s) (auto simp: store_key_def km_inv_def split: list.splits)
next
  case (2 s x s')
  then show ?case
    by (cases s) (auto simp: store_key_def km_inv_def cached_def take_Suc_conv_app_nth nat_add_distrib
        split: if_splits list.splits)
next
  case (3 x s s')
  then show ?case by (cases s) (auto simp: store_key_def split: if_splits list.splits)
next
  case (4 s x s')
  then show ?case by (cases s) (auto simp: store_key_def km_inv_def split: if_splits list.splits)
next
  case (5 s)
  then show ?case by (cases s) (auto simp: km_inv_def cached_def)
qed

text \<open>
  Loading the key files at start-up (\<^verbatim>\<open>src/hub.go\<close>, lines 225 to 230): the errors of \<open>AddKey\<close> are
  only logged.
\<close>

fun load_keys ::
    "os_faults \<Rightarrow> (bytes \<Rightarrow> error + 'k) \<Rightarrow> string list \<Rightarrow> 'k KeyManager \<times> disk \<Rightarrow>
     unit res \<times> 'k KeyManager \<times> disk" where
  "load_keys osf parsePEM [] s = (Ok (), s)"
| "load_keys osf parsePEM (file # files) s =
     (case AddKey osf parsePEM file s of
        (Panic, s') \<Rightarrow> (Panic, s')
      | (_, s') \<Rightarrow> load_keys osf parsePEM files s')"

lemma GetKeyList_cached: "km_inv km \<Longrightarrow> GetKeyList km = Ok (map key (cached km))"
  by (simp add: GetKeyList_def cached_def km_inv_def)

lemma os_Remove_other: "q \<noteq> p \<Longrightarrow> map_of (snd (os_Remove osf p d)) q = map_of d q"
proof -
  assume "q \<noteq> p"
  then have "map_of (filter (\<lambda>(q, _). q \<noteq> p) d) q = map_of d q"
    by (induction d) auto
  then show ?thesis by (simp add: os_Remove_def split: option.splits)
qed

lemma store_key_geometry:
  assumes "store_key osf e (km, d) = Ok (km', d')"
  shows "PubkeysDir km' = PubkeysDir km" and "maxLength km' = maxLength km"
  using assms by (auto simp: store_key_def split: if_splits list.splits)

lemma store_key_frame:
  assumes "store_key osf e (km, d) = Ok (km', d')" "km_inv km"
    and "\<forall>c \<in> set (cached km). Join [PubkeysDir km, fileName c] \<noteq> q"
  shows "map_of d' q = map_of d q"
proof -
  have "oldest \<in> set (cached km)" if "keys km = oldest # rest" "currentLength km = maxLength km"
    for oldest rest
  proof -
    from that assms(2) have "cached km = oldest # rest" by (auto simp: cached_def km_inv_def)
    then show ?thesis by simp
  qed
  with assms show ?thesis
    by (auto simp: store_key_def os_Remove_other split: if_splits list.splits)
qed

lemma AddKey_Ok:
  assumes "km_inv km" "0 < maxLength km"
    and "os_ReadFile osf (Join [PubkeysDir km, file]) d = Ok pem" "parsePEM pem = Inr k"
  shows "\<exists>km' d'. AddKey osf parsePEM file (km, d) = (Ok (), km', d') \<and>
    store_key osf \<lparr>key = Some k, fileName = file\<rparr> (km, d) = Ok (km', d') \<and> km_inv km' \<and>
    cached km' = last_n (nat (maxLength km)) (cached km @ [\<lparr>key = Some k, fileName = file\<rparr>])"
proof -
  let ?e = "\<lparr>key = Some k, fileName = file\<rparr>"
  obtain km' d' where st: "store_key osf ?e (km, d) = Ok (km', d')"
    using km_fifo.push_Ok [of "(km, d)" osf ?e] assms(1,2) by auto
  with km_fifo.push_invar [OF _ st] km_fifo.push_last_n [OF _ _ st] assms show ?thesis
    by (simp add: AddKey_def)
qed

lemma load_keys_cached:
  assumes "km_inv km" "0 < maxLength km" "distinct (map (\<lambda>f. Join [PubkeysDir km, f]) files)"
    and "\<forall>f \<in> set files. \<exists>pem. os_ReadFile (\<lambda>_ _. None) (Join [PubkeysDir km, f]) d = Ok pem \<and>
      parsePEM pem = Inr (k f)"
    and "\<forall>c \<in> set (cached km). \<forall>f \<in> set files.
      Join [PubkeysDir km, fileName c] \<noteq> Join [PubkeysDir km, f]"
  shows "\<exists>km' d'. load_keys (\<lambda>_ _. None) parsePEM files (km, d) = (Ok (), km', d') \<and> km_inv km' \<and>
    map key (cached km') =
      last_n (nat (maxLength km)) (map key (cached km) @ map (\<lambda>f. Some (k f)) files)"
  using assms
proof (induction files arbitrary: km d)
  case Nil
  then show ?case by (simp add: last_n_def cached_def km_inv_def nat_le_iff)
next
  case (Cons f fs)
  let ?e = "\<lparr>key = Some (k f), fileName = f\<rparr>"
  from Cons.prems(4) obtain pem where pem: "os_ReadFile (\<lambda>_ _. None) (Join [PubkeysDir km, f]) d = Ok pem"
      "parsePEM pem = Inr (k f)" by auto
  obtain km1 d1 where
    add: "AddKey (\<lambda>_ _. None) parsePEM f (km, d) = (Ok (), km1, d1)" and
    st: "store_key (\<lambda>_ _. None) ?e (km, d) = Ok (km1, d1)" and inv1: "km_inv km1" and
    c1: "cached km1 = last_n (nat (maxLength km)) (cached km @ [?e])"
    using AddKey_Ok [of km "\<lambda>_ _. None" f d pem parsePEM "k f"] Cons.prems(1,2) pem by blast
  note geo = store_key_geometry [OF st]
  have frame: "map_of d1 (Join [PubkeysDir km, g]) = map_of d (Join [PubkeysDir km, g])"
    if "g \<in> set fs" for g
    using store_key_frame [OF st Cons.prems(1)] Cons.prems(5) that by auto
  have sub: "set (cached km1) \<subseteq> insert ?e (set (cached km))"
    using c1 set_drop_subset by (fastforce simp: last_n_def)
  have "\<exists>km' d'. load_keys (\<lambda>_ _. None) parsePEM fs (km1, d1) = (Ok (), km', d') \<and> km_inv km' \<and>
    map key (cached km') =
      last_n (nat (maxLength km1)) (map key (cached km1) @ map (\<lambda>f. Some (k f)) fs)"
  proof (rule Cons.IH [OF inv1])
    show "0 < maxLength km1" "distinct (map (\<lambda>f. Join [PubkeysDir km1, f]) fs)"
      using Cons.prems geo by auto
    show "\<forall>f \<in> set fs. \<exists>pem. os_ReadFile (\<lambda>_ _. None) (Join [PubkeysDir km1, f]) d1 = Ok pem \<and>
        parsePEM pem = Inr (k f)"
      using Cons.prems(4) frame geo by (simp add: os_ReadFile_def)
    show "\<forall>c \<in> set (cached km1). \<forall>f \<in> set fs.
        Join [PubkeysDir km1, fileName c] \<noteq> Join [PubkeysDir km1, f]"
      using Cons.prems(3,5) geo sub by (fastforce simp: image_iff)
  qed
  with add c1 geo last_n_last_n [of "nat (maxLength km)" "map key (cached km) @ [Some (k f)]"]
  show ?case by (simp add: map_last_n)
qed

section \<open>Properties\<close>

text \<open>
  C29: After start-up with a cache of \<open>n > 0\<close> slots, loading key files that can all be read and
  parsed leaves in the cache exactly the keys of the last \<open>n\<close> files, oldest first: \<open>GetKeyList\<close>
  returns them, none lost and none stale.
\<close>

theorem load_keys_latest:
  assumes "MakeKeyManager n dir = Ok km" and "0 < n"
    and "distinct (map (\<lambda>f. Join [dir, f]) files)"
    and "\<forall>f \<in> set files. \<exists>pem. os_ReadFile (\<lambda>_ _. None) (Join [dir, f]) d = Ok pem \<and>
      parsePEM pem = Inr (k f)"
  shows "\<exists>km' d'. load_keys (\<lambda>_ _. None) parsePEM files (km, d) = (Ok (), km', d') \<and>
    GetKeyList km' = Ok (last_n (nat n) (map (\<lambda>f. Some (k f)) files))"
proof -
  from assms(1,2) have km: "km_inv km" "maxLength km = n" "PubkeysDir km = dir" "cached km = []"
    by (auto simp: MakeKeyManager_def km_inv_def cached_def)
  with assms load_keys_cached [of km files d parsePEM k] show ?thesis
    by (auto simp: GetKeyList_cached)
qed

theorem load_keys_latest_witness:
  "\<exists>km' d'. load_keys (\<lambda>_ _. None) (\<lambda>pem. Inr pem) [''1.pem'', ''2.pem'']
      (\<lparr>keys = [\<lparr>key = None, fileName = []\<rparr>], maxLength = 1, currentLength = 0, PubkeysDir = ''/k''\<rparr>,
       [(''/k/1.pem'', File ''A''), (''/k/2.pem'', File ''B'')]) = (Ok (), km', d') \<and>
    GetKeyList km' = Ok [Some ''B'']"
proof -
  let ?d = "[(''/k/1.pem'', File ''A''), (''/k/2.pem'', File ''B'')]"
  let ?k = "\<lambda>f. if f = ''1.pem'' then ''A'' else ''B''"
  have paths: "Join [''/k'', ''1.pem''] = ''/k/1.pem''" "Join [''/k'', ''2.pem''] = ''/k/2.pem''"
    by (simp_all add: Join_def Clean_def clean_step_def HasPrefix_def Let_def)
  show ?thesis
    using load_keys_latest [of 1 "''/k''" _ "[''1.pem'', ''2.pem'']" ?d "\<lambda>pem. Inr pem" ?k]
    by (simp add: paths MakeKeyManager_def os_ReadFile_def last_n_def)
qed

text \<open>
  C30: \<open>AddKey\<close> succeeds only with a key file that can be read and parsed, and then appends the
  key, evicting the oldest one of a full cache, and keeps the invariant; when it returns an
  error the cache and the disk are unchanged; only a cache without slots makes it panic.
\<close>

theorem AddKey_outcome:
  assumes "km_inv km" and "AddKey osf parsePEM file (km, d) = (r, km', d')"
  shows "(r = Ok () \<and> km_inv km' \<and>
      (\<exists>pem k. os_ReadFile osf (Join [PubkeysDir km, file]) d = Ok pem \<and> parsePEM pem = Inr k \<and>
        cached km' = last_n (nat (maxLength km)) (cached km @ [\<lparr>key = Some k, fileName = file\<rparr>]))) \<or>
    ((\<exists>e. r = Err e) \<and> km' = km \<and> d' = d) \<or> (r = Panic \<and> maxLength km = 0)"
proof (cases "os_ReadFile osf (Join [PubkeysDir km, file]) d")
  case (Ok pem)
  show ?thesis
  proof (cases "parsePEM pem")
    case (Inl e)
    with Ok assms(2) show ?thesis by (auto simp: AddKey_def)
  next
    case (Inr k)
    show ?thesis
    proof (cases "0 < maxLength km")
      case True
      then show ?thesis 
        using AddKey_Ok [of km osf "file" d pem parsePEM k] assms True Ok Inr
        by auto
    next
      case False
      with assms(1) have "maxLength km = 0" "store_key osf e (km, d) = Panic" for e
        by (auto simp: km_inv_def store_key_def split: list.splits)
      with Ok Inr assms(2) show ?thesis by (simp add: AddKey_def)
    qed
  qed
qed (use assms(2) in \<open>auto simp: AddKey_def os_ReadFile_def split: option.splits entry.splits\<close>)

theorem AddKey_outcome_witness:
  "\<exists>km' d'. AddKey (\<lambda>_ _. None) (\<lambda>pem. Inr pem) ''1.pem''
      (\<lparr>keys = [], maxLength = 0, currentLength = 0, PubkeysDir = ''/k''\<rparr>,
       [(''/k/1.pem'', File ''A'')]) = (Panic, km', d')"
proof -
  let ?km = "\<lparr>keys = [], maxLength = 0, currentLength = 0, PubkeysDir = ''/k''\<rparr> :: string KeyManager"
  let ?d = "[(''/k/1.pem'', File ''A'')]"
  have path: "Join [''/k'', ''1.pem''] = ''/k/1.pem''"
    by (simp add: Join_def Clean_def clean_step_def HasPrefix_def Let_def)
  have inv: "km_inv ?km" by (simp add: km_inv_def)
  have "AddKey (\<lambda>_ _. None) (\<lambda>pem. Inr pem) ''1.pem'' (?km, ?d) = (Panic, ?km, ?d)"
    by (simp add: AddKey_def os_ReadFile_def path store_key_def)
  with AddKey_outcome [OF inv this] show ?thesis by blast
qed

end
