(* ===== verification/Method_Calls.thy ===== *)
theory Method_Calls
  imports Folder_Downloads Folder_Deletion Key_Manager
begin

text \<open>
  The commands of \<^verbatim>\<open>src/handle_method_calls.go\<close>: \<open>Download\<close> creates a folder of the hierarchy and fills it
  with files, \<open>Delete\<close> removes a folder, \<open>AddNewPublicKey\<close> stores a key and adds it to the key manager.
  Every handler answers with a message and no error. The listening for calls (\<^verbatim>\<open>handle_method_calls\<close>) is
  not modelled.

  The handlers print the buckets and the hierarchy around their work; a missing bucket makes that a
  panic, so the printing is part of the model.
\<close>

record 'db relay_env =
  re_bolt :: "'db bolt"
  re_osf :: os_faults
  re_get :: http_get
  re_cfg :: dl_cfg
  re_uuid :: "nat \<Rightarrow> string"
  re_fuel :: nat \<comment> \<open>bound on the depth of the traversals\<close>

record pb_File =
  pf_Name :: string
  pf_Cdn :: string
  pf_Hashsum :: string

record DownloadParams =
  dp_Folderpath :: string
  dp_Deadline :: int
  dp_Addtoexisting :: bool
  dp_Metadatafiles :: "pb_File list"
  dp_Bulkfiles :: "pb_File list"

type_synonym 'db relay_state = "nat \<times> disk \<times> 'db FileSystem"

section \<open>Downloading\<close>

text \<open>The rows of a request (lines 65 to 89).\<close>

definition info_row :: "string \<Rightarrow> string \<Rightarrow> pb_File \<Rightarrow> string list" where
  "info_row kind deadline x = [pf_Name x, pf_Cdn x, pf_Hashsum x, kind, deadline]"

definition request_infos :: "DownloadParams \<Rightarrow> string list list" where
  "request_infos download_params =
     (let deadline = FormatInt (dp_Deadline download_params) in
      map (info_row ''metadata'' deadline) (dp_Metadatafiles download_params) @
      map (info_row ''bulkfile'' deadline) (dp_Bulkfiles download_params) @
      [[[], [], [], [], deadline]])"

definition print_all :: "'db relay_env \<Rightarrow> 'db FileSystem \<Rightarrow> unit res" where
  "print_all E fs =
     bind_res (PrintBuckets (re_bolt E) fs) (\<lambda>_. bind_res (PrintFileSystem (re_bolt E) fs (re_fuel E)) (\<lambda>_. Ok ()))"

definition answer :: "string \<Rightarrow> unit res \<Rightarrow> string res" where
  "answer message r = bind_res r (\<lambda>_. Ok message)"

text \<open>Adding files to a folder that exists (lines 90 to 113); its path is empty when the lookup fails.\<close>

definition add_to_existing ::
    "'db relay_env \<Rightarrow> string \<Rightarrow> string list list \<Rightarrow> 'db relay_state \<Rightarrow> string res \<times> 'db relay_state" where
  "add_to_existing E folderpath fileInfos = (\<lambda>(n, disk, fs).
     case GetActualPathForAbstractedPath (re_bolt E) fs folderpath of
       Panic \<Rightarrow> (Panic, n, disk, fs)
     | Diverge \<Rightarrow> (Diverge, n, disk, fs)
     | r \<Rightarrow>
         (let actualPath = (case r of Ok p \<Rightarrow> p | _ \<Rightarrow> []) in
          if actualPath = [] then (Ok ''Additional files could not be downloaded: Folder does not exist'', n, disk, fs)
          else case DownloadFiles (re_cfg E) (re_get E) (re_osf E) actualPath fileInfos disk of
            (Ok _, disk) \<Rightarrow> (Ok ''Additional Files downloaded'', n, disk, fs)
          | (Err err, disk) \<Rightarrow>
              (case deleteFilesFromExistingFolder (re_cfg E) (re_osf E) actualPath fileInfos disk of
                 Ok disk \<Rightarrow> (Ok (''Additional files could not be downloaded: '' @ err), n, disk, fs)
               | r \<Rightarrow> (bind_res r (\<lambda>_. Ok []), n, disk, fs))
          | (r, disk) \<Rightarrow> (bind_res r (\<lambda>_. Ok []), n, disk, fs)))"

definition Download :: "'db relay_env \<Rightarrow> DownloadParams \<Rightarrow> 'db relay_state \<Rightarrow> string res \<times> 'db relay_state" where
  "Download E download_params = (\<lambda>(n, disk, fs).
     let hierarchy = path_parts (dp_Folderpath download_params); fileInfos = request_infos download_params in
     case print_all E fs of
       Ok _ \<Rightarrow>
         if dp_Addtoexisting download_params
         then add_to_existing E (dp_Folderpath download_params) fileInfos (n, disk, fs)
         else
           (case CreateDownloadNewFolder (re_bolt E) (re_uuid E) (re_osf E) hierarchy
                   (DownloadFiles (re_cfg E) (re_get E) (re_osf E)) fileInfos False [] n disk fs of
              (Ok _, n, disk, fs) \<Rightarrow>
                (case print_all E fs of
                   Ok _ \<Rightarrow>
                     if length fileInfos = 1 then (Ok ''Folder created. No files to download'', n, disk, fs)
                     else (case GetActualPathForAbstractedPath (re_bolt E) fs (dp_Folderpath download_params) of
                             Panic \<Rightarrow> (Panic, n, disk, fs)
                           | Diverge \<Rightarrow> (Diverge, n, disk, fs)
                           | _ \<Rightarrow> (Ok ''Folder downloaded'', n, disk, fs))
                 | r \<Rightarrow> (answer [] r, n, disk, fs))
            | (Err err, n, disk, fs) \<Rightarrow> (Ok (''Folder not downloaded: '' @ err), n, disk, fs)
            | (r, n, disk, fs) \<Rightarrow> (answer [] r, n, disk, fs))
     | r \<Rightarrow> (answer [] r, n, disk, fs))"

section \<open>Deleting\<close>

text \<open>The path is trimmed for the recursive deletion only.\<close>

definition Delete :: "'db relay_env \<Rightarrow> string \<Rightarrow> bool \<Rightarrow> disk \<times> 'db FileSystem \<Rightarrow> string res \<times> disk \<times> 'db FileSystem" where
  "Delete E folder_path recursive = (\<lambda>(disk, fs).
     case print_all E fs of
       Ok _ \<Rightarrow>
         (case (if recursive then RecursiveDeleteFolder (re_bolt E) (re_osf E) (re_fuel E) (path_parts folder_path) (disk, fs)
                else DeleteFolder (re_bolt E) (re_osf E) (re_fuel E) (Split folder_path CHR ''/'') (disk, fs)) of
            (Ok _, disk, fs) \<Rightarrow> (answer ''Folder deleted'' (print_all E fs), disk, fs)
          | (Err err, disk, fs) \<Rightarrow> (Ok (''Folder not deleted: '' @ err), disk, fs)
          | (r, disk, fs) \<Rightarrow> (answer [] r, disk, fs))
     | r \<Rightarrow> (answer [] r, disk, fs))"

section \<open>Public keys\<close>

text \<open>
  The key is written over the beginning of the file named after the time: \<^verbatim>\<open>O_TRUNC\<close> is not among the
  flags.
\<close>

definition AddNewPublicKey ::
    "os_faults \<Rightarrow> (bytes \<Rightarrow> error + 'k) \<Rightarrow> int \<Rightarrow> string \<Rightarrow> 'k KeyManager \<times> disk \<Rightarrow> string res \<times> 'k KeyManager \<times> disk" where
  "AddNewPublicKey osf parsePEM now public_key = (\<lambda>(km, disk).
     let filePath = Join [PubkeysDir km, FormatInt now @ ''.pem''] in
     case os_OpenCreate osf filePath disk of
       (Ok _, disk) \<Rightarrow>
         (case write_start osf filePath public_key disk of
            (Ok _, disk) \<Rightarrow>
              (case AddKey osf parsePEM (Base filePath) (km, disk) of
                 (Ok _, km, disk) \<Rightarrow> (Ok ''New Public Key Added'', km, disk)
               | (Err err, km, disk) \<Rightarrow> (Ok (''New Public Key Not Added: '' @ err), km, disk)
               | (r, km, disk) \<Rightarrow> (answer [] r, km, disk))
          | (Err err, disk) \<Rightarrow> (Ok (''New Public Key Not Added: '' @ err), km, disk)
          | (r, disk) \<Rightarrow> (answer [] r, km, disk))
     | (Err err, disk) \<Rightarrow> (Ok (''New Public Key Not Added: '' @ err), km, disk)
     | (r, disk) \<Rightarrow> (answer [] r, km, disk))"

section \<open>A new folder, all or nothing\<close>

context bolt_spec
begin

text \<open>
  On a store that commits and a disk without faults, \<^verbatim>\<open>CreateDownloadNewFolder\<close> fails only because of the
  path or because the files could not be fetched.
\<close>

lemma CreateDownloadNewFolder_free:
  assumes com: "commits B" and osf: "no_faults osf" and inv: "tree_inv B fs" and fresh: "tree_of B fs node = None"
    and fit: "fits node (last hierarchy)" "fits node (homeNode fs)" "\<forall>k v. tree_of B fs k = Some v \<longrightarrow> fits k (v @ node)"
    and p: "tree_walk B fs (homeNode fs) (butlast hierarchy) = Inr p"
    and new: "new_node B uuid hierarchy fs n = (Ok (last hierarchy, node, p), m)"
    and dl: "dfunc (node_path fs node) params (mkdirs disk (node_path fs node)) = (r, d1)"
  shows "\<exists>fs2. inserted B node p (last hierarchy) fs fs2 \<and>
    CreateDownloadNewFolder B uuid osf hierarchy dfunc params False q n disk fs =
      (case r of Ok _ \<Rightarrow> (Ok (), m, d1, fs2)
       | Err e \<Rightarrow> (Err e, m, filter (\<lambda>(q, _). \<not> in_tree (node_path fs node) q) d1, fs)
       | _ \<Rightarrow> (r, m, d1, fs))"
proof -
  obtain fs1 fs2 where fs2: "put_name B node (last hierarchy) fs = (Ok (), fs1)" "InsertNode B node p fs1 = (Ok (), fs2)"
    "inserted B node p (last hierarchy) fs fs2"
    using put_insert_commits [OF com inv fresh fit p] by blast
  have "CreateDownloadNewFolder B uuid osf hierarchy dfunc params False q n disk fs =
      (case r of Ok _ \<Rightarrow> (Ok (), m, d1, fs2)
       | Err e \<Rightarrow> (Err e, m, filter (\<lambda>(q, _). \<not> in_tree (node_path fs node) q) d1, fs)
       | _ \<Rightarrow> (r, m, d1, fs))"
    using osf new dl fs2(1,2) fit(1)
    by (simp add: fits_def CreateDownloadNewFolder_def os_MkdirAll_def os_RemoveAll_def split: res.split)
  with fs2(3) show ?thesis by blast
qed

end

section \<open>Properties\<close>

text \<open>
  C10: A folder is created with all its files or not at all. On a well-formed hierarchy, with a store that
  commits and a disk without faults, let \<^verbatim>\<open>CreateDownloadNewFolder\<close> run a callback that neither panics nor
  hangs. If it succeeds, the callback has succeeded in the new folder's directory, and the path then
  resolves to the new folder while every other path resolves as before. If it fails, the hierarchy is
  unchanged, and either the disk is unchanged too (the path could not be used) or the callback failed
  and nothing is left at or below the directory that had been created.
\<close>

theorem new_folder_all_or_nothing:
  assumes "bolt_spec B" "commits B" "no_faults osf" and inv: "tree_inv B fs"
    and draw: "RandStringBytes uuid (homeNode fs) n = Some (node, m)"
    and fresh: "tree_of B fs node = None" "length node = nodeLength fs"
    and fit: "fits node (last hierarchy)" "fits node (homeNode fs)" "\<forall>k v. tree_of B fs k = Some v \<longrightarrow> fits k (v @ node)"
    and h: "hierarchy \<noteq> []"
    and dl: "dfunc (node_path fs node) params (mkdirs disk (node_path fs node)) = (r, d1)" "r = Ok () \<or> (\<exists>e. r = Err e)"
  shows "case CreateDownloadNewFolder B uuid osf hierarchy dfunc params False [] n disk fs of
    (Ok _, _, disk', fs') \<Rightarrow> r = Ok () \<and> disk' = d1 \<and> tree_inv B fs' \<and> getNodeForPath B fs' hierarchy = Ok node \<and>
      (\<forall>h'. \<not> prefix hierarchy h' \<longrightarrow> getNodeForPath B fs' h' = getNodeForPath B fs h')
  | (Err e, _, disk', fs') \<Rightarrow> fs' = fs \<and>
      (disk' = disk \<or> r = Err e \<and> (\<forall>q. in_tree (node_path fs node) q \<longrightarrow> \<not> os_exists disk' q))
  | _ \<Rightarrow> False"
  using inv h draw
proof (cases rule: new_node_cases)
  case (free p)
  from bolt_spec.CreateDownloadNewFolder_free [where osf = osf and dfunc = dfunc, OF assms(1-4) fresh(1) fit free(1,3) dl(1)]
  obtain fs2 where fs2: "inserted B node p (last hierarchy) fs fs2"
    "CreateDownloadNewFolder B uuid osf hierarchy dfunc params False [] n disk fs =
      (case r of Ok _ \<Rightarrow> (Ok (), m, d1, fs2)
       | Err e \<Rightarrow> (Err e, m, filter (\<lambda>(q, _). \<not> in_tree (node_path fs node) q) d1, fs)
       | _ \<Rightarrow> (r, m, d1, fs))" by blast
  note look = inserted_lookup [OF inv fs2(1) fresh free(1,2) h]
  from look(2) [of "[]"] have "getNodeForPath B fs2 hierarchy = Ok node" by simp
  with look(1,3) dl(2) show ?thesis unfolding fs2(2) by (auto simp: os_exists_def removed_lookup)
qed (auto simp: CreateDownloadNewFolder_def)

theorem new_folder_all_or_nothing_witness:
  "case CreateDownloadNewFolder mem_bolt (\<lambda>_. ''b'') (\<lambda>_ _. None) [''tv'', ''news''] (\<lambda>_ _ d. (Ok (), d)) [] False [] 0 [] demo_tree of
     (r, _, _, fs') \<Rightarrow> is_Ok r \<and> getNodeForPath mem_bolt fs' [''tv'', ''news''] = Ok ''b''"
proof -
  have free: "new_node mem_bolt (\<lambda>_. ''b'') [''tv'', ''news''] demo_tree 0 = (Ok (''news'', ''b'', ''a''), 1)"
    by (simp add: new_node_def demo_draw [simplified] getNodeForPath_walk [OF demo_inv] children_names [OF demo_inv] demo_kids)
  have fit: "\<forall>k v. tree_of mem_bolt demo_tree k = Some v \<longrightarrow> fits k (v @ ''b'')" by (simp add: fits_def max_key_def max_value_def)
  note out = new_folder_all_or_nothing [OF mem_bolt_spec mem_commits _ demo_inv demo_draw _ _ _ _ fit,
      where osf = "\<lambda>_ _. None" and hierarchy = "[''tv'', ''news'']" and dfunc = "\<lambda>_ _ d. (Ok (), d)" and params = "[]"
        and disk = "[]" and r = "Ok ()"]
  obtain fs1 fs2 where "put_name mem_bolt ''b'' ''news'' demo_tree = (Ok (), fs1)" "InsertNode mem_bolt ''b'' ''a'' fs1 = (Ok (), fs2)"
    using mem.put_insert_commits [OF mem_commits demo_inv _ _ _ fit, of "''news''" "[''tv'']" "''a''"]
    by (auto simp: fits_def max_key_def max_value_def demo_kids)
  then have "is_Ok (fst (CreateDownloadNewFolder mem_bolt (\<lambda>_. ''b'') (\<lambda>_ _. None) [''tv'', ''news''] (\<lambda>_ _ d. (Ok (), d)) [] False [] 0 [] demo_tree))"
    by (simp add: CreateDownloadNewFolder_def free os_MkdirAll_def)
  with out show ?thesis
    by (auto simp: fits_def max_key_def max_value_def split: prod.splits res.splits)
qed

text \<open>
  A folder given with a leading slash cannot be deleted without the recursive flag. The handler
  splits the path as it is, so its first component is the empty name: on a well-formed hierarchy without
  a folder of that name the answer is that the folder could not be found, whatever the rest of the path,
  and nothing is changed. With the recursive flag the same path is trimmed first.
\<close>

theorem delete_leading_slash:
  assumes inv: "tree_inv (re_bolt E) fs" and print: "print_all E fs = Ok ()"
    and names: "\<forall>c \<in> set (kids (re_bolt E) fs (homeNode fs)). name_of (re_bolt E) fs c \<noteq> Some []"
  shows "Delete E (CHR ''/'' # path) False (disk, fs) = (Ok (''Folder not deleted: '' @ no_folder []), disk, fs)"
proof -
  have "find (\<lambda>c. name_of (re_bolt E) fs c = Some []) (kids (re_bolt E) fs (homeNode fs)) = None"
    using names by (simp add: find_None_iff)
  then have "getNodeForPath (re_bolt E) fs (Split (CHR ''/'' # path) CHR ''/'') = Err (no_folder [])"
    by (simp add: getNodeForPath_walk [OF inv])
  then show ?thesis using print by (simp add: Delete_def DeleteFolder_def)
qed

definition demo_relay :: "mem_db relay_env" where
  "demo_relay = \<lparr>re_bolt = mem_bolt, re_osf = \<lambda>_ _. None, re_get = \<lambda>_ _. Inl [], re_cfg = demo_cfg, re_uuid = \<lambda>_. ''b'', re_fuel = 9\<rparr>"

text \<open>The small hierarchy in a store that also has the buckets of the content index.\<close>

definition demo_full :: "mem_db FileSystem" where
  "demo_full = demo_tree\<lparr>nodesDB := (nodesDB demo_tree)
     (AssetPathMapping \<mapsto> [], SatelliteIdtoAssetIdMapping \<mapsto> [], PendingAPIRequestMapping \<mapsto> [])\<rparr>"

lemma demo_full_simps [simp]:
  "tree_of mem_bolt demo_full = [''h'' \<mapsto> ''ha'', ''a'' \<mapsto> ''h'']"
  "name_of mem_bolt demo_full = [''h'' \<mapsto> ''home'', ''a'' \<mapsto> ''tv'']"
  "nodeLength demo_full = 1" "homeNode demo_full = ''h''"
  "bolt_bucket mem_bolt (nodesDB demo_full) b \<longleftrightarrow>
     b \<in> {Tree, FolderNameMapping, AssetPathMapping, SatelliteIdtoAssetIdMapping, PendingAPIRequestMapping}"
  by (auto simp: demo_full_def demo_tree_def mem_defs)

lemma demo_full_kids: "kids mem_bolt demo_full k = (if k = ''h'' then [''a''] else [])"
  by (simp add: kids_def slots.simps)

lemma demo_full_inv: "tree_inv mem_bolt demo_full"
  by (simp add: tree_inv_def demo_full_kids)

lemma demo_full_prints: "print_all demo_relay demo_full = Ok ()"
  by (simp add: print_all_def demo_relay_def PrintBuckets_def bucket_items_def PrintFileSystem_def numeral_eq_Suc
      name_or_empty_def children_or_empty_def GetFolderNameForNode_def GetChildrenForNode_def bucket_get_def for_children.simps)

theorem delete_leading_slash_witness:
  "Delete demo_relay ''/tv'' False ([], demo_full) = (Ok (''Folder not deleted: '' @ no_folder []), [], demo_full) \<and>
   getNodeForPath mem_bolt demo_full (path_parts ''/tv'') = Ok ''a''"
proof -
  have b: "re_bolt demo_relay = mem_bolt" by (simp add: demo_relay_def)
  have "Delete demo_relay ''/tv'' False ([], demo_full) = (Ok (''Folder not deleted: '' @ no_folder []), [], demo_full)"
    by (rule delete_leading_slash) (simp_all add: b demo_full_inv demo_full_prints demo_full_kids)
  then show ?thesis by (simp add: path_parts_def Trim_def getNodeForPath_walk [OF demo_full_inv] demo_full_kids)
qed

end
