(* ===== verification/Receiver_Folders.thy ===== *)
theory Receiver_Folders
  imports Method_Calls Telemetry_Logger
begin

text \<open>
  The older ways to bring contents from the satellite receiver into the folder hierarchy:
  \<^verbatim>\<open>getMstoreFiles_Old\<close> of \<^verbatim>\<open>src/satdata_mstore.go\<close> (lines 364 to 562), which marks the last folder of the
  path as a satellite folder whose files stay with the receiver, and \<^verbatim>\<open>src/satdata_noovo.go\<close>, which
  downloads the files of every folder of the path. Both group the files of a content by folder. The
  records have the fields the code reads. In \<^verbatim>\<open>getMstoreFiles_Old\<close> the flag \<^verbatim>\<open>deleteFlag\<close> is always false,
  so its calls of \<^verbatim>\<open>deleteAPI\<close> are never made.
\<close>

section \<open>Contents and their files\<close>

record FileInfo =
  fi_Name :: string
  fi_Hashsum :: string

record folder_file =
  ff_Filename :: string
  ff_Checksum :: string
  ff_FolderId :: string

record OldVodInfo =
  ov_MediaId :: string
  ov_MediaHouse :: string
  ov_AncestorIds :: string
  ov_MetadataFiles :: "folder_file list"
  ov_BulkFiles :: "folder_file list"
  ov_CID :: string
  ov_ValidityEndDate :: int
  ov_VideoFilename :: string
  ov_CoverFilename :: string
  ov_URLForDataFiles :: string
  ov_DataFiles :: "string list"
  ov_ThumbnailFilename :: string

record VodObj =
  no_DataFiles :: "string list"
  no_MediaHouse :: string
  no_MediaId :: string
  no_MetadataFiles :: "folder_file list"
  no_PushId :: int
  no_AncestorIds :: string
  no_BulkFiles :: "folder_file list"
  no_Movie :: string
  no_MovieID :: string
  no_ValidityEndDate :: int
  no_Cover :: string
  no_Thumbnail :: string

text \<open>A map of strings, where a missing key reads as the empty string; later entries replace earlier ones.\<close>

definition string_map :: "(string \<times> string) list \<Rightarrow> string \<Rightarrow> string" where
  "string_map kvs = foldl (\<lambda>m (k, v). m(k := v)) (\<lambda>_. []) kvs"

definition group_files :: "folder_file list \<Rightarrow> string \<Rightarrow> FileInfo list" where
  "group_files entries =
     foldl (\<lambda>m e. m(ff_FolderId e := m (ff_FolderId e) @ [\<lparr>fi_Name = ff_Filename e, fi_Hashsum = ff_Checksum e\<rparr>])) (\<lambda>_. []) entries"

definition content_path :: "string \<Rightarrow> string \<Rightarrow> string \<Rightarrow> string" where
  "content_path mediaHouse ancestorIds mediaId =
     (if ancestorIds \<noteq> [] then mediaHouse @ ancestorIds @ ''/'' @ mediaId else mediaHouse @ ''/'' @ mediaId)"

definition already_exists :: error where
  "already_exists = ''[Filesystem][CreateFolder] A folder with the same name at the requested level already exists''"

section \<open>The first receiver\<close>

definition populateFileInfos ::
    "string \<Rightarrow> (string \<Rightarrow> FileInfo list) \<Rightarrow> (string \<Rightarrow> FileInfo list) \<Rightarrow> (string \<Rightarrow> string) \<Rightarrow> int \<Rightarrow> string list list" where
  "populateFileInfos folder folderMetadataFilesMap folderBulkFilesMap filepathMap deadline =
     (let row = (\<lambda>kind x. [fi_Name x, filepathMap (fi_Name x), fi_Hashsum x, kind, FormatInt deadline]) in
      map (row ''metadata'') (folderMetadataFilesMap folder) @ map (row ''bulkfile'') (folderBulkFilesMap folder) @
      [[[], [], [], [], FormatInt deadline]])"

definition old_filepathMap :: "OldVodInfo \<Rightarrow> string \<Rightarrow> string" where
  "old_filepathMap vod =
     string_map
       ([(Base (ov_ThumbnailFilename vod), ov_ThumbnailFilename vod), (Base (ov_CoverFilename vod), ov_CoverFilename vod),
         (Base (ov_VideoFilename vod), ov_VideoFilename vod)] @
        map (\<lambda>f. (Base f, ov_URLForDataFiles vod @ f)) (ov_DataFiles vod))"

text \<open>
  The loop over the folders above the last one (lines 437 to 468): each is created with its files, and
  one that exists is left as it is. \<open>infos\<close> gives the rows of a folder.
\<close>

fun create_parents ::
    "'db relay_env \<Rightarrow> (string \<Rightarrow> string list list) \<Rightarrow> string list \<Rightarrow> string \<Rightarrow> 'db relay_state \<Rightarrow> unit res \<times> 'db relay_state" where
  "create_parents E infos [] subpath s = (Ok (), s)"
| "create_parents E infos (folder # rest) subpath (n, disk, fs) =
     (let subpath = subpath @ folder @ ''/'' in
      case PrintBuckets (re_bolt E) fs of
        Ok _ \<Rightarrow>
          (case CreateDownloadNewFolder (re_bolt E) (re_uuid E) (re_osf E) (path_parts subpath)
                  (copyFiles (re_cfg E) (re_osf E)) (infos folder) False [] n disk fs of
             (Ok _, s) \<Rightarrow> create_parents E infos rest subpath s
           | (Err err, s) \<Rightarrow> if err = already_exists then create_parents E infos rest subpath s else (Err err, s)
           | (r, s) \<Rightarrow> (r, s))
      | r \<Rightarrow> (bind_res r (\<lambda>_. Ok ()), n, disk, fs))"

definition log_info :: "Logger \<Rightarrow> log_env \<Rightarrow> string \<Rightarrow> log_state \<Rightarrow> log_state" where
  "log_info l G text lg = snd (Log l G Info (zero_MessageSubType\<lparr>StringMessage := text\<rparr>) lg)"

definition getMstoreFiles_Old ::
    "'db relay_env \<Rightarrow> Logger \<Rightarrow> log_env \<Rightarrow> OldVodInfo \<Rightarrow> log_state \<times> 'db relay_state \<Rightarrow>
     unit res \<times> log_state \<times> 'db relay_state" where
  "getMstoreFiles_Old E l G vod = (\<lambda>(lg, n, disk, fs).
     let heirarchy = content_path (ov_MediaHouse vod) (ov_AncestorIds vod) (ov_MediaId vod);
         hierarchy = path_parts heirarchy;
         infos = (\<lambda>folder. populateFileInfos folder (group_files (ov_MetadataFiles vod)) (group_files (ov_BulkFiles vod))
           (old_filepathMap vod) (ov_ValidityEndDate vod)) in
     case GetActualPathForAbstractedPath (re_bolt E) fs heirarchy of
       Panic \<Rightarrow> (Panic, lg, n, disk, fs)
     | Diverge \<Rightarrow> (Diverge, lg, n, disk, fs)
     | r \<Rightarrow>
         if (case r of Ok path \<Rightarrow> path | _ \<Rightarrow> []) \<noteq> []
         then (Ok (), log_info l G (''SatdataMstore: '' @ heirarchy @ '' already exist.'') lg, n, disk, fs)
         else
           (case create_parents E infos (butlast hierarchy) [] (n, disk, fs) of
              (Ok _, n, disk, fs) \<Rightarrow>
                (case PrintBuckets (re_bolt E) fs of
                   Ok _ \<Rightarrow>
                     (case CreateDownloadNewFolder (re_bolt E) (re_uuid E) (re_osf E) hierarchy
                             (generateSatelliteFolderIntegrity (re_osf E)) (infos (last hierarchy)) True
                             (Dir (ov_VideoFilename vod)) n disk fs of
                        (Ok _, n, disk, fs) \<Rightarrow>
                          (bind_res (PrintBuckets (re_bolt E) fs) (\<lambda>_.
                             case GetActualPathForAbstractedPath (re_bolt E) fs heirarchy of
                               Panic \<Rightarrow> Panic | Diverge \<Rightarrow> Diverge | _ \<Rightarrow> Ok ()), lg, n, disk, fs)
                      | (r, s) \<Rightarrow> (r, lg, s))
                 | r \<Rightarrow> (bind_res r (\<lambda>_. Ok ()), lg, n, disk, fs))
            | (r, s) \<Rightarrow> (r, lg, s)))"

section \<open>The second receiver\<close>

text \<open>
  Filling the rows of a folder (lines 174 to 193). \<^verbatim>\<open>make\<close> leaves the rows nil. The loop over the bulk
  files allocates row \<open>i\<close> and then assigns to row \<open>metafilesLen + i\<close>: an index out of range when that one
  is still nil.
\<close>

fun fill_bulk :: "nat \<Rightarrow> (FileInfo \<Rightarrow> string list) \<Rightarrow> nat \<Rightarrow> FileInfo list \<Rightarrow> string list list \<Rightarrow> string list list res" where
  "fill_bulk metafilesLen row i [] fileInfos = Ok fileInfos"
| "fill_bulk metafilesLen row i (x # xs) fileInfos =
     (let fileInfos = fileInfos[i := replicate 5 []] in
      if length (fileInfos ! (metafilesLen + i)) < 5 then Panic
      else fill_bulk metafilesLen row (i + 1) xs (fileInfos[metafilesLen + i := row x]))"

definition noovo_infos ::
    "string \<Rightarrow> string \<Rightarrow> (string \<Rightarrow> string) \<Rightarrow> int \<Rightarrow> FileInfo list \<Rightarrow> FileInfo list \<Rightarrow> string list list res" where
  "noovo_infos pushId folder filesURLMap deadline metas bulks =
     (let row = (\<lambda>kind x. [fi_Name x, filesURLMap (pushId @ ''_'' @ folder @ ''_'' @ fi_Name x), fi_Hashsum x, kind, FormatInt deadline]) in
      bind_res (fill_bulk (length metas) (row ''bulkfile'') 0 bulks
          (map (row ''metadata'') metas @ replicate (length bulks + 1) [])) (\<lambda>fileInfos.
        Ok (fileInfos[length metas + length bulks := [[], [], [], [], FormatInt deadline]])))"

definition noovo_urls :: "VodObj \<Rightarrow> string \<Rightarrow> string" where
  "noovo_urls vod =
     string_map
       ([(Base (no_Thumbnail vod), no_Thumbnail vod), (Base (no_Cover vod), no_Cover vod), (Base (no_Movie vod), no_Movie vod)] @
        map (\<lambda>f. (Base f, f)) (no_DataFiles vod))"

text \<open>
  The text that the error is compared with (line 200) lacks the space that the error has.
\<close>

definition compared_text :: error where
  "compared_text = ''[Filesystem][CreateFolder]A folder with the same name at the requested level already exists''"

fun download_folders ::
    "'db relay_env \<Rightarrow> (string \<Rightarrow> string list list res) \<Rightarrow> string list \<Rightarrow> string \<Rightarrow> 'db relay_state \<Rightarrow> unit res \<times> 'db relay_state" where
  "download_folders E infos [] subpath s = (Ok (), s)"
| "download_folders E infos (folder # rest) subpath (n, disk, fs) =
     (let subpath = subpath @ folder @ ''/'' in
      case bind_res (print_all E fs) (\<lambda>_. infos folder) of
        Ok fileInfos \<Rightarrow>
          (case CreateDownloadNewFolder (re_bolt E) (re_uuid E) (re_osf E) (path_parts subpath)
                  (DownloadFiles (re_cfg E) (re_get E) (re_osf E)) fileInfos False [] n disk fs of
             (Ok _, n, disk, fs) \<Rightarrow>
               (case print_all E fs of
                  Ok _ \<Rightarrow> download_folders E infos rest subpath (n, disk, fs)
                | r \<Rightarrow> (r, n, disk, fs))
           | (Err err, s) \<Rightarrow> if err = compared_text then download_folders E infos rest subpath s else (Err err, s)
           | (r, s) \<Rightarrow> (r, s))
      | r \<Rightarrow> (bind_res r (\<lambda>_. Ok ()), n, disk, fs))"

definition downloadContent :: "'db relay_env \<Rightarrow> VodObj \<Rightarrow> string \<Rightarrow> 'db relay_state \<Rightarrow> unit res \<times> 'db relay_state" where
  "downloadContent E vod heirarchy =
     download_folders E
       (\<lambda>folder. noovo_infos (FormatInt (no_PushId vod)) folder (noovo_urls vod) (no_ValidityEndDate vod)
          (group_files (no_MetadataFiles vod) folder) (group_files (no_BulkFiles vod) folder))
       (path_parts heirarchy) []"

text \<open>\<^verbatim>\<open>^BINE.\<close>: the four letters and any character but a line feed.\<close>

definition matches_BINE :: "string \<Rightarrow> bool" where
  "matches_BINE s \<longleftrightarrow> HasPrefix s ''BINE'' \<and> 4 < length s \<and> s ! 4 \<noteq> CHR 10"

text \<open>One content of the loop of \<^verbatim>\<open>callNoovoAPI\<close>; the errors of a content are printed.\<close>

definition noovo_content :: "'db relay_env \<Rightarrow> VodObj \<Rightarrow> 'db relay_state \<Rightarrow> 'db relay_state res" where
  "noovo_content E vod = (\<lambda>(n, disk, fs).
     if \<not> matches_BINE (no_MovieID vod) then Ok (n, disk, fs)
     else
       (let heirarchy = content_path (no_MediaHouse vod) (no_AncestorIds vod) (no_MediaId vod) in
        case GetActualPathForAbstractedPath (re_bolt E) fs heirarchy of
          Panic \<Rightarrow> Panic
        | Diverge \<Rightarrow> Diverge
        | r \<Rightarrow>
            if (case r of Ok path \<Rightarrow> path | _ \<Rightarrow> []) \<noteq> [] then Ok (n, disk, fs)
            else case downloadContent E vod heirarchy (n, disk, fs) of
              (Ok _, n, disk, fs) \<Rightarrow>
                (case GetActualPathForAbstractedPath (re_bolt E) fs heirarchy of
                   Panic \<Rightarrow> Panic | Diverge \<Rightarrow> Diverge | _ \<Rightarrow> Ok (n, disk, fs))
            | (Err _, s) \<Rightarrow> Ok s
            | (Panic, _) \<Rightarrow> Panic
            | (Diverge, _) \<Rightarrow> Diverge))"

definition callNoovoAPI ::
    "'db relay_env \<Rightarrow> (error + bytes) \<Rightarrow> (bytes \<Rightarrow> VodObj list \<times> error option) \<Rightarrow> 'db relay_state \<Rightarrow>
     (error option \<times> 'db relay_state) res" where
  "callNoovoAPI E response decode s =
     (case response of
        Inl err \<Rightarrow> Ok (Some err, s)
      | Inr jsonRes \<Rightarrow>
          (case decode jsonRes of
             (_, Some jsonErr) \<Rightarrow> Ok (Some jsonErr, s)
           | (vods, None) \<Rightarrow> bind_res (fold_res (noovo_content E) vods s) (\<lambda>s. Ok (None, s))))"

section \<open>What the second receiver can bring in\<close>

lemma group_files_filter:
  "group_files es f = map (\<lambda>e. \<lparr>fi_Name = ff_Filename e, fi_Hashsum = ff_Checksum e\<rparr>) (filter (\<lambda>e. ff_FolderId e = f) es)"
  unfolding group_files_def by (induction es rule: rev_induct) auto

text \<open>A folder with both kinds of files.\<close>

lemma noovo_bulk_panics:
  assumes "metas \<noteq> []" "bulks \<noteq> []"
  shows "noovo_infos pushId folder urls deadline metas bulks = Panic"
proof -
  obtain m ms b bs where "metas = m # ms" "bulks = b # bs" using assms by (metis list.exhaust)
  then show ?thesis by (simp add: noovo_infos_def nth_append Let_def)
qed

text \<open>A folder with files of one kind, as it is meant to be.\<close>

lemma fill_bulk_only:
  "fill_bulk 0 row i xs rows =
     Ok (take i rows @ map row xs @ drop (i + length xs) rows)" if "i + length xs \<le> length rows"
  using that
proof (induction xs arbitrary: i rows)
  case (Cons x xs)
  let ?rows = "rows[i := row x]"
  have "take (Suc i) ?rows = take i rows @ [row x]" using Cons.prems by (simp add: take_Suc_conv_app_nth)
  with Cons show ?case by (simp add: Let_def)
qed simp

lemma noovo_metas_only:
  "noovo_infos pushId folder urls deadline metas [] =
     Ok (map (\<lambda>x. [fi_Name x, urls (pushId @ ''_'' @ folder @ ''_'' @ fi_Name x), fi_Hashsum x, ''metadata'', FormatInt deadline]) metas @
         [[[], [], [], [], FormatInt deadline]])"
  by (simp add: noovo_infos_def list_update_append)

section \<open>Properties\<close>

text \<open>
  The second receiver can use every folder for one content only. When the first folder of a
  content's path exists, which is the media house all its contents share, \<^verbatim>\<open>downloadContent\<close> ends with the
  error that the folder exists, and neither the hierarchy nor the disk changes: the text with which the
  loop recognises this error lacks a space. The first receiver compares with the right text.
\<close>

theorem noovo_existing_folder:
  assumes inv: "tree_inv (re_bolt E) fs" and print: "print_all E fs = Ok ()"
    and draw: "RandStringBytes (re_uuid E) (homeNode fs) n = Some (node, m)"
    and path: "path_parts heirarchy = folder # rest" "folder \<noteq> []"
    and folder: "getNodeForPath (re_bolt E) fs [folder] = Ok k"
    and files: "group_files (no_MetadataFiles vod) folder = [] \<or> group_files (no_BulkFiles vod) folder = []"
  shows "downloadContent E vod heirarchy (n, disk, fs) = (Err already_exists, m, disk, fs)"
proof -
  have slash: "CHR ''/'' \<notin> set folder" using path(1) Split_parts [of folder "Trim heirarchy CHR ''/''"] by (simp add: path_parts_def)
  have trim: "Trim (folder @ ''/'') CHR ''/'' = folder"
  proof -
    from path(2) obtain x xs where x: "folder = x # xs" by (metis list.exhaust)
    from path(2) obtain y ys where y: "folder = ys @ [y]" by (metis rev_exhaust)
    have "x \<noteq> CHR ''/''" using slash unfolding x by auto
    then have "dropWhile (\<lambda>x. x = CHR ''/'') (folder @ ''/'') = folder @ ''/''" by (simp add: x)
    moreover have "y \<noteq> CHR ''/''" using slash unfolding y by auto
    then have "dropWhile (\<lambda>x. x = CHR ''/'') (rev folder) = rev folder" by (simp add: y)
    ultimately show ?thesis by (simp add: Trim_def)
  qed
  then have "path_parts (folder @ ''/'') = [folder]" using slash by (simp add: path_parts_def Split_no_sep)
  moreover have "new_node (re_bolt E) (re_uuid E) [folder] fs n = (Err already_exists, m)"
  proof -
    have "[folder] \<noteq> []" by simp
    from inv this draw show ?thesis
    proof (cases rule: new_node_cases)
      case (free p)
      with folder show ?thesis by (auto simp: getNodeForPath_walk [OF inv])
    qed (simp_all add: getNodeForPath_def already_exists_def)
  qed
  moreover obtain infos where "noovo_infos (FormatInt (no_PushId vod)) folder (noovo_urls vod) (no_ValidityEndDate vod)
      (group_files (no_MetadataFiles vod) folder) (group_files (no_BulkFiles vod) folder) = Ok infos"
    using files noovo_metas_only fill_bulk_only [of 0] by (fastforce simp: noovo_infos_def Let_def)
  moreover have "already_exists \<noteq> compared_text" by (simp add: already_exists_def compared_text_def)
  ultimately show ?thesis
    using print path by (simp add: downloadContent_def CreateDownloadNewFolder_def)
qed

definition demo_vod :: VodObj where
  "demo_vod = \<lparr>no_DataFiles = [], no_MediaHouse = ''tv'', no_MediaId = ''news'', no_MetadataFiles = [], no_PushId = 1,
     no_AncestorIds = [], no_BulkFiles = [], no_Movie = [], no_MovieID = ''BINE1'', no_ValidityEndDate = 5, no_Cover = [],
     no_Thumbnail = []\<rparr>"

theorem noovo_existing_folder_witness:
  "downloadContent demo_relay demo_vod ''tv/news'' (0, [], demo_full) = (Err already_exists, 1, [], demo_full)"
proof -
  have b: "re_bolt demo_relay = mem_bolt" "re_uuid demo_relay = (\<lambda>_. ''b'')" by (simp_all add: demo_relay_def)
  have draw: "RandStringBytes (\<lambda>_. ''b'') ''h'' 0 = Some (''b'', 1)" using demo_draw by simp
  show ?thesis
    by (rule noovo_existing_folder [where folder = "''tv''" and rest = "[''news'']" and k = "''a''"])
      (simp_all add: b demo_full_inv demo_full_prints draw path_parts_def Trim_def getNodeForPath_walk [OF demo_full_inv] demo_full_kids
        demo_vod_def group_files_def)
qed

end
