(* ===== verification/Content_Expiry.thy ===== *)
theory Content_Expiry
  imports Receiver_Folders Folder_Removal
begin

text \<open>
  The deletion of expired folders, \<^verbatim>\<open>src/delete_content.go\<close>: the hierarchy is walked from the home folder, the
  date in \<^verbatim>\<open>deadline.txt\<close> of each folder is compared with the clock, and an expired folder is deleted with
  everything below it and with the parents that become empty. \<open>now disk\<close> is the clock at that moment.
\<close>

section \<open>One folder\<close>

text \<open>At most 64 bytes are read; neither the error of reading nor the one of parsing is looked at.\<close>

definition getDeadline :: "os_faults \<Rightarrow> disk \<Rightarrow> string \<Rightarrow> int \<times> error option" where
  "getDeadline osf disk path =
     (case os_Open osf (Join [path, ''deadline.txt'']) disk of
        Ok f \<Rightarrow> (fst (ParseInt 64 (take 64 (case f of None \<Rightarrow> [] | Some content \<Rightarrow> content))), None)
      | Err err \<Rightarrow> (-1, Some err)
      | _ \<Rightarrow> (-1, Some []))"

definition deadline_error :: "error option \<Rightarrow> error" where
  "deadline_error err =
     ''Error in getting the deadline: %!(EXTRA '' @ (case err of None \<Rightarrow> ''<nil>'' | Some e \<Rightarrow> ''*fs.PathError='' @ e) @ '')''"

definition checkDeadlineAndDelete ::
    "'db relay_env \<Rightarrow> (disk \<Rightarrow> int) \<Rightarrow> string \<Rightarrow> string \<Rightarrow> disk \<times> 'db FileSystem \<Rightarrow> unit res \<times> disk \<times> 'db FileSystem" where
  "checkDeadlineAndDelete E now path actualPathPrefix = (\<lambda>(disk, fs).
     case getDeadline (re_osf E) disk path of (deadline, err) \<Rightarrow>
       if err \<noteq> None \<or> deadline < 0 then (Err (deadline_error err), disk, fs)
       else if deadline < now disk
         then RecursiveDeleteFolder (re_bolt E) (re_osf E) (re_fuel E) (path_parts actualPathPrefix) (disk, fs)
       else (Ok (), disk, fs))"

section \<open>The hierarchy\<close>

type_synonym 'db expiry_state = "log_state \<times> disk \<times> 'db FileSystem"

definition log_expiry :: "Logger \<Rightarrow> log_env \<Rightarrow> error \<Rightarrow> log_state \<Rightarrow> log_state" where
  "log_expiry l G err lg = snd (Log l G Error (zero_MessageSubType\<lparr>StringMessage := ''DeleteContentOnExpiry: '' @ err\<rparr>) lg)"

text \<open>A loop over the slots of a node that may be left early.\<close>

function slots_until :: "nat \<Rightarrow> (bytes \<Rightarrow> 's \<Rightarrow> (bool \<times> 's) res) \<Rightarrow> bytes \<Rightarrow> 's \<Rightarrow> 's res" where
  "slots_until n f rest s =
     (if rest = [] then Ok s
      else if n = 0 then Diverge
      else if length rest < n then Panic
      else bind_res (f (take n rest) s) (\<lambda>(go_on, s). if go_on then slots_until n f (drop n rest) s else Ok s))"
  by pat_completeness auto
termination
  by (relation "measure (\<lambda>(n, f, rest, s). length rest)") auto

declare slots_until.simps [simp del]

text \<open>
  \<^verbatim>\<open>traverse\<close>; its result, the path of the folder, is not used. The first folder whose date cannot be
  read ends the loop over its siblings.
\<close>

fun traverse ::
    "'db relay_env \<Rightarrow> Logger \<Rightarrow> log_env \<Rightarrow> (disk \<Rightarrow> int) \<Rightarrow> nat \<Rightarrow> bytes \<Rightarrow> string \<Rightarrow> 'db expiry_state \<Rightarrow> 'db expiry_state res" where
  "traverse E l G now 0 node pre s = Diverge"
| "traverse E l G now (Suc fuel) node pre (lg, disk, fs) =
     (case GetChildrenForNode (re_bolt E) fs node of
        Panic \<Rightarrow> Panic
      | Diverge \<Rightarrow> Diverge
      | r \<Rightarrow>
          (let children = (case r of Ok c \<Rightarrow> c | _ \<Rightarrow> []);
               lg = (case r of Err err \<Rightarrow> log_expiry l G err lg | _ \<Rightarrow> lg)
           in if length children = nodeLength fs \<and> CHR ''/'' \<in> set pre then Ok (lg, disk, fs)
              else slots_until (nodeLength fs)
                (\<lambda>child (lg, disk, fs).
                   bind_res (name_or_empty (re_bolt E) fs child) (\<lambda>actualName.
                     case checkDeadlineAndDelete E now (Join [GetHomeFolder fs, child]) (pre @ ''/'' @ actualName) (disk, fs) of
                       (Ok _, disk, fs) \<Rightarrow>
                         bind_res (traverse E l G now fuel child (pre @ ''/'' @ actualName) (lg, disk, fs)) (\<lambda>s. Ok (True, s))
                     | (Err err, disk, fs) \<Rightarrow> Ok (False, log_expiry l G err lg, disk, fs)
                     | (Panic, _) \<Rightarrow> Panic
                     | (Diverge, _) \<Rightarrow> Diverge))
                (drop (nodeLength fs) children) (lg, disk, fs)))"

text \<open>One pass of the endless loop of \<^verbatim>\<open>deleteContent\<close>.\<close>

definition deleteContent_pass ::
    "'db relay_env \<Rightarrow> Logger \<Rightarrow> log_env \<Rightarrow> (disk \<Rightarrow> int) \<Rightarrow> 'db expiry_state \<Rightarrow> 'db expiry_state res" where
  "deleteContent_pass E l G now s =
     bind_res (print_all E (snd (snd s))) (\<lambda>_.
     bind_res (traverse E l G now (re_fuel E) (homeNode (snd (snd s))) [] s) (\<lambda>s.
     bind_res (print_all E (snd (snd s))) (\<lambda>_. Ok s)))"

section \<open>The stored date\<close>

lemma storeDeadline_Ok:
  assumes "storeDeadline osf path deadline disk = (Ok (), disk')" "\<not> os_exists disk (Join [path, ''deadline.txt''])"
    "osf (Stat (Join [path, ''deadline.txt''])) disk = None"
  shows "map_of disk' q = (if q = Join [path, ''deadline.txt''] then Some (File deadline) else map_of disk q)"
  using assms
  by (auto simp: storeDeadline_def IsNotExist_def os_OpenCreate_def write_start_def content_of_def os_exists_def Let_def
      split: option.splits if_splits)

lemma int64_length: "- (2 ^ 63) \<le> t \<Longrightarrow> t < 2 ^ 63 \<Longrightarrow> length (FormatInt t) \<le> 64"
  using FormatInt_length [of t 19] by (simp add: abs_less_iff)

lemma getDeadline_stored:
  assumes "map_of disk (Join [path, ''deadline.txt'']) = Some (File (FormatInt t))" "- (2 ^ 63) \<le> t" "t < 2 ^ 63"
    and "osf (OpenRead (Join [path, ''deadline.txt''])) disk = None" "osf (Read (Join [path, ''deadline.txt''])) disk = None"
  shows "getDeadline osf disk path = (t, None)"
  using assms ParseInt_FormatInt [of 64 t] int64_length [of t] by (simp add: getDeadline_def os_Open_def)

section \<open>Properties\<close>

text \<open>
  C24: The date stored with a folder decides about its deletion. After \<^verbatim>\<open>storeDeadline\<close> has succeeded in a
  directory without a date before, and if the date can be read, \<^verbatim>\<open>getDeadline\<close> returns the stored time, for every time
  of 64 bits. With a negative time \<^verbatim>\<open>checkDeadlineAndDelete\<close> only returns an error, and with any other it does
  nothing as long as the clock has not passed it. Afterwards it deletes: let the directory be the one of the folder
  with the path \<open>pre\<close> in a well-formed hierarchy, the store commit, the disk not fail, and the fuel be at least the
  number of nodes. Then the call succeeds and has deleted a folder on that path, with everything below it: the
  topmost one such that each folder from there down to the expired one has only the next as its child, so that the
  parents that become empty go too. The paths through that folder are unknown and all others are resolved as
  before, and the hierarchy stays well-formed; nothing is left of the directory of the expired folder nor of those of the
  other deleted nodes; on the disk nothing changes outside these directories and the satellite directories of the
  deleted nodes. In the store, the entries of the deleted nodes are gone from the three buckets of the hierarchy, the slot of
  the topmost one is gone from its parent, and every other entry of every bucket is as before.
\<close>

theorem expiry_decision:
  fixes pre :: string and E :: "'db relay_env"
  assumes store: "storeDeadline osf path (FormatInt t) disk = (Ok (), disk')"
    and new: "\<not> os_exists disk (Join [path, ''deadline.txt''])" "osf (Stat (Join [path, ''deadline.txt''])) disk = None"
    and t: "- (2 ^ 63) \<le> t" "t < 2 ^ 63"
    and reads: "osf (OpenRead (Join [path, ''deadline.txt''])) disk' = None" "osf (Read (Join [path, ''deadline.txt''])) disk' = None"
    and E: "re_osf E = osf"
  defines "B \<equiv> re_bolt E" and "h \<equiv> path_parts pre"
  shows "getDeadline osf disk' path = (t, None) \<and>
    (t < 0 \<longrightarrow> (\<exists>e. checkDeadlineAndDelete E now path pre (disk', fs) = (Err e, disk', fs))) \<and>
    (0 \<le> t \<longrightarrow> now disk' \<le> t \<longrightarrow> checkDeadlineAndDelete E now path pre (disk', fs) = (Ok (), disk', fs)) \<and>
    (0 \<le> t \<longrightarrow> t < now disk' \<longrightarrow> bolt_spec B \<longrightarrow> commits B \<longrightarrow> (\<forall>c d. osf c d = None) \<longrightarrow> tree_inv B fs \<longrightarrow>
      bolt_bucket B (nodesDB fs) SatelliteMapping \<longrightarrow> (\<forall>k v. bolt_get B (nodesDB fs) Tree k = Some v \<longrightarrow> fits k v) \<longrightarrow>
      length (bolt_items B (nodesDB fs) Tree) \<le> re_fuel E \<longrightarrow>
      (\<forall>node. getNodeForPath B fs h = Ok node \<longrightarrow> h \<noteq> [] \<longrightarrow> path = node_path fs node \<longrightarrow>
        (\<exists>j disk'' fs'' deleted. checkDeadlineAndDelete E now path pre (disk', fs) = (Ok (), disk'', fs'') \<and>
          0 < j \<and> j \<le> length h \<and> deleted = {x. \<exists>g. prefix (take j h) g \<and> getNodeForPath B fs g = Ok x} \<and>
          (\<forall>i. j \<le> i \<and> i < length h \<longrightarrow> only_child B fs h i) \<and> (1 < j \<longrightarrow> \<not> only_child B fs h (j - 1)) \<and>
          (\<forall>g. getNodeForPath B fs'' g = (if prefix (take j h) g then Err (no_folder (h ! (j - 1))) else getNodeForPath B fs g)) \<and>
          (\<forall>q. in_tree path q \<longrightarrow> \<not> os_exists disk'' q) \<and>
          (\<forall>x \<in> deleted. \<forall>q. in_tree (node_path fs x) q \<longrightarrow> \<not> os_exists disk'' q) \<and>
          (\<forall>q. (\<forall>x \<in> deleted. \<not> in_tree (node_path fs x) q \<and>
            (\<forall>p. bolt_get B (nodesDB fs) SatelliteMapping x = Some p \<longrightarrow> \<not> in_tree p q)) \<longrightarrow> map_of disk'' q = map_of disk' q) \<and>
          tree_inv B fs'' \<and>
          (\<forall>b k. bolt_get B (nodesDB fs'') b k =
            (if b \<in> {Tree, FolderNameMapping, SatelliteMapping} \<and> k \<in> deleted then None
             else if b = Tree \<and> getNodeForPath B fs (take (j - 1) h) = Ok k
               then map_option (\<lambda>v. concat (filter (\<lambda>c. getNodeForPath B fs (take j h) \<noteq> Ok c) (slots (nodeLength fs) v))) (bolt_get B (nodesDB fs) Tree k)
             else bolt_get B (nodesDB fs) b k)))))"
proof -
  have "map_of disk' (Join [path, ''deadline.txt'']) = Some (File (FormatInt t))" using storeDeadline_Ok [OF store new] by simp
  note read = getDeadline_stored [where osf = osf, OF this t reads]
  have decision: "checkDeadlineAndDelete E now path pre (disk', fs) = (if t < 0 then (Err (deadline_error None), disk', fs)
      else if t < now disk' then RecursiveDeleteFolder B osf (re_fuel E) h (disk', fs) else (Ok (), disk', fs))"
    using read E by (simp add: checkDeadlineAndDelete_def B_def h_def)
  show ?thesis
  proof (intro conjI impI allI)
    fix node
    assume late: "0 \<le> t" "t < now disk'" and B: "bolt_spec B" "commits B" "\<forall>c d. osf c d = None" and inv: "tree_inv B fs"
      and db: "bolt_bucket B (nodesDB fs) SatelliteMapping" "\<forall>k v. bolt_get B (nodesDB fs) Tree k = Some v \<longrightarrow> fits k v"
      and fuel: "length (bolt_items B (nodesDB fs) Tree) \<le> re_fuel E"
      and node: "getNodeForPath B fs h = Ok node" "h \<noteq> []" "path = node_path fs node"
    from RecursiveDeleteFolder_gone [OF B inv db node(2,1) fuel, of disk'] obtain j disk'' fs'' where
      run: "RecursiveDeleteFolder B osf (re_fuel E) h (disk', fs) = (Ok (), disk'', fs'')" and j: "0 < j" "j \<le> length h"
      and gone: "folder_gone B (take j h) (disk', fs) (disk'', fs'')"
      and only: "\<forall>i. j \<le> i \<and> i < length h \<longrightarrow> only_child B fs h i" "1 < j \<longrightarrow> \<not> only_child B fs h (j - 1)" by fastforce
    define deleted where "deleted = {x. \<exists>g. prefix (take j h) g \<and> getNodeForPath B fs g = Ok x}"
    note G = folder_goneD [OF gone, unfolded snd_conv fst_conv nodes_under_def, folded deleted_def]
    note S = sweptD [OF G(5)]
    have "take j h \<noteq> []" using j node(2) by auto
    then have "last (take j h) = h ! (j - 1)" using j by (simp add: last_conv_nth min_absorb2)
    moreover have all: "\<not> os_exists disk'' q" if "x \<in> deleted" "in_tree (node_path fs x) q" for x q
    proof (rule S(3) [OF that(1) _ that(2)])
      from that(1) obtain g where "getNodeForPath B fs g = Ok x" by (auto simp: deleted_def)
      then show "x \<noteq> []" using tree_walk_not_blank [OF inv] by (simp add: getNode_Ok [OF inv])
    qed
    moreover have "\<not> os_exists disk'' q" if "in_tree path q" for q
    proof (rule all)
      show "node \<in> deleted" using node(1) take_is_prefix by (auto simp: deleted_def)
      show "in_tree (node_path fs node) q" using that node(3) by simp
    qed
    moreover have "checkDeadlineAndDelete E now path pre (disk', fs) = (Ok (), disk'', fs'')" using decision late run by simp
    moreover have "bolt_get B (nodesDB fs'') b k =
            (if b \<in> {Tree, FolderNameMapping, SatelliteMapping} \<and> k \<in> deleted then None
             else if b = Tree \<and> getNodeForPath B fs (take (j - 1) h) = Ok k
               then map_option (\<lambda>v. concat (filter (\<lambda>c. getNodeForPath B fs (take j h) \<noteq> Ok c) (slots (nodeLength fs) v))) (bolt_get B (nodesDB fs) Tree k)
             else bolt_get B (nodesDB fs) b k)" for b k
      using folder_gone_get [OF gone, of b k, unfolded snd_conv nodes_under_def, folded deleted_def] j by (simp only: butlast_take)
    moreover note j only G(1,4) S(2)
    ultimately show "\<exists>j disk'' fs'' deleted. checkDeadlineAndDelete E now path pre (disk', fs) = (Ok (), disk'', fs'') \<and>
          0 < j \<and> j \<le> length h \<and> deleted = {x. \<exists>g. prefix (take j h) g \<and> getNodeForPath B fs g = Ok x} \<and>
          (\<forall>i. j \<le> i \<and> i < length h \<longrightarrow> only_child B fs h i) \<and> (1 < j \<longrightarrow> \<not> only_child B fs h (j - 1)) \<and>
          (\<forall>g. getNodeForPath B fs'' g = (if prefix (take j h) g then Err (no_folder (h ! (j - 1))) else getNodeForPath B fs g)) \<and>
          (\<forall>q. in_tree path q \<longrightarrow> \<not> os_exists disk'' q) \<and>
          (\<forall>x \<in> deleted. \<forall>q. in_tree (node_path fs x) q \<longrightarrow> \<not> os_exists disk'' q) \<and>
          (\<forall>q. (\<forall>x \<in> deleted. \<not> in_tree (node_path fs x) q \<and>
            (\<forall>p. bolt_get B (nodesDB fs) SatelliteMapping x = Some p \<longrightarrow> \<not> in_tree p q)) \<longrightarrow> map_of disk'' q = map_of disk' q) \<and>
          tree_inv B fs'' \<and>
          (\<forall>b k. bolt_get B (nodesDB fs'') b k =
            (if b \<in> {Tree, FolderNameMapping, SatelliteMapping} \<and> k \<in> deleted then None
             else if b = Tree \<and> getNodeForPath B fs (take (j - 1) h) = Ok k
               then map_option (\<lambda>v. concat (filter (\<lambda>c. getNodeForPath B fs (take j h) \<noteq> Ok c) (slots (nodeLength fs) v))) (bolt_get B (nodesDB fs) Tree k)
             else bolt_get B (nodesDB fs) b k))"
      using deleted_def by (intro exI [of _ j] exI [of _ disk''] exI [of _ fs''] exI [of _ deleted]) auto
  qed (use read decision in simp_all)
qed

theorem expiry_decision_witness:
  "case storeDeadline (\<lambda>_ _. None) ''/d/h/a'' (FormatInt 1700000000) [(''/d/h/a'', Directory)] of (r, disk) \<Rightarrow>
     r = Ok () \<and> getDeadline (\<lambda>_ _. None) disk ''/d/h/a'' = (1700000000, None) \<and>
     checkDeadlineAndDelete demo_relay (\<lambda>_. 1600000000) ''/d/h/a'' ''/tv'' (disk, demo_deep) = (Ok (), disk, demo_deep) \<and>
     (\<exists>disk' fs'. checkDeadlineAndDelete demo_relay (\<lambda>_. 1800000000) ''/d/h/a'' ''/tv'' (disk, demo_deep) = (Ok (), disk', fs') \<and>
       \<not> os_exists disk' ''/d/h/a'' \<and> getNodeForPath mem_bolt fs' [''tv'', ''news''] = Err (no_folder ''tv'') \<and>
       getNodeForPath mem_bolt fs' [''radio''] = Ok ''c'')"
proof -
  have p: "Join [''/d/h/a'', ''deadline.txt''] = ''/d/h/a/deadline.txt''" "Dir ''/d/h/a/deadline.txt'' = ''/d/h/a''"
    "Join [''/d'', ''h'', ''a''] = ''/d/h/a''"
    by (simp_all add: Join_def Dir_def Clean_def clean_step_def HasPrefix_def)
  obtain r disk where d: "storeDeadline (\<lambda>_ _. None) ''/d/h/a'' (FormatInt 1700000000) [(''/d/h/a'', Directory)] = (r, disk)"
    by fastforce
  then have r: "r = Ok ()"
    by (auto simp: storeDeadline_def p IsNotExist_def os_exists_def os_OpenCreate_def can_write_def write_start_def Let_def)
  have n: "getNodeForPath mem_bolt demo_deep [''tv''] = Ok ''a''" "getNodeForPath mem_bolt demo_deep [''radio''] = Ok ''c''"
    by (simp_all add: getNodeForPath_walk [OF demo_deep_inv] demo_deep_kids)
  have fit: "\<forall>k v. tree_of mem_bolt demo_deep k = Some v \<longrightarrow> fits k v" by (simp add: fits_def max_key_def max_value_def)
  have path: "path_parts ''/tv'' = [''tv'']" "node_path demo_deep ''a'' = ''/d/h/a''" by (simp_all add: path_parts_def Trim_def node_path_def p)
  have E: "re_bolt demo_relay = mem_bolt" "re_fuel demo_relay = 9" "re_osf demo_relay = (\<lambda>_ _. None)" by (simp_all add: demo_relay_def)
  let ?dir = "''/d/h/a''" and ?osf = "\<lambda>_ _. None :: error option"
  have stored: "storeDeadline ?osf ?dir (FormatInt 1700000000) [(?dir, Directory)] = (Ok (), disk)" using d r by simp
  have new: "\<not> os_exists [(?dir, Directory)] (Join [?dir, ''deadline.txt''])" by (simp add: p os_exists_def)
  note decided = expiry_decision [where pre = "''/tv''" and fs = demo_deep, OF stored new refl _ _ refl refl E(3), unfolded E path]
  from decided [where now = "\<lambda>_. 1600000000"] have 1: "getDeadline ?osf disk ?dir = (1700000000, None)"
      "checkDeadlineAndDelete demo_relay (\<lambda>_. 1600000000) ?dir ''/tv'' (disk, demo_deep) = (Ok (), disk, demo_deep)"
    by simp_all
  have home: "?dir = node_path demo_deep ''a''" using path(2) by simp
  have all: "length (bolt_items mem_bolt (nodesDB demo_deep) Tree) \<le> 9" by simp
  have late: "(1700000000 :: int) < (\<lambda>_. 1800000000) disk" "(0 :: int) \<le> 1700000000" "- (2 ^ 63) \<le> (1700000000 :: int)" "1700000000 < (2 ^ 63 :: int)"
      "\<forall>c d. ?osf c d = None" "[''tv''] \<noteq> []"
    by simp_all
  note gone = decided [where now = "\<lambda>_. 1800000000", OF late(3,4), THEN conjunct2, THEN conjunct2, THEN conjunct2, THEN mp, THEN mp, THEN mp,
      THEN mp, THEN mp, THEN mp, THEN mp, THEN mp, THEN mp, THEN spec, THEN mp, THEN mp, THEN mp, OF late(2,1) mem_bolt_spec mem_commits late(5) demo_deep_inv
      demo_deep_simps(8) fit all n(1) late(6) home]
  obtain j disk' fs' where run: "checkDeadlineAndDelete demo_relay (\<lambda>_. 1800000000) ?dir ''/tv'' (disk, demo_deep) = (Ok (), disk', fs')"
      "0 < j" "j \<le> length [''tv'']"
      "\<forall>g. getNodeForPath mem_bolt fs' g = (if prefix (take j [''tv'']) g then Err (no_folder ([''tv''] ! (j - 1))) else getNodeForPath mem_bolt demo_deep g)"
      "\<forall>q. in_tree ?dir q \<longrightarrow> \<not> os_exists disk' q"
    using gone by (elim exE conjE) (rule that; assumption)
  then have "j = 1" by simp
  with run n(2) have "\<not> os_exists disk' ''/d/h/a''" "getNodeForPath mem_bolt fs' [''tv'', ''news''] = Err (no_folder ''tv'')"
      "getNodeForPath mem_bolt fs' [''radio''] = Ok ''c''"
    by (simp_all add: in_tree_def)
  with d r 1 run(1) show ?thesis by auto
qed

end
