(* ===== verification/Hub_Repository.thy ===== *)
theory Hub_Repository
  imports Folder_Paths Go_Files Go_Strconv Telemetry_Logger Wire_Format
begin

text \<open>
  \<^verbatim>\<open>src/repository.go\<close>: what the HTTP routes list of a folder. A folder's directory has the subdirectories
  \<^verbatim>\<open>metadatafiles\<close> and \<^verbatim>\<open>bulkfiles\<close>; the size of a folder is the size of its bulk files. The route code
  only reads the disk and the store; it writes to the log. The JSON decoders and encoders are
  parameters, collected in \<open>route_env\<close>.
\<close>

section \<open>Library\<close>

text \<open>\<^verbatim>\<open>strings.ReplaceAll(s, old, new)\<close> for a non-empty \<^verbatim>\<open>old\<close>: the matches do not overlap.\<close>

function ReplaceAll :: "string \<Rightarrow> string \<Rightarrow> string \<Rightarrow> string" where
  "ReplaceAll s old new =
     (case s of
        [] \<Rightarrow> []
      | x # xs \<Rightarrow>
          if old \<noteq> [] \<and> HasPrefix s old then new @ ReplaceAll (drop (length old) s) old new
          else x # ReplaceAll xs old new)"
  by pat_completeness auto
termination
  by (relation "measure (\<lambda>(s, _, _). length s)") auto

declare ReplaceAll.simps [simp del]

section \<open>Data\<close>

record FolderMetadata =
  Title :: string
  Description :: string
  VideoFiles :: "string list"
  AudioFiles :: "string list"
  Thumbnail :: string
  Thumbnail2X :: string
  Language :: string
  fm_Size :: int
  Duration :: string
  Keywords :: "string list"
  CastInfo :: "string list"
  YearOfRelease :: int
  Path :: string
  MPDFile :: string
  FolderUrl :: string

record AvailableFolder =
  af_ID :: string
  Metadata :: FolderMetadata

record FolderPathInfo =
  fp_Id :: string
  Folderpath :: string

record 'db route_env =
  rt_bolt :: "'db bolt"
  rt_osf :: os_faults
  rt_disk :: disk
  rt_fs :: "'db FileSystem"
  rt_fuel :: nat \<comment> \<open>bounds the depth of the traversals\<close>
  rt_logger :: Logger
  rt_log :: log_env
  rt_hubId :: string
  dec_metadata :: "bytes \<Rightarrow> error + FolderMetadata"
  dec_info :: "bytes \<Rightarrow> ContentInfoOnDevice" \<comment> \<open>\<^verbatim>\<open>json.Unmarshal\<close> into a zero value, the error dropped\<close>
  enc_path :: "FolderPathInfo \<Rightarrow> error + string"
  enc_folders :: "AvailableFolder list \<Rightarrow> error + string"

definition rt_log_old :: "'db route_env \<Rightarrow> string \<Rightarrow> (string \<times> string) list \<Rightarrow> log_state \<Rightarrow> log_state" where
  "rt_log_old R subType body = Log_old (rt_logger R) (rt_log R) ''Error'' subType body"

section \<open>The contents of a folder\<close>

definition finding_error :: "string \<Rightarrow> error \<Rightarrow> (string \<times> string) list" where
  "finding_error actualPath e = [(''Message'', ''Error while finding files in '' @ actualPath @ '' '' @ e)]"

definition plain_size :: "string \<times> entry \<Rightarrow> int" where
  "plain_size x = (case snd x of Directory \<Rightarrow> 0 | File c \<Rightarrow> int (length c))"

definition getFolderSizeParser :: "'db route_env \<Rightarrow> string \<Rightarrow> log_state \<Rightarrow> int \<times> log_state" where
  "getFolderSizeParser R actualPath st =
     (case os_ReadDir (rt_osf R) (actualPath @ ''/bulkfiles'') (rt_disk R) of
        Ok files \<Rightarrow> (sum_list (map plain_size files), st)
      | Err e \<Rightarrow> (0, rt_log_old R ''RouteHandler'' (finding_error actualPath e) st)
      | _ \<Rightarrow> (0, st))"

definition getFolderSize :: "string \<Rightarrow> string \<Rightarrow> int" where
  "getFolderSize mediaHouse path = 0"

definition getMetdataFileParser :: "'db route_env \<Rightarrow> string \<Rightarrow> log_state \<Rightarrow> string list \<times> log_state" where
  "getMetdataFileParser R actualPath st =
     (let parentDirectory = actualPath @ ''/metadatafiles'' in
      case os_ReadDir (rt_osf R) parentDirectory (rt_disk R) of
        Ok files \<Rightarrow> (map (\<lambda>f. parentDirectory @ ''/'' @ fst f) (filter (\<lambda>f. snd f \<noteq> Directory) files), st)
      | Err e \<Rightarrow> ([], rt_log_old R ''RouteHandler'' (finding_error actualPath e) st)
      | _ \<Rightarrow> ([], st))"

text \<open>\<^verbatim>\<open>getFolderInfo\<close> returns nil when the path or its node is not found.\<close>

definition getFolderInfo ::
    "'db route_env \<Rightarrow> string \<Rightarrow> string \<Rightarrow> log_state \<Rightarrow> FolderStructureEntry option res \<times> log_state" where
  "getFolderInfo R mediaHouse contentPath st =
     (case GetActualPathForAbstractedPath (rt_bolt R) (rt_fs R) (mediaHouse @ ''/'' @ contentPath) of
        Err _ \<Rightarrow> (Ok None, st)
      | Ok actualPath \<Rightarrow>
          (case getFolderSizeParser R actualPath st of (sz, st) \<Rightarrow>
           case getMetdataFileParser R actualPath st of (metadataFiles, st) \<Rightarrow>
             (case IsLeaf (rt_bolt R) (rt_disk R) (rt_fs R) actualPath of
                Err _ \<Rightarrow> Ok None
              | r \<Rightarrow> bind_res r (\<lambda>isLeaf.
                  Ok (Some \<lparr>fe_ID = [], HasChildren = \<not> isLeaf, InfoMetadataFileName = [], fe_Size = sz,
                            MetadataFiles = metadataFiles\<rparr>)), st))
      | r \<Rightarrow> (bind_res r (\<lambda>_. Ok None), st))"

text \<open>The fields of a child that \<^verbatim>\<open>getChildrenParser\<close> returns as \<^verbatim>\<open>[]interface{}\<close>.\<close>

datatype child_field = FBool bool | FInt int | FStrings "string list"

definition getChildrenParser :: "'db route_env \<Rightarrow> string \<Rightarrow> log_state \<Rightarrow> child_field list res \<times> log_state" where
  "getChildrenParser R actualPath st =
     (case IsLeaf (rt_bolt R) (rt_disk R) (rt_fs R) actualPath of
        Err _ \<Rightarrow> (Ok [], st)
      | Ok isLeaf \<Rightarrow>
          (case getFolderSizeParser R actualPath st of (sz, st) \<Rightarrow>
           case getMetdataFileParser R actualPath st of (metadataFiles, st) \<Rightarrow>
             (Ok [FBool (\<not> isLeaf), FInt sz, FStrings metadataFiles], st))
      | r \<Rightarrow> (bind_res r (\<lambda>_. Ok []), st))"

definition getBineFsPath :: "string \<Rightarrow> string \<Rightarrow> string" where
  "getBineFsPath mediaHouse path = ReplaceAll (''/'' @ mediaHouse @ ''/'' @ path) ''//'' ''/''"

text \<open>A child without fields is left out; fields of other types would fail the type assertions.\<close>

fun children_entries :: "(string \<times> child_field list) list \<Rightarrow> FolderStructureEntry list res" where
  "children_entries [] = Ok []"
| "children_entries ((name, fds) # rest) =
     (case fds of
        [] \<Rightarrow> children_entries rest
      | FBool has # FInt sz # FStrings files # _ \<Rightarrow>
          bind_res (children_entries rest) (\<lambda>es.
            Ok (\<lparr>fe_ID = name, HasChildren = has, InfoMetadataFileName = [], fe_Size = sz, MetadataFiles = files\<rparr> # es))
      | _ \<Rightarrow> Panic)"

definition getChildren ::
    "'db route_env \<Rightarrow> string \<Rightarrow> string \<Rightarrow> log_state \<Rightarrow> FolderStructureEntry list res \<times> log_state" where
  "getChildren R mediaHouse parent st =
     (case GetChildrenInfo (rt_bolt R) (rt_fs R) (getChildrenParser R) (getBineFsPath mediaHouse parent) st of
        (Err _, st) \<Rightarrow> (Ok [], st)
      | (r, st) \<Rightarrow> (bind_res r children_entries, st))"

definition getMetadataFiles :: "string \<Rightarrow> string \<Rightarrow> string list" where
  "getMetadataFiles mediaHouse path = []"

text \<open>\<^verbatim>\<open>path.Join\<close> agrees with \<^verbatim>\<open>filepath.Join\<close> on Unix.\<close>

definition getFolderPath :: "string \<Rightarrow> string \<Rightarrow> string" where
  "getFolderPath mediaHouse folderID = Join [''static'', mediaHouse, folderID]"

definition getFilePath :: "string \<Rightarrow> string \<Rightarrow> string \<Rightarrow> string" where
  "getFilePath mediaHouse folderID fileName = Join [getFolderPath mediaHouse folderID, fileName]"

section \<open>Available folders\<close>

definition getDownloadableURL :: "string \<Rightarrow> string \<Rightarrow> string" where
  "getDownloadableURL osFolderPath abstractFilePath =
     ''http://{HUB_IP}:5000/static/'' @ osFolderPath @ ReplaceAll abstractFilePath ''-'' ''_''"

definition getMetadataStruct :: "'db route_env \<Rightarrow> string \<Rightarrow> FolderMetadata res" where
  "getMetadataStruct R filePath =
     bind_res (os_ReadFile (rt_osf R) filePath (rt_disk R)) (\<lambda>file. lift_err (dec_metadata R file))"

definition duration_error :: "int \<times> error option \<Rightarrow> int res" where
  "duration_error r = (case snd r of None \<Rightarrow> Ok (fst r) | Some e \<Rightarrow> Err e)"

text \<open>Numbers of 32 bits are multiplied as numbers of 64 bits: nothing overflows.\<close>

definition getDurationInSeconds :: "string \<Rightarrow> string res" where
  "getDurationInSeconds duration =
     (let parts = Split duration CHR '':'' in
      if length parts = 3 then
        bind_res (duration_error (ParseInt 32 (parts ! 0))) (\<lambda>hours.
        bind_res (duration_error (ParseInt 32 (parts ! 1))) (\<lambda>minutes.
          Ok (FormatInt ((hours * 60 + minutes) * 60))))
      else bind_res (duration_error (ParseInt 32 duration)) (\<lambda>v. Ok (FormatInt (v * 60))))"

text \<open>
  The metadata of one folder as it is served (lines 218 to 244): \<open>osFsPath\<close> is the folder's directory.
  When the duration does not parse, the default computed for it is not stored.
\<close>

definition served_metadata :: "string \<Rightarrow> bool \<Rightarrow> int \<Rightarrow> FolderMetadata \<Rightarrow> FolderMetadata" where
  "served_metadata osFsPath isSatellite folderSize m =
     (let p = (if 1 < length osFsPath \<and> hd osFsPath = CHR ''/'' then tl osFsPath else osFsPath);
          sub = (\<lambda>f. (if isSatellite then ''/'' else ''/metadatafiles/'') @ f);
          m = m\<lparr>fm_Size := folderSize, Thumbnail := getDownloadableURL p (sub (Thumbnail m)),
                Thumbnail2X := getDownloadableURL p (sub (Thumbnail2X m)), Path := p,
                FolderUrl := ''http://{HUB_IP}:5000/static/'' @ p @ (if isSatellite then [] else ''/bulkfiles'')\<rparr>
      in case getDurationInSeconds (Duration m) of Ok d \<Rightarrow> m\<lparr>Duration := d\<rparr> | _ \<Rightarrow> m)"

text \<open>One leaf of the loop of \<^verbatim>\<open>getAvailableFolders\<close> (lines 198 to 255).\<close>

definition available_folder ::
    "'db route_env \<Rightarrow> string \<Rightarrow> log_state \<Rightarrow> AvailableFolder option res \<times> log_state" where
  "available_folder R leaf st =
     (let actual = GetActualPathForAbstractedPath (rt_bolt R) (rt_fs R) leaf;
          folder = Replace1 (Replace1 leaf ''MSR'' []) ''//'' ''/'';
          folderId = last (Split folder CHR ''/'')
      in case actual of
        Ok osFsPath \<Rightarrow>
          (case IsSatelliteLeaf (rt_bolt R) (rt_fs R) leaf of
             Ok isSatellite \<Rightarrow>
               (let json = (if isSatellite then Join [osFsPath, folderId @ ''_bine_metadata.json'']
                            else Join [Join [osFsPath, ''metadatafiles''], ''bine_metadata.json'']);
                    report = (\<lambda>text e. rt_log_old R ''RouteHander''
                      [(''Function'', ''GetAvailableFolders''),
                       (''Message'', text @ json @ '' for abstract path '' @ folder @ e)])
                in case os_Stat (rt_osf R) json (rt_disk R) of
                  Ok _ \<Rightarrow>
                    (case getMetadataStruct R json of
                       Ok m \<Rightarrow>
                         (case getFolderSizeParser R osFsPath st of (folderSize, st) \<Rightarrow>
                            (Ok (Some \<lparr>af_ID = folderId, Metadata = served_metadata osFsPath isSatellite folderSize m\<rparr>), st))
                     | Err e \<Rightarrow> (Ok None, report ''metadata json file '' ('' is invalid with error '' @ e) st)
                     | _ \<Rightarrow> (Panic, st))
                | Err e \<Rightarrow> (Ok None, report ''metadata directory '' ('' threw error '' @ e) st)
                | _ \<Rightarrow> (Panic, st))
           | r \<Rightarrow> (bind_res r (\<lambda>_. Ok None), st))
      | Err _ \<Rightarrow> (case IsSatelliteLeaf (rt_bolt R) (rt_fs R) leaf of Panic \<Rightarrow> (Panic, st) | _ \<Rightarrow> (Ok None, st))
      | r \<Rightarrow> (bind_res r (\<lambda>_. Ok None), st))"

fun available_folders :: "'db route_env \<Rightarrow> string list \<Rightarrow> log_state \<Rightarrow> AvailableFolder list res \<times> log_state" where
  "available_folders R [] st = (Ok [], st)"
| "available_folders R (leaf # leaves) st =
     (case available_folder R leaf st of
        (Ok f, st) \<Rightarrow>
          (case available_folders R leaves st of
             (r, st) \<Rightarrow> (bind_res r (\<lambda>fs. Ok (case f of None \<Rightarrow> fs | Some x \<Rightarrow> x # fs)), st))
      | (r, st) \<Rightarrow> (bind_res r (\<lambda>_. Ok []), st))"

text \<open>The error of \<^verbatim>\<open>GetLeavesList\<close> is dropped; with the empty path it returns none.\<close>

definition getAvailableFolders :: "'db route_env \<Rightarrow> log_state \<Rightarrow> AvailableFolder list res \<times> log_state" where
  "getAvailableFolders R st =
     (case GetLeavesList (rt_bolt R) (rt_fs R) (rt_fuel R) [] of
        Ok leaves \<Rightarrow> available_folders R leaves st
      | Err _ \<Rightarrow> (Ok [], st)
      | r \<Rightarrow> (bind_res r (\<lambda>_. Ok []), st))"

definition getAssetFolderPath :: "'db route_env \<Rightarrow> string \<Rightarrow> FolderPathInfo res" where
  "getAssetFolderPath R assetId =
     bind_res (GetAssetFolderPathFromDB (rt_bolt R) (rt_fs R) assetId) (\<lambda>info.
       Ok \<lparr>fp_Id = assetId, Folderpath = FolderPath (dec_info R info)\<rparr>)"

section \<open>What is listed of a folder\<close>

text \<open>The log does not influence the answers: what the parsers compute from the directory of a folder.\<close>

definition folder_size :: "'db route_env \<Rightarrow> string \<Rightarrow> int" where
  "folder_size R p =
     (case os_ReadDir (rt_osf R) (p @ ''/bulkfiles'') (rt_disk R) of Ok files \<Rightarrow> sum_list (map plain_size files) | _ \<Rightarrow> 0)"

definition metadata_files :: "'db route_env \<Rightarrow> string \<Rightarrow> string list" where
  "metadata_files R p =
     (case os_ReadDir (rt_osf R) (p @ ''/metadatafiles'') (rt_disk R) of
        Ok files \<Rightarrow> map (\<lambda>f. p @ ''/metadatafiles/'' @ fst f) (filter (\<lambda>f. snd f \<noteq> Directory) files) | _ \<Rightarrow> [])"

lemma fst_folder_size [simp]: "fst (getFolderSizeParser R p st) = folder_size R p"
  by (simp add: getFolderSizeParser_def folder_size_def split: res.split)

lemma fst_metadata_files [simp]: "fst (getMetdataFileParser R p st) = metadata_files R p"
  by (simp add: getMetdataFileParser_def metadata_files_def Let_def split: res.split)

lemma parser_fields:
  assumes "IsLeaf (rt_bolt R) (rt_disk R) (rt_fs R) p = Ok leaf"
  shows "fst (getChildrenParser R p st) = Ok [FBool (\<not> leaf), FInt (folder_size R p), FStrings (metadata_files R p)]"
proof -
  obtain sz st1 where 1: "getFolderSizeParser R p st = (sz, st1)" by fastforce
  obtain fl st2 where 2: "getMetdataFileParser R p st1 = (fl, st2)" by fastforce
  from 1 2 fst_folder_size [of R p st] fst_metadata_files [of R p st1] assms show ?thesis
    by (simp add: getChildrenParser_def)
qed

lemma children_info_slots:
  assumes inv: "0 < nodeLength fs" "bolt_bucket B (nodesDB fs) FolderNameMapping" "nodeLength fs dvd length rest"
    and named: "\<forall>c \<in> set (slots (nodeLength fs) rest). name_of B fs c \<noteq> None"
    and pf: "\<And>c s. c \<in> set (slots (nodeLength fs) rest) \<Longrightarrow> fst (pfunc (node_path fs c) s) = Ok (g c)"
  shows "fst (children_info B fs pfunc rest s) = Ok (map (\<lambda>c. (the (name_of B fs c), g c)) (slots (nodeLength fs) rest))"
  using inv(1,3) named pf
proof (induction rest arbitrary: s rule: aligned_induct)
  case Nil
  then show ?case using inv(1) by (subst children_info.simps) simp
next
  case (slot v)
  let ?c = "take (nodeLength fs) v"
  obtain s1 where p: "pfunc (node_path fs ?c) s = (Ok (g ?c), s1)"
    using slot.prems(2) [of ?c s] slot.hyps(3) by (cases "pfunc (node_path fs ?c) s") auto
  have IH: "fst (children_info B fs pfunc (drop (nodeLength fs) v) s1) =
      Ok (map (\<lambda>c. (the (name_of B fs c), g c)) (slots (nodeLength fs) (drop (nodeLength fs) v)))"
    by (rule slot.IH) (use slot.prems slot.hyps(3) in auto)
  obtain r s2 where r: "children_info B fs pfunc (drop (nodeLength fs) v) s1 = (r, s2)" by fastforce
  have "GetFolderNameForNode B fs ?c = Ok (the (name_of B fs ?c))"
    using slot.prems(1) slot.hyps(3) by (intro name_lookup inv(2)) simp
  with p r IH slot.hyps show ?case using inv(1) by (subst children_info.simps) (simp add: Let_def)
qed

lemma GetChildrenInfo_kids:
  assumes inv: "tree_inv B fs" and k: "tree_walk B fs (homeNode fs) (path_parts path) = Inr k"
    and pf: "\<And>c s. c \<in> set (kids B fs k) \<Longrightarrow> fst (pfunc (node_path fs c) s) = Ok (g c)"
  shows "fst (GetChildrenInfo B fs pfunc path s) = Ok (map (\<lambda>c. (the (name_of B fs c), g c)) (kids B fs k))"
proof -
  obtain v where v: "GetChildrenForNode B fs k = Ok v" "kids B fs k = slots (nodeLength fs) (drop (nodeLength fs) v)"
    "nodeLength fs dvd length (drop (nodeLength fs) v)"
    using children_slots [OF inv tree_walk_exists [OF inv k]] by blast
  from v(1) have "tree_of B fs k = Some v"
    by (auto simp: GetChildrenForNode_def bucket_get_def split: if_splits option.splits)
  then have "v \<noteq> []" "nodeLength fs dvd length v" using tree_invD(5,6) [OF inv] by blast+
  then have "\<not> length v < nodeLength fs" by (auto dest: dvd_imp_le)
  moreover have "getNodeForPath B fs (path_parts path) = Ok k" by (simp add: getNodeForPath_walk [OF inv] k)
  ultimately have "fst (GetChildrenInfo B fs pfunc path s) = fst (children_info B fs pfunc (drop (nodeLength fs) v) s)"
    using v(1) tree_invD(1) [OF inv] by (simp add: GetChildrenInfo_def)
  also have "\<dots> = Ok (map (\<lambda>c. (the (name_of B fs c), g c)) (kids B fs k))"
    unfolding v(2)
    by (rule children_info_slots) (use tree_invD(1,3) [OF inv] v tree_named [OF inv v(2)] pf in auto)
  finally show ?thesis .
qed

text \<open>Nodes with plain names below an absolute home directory: the last part of a directory is its node.\<close>

definition plain_nodes :: "'db bolt \<Rightarrow> 'db FileSystem \<Rightarrow> bool" where
  "plain_nodes B fs \<longleftrightarrow> (\<exists>hs. hs \<noteq> [] \<and> (\<forall>h \<in> set hs. simple h) \<and> homeDirLocation fs = abs_path hs) \<and>
     simple (homeNode fs) \<and> (\<forall>k. \<forall>c \<in> set (kids B fs k). simple c)"

lemma path_parts_abs:
  assumes "cs \<noteq> []" "\<forall>c \<in> set cs. simple c"
  shows "path_parts (abs_path cs) = cs"
proof -
  have "x \<noteq> [] \<and> hd x \<noteq> CHR ''/'' \<and> last x \<noteq> CHR ''/''" if "simple x" for x
    using that unfolding simple_def by (metis hd_in_set last_in_set)
  then have "Join_with CHR ''/'' cs \<noteq> [] \<and> hd (Join_with CHR ''/'' cs) \<noteq> CHR ''/'' \<and> last (Join_with CHR ''/'' cs) \<noteq> CHR ''/''"
    using assms by (intro Join_with_ends) auto
  then have "Trim (abs_path cs) CHR ''/'' = Join_with CHR ''/'' cs" unfolding abs_path_def by (intro Trim_ends) blast+
  moreover have "Split (Join_with CHR ''/'' cs) CHR ''/'' = cs" by (rule Split_Join) (use assms in \<open>auto simp: simple_def\<close>)
  ultimately show ?thesis by (simp add: path_parts_def)
qed

lemma node_path_parts:
  assumes "plain_nodes B fs" "c \<in> set (kids B fs k)"
  shows "last (path_parts (node_path fs c)) = c"
proof -
  obtain hs where hs: "hs \<noteq> []" "\<forall>h \<in> set hs. simple h" "homeDirLocation fs = abs_path hs" "simple (homeNode fs)" "simple c"
    using assms by (auto simp: plain_nodes_def)
  then have "node_path fs c = abs_path (hs @ [homeNode fs, c])"
    unfolding node_path_def hs(3) by (intro Join_abs) auto
  moreover have "path_parts (abs_path (hs @ [homeNode fs, c])) = hs @ [homeNode fs, c]"
    by (rule path_parts_abs) (use hs in auto)
  ultimately show ?thesis by simp
qed

text \<open>The entry of a child in a listing.\<close>

definition child_entry :: "'db route_env \<Rightarrow> bytes \<Rightarrow> FolderStructureEntry" where
  "child_entry R c =
     \<lparr>fe_ID = the (name_of (rt_bolt R) (rt_fs R) c), HasChildren = (kids (rt_bolt R) (rt_fs R) c \<noteq> []),
      InfoMetadataFileName = [], fe_Size = folder_size R (node_path (rt_fs R) c),
      MetadataFiles = metadata_files R (node_path (rt_fs R) c)\<rparr>"

lemma children_entries_map:
  "children_entries (map (\<lambda>c. (nm c, [FBool (h c), FInt (z c), FStrings (m c)])) cs) =
   Ok (map (\<lambda>c. \<lparr>fe_ID = nm c, HasChildren = h c, InfoMetadataFileName = [], fe_Size = z c, MetadataFiles = m c\<rparr>) cs)"
  by (induction cs) auto

lemma IsLeaf_kid:
  assumes inv: "tree_inv B fs" and plain: "plain_nodes B fs" and c: "c \<in> set (kids B fs k)" "os_exists disk (node_path fs c)"
  shows "IsLeaf B disk fs (node_path fs c) = Ok (kids B fs c = [])"
proof -
  obtain v where v: "tree_of B fs c = Some v" using tree_invD(9) [OF inv c(1)] by blast
  then have g: "GetChildrenForNode B fs c = Ok v"
    using tree_invD(2) [OF inv] by (simp add: GetChildrenForNode_def bucket_get_def)
  have len: "nodeLength fs dvd length v" "v \<noteq> []" using tree_invD(5,6) [OF inv v] by blast+
  then have "nodeLength fs \<le> length v" by (auto dest: dvd_imp_le)
  then have "length v = nodeLength fs \<longleftrightarrow> drop (nodeLength fs) v = []" by auto
  also have "\<dots> \<longleftrightarrow> kids B fs c = []"
    using v tree_invD(1) [OF inv] by (cases "drop (nodeLength fs) v = []") (simp_all add: kids_def slots_step)
  finally show ?thesis using c(2) g by (simp add: IsLeaf_def node_path_parts [OF plain c(1)])
qed

lemma getChildren_kids:
  fixes R :: "'db route_env"
  defines "B \<equiv> rt_bolt R" and "fs \<equiv> rt_fs R"
  assumes inv: "tree_inv B fs" and plain: "plain_nodes B fs"
    and k: "tree_walk B fs (homeNode fs) (path_parts (getBineFsPath mediaHouse parent)) = Inr k"
    and dirs: "\<forall>c \<in> set (kids B fs k). os_exists (rt_disk R) (node_path fs c)"
  shows "fst (getChildren R mediaHouse parent st) = Ok (map (child_entry R) (kids B fs k))"
proof -
  let ?g = "\<lambda>c. [FBool (kids B fs c \<noteq> []), FInt (folder_size R (node_path fs c)), FStrings (metadata_files R (node_path fs c))]"
  have pf: "fst (getChildrenParser R (node_path fs c) s) = Ok (?g c)" if "c \<in> set (kids B fs k)" for c s
    using parser_fields [of R "node_path fs c" "kids B fs c = []" s] IsLeaf_kid [OF inv plain that] dirs that
    by (simp add: B_def fs_def)
  obtain r st' where r: "GetChildrenInfo B fs (getChildrenParser R) (getBineFsPath mediaHouse parent) st = (r, st')" by fastforce
  from GetChildrenInfo_kids [where g = ?g and pfunc = "getChildrenParser R" and s = st, OF inv k pf] r have "r = Ok (map (\<lambda>c. (the (name_of B fs c), ?g c)) (kids B fs k))" by simp
  with r show ?thesis
    by (simp add: getChildren_def B_def fs_def children_entries_map child_entry_def)
qed

end
