(* ===== verification/Route_Auth.thy ===== *)
theory Route_Auth
  imports Key_Manager Telemetry_Logger
begin

text \<open>
  The authentication of the hub's HTTP routes, \<^verbatim>\<open>src/middlewares.go\<close>: a request carries a JSON web token,
  and every cached public key is tried on it until one validates it. The JWT library is the parameter
  \<open>au_parse\<close>: what \<^verbatim>\<open>jwt.ParseWithClaims\<close> leaves in the claims, whether the token is marked valid, and
  the error. The gin context of a request is reduced to what the code reads and sets.
\<close>

section \<open>The middleware\<close>

record Claims =
  Userid :: string

record 'k auth_env =
  au_logger :: Logger
  au_log :: log_env
  au_parse :: "string \<Rightarrow> 'k option \<Rightarrow> Claims \<times> bool \<times> error option"
  au_hubId :: string \<comment> \<open>\<^verbatim>\<open>deviceId\<close> of the device configuration\<close>

text \<open>Go's conversion \<^verbatim>\<open>string(i)\<close> of an integer: the UTF-8 encoding of that code point.\<close>

definition rune_string :: "nat \<Rightarrow> string" where
  "rune_string r =
     (let invalid = map char_of [0xEF, 0xBF, 0xBD :: nat]; tail = (\<lambda>s. 128 + r div 2 ^ s mod 64) in
      if r < 128 then [char_of r]
      else if r < 2048 then map char_of [192 + r div 64, tail 0]
      else if 0xD800 \<le> r \<and> r < 0xE000 then invalid
      else if r < 65536 then map char_of [224 + r div 4096, tail 6, tail 0]
      else if r < 0x110000 then map char_of [240 + r div 262144, tail 12, tail 6, tail 0]
      else invalid)"

definition invalid_token :: error where
  "invalid_token = ''Token is invalid''"

text \<open>
  The loop of \<^verbatim>\<open>verifyToken\<close> from index \<open>i\<close> on. A token that is not valid although no error is reported
  makes \<^verbatim>\<open>err.Error()\<close> a call on nil.
\<close>

fun try_keys :: "'k auth_env \<Rightarrow> string \<Rightarrow> nat \<Rightarrow> 'k option list \<Rightarrow> log_state \<Rightarrow> Claims res \<times> log_state" where
  "try_keys A token i [] st = (Err invalid_token, st)"
| "try_keys A token i (pk # pks) st =
     (case au_parse A token pk of (claims, valid, err) \<Rightarrow>
        if err = None \<and> valid then (Ok claims, st)
        else case err of
          None \<Rightarrow> (Panic, st)
        | Some e \<Rightarrow>
            try_keys A token (Suc i) pks
              (Log_old (au_logger A) (au_log A) ''Debug'' ''Middleware''
                [(''Token'', token), (''Function'', ''verifyToken''), (''Error'', e), (''publicKey'', rune_string i)] st))"

definition verifyToken :: "'k auth_env \<Rightarrow> 'k KeyManager \<Rightarrow> string \<Rightarrow> log_state \<Rightarrow> Claims res \<times> log_state" where
  "verifyToken A km token st =
     (case GetKeyList km of Ok pks \<Rightarrow> try_keys A token 0 pks st | _ \<Rightarrow> (Panic, st))"

text \<open>
  What becomes of a request: aborted with status 401, or handed on with the user id set and the header
  \<^verbatim>\<open>hubId\<close>. An error other than the one \<^verbatim>\<open>verifyToken\<close> returns would leave the claims nil.
\<close>

datatype auth_result = Unauthorized | Next string string

definition AuthRequiredMiddleware ::
    "'k auth_env \<Rightarrow> 'k KeyManager \<Rightarrow> string \<Rightarrow> string \<Rightarrow> log_state \<Rightarrow> auth_result res \<times> log_state" where
  "AuthRequiredMiddleware A km fullPath authorization st =
     (let st = Log_old (au_logger A) (au_log A) ''Debug'' ''Middleware''
                 [(''Request path'', fullPath), (''Request queries'', [])] st;
          authToken = Replace1 authorization ''Bearer '' []
      in case verifyToken A km authToken st of
        (Ok claims, st) \<Rightarrow> (Ok (Next (Userid claims) (au_hubId A)), st)
      | (Err e, st) \<Rightarrow> (if e = invalid_token then Ok Unauthorized else Panic, st)
      | (_, st) \<Rightarrow> (Panic, st))"

section \<open>Facts\<close>

text \<open>The documented contract of \<^verbatim>\<open>jwt.ParseWithClaims\<close>: a nil error means a valid token.\<close>

definition jwt_reports :: "'k auth_env \<Rightarrow> bool" where
  "jwt_reports A \<longleftrightarrow> (\<forall>token pk. case au_parse A token pk of (_, valid, err) \<Rightarrow> err = None \<longrightarrow> valid)"

text \<open>Whether a key validates a token, and the user the token then names.\<close>

definition validates :: "'k auth_env \<Rightarrow> string \<Rightarrow> 'k option \<Rightarrow> bool" where
  "validates A token pk \<longleftrightarrow> (case au_parse A token pk of (_, valid, err) \<Rightarrow> err = None \<and> valid)"

definition token_user :: "'k auth_env \<Rightarrow> string \<Rightarrow> 'k option \<Rightarrow> string" where
  "token_user A token pk = Userid (fst (au_parse A token pk))"

lemma try_keys_find:
  assumes "jwt_reports A"
  shows "fst (try_keys A token i pks st) =
    (case find (validates A token) pks of
       None \<Rightarrow> Err invalid_token | Some pk \<Rightarrow> Ok (fst (au_parse A token pk)))"
proof (induction pks arbitrary: i st)
  case (Cons pk pks)
  obtain claims valid err where p: "au_parse A token pk = (claims, valid, err)" by (metis prod.exhaust)
  have v: "err = None \<longrightarrow> valid"
    using assms [unfolded jwt_reports_def, rule_format, of token pk] by (simp add: p)
  show ?case
  proof (cases err)
    case None
    with v p show ?thesis by (simp add: validates_def)
  next
    case (Some e)
    with p have "\<not> validates A token pk" by (simp add: validates_def)
    with Some p Cons.IH show ?thesis by simp
  qed
qed simp

lemma middleware_find:
  assumes "jwt_reports A" "GetKeyList km = Ok pks"
  shows "fst (AuthRequiredMiddleware A km fullPath auth st) =
    Ok (case find (validates A (Replace1 auth ''Bearer '' [])) pks of
       None \<Rightarrow> Unauthorized
     | Some pk \<Rightarrow> Next (token_user A (Replace1 auth ''Bearer '' []) pk) (au_hubId A))"
proof -
  let ?t = "Replace1 auth ''Bearer '' []"
  obtain r st' where r: "try_keys A ?t 0 pks (Log_old (au_logger A) (au_log A) ''Debug'' ''Middleware''
      [(''Request path'', fullPath), (''Request queries'', [])] st) = (r, st')" by (metis prod.exhaust)
  with try_keys_find [OF assms(1), of ?t 0 pks] have
    "r = (case find (validates A ?t) pks of None \<Rightarrow> Err invalid_token | Some pk \<Rightarrow> Ok (fst (au_parse A ?t pk)))"
    by (metis fst_conv)
  with r show ?thesis
    by (simp add: AuthRequiredMiddleware_def verifyToken_def assms(2) token_user_def split: option.split)
qed

section \<open>Properties\<close>

text \<open>
  The middleware lets a request pass exactly when a cached key validates its token. For a key
  cache in its invariant it never crashes; it hands the request on if and only if some cached key
  validates the token (with the first \<^verbatim>\<open>Bearer \<close> removed from the header), with the user that a
  validating key's claims name, and answers 401 otherwise.
\<close>

theorem auth_gate:
  fixes km :: "'k KeyManager" and auth :: string
  assumes "jwt_reports A" "km_inv km"
  defines "token \<equiv> Replace1 auth ''Bearer '' []" and "ks \<equiv> set (map key (cached km))"
  shows "fst (AuthRequiredMiddleware A km fullPath auth st) =
      (if \<exists>k \<in> ks. validates A token k
       then Ok (Next (token_user A token (the (find (validates A token) (map key (cached km))))) (au_hubId A))
       else Ok Unauthorized) \<and>
    (\<forall>k. find (validates A token) (map key (cached km)) = Some k \<longrightarrow> k \<in> ks \<and> validates A token k)"
proof -
  note gate = middleware_find [OF assms(1) GetKeyList_cached [OF assms(2)], of fullPath auth st, folded token_def]
  have some: "k \<in> ks \<and> validates A token k" if "find (validates A token) (map key (cached km)) = Some k" for k
    using that by (auto simp: find_Some_iff ks_def)
  show ?thesis
  proof (cases "find (validates A token) (map key (cached km))")
    case None
    then have "\<not> (\<exists>k \<in> ks. validates A token k)" by (auto simp: find_None_iff ks_def)
    with gate None show ?thesis by auto
  next
    case (Some k)
    with some have "\<exists>k \<in> ks. validates A token k" by blast
    with gate Some some show ?thesis by auto
  qed
qed

definition demo_auth :: "string auth_env" where
  "demo_auth = \<lparr>au_logger = \<lparr>deviceId = ''d'', applicationName = ''a'', applicationVersion = ''1'', bufferSize = 100\<rparr>,
     au_log = \<lparr>le_now = \<lambda>_. 0, le_uuid = \<lambda>_. [], le_marshal = \<lambda>_. Inl [], le_send = \<lambda>_ _ _. None,
       le_marshal_old = \<lambda>_ _. Inr ''{}'', le_show_int = \<lambda>_. ''0''\<rparr>,
     au_parse = \<lambda>token k. (\<lparr>Userid = ''u''\<rparr>, k = Some token, if k = Some token then None else Some ''signature is invalid''),
     au_hubId = ''hub''\<rparr>"

definition demo_keys :: "string KeyManager" where
  "demo_keys = \<lparr>keys = [\<lparr>key = Some ''K1'', fileName = ''1.pem''\<rparr>, \<lparr>key = Some ''K2'', fileName = ''2.pem''\<rparr>],
     maxLength = 2, currentLength = 2, PubkeysDir = ''/k''\<rparr>"

definition demo_log :: log_state where
  "demo_log = \<lparr>log_calls = [], upstream = [], log_file = [], log_buffer = [], old_calls = 0\<rparr>"

theorem auth_gate_witness:
  "fst (AuthRequiredMiddleware demo_auth demo_keys ''/x'' ''Bearer K2'' demo_log) = Ok (Next ''u'' ''hub'') \<and>
   fst (AuthRequiredMiddleware demo_auth demo_keys ''/x'' ''Bearer K3'' demo_log) = Ok Unauthorized"
proof -
  have A: "jwt_reports demo_auth" by (simp add: jwt_reports_def demo_auth_def)
  have K: "km_inv demo_keys" by (simp add: km_inv_def demo_keys_def)
  have c: "map key (cached demo_keys) = [Some ''K1'', Some ''K2'']" by (simp add: demo_keys_def cached_def)
  have t: "Replace1 ''Bearer K2'' ''Bearer '' [] = ''K2''" "Replace1 ''Bearer K3'' ''Bearer '' [] = ''K3''"
    using Replace1_prefix [of "''Bearer ''" "''K2''"] Replace1_prefix [of "''Bearer ''" "''K3''"] by simp_all
  have v: "validates demo_auth tk k \<longleftrightarrow> k = Some tk" "token_user demo_auth tk k = ''u''" for tk k
    by (simp_all add: validates_def token_user_def demo_auth_def)
  have h: "au_hubId demo_auth = ''hub''" by (simp add: demo_auth_def)
  note pass = auth_gate [OF A K, of "''/x''" "''Bearer K2''" demo_log]
    and stop = auth_gate [OF A K, of "''/x''" "''Bearer K3''" demo_log]
  show ?thesis using pass stop by (simp add: c t v h)
qed

end
