(* ===== verification/Hub_Commands.thy ===== *)
theory Hub_Commands
  imports Cloud_Batches
begin

text \<open>
  The commands the cloud sends to the hub, \<^verbatim>\<open>src/handle_commands.go\<close>: the filter update sets the
  keywords of the satellite receiver over HTTP, keeps them in the device's ini file and queues the
  outcome of the command for the cloud.

  Parameters, collected in \<open>cmd_env\<close>: the HTTP client (the answer to the \<open>n\<close>-th request), the JSON
  decoder of the payload, the clock, what saving the ini file returns, and the configured ids. The
  handlers run in goroutines of their own; here a command runs to its end.
\<close>

section \<open>The text of an answer\<close>

text \<open>The rest of \<open>s\<close> after the first occurrence of \<open>p\<close>.\<close>

fun after_first :: "string \<Rightarrow> string \<Rightarrow> string option" where
  "after_first p [] = (if p = [] then Some [] else None)"
| "after_first p (c # cs) =
     (if HasPrefix (c # cs) p then Some (drop (length p) (c # cs)) else after_first p cs)"

text \<open>
  \<^verbatim>\<open>FindString\<close> for the expression \<^verbatim>\<open>(?s)<body>(.*)</body>\<close>: from the first opening tag to the last
  closing tag after it, or the empty string.
\<close>

definition body_match :: "string \<Rightarrow> string" where
  "body_match s =
     (case after_first ''<body>'' s of
        None \<Rightarrow> []
      | Some r \<Rightarrow>
          (case after_first (rev ''</body>'') (rev r) of
             None \<Rightarrow> []
           | Some b \<Rightarrow> ''<body>'' @ rev b @ ''</body>''))"

text \<open>The length of the white space at the head of a UTF-8 string (\<^verbatim>\<open>unicode.IsSpace\<close>), 0 if there is none.\<close>

fun space_nats :: "nat list \<Rightarrow> nat" where
  "space_nats (a # bs) =
     (if a \<in> {9, 10, 11, 12, 13, 32} then 1
      else case bs of
        b # cs \<Rightarrow>
          if a = 194 \<and> (b = 133 \<or> b = 160) then 2
          else (case cs of
            c # _ \<Rightarrow>
              if a = 225 \<and> b = 154 \<and> c = 128 \<or>
                 a = 226 \<and> b = 128 \<and> (128 \<le> c \<and> c \<le> 138 \<or> c \<in> {168, 169, 175}) \<or>
                 a = 226 \<and> b = 129 \<and> c = 159 \<or> a = 227 \<and> b = 128 \<and> c = 128
              then 3 else 0
          | [] \<Rightarrow> 0)
      | [] \<Rightarrow> 0)"
| "space_nats [] = 0"

definition space_len :: "string \<Rightarrow> nat" where
  "space_len s = space_nats (map of_char (take 3 s))"

text \<open>\<^verbatim>\<open>strings.Fields\<close>; \<open>acc\<close> is the field being read.\<close>

function fields_from :: "string \<Rightarrow> string \<Rightarrow> string list" where
  "fields_from acc s =
     (case s of
        [] \<Rightarrow> if acc = [] then [] else [acc]
      | c # cs \<Rightarrow>
          if space_len s = 0 then fields_from (acc @ [c]) cs
          else (if acc = [] then [] else [acc]) @ fields_from [] (drop (space_len s) s))"
  by pat_completeness auto
termination
  by (relation "measure (\<lambda>(acc, s). length s)") auto

declare fields_from.simps [simp del]

definition Fields :: "string \<Rightarrow> string list" where
  "Fields s = fields_from [] s"

section \<open>State and parameters\<close>

record UpdateFilterPayload =
  uf_DeviceID :: string
  uf_CommandID :: string
  Filters :: "string list option" \<comment> \<open>\<open>None\<close> is the nil slice\<close>

record 'db cmd_env =
  cm_capi :: "'db capi"
  cm_http :: "nat \<Rightarrow> string \<Rightarrow> error + bytes"
  dec_filter :: "string \<Rightarrow> UpdateFilterPayload \<times> error option"
  cm_now :: "nat \<Rightarrow> int"
  save_ini :: "string \<Rightarrow> error option" \<comment> \<open>\<^verbatim>\<open>device_cfg.SaveTo(file)\<close>\<close>
  cm_deviceId :: string
  serviceId :: string
  DEVICE_DETAIL_FILE :: string

record 'db cmd_state =
  cs_capi :: "'db capi_state"
  cs_http :: nat
  cs_clock :: nat
  filters_key :: string \<comment> \<open>\<^verbatim>\<open>FILTERS\<close> in memory\<close>
  filters_file :: string \<comment> \<open>\<^verbatim>\<open>FILTERS\<close> in the ini file\<close>

definition cm_log :: "'db cmd_env \<Rightarrow> string \<Rightarrow> string \<Rightarrow> 'db cmd_state \<Rightarrow> 'db cmd_state" where
  "cm_log C ev text st = st\<lparr>cs_capi :=
     snd (log_msg (cm_capi C) ev (zero_MessageSubType\<lparr>StringMessage := text\<rparr>) (cs_capi st))\<rparr>"

section \<open>Setting the filters\<close>

text \<open>The three words of the answer are read by index: a shorter answer is out of range.\<close>

definition callSetkeywords :: "'db cmd_env \<Rightarrow> string \<Rightarrow> 'db cmd_state \<Rightarrow> (error option \<times> 'db cmd_state) res" where
  "callSetkeywords C keywords st =
     (let answer = cm_http C (cs_http st) (''http://host.docker.internal:8134/setkeywords/'' @ serviceId C @ keywords);
          st = st\<lparr>cs_http := Suc (cs_http st)\<rparr>
      in case answer of
           Inl err \<Rightarrow> Ok (Some err, cm_log C Error (''FilterUpdate: '' @ err) st)
         | Inr response \<Rightarrow>
             (let status = Fields (Trim (body_match response) (CHR 10)) in
              if length status \<le> 2 then Panic
              else if status ! 2 = ''FAILED''
              then let err = ''setkeywords API of mstore service failed. Response: ['' @ Join_with CHR '' '' status @ '']''
                   in Ok (Some err, cm_log C Error (''FilterUpdate: '' @ err) st)
              else Ok (None, st)))"

definition status_record :: "string \<Rightarrow> string \<Rightarrow> int \<Rightarrow> string \<Rightarrow> ApiData" where
  "status_record dev commandId time failedReason =
     \<lparr>ApiId = dev, ApiType = FilterUpdated, RetryCount = 0, OperationTime = time,
      SendCloudTelemetry = False, SendIOTCentralTelemetry = False,
      Properties = \<lparr>Key = ''commandId'', Value = commandId\<rparr> #
        (if failedReason = []
         then [\<lparr>Key = ''isFailed'', Value = ''false''\<rparr>, \<lparr>Key = ''failureReason'', Value = failedReason\<rparr>]
         else [\<lparr>Key = ''isFailed'', Value = ''true''\<rparr>])\<rparr>"

definition keywords_of :: "string list \<Rightarrow> string" where
  "keywords_of filters = concat (map (\<lambda>f. ''/'' @ f) filters)"

text \<open>
  When saving the ini file fails, the handler reads the text of the error of \<^verbatim>\<open>callSetkeywords\<close>,
  which is nil there: a nil dereference.
\<close>

definition apply_filters ::
    "'db cmd_env \<Rightarrow> string \<Rightarrow> string \<Rightarrow> 'db cmd_state \<Rightarrow> (string \<times> 'db cmd_state) res" where
  "apply_filters C keywords deviceIniFile st =
     bind_res (callSetkeywords C keywords st) (\<lambda>(err, st).
       case err of
         Some e \<Rightarrow> Ok (e, st)
       | None \<Rightarrow>
           let st = st\<lparr>filters_key := keywords\<rparr> in
           (case save_ini C deviceIniFile of
              None \<Rightarrow> Ok ([], st\<lparr>filters_file := keywords\<rparr>)
            | Some _ \<Rightarrow> Panic))"

definition handleFilterUpdate :: "'db cmd_env \<Rightarrow> string \<Rightarrow> string \<Rightarrow> 'db cmd_state \<Rightarrow> 'db cmd_state res" where
  "handleFilterUpdate C payload deviceIniFile st =
     (case dec_filter C payload of
        (_, Some jsonerr) \<Rightarrow> Ok (cm_log C Error (''FilterUpdate: '' @ jsonerr) st)
      | (filterPayload, None) \<Rightarrow>
          if uf_DeviceID filterPayload \<noteq> cm_deviceId C \<or> uf_CommandID filterPayload = [] \<or> Filters filterPayload = None
          then Ok (cm_log C InvalidCommandOnDevice ''FilterUpdate: Invalid payload received on the device'' st)
          else
            bind_res (apply_filters C (keywords_of (the (Filters filterPayload))) deviceIniFile st)
              (\<lambda>(failedReason, st).
                let commandStatusData = status_record (cm_deviceId C) (uf_CommandID filterPayload)
                      (cm_now C (cs_clock st)) failedReason;
                    st = st\<lparr>cs_clock := Suc (cs_clock st)\<rparr>
                in case marshal (ca_json (cm_capi C)) commandStatusData of
                     Inl _ \<Rightarrow> Ok st
                   | Inr bytes \<Rightarrow>
                       (case AddCommandStatus (ca_bolt (cm_capi C)) (uf_CommandID filterPayload) bytes
                               (ca_fs (cs_capi st)) of
                          (Panic, _) \<Rightarrow> Panic
                        | (_, fs) \<Rightarrow> Ok (st\<lparr>cs_capi := (cs_capi st)\<lparr>ca_fs := fs\<rparr>\<rparr>))))"

section \<open>Receiving a command\<close>

definition handleDelete :: "string \<Rightarrow> 'db cmd_state \<Rightarrow> 'db cmd_state res" where
  "handleDelete payload st = Ok st"

definition handleDownload :: "string \<Rightarrow> 'db cmd_state \<Rightarrow> 'db cmd_state res" where
  "handleDownload payload st = Ok st"

text \<open>The result: code and text of the response, and the outcome of the handler.\<close>

definition ReceiveCommand ::
    "'db cmd_env \<Rightarrow> string \<Rightarrow> string \<Rightarrow> 'db cmd_state \<Rightarrow> (int \<times> string) \<times> 'db cmd_state res" where
  "ReceiveCommand C command payload st =
     ((1, ''Recieved payload for '' @ command),
      if command = ''Download'' then handleDownload payload st
      else if command = ''Delete'' then handleDelete payload st
      else if command = ''FilterUpdate'' then handleFilterUpdate C payload (DEVICE_DETAIL_FILE C) st
      else Ok (cm_log C InvalidCommandOnDevice ''Invalid command name received on the device'' st))"

section \<open>Facts\<close>

lemma cm_log_frame [simp]:
  "ca_fs (cs_capi (cm_log C ev t st)) = ca_fs (cs_capi st)" "cs_http (cm_log C ev t st) = cs_http st"
  "filters_key (cm_log C ev t st) = filters_key st" "filters_file (cm_log C ev t st) = filters_file st"
  "cs_clock (cm_log C ev t st) = cs_clock st"
  by (cases "log_msg (cm_capi C) ev (zero_MessageSubType\<lparr>StringMessage := t\<rparr>) (cs_capi st)")
    (auto simp: cm_log_def dest: log_msg_calls)

lemma callSetkeywords_frame:
  assumes "callSetkeywords C keywords st = Ok (err, st')"
  shows "ca_fs (cs_capi st') = ca_fs (cs_capi st)" "filters_key st' = filters_key st"
    "filters_file st' = filters_file st" "cs_clock st' = cs_clock st"
  using assms by (auto simp: callSetkeywords_def Let_def split: sum.splits if_splits)

lemma apply_filters_cases:
  assumes "apply_filters C keywords ini st = Ok (reason, st')"
  obtains (applied) st1 where "callSetkeywords C keywords st = Ok (None, st1)" "save_ini C ini = None" "reason = []"
      "filters_key st' = keywords" "filters_file st' = keywords" "ca_fs (cs_capi st') = ca_fs (cs_capi st)" "cs_clock st' = cs_clock st"
  | (refused) "callSetkeywords C keywords st = Ok (Some reason, st')"
      "filters_key st' = filters_key st" "filters_file st' = filters_file st" "ca_fs (cs_capi st') = ca_fs (cs_capi st)"
      "cs_clock st' = cs_clock st"
proof -
  from assms obtain err st1 where call: "callSetkeywords C keywords st = Ok (err, st1)"
    and rest: "(case err of Some e \<Rightarrow> Ok (e, st1) | None \<Rightarrow> (case save_ini C ini of
        None \<Rightarrow> Ok ([], st1\<lparr>filters_key := keywords, filters_file := keywords\<rparr>) | Some _ \<Rightarrow> Panic)) = Ok (reason, st')"
    unfolding apply_filters_def Let_def bind_res_eq_Ok by auto
  with callSetkeywords_frame [OF call] show ?thesis
    using applied refused by (cases err; cases "save_ini C ini") auto
qed

lemma prop_value_Cons:
  "prop_value (\<lparr>Key = k, Value = v\<rparr> # ps) x =
    (if x \<in> Key ` set ps then prop_value ps x else if x = k then v else prop_value ps x)"
proof -
  have "map_of (rev (map (\<lambda>p. (Key p, Value p)) ps)) x = None \<longleftrightarrow> x \<notin> Key ` set ps"
    by (simp add: map_of_eq_None_iff image_image)
  then show ?thesis by (auto simp: prop_value_def map_add_def split: option.splits)
qed

lemma prop_value_Nil [simp]: "prop_value [] x = []"
  by (simp add: prop_value_def)

lemma AddCommandStatus_commits:
  assumes "bolt_spec B" "commits B" "pending_ready B fs" "fits k v"
  shows "fst (AddCommandStatus B k v fs) = Ok ()"
proof -
  obtain db where "bucket_put B PendingAPIRequestMapping k v (nodesDB fs) = Ok db"
    using bolt_spec.bucket_put_succeeds [OF assms(1), of "nodesDB fs" PendingAPIRequestMapping k v] assms(3,4)
    by (auto simp: pending_ready_def fits_def)
  with assms(2) show ?thesis by (simp add: AddCommandStatus_def fs_update_def commits_def)
qed

lemma pending_add:
  assumes "bolt_spec B" "fits k v" "AddCommandStatus B k v fs = (Ok u, fs')"
  shows "pending B fs' k = Some v"
  using bolt_spec.pending_put_Ok(2) [OF assms(1) assms(3) [unfolded AddCommandStatus_def], of PendingAPIRequestMapping k] by simp

section \<open>A command to look at\<close>

text \<open>The receiver gives the answer \<open>ans\<close>, saving the ini file returns \<open>save\<close>.\<close>

definition mem_cmd :: "error + bytes \<Rightarrow> error option \<Rightarrow> string \<Rightarrow> mem_db cmd_env" where
  "mem_cmd ans save dev = \<lparr>cm_capi = mem_capi (\<lambda>_. None), cm_http = \<lambda>_ _. ans,
     dec_filter = \<lambda>_. (\<lparr>uf_DeviceID = dev, uf_CommandID = ''c'', Filters = Some [''f'']\<rparr>, None),
     cm_now = \<lambda>_. 0, save_ini = \<lambda>_. save, cm_deviceId = ''dev'', serviceId = ''s'', DEVICE_DETAIL_FILE = ''i''\<rparr>"

definition mem_cmd_state :: "mem_db cmd_state" where
  "mem_cmd_state = \<lparr>cs_capi = mem_state (mem_fs [] [] []), cs_http = 0, cs_clock = 0,
     filters_key = ''/o'', filters_file = ''/o''\<rparr>"

lemma mem_cmd_simps [simp]:
  "cm_capi (mem_cmd ans save dev) = mem_capi (\<lambda>_. None)" "cm_http (mem_cmd ans save dev) n u = ans"
  "dec_filter (mem_cmd ans save dev) p = (\<lparr>uf_DeviceID = dev, uf_CommandID = ''c'', Filters = Some [''f'']\<rparr>, None)"
  "cm_now (mem_cmd ans save dev) n = 0" "save_ini (mem_cmd ans save dev) i = save" "cm_deviceId (mem_cmd ans save dev) = ''dev''"
  "cs_capi mem_cmd_state = mem_state (mem_fs [] [] [])" "cs_clock mem_cmd_state = 0"
  "filters_key mem_cmd_state = ''/o''" "filters_file mem_cmd_state = ''/o''"
  by (simp_all add: mem_cmd_def mem_cmd_state_def)

lemma demo_answer:
  "Fields (Trim (body_match ''<body> SET OK </body>'') (CHR 10)) = [''<body>'', ''SET'', ''OK'', ''</body>'']"
  by code_simp

lemma demo_short_answer: "Fields (Trim (body_match ''<html>busy</html>'') (CHR 10)) = []"
  by code_simp

lemma demo_call: "callSetkeywords (mem_cmd (Inr ''<body> SET OK </body>'') save dev) k st = Ok (None, st\<lparr>cs_http := Suc (cs_http st)\<rparr>)"
  by (simp only: callSetkeywords_def mem_cmd_simps Let_def sum.case demo_answer) simp

lemma demo_status: "\<exists>bytes. marshal api_codec (status_record ''dev'' ''c'' 0 reason) = Inr bytes \<and> fits ''c'' bytes"
  by (simp add: api_codec_def status_record_def enc_int_def enc_bool_def fits_def max_key_def max_value_def)

lemma demo_update:
  assumes "apply_filters (mem_cmd ans None ''dev'') ''/f'' ''i'' mem_cmd_state = Ok (reason, st1)"
  shows "\<exists>st'. handleFilterUpdate (mem_cmd ans None ''dev'') ''{}'' ''i'' mem_cmd_state = Ok st'"
proof -
  obtain bytes where bytes: "marshal api_codec (status_record ''dev'' ''c'' 0 reason) = Inr bytes" "fits ''c'' bytes"
    using demo_status by blast
  have same: "ca_fs (cs_capi st1) = mem_fs [] [] []" "cs_clock st1 = 0" using assms by (auto elim: apply_filters_cases)
  obtain fs where "AddCommandStatus mem_bolt ''c'' bytes (mem_fs [] [] []) = (Ok (), fs)"
    using AddCommandStatus_commits [OF mem_bolt_spec mem_commits _ bytes(2), of "mem_fs [] [] []"]
    by (cases "AddCommandStatus mem_bolt ''c'' bytes (mem_fs [] [] [])") simp
  with bytes(1) assms same show ?thesis by (simp add: handleFilterUpdate_def keywords_of_def Let_def)
qed

text \<open>What the receiver's answer to the keywords leads to.\<close>

lemma callSetkeywords_outcome:
  assumes "callSetkeywords C keywords st = Ok (err, st')"
  shows "case cm_http C (cs_http st) (''http://host.docker.internal:8134/setkeywords/'' @ serviceId C @ keywords) of
      Inl e \<Rightarrow> err = Some e
    | Inr r \<Rightarrow> (let status = Fields (Trim (body_match r) (CHR 10)) in 2 < length status \<and>
        (if status ! 2 = ''FAILED'' then \<exists>e. err = Some e \<and> e \<noteq> [] else err = None))"
  using assms by (auto simp: callSetkeywords_def Let_def split: sum.splits if_splits)

section \<open>Properties\<close>

text \<open>
  An invalid filter update does nothing. A payload that does not parse, is for another device, has
  no command id or no filters leads to no HTTP request and changes neither the filters, in memory
  or in the file, nor the store.
\<close>

theorem filter_update_rejects:
  assumes "dec_filter C payload = (p, jsonerr)"
    and "jsonerr \<noteq> None \<or> uf_DeviceID p \<noteq> cm_deviceId C \<or> uf_CommandID p = [] \<or> Filters p = None"
  shows "\<exists>st'. handleFilterUpdate C payload ini st = Ok st' \<and> cs_http st' = cs_http st \<and>
    filters_key st' = filters_key st \<and> filters_file st' = filters_file st \<and> ca_fs (cs_capi st') = ca_fs (cs_capi st)"
  using assms by (cases jsonerr) (auto simp: handleFilterUpdate_def)

theorem filter_update_rejects_witness:
  "\<exists>st'. handleFilterUpdate (mem_cmd (Inl ''down'') None ''other'') ''{}'' ''i'' mem_cmd_state = Ok st' \<and> filters_key st' = ''/o''"
  using filter_update_rejects [of "mem_cmd (Inl ''down'') None ''other''" "''{}''" "\<lparr>uf_DeviceID = ''other'', uf_CommandID = ''c'',
      Filters = Some [''f'']\<rparr>" None "''i''" mem_cmd_state] by auto

text \<open>
  C35: The outcome of a valid filter update is queued under its command id. If the third word in the body of the
  receiver's answer is there and is not \<open>FAILED\<close>, the keywords (each filter after a slash) are in memory and in the
  ini file, and the queued record has the command id, \<open>isFailed\<close> false and an empty reason. If the call failed or the
  third word is \<open>FAILED\<close>, the filters are as before and the record has the command id and \<open>isFailed\<close> true; only a
  failed call whose error has no text is recorded as a success. This assumes that the update does not panic,
  the pending bucket exists and the transaction commits, and the two records can be encoded and stored.
\<close>

theorem filter_update_outcome:
  fixes C :: "'db cmd_env"
  defines "queued \<equiv> \<lambda>p now outcome. \<lparr>ApiId = cm_deviceId C, ApiType = FilterUpdated, RetryCount = 0, OperationTime = now,
      SendCloudTelemetry = False, SendIOTCentralTelemetry = False,
      Properties = \<lparr>Key = ''commandId'', Value = uf_CommandID p\<rparr> # outcome\<rparr>"
  defines "succeeded \<equiv> [\<lparr>Key = ''isFailed'', Value = ''false''\<rparr>, \<lparr>Key = ''failureReason'', Value = []\<rparr>]"
  defines "failed \<equiv> [\<lparr>Key = ''isFailed'', Value = ''true''\<rparr>]"
  assumes "bolt_spec (ca_bolt (cm_capi C))" and "commits (ca_bolt (cm_capi C))"
    and "dec_filter C payload = (p, None)" "uf_DeviceID p = cm_deviceId C" "uf_CommandID p \<noteq> []" "Filters p = Some fl"
    and "\<forall>outcome \<in> {succeeded, failed}. \<exists>bytes.
      marshal (ca_json (cm_capi C)) (queued p (cm_now C (cs_clock st)) outcome) = Inr bytes \<and> fits (uf_CommandID p) bytes"
    and "pending_ready (ca_bolt (cm_capi C)) (ca_fs (cs_capi st))"
    and "handleFilterUpdate C payload ini st = Ok st'"
  defines "keywords \<equiv> concat (map (\<lambda>filter. ''/'' @ filter) fl)"
  defines "answer \<equiv> cm_http C (cs_http st) (''http://host.docker.internal:8134/setkeywords/'' @ serviceId C @ keywords)"
  defines "words \<equiv> \<lambda>response. Fields (Trim (body_match response) (CHR 10))"
  defines "accepted \<equiv> \<exists>response. answer = Inr response \<and> 2 < length (words response) \<and> words response ! 2 \<noteq> ''FAILED''"
  shows "(if accepted then filters_key st' = keywords \<and> filters_file st' = keywords
      else filters_key st' = filters_key st \<and> filters_file st' = filters_file st) \<and>
    (\<exists>bytes. pending (ca_bolt (cm_capi C)) (ca_fs (cs_capi st')) (uf_CommandID p) = Some bytes \<and>
      marshal (ca_json (cm_capi C)) (queued p (cm_now C (cs_clock st)) (if accepted \<or> answer = Inl [] then succeeded else failed)) = Inr bytes)"
proof -
  let ?B = "ca_bolt (cm_capi C)" and ?J = "ca_json (cm_capi C)" and ?now = "cm_now C (cs_clock st)"
  have kw: "keywords_of fl = keywords" by (simp add: keywords_of_def keywords_def)
  have entry: "status_record (cm_deviceId C) (uf_CommandID p) ?now reason = queued p ?now (if reason = [] then succeeded else failed)" for reason
    by (simp add: status_record_def queued_def succeeded_def failed_def)
  from assms(6-9,12) obtain reason st1 where app: "apply_filters C keywords ini st = Ok (reason, st1)"
    by (auto simp: handleFilterUpdate_def kw)
  have clock: "cs_clock st1 = cs_clock st" "ca_fs (cs_capi st1) = ca_fs (cs_capi st)"
    using app by (auto elim: apply_filters_cases)
  have outcome: "if accepted then reason = [] \<and> filters_key st1 = keywords \<and> filters_file st1 = keywords
    else (reason = [] \<longleftrightarrow> answer = Inl []) \<and> filters_key st1 = filters_key st \<and> filters_file st1 = filters_file st"
    using app
  proof (cases rule: apply_filters_cases)
    case (applied st2)
    with callSetkeywords_outcome [OF applied(1)] show ?thesis
      by (auto simp: accepted_def answer_def words_def Let_def split: sum.splits if_splits)
  next
    case refused
    with callSetkeywords_outcome [OF refused(1)] show ?thesis
      by (auto simp: accepted_def answer_def words_def Let_def split: sum.splits if_splits)
  qed
  obtain bytes where enc: "marshal ?J (status_record (cm_deviceId C) (uf_CommandID p) ?now reason) = Inr bytes"
    "fits (uf_CommandID p) bytes" using assms(10) by (cases "reason = []") (auto simp: entry)
  obtain r fs where add: "AddCommandStatus ?B (uf_CommandID p) bytes (ca_fs (cs_capi st)) = (r, fs)" by (meson surj_pair)
  have "r = Ok ()" using AddCommandStatus_commits [OF assms(4,5,11) enc(2)] add by simp
  with assms(6-9,12) app clock enc add have st': "filters_key st' = filters_key st1" "filters_file st' = filters_file st1"
      "ca_fs (cs_capi st') = fs"
    by (auto simp: handleFilterUpdate_def Let_def kw)
  have "pending ?B fs (uf_CommandID p) = Some bytes" using pending_add [OF assms(4) enc(2)] add \<open>r = Ok ()\<close> by simp
  with outcome enc(1) st' show ?thesis by (auto simp: entry split: if_splits)
qed

theorem filter_update_outcome_witness:
  "(\<exists>st' bytes. handleFilterUpdate (mem_cmd (Inr ''<body> SET OK </body>'') None ''dev'') ''{}'' ''i'' mem_cmd_state = Ok st' \<and>
     filters_key st' = ''/f'' \<and> filters_file st' = ''/f'' \<and> pending mem_bolt (ca_fs (cs_capi st')) ''c'' = Some bytes \<and>
     Properties (fst (unmarshal api_codec bytes)) = [\<lparr>Key = ''commandId'', Value = ''c''\<rparr>, \<lparr>Key = ''isFailed'', Value = ''false''\<rparr>,
       \<lparr>Key = ''failureReason'', Value = []\<rparr>]) \<and>
   (\<exists>st' bytes. handleFilterUpdate (mem_cmd (Inl ''down'') None ''dev'') ''{}'' ''i'' mem_cmd_state = Ok st' \<and>
     filters_key st' = ''/o'' \<and> filters_file st' = ''/o'' \<and> pending mem_bolt (ca_fs (cs_capi st')) ''c'' = Some bytes \<and>
     Properties (fst (unmarshal api_codec bytes)) = [\<lparr>Key = ''commandId'', Value = ''c''\<rparr>, \<lparr>Key = ''isFailed'', Value = ''true''\<rparr>])"
proof -
  let ?p = "\<lparr>uf_DeviceID = ''dev'', uf_CommandID = ''c'', Filters = Some [''f'']\<rparr>"
  let ?rec = "\<lambda>outcome. \<lparr>ApiId = ''dev'', ApiType = FilterUpdated, RetryCount = 0, OperationTime = 0,
      SendCloudTelemetry = False, SendIOTCentralTelemetry = False, Properties = \<lparr>Key = ''commandId'', Value = ''c''\<rparr> # outcome\<rparr>"
  let ?good = "[\<lparr>Key = ''isFailed'', Value = ''false''\<rparr>, \<lparr>Key = ''failureReason'', Value = []\<rparr>]" and ?bad = "[\<lparr>Key = ''isFailed'', Value = ''true''\<rparr>]"
  have stored: "\<exists>bytes. marshal api_codec (?rec ?good) = Inr bytes \<and> fits ''c'' bytes" "\<exists>bytes. marshal api_codec (?rec ?bad) = Inr bytes \<and> fits ''c'' bytes"
    using demo_status [of "[]"] demo_status [of "''x''"] by (simp_all add: status_record_def)
  have decoded: "unmarshal api_codec b = (d, None)" if "marshal api_codec d = Inr b" for d b using mem_api.round_trip [of d] that by auto
  have "apply_filters (mem_cmd (Inr ''<body> SET OK </body>'') None ''dev'') ''/f'' ''i'' mem_cmd_state =
      Ok ([], mem_cmd_state\<lparr>cs_http := Suc (cs_http mem_cmd_state), filters_key := ''/f'', filters_file := ''/f''\<rparr>)"
    by (simp add: apply_filters_def demo_call)
  from demo_update [OF this] obtain st1 where
    run1: "handleFilterUpdate (mem_cmd (Inr ''<body> SET OK </body>'') None ''dev'') ''{}'' ''i'' mem_cmd_state = Ok st1" by blast
  obtain r st where "apply_filters (mem_cmd (Inl ''down'') None ''dev'') ''/f'' ''i'' mem_cmd_state = Ok (r, st)"
    by (simp add: apply_filters_def callSetkeywords_def Let_def)
  from demo_update [OF this] obtain st2 where
    run2: "handleFilterUpdate (mem_cmd (Inl ''down'') None ''dev'') ''{}'' ''i'' mem_cmd_state = Ok st2" by blast
  have words: "Fields (Trim (body_match ''<body> SET OK </body>'') (CHR 10)) = [''<body>'', ''SET'', ''OK'', ''</body>'']" by (rule demo_answer)
  note outcome = filter_update_outcome [where p = ?p and fl = "[''f'']"]
  have "filters_key st1 = ''/f'' \<and> filters_file st1 = ''/f'' \<and> (\<exists>bytes. pending mem_bolt (ca_fs (cs_capi st1)) ''c'' = Some bytes \<and>
      marshal api_codec (?rec ?good) = Inr bytes)"
    using outcome [OF _ _ _ _ _ _ _ _ run1] stored by (simp add: mem_bolt_spec mem_commits words)
  moreover have "filters_key st2 = ''/o'' \<and> filters_file st2 = ''/o'' \<and> (\<exists>bytes. pending mem_bolt (ca_fs (cs_capi st2)) ''c'' = Some bytes \<and>
      marshal api_codec (?rec ?bad) = Inr bytes)"
    using outcome [OF _ _ _ _ _ _ _ _ run2] stored by (simp add: mem_bolt_spec mem_commits)
  ultimately show ?thesis using run1 run2 decoded by fastforce
qed

text \<open>
  The failure reason never reaches the cloud. For every outcome the status request built from the
  queued record carries the device, the command and whether it failed, but an empty reason: the
  reason is attached only to successful outcomes, where it is empty.
\<close>

theorem failure_reason_lost:
  "command_status_request (status_record dev commandId t failedReason) =
     \<lparr>cs_DeviceId = dev, cs_CommandId = commandId, IsFailed = (failedReason \<noteq> []), FailureReason = []\<rparr>"
  by (simp add: command_status_request_def status_record_def prop_value_Cons ParseBool_def)

text \<open>
  C38: Two ways to crash the hub with a valid filter update: the ini file cannot be saved after the
  receiver accepted the keywords, or the receiver's answer has fewer than three words in its body.
\<close>

theorem filter_update_panics:
  assumes "dec_filter C payload = (p, None)" "uf_DeviceID p = cm_deviceId C" "uf_CommandID p \<noteq> []" "Filters p = Some fl"
    and "(\<exists>st1 e. callSetkeywords C (keywords_of fl) st = Ok (None, st1) \<and> save_ini C ini = Some e) \<or>
      (\<exists>response. cm_http C (cs_http st) (''http://host.docker.internal:8134/setkeywords/'' @ serviceId C @ keywords_of fl) = Inr response \<and>
        length (Fields (Trim (body_match response) (CHR 10))) \<le> 2)"
  shows "handleFilterUpdate C payload ini st = Panic"
  using assms
  by (auto simp: handleFilterUpdate_def apply_filters_def callSetkeywords_def Let_def split: sum.splits if_splits)

theorem filter_update_panics_witness:
  "handleFilterUpdate (mem_cmd (Inr ''<body> SET OK </body>'') (Some ''disk full'') ''dev'') ''{}'' ''i'' mem_cmd_state = Panic"
  by (rule filter_update_panics [where fl = "[''f'']" and p = "\<lparr>uf_DeviceID = ''dev'', uf_CommandID = ''c'', Filters = Some [''f'']\<rparr>"]) (simp_all add: demo_call)


end
