(* ===== verification/Hub_Start.thy ===== *)
theory Hub_Start
  imports Route_Auth Go_Strconv Go_Files Hub_Commands
begin

text \<open>
  The start-up of the hub, \<^verbatim>\<open>main\<close> of \<^verbatim>\<open>src/hub.go\<close>: opening the content index, setting the persisted
  filters on the receiver, fetching the public keys and filling the key cache, and queueing the
  provisioning request. The configuration values are arguments; starting the goroutines and the web
  server is not modelled, their bodies are in the other theories.
\<close>

section \<open>The content index\<close>

text \<open>
  Lines 89 to 106: \<open>opened\<close> is what \<^verbatim>\<open>bolt.Open\<close> returns. A failure is logged and ends the process
  (\<open>Err\<close>).
\<close>

definition start_error :: "Logger \<Rightarrow> log_env \<Rightarrow> string \<Rightarrow> error \<Rightarrow> log_state \<Rightarrow> log_state" where
  "start_error l E level err =
     Log_old l E level ''Filesys'' [(''Message'', ''Failed to setup filesys: '' @ err)]"

definition start_index ::
    "'db bolt \<Rightarrow> Logger \<Rightarrow> log_env \<Rightarrow> error + 'db \<Rightarrow> string \<Rightarrow> bool \<Rightarrow> log_state \<Rightarrow> 'db FileSystem res \<times> log_state" where
  "start_index B l E opened home_dir_location initflag st =
     (case MakeFileSystem opened home_dir_location of
        Ok fs \<Rightarrow>
          if initflag then
            (case InitFileSystem B fs of
               (Ok _, fs) \<Rightarrow> (Ok fs, st)
             | (Err err, _) \<Rightarrow> (Err err, start_error l E ''Critical'' err st)
             | _ \<Rightarrow> (Panic, st))
          else (Ok fs, st)
      | Err err \<Rightarrow> (Err err, start_error l E ''Error'' err st)
      | _ \<Rightarrow> (Panic, st))"

section \<open>The filters\<close>

text \<open>
  Lines 107 to 125. An empty setting is replaced by \<^verbatim>\<open>Invalid\<close>, in memory and, unless saving fails, in
  the ini file; a failure of \<^verbatim>\<open>callSetkeywords\<close> is only printed.
\<close>

definition persisted_filters :: "'db cmd_env \<Rightarrow> 'db cmd_state \<Rightarrow> string \<times> 'db cmd_state" where
  "persisted_filters C st =
     (if filters_key st = [] then
        let st = st\<lparr>filters_key := ''Invalid''\<rparr> in
        (''Invalid'', case save_ini C (DEVICE_DETAIL_FILE C) of
                        None \<Rightarrow> st\<lparr>filters_file := ''Invalid''\<rparr> | Some _ \<Rightarrow> st)
      else (filters_key st, st))"

definition start_filters :: "'db cmd_env \<Rightarrow> 'db cmd_state \<Rightarrow> 'db cmd_state res" where
  "start_filters C st =
     (case persisted_filters C st of (filters, st) \<Rightarrow>
        bind_res (callSetkeywords C (CHR ''/'' # Trim filters CHR ''/'') st) (\<lambda>(_, st). Ok st))"

section \<open>The public keys\<close>

record PublicKey =
  pk_TimeStamp :: string
  pk_value :: string

text \<open>\<^verbatim>\<open>filepath.Ext\<close>: the last element of the path from its last dot on.\<close>

definition Ext :: "string \<Rightarrow> string" where
  "Ext p =
     (let r = takeWhile (\<lambda>c. c \<noteq> CHR ''/'') (rev p) in
      if CHR ''.'' \<in> set r then rev (takeWhile (\<lambda>c. c \<noteq> CHR ''.'') r @ ''.'') else [])"

text \<open>
  The paths \<^verbatim>\<open>filepath.Walk\<close> visits: the root and all below it, except for what is in a directory that
  cannot be examined or read. Its function returns nil for each.
\<close>

definition walked :: "os_faults \<Rightarrow> disk \<Rightarrow> string \<Rightarrow> bool" where
  "walked osf d p \<longleftrightarrow> map_of d p = Some Directory \<and> osf (Stat p) d = None \<and> osf (ReadDir p) d = None"

definition Walk_paths :: "os_faults \<Rightarrow> string \<Rightarrow> disk \<Rightarrow> string list" where
  "Walk_paths osf root d =
     root # filter (\<lambda>p. HasPrefix p (Clean root @ ''/'') \<and>
         list_all (\<lambda>i. length (Clean root) \<le> i \<and> p ! i = CHR ''/'' \<longrightarrow> walked osf d (take i p)) [0..<length p])
       (remdups (map fst d))"

text \<open>
  The keys of the key store are written to files named after their time stamps (lines 194 to 206):
  the file is not truncated, and a failure is only logged (\<^verbatim>\<open>WriteString\<close> on the nil file of a failed
  open returns an error).
\<close>

definition write_key :: "os_faults \<Rightarrow> string \<Rightarrow> PublicKey \<Rightarrow> disk \<Rightarrow> disk" where
  "write_key osf dir k d =
     (let filePath = Join [dir, pk_TimeStamp k @ ''.pem''] in
      case os_OpenCreate osf filePath d of
        (Ok _, d) \<Rightarrow> snd (write_start osf filePath (pk_value k) d)
      | (_, d) \<Rightarrow> d)"

text \<open>The time a key file is named after (lines 209 to 222), \<open>None\<close> for other files.\<close>

definition key_time :: "string \<Rightarrow> int option" where
  "key_time path =
     (let ext = Ext path; file_full_name = Base path in
      if ext = ''.pem'' then
        (case ParseInt 64 (take (length file_full_name - length ext) file_full_name) of
           (t, None) \<Rightarrow> Some t | _ \<Rightarrow> None)
      else None)"

definition key_file :: "int \<Rightarrow> string" where
  "key_file t = FormatInt t @ ''.pem''"

definition file_times :: "os_faults \<Rightarrow> string \<Rightarrow> disk \<Rightarrow> int list" where
  "file_times osf pubkeys_dir d = sort (List.map_filter key_time (Walk_paths osf pubkeys_dir d))"

text \<open>
  Lines 150 to 238. \<open>resp\<close> is the answer of the key store: the error of \<^verbatim>\<open>http.Get\<close>, or the body as far
  as it could be read and the error of reading it; \<open>dec\<close> is \<^verbatim>\<open>json.Unmarshal\<close> into a slice of keys, which
  may leave some keys there also with an error. Both errors are logged and the code goes on.
\<close>

record 'k start_env =
  se_osf :: os_faults
  se_parsePEM :: "bytes \<Rightarrow> error + 'k"
  se_dec :: "bytes \<Rightarrow> PublicKey list \<times> error option"
  se_logger :: Logger
  se_log :: log_env

definition log_km :: "'k start_env \<Rightarrow> string \<Rightarrow> string \<Rightarrow> log_state \<Rightarrow> log_state" where
  "log_km S level text = Log_old (se_logger S) (se_log S) level ''Keymanager'' [(''Message'', text)]"

definition make_keys_dir :: "'k start_env \<Rightarrow> string \<Rightarrow> disk \<times> log_state \<Rightarrow> disk \<times> log_state" where
  "make_keys_dir S dir = (\<lambda>(d, st).
     if IsNotExist (se_osf S) dir d then
       (case os_MkdirAll (se_osf S) dir d of
          (Ok _, d) \<Rightarrow> (d, st)
        | (_, d) \<Rightarrow> (d, log_km S ''Error''
            (''Failed to make public keys directory: stat '' @ dir @ '': no such file or directory'') st))
     else (d, st))"

definition log_if :: "'k start_env \<Rightarrow> string \<Rightarrow> error option \<Rightarrow> log_state \<Rightarrow> log_state" where
  "log_if S text err st = (case err of None \<Rightarrow> st | Some e \<Rightarrow> log_km S ''Error'' (text @ e) st)"

text \<open>
  The cache is filled from the files on the disk, the newest last. When it is empty then, every file has
  failed, and a failing \<^verbatim>\<open>AddKey\<close> changes nothing: the error in the last message is the one of the last file,
  nil if there was none.
\<close>

definition last_error :: "'k start_env \<Rightarrow> string list \<Rightarrow> 'k KeyManager \<times> disk \<Rightarrow> error" where
  "last_error S files kd =
     (if files = [] then ''<nil>''
      else case fst (AddKey (se_osf S) (se_parsePEM S) (last files) kd) of Err e \<Rightarrow> e | _ \<Rightarrow> ''<nil>'')"

definition fetch_keys ::
    "'k start_env \<Rightarrow> string \<Rightarrow> bytes \<times> error option \<Rightarrow> 'k KeyManager \<times> disk \<times> log_state \<Rightarrow>
     ('k KeyManager \<times> disk \<times> log_state) res" where
  "fetch_keys S dir = (\<lambda>(body, readErr) (km, d, st).
     let (keys, decErr) = se_dec S body;
         st = log_if S ''Failed to decode blob storage keys json: '' readErr st;
         st = log_if S ''Failed to decode blob storage keys json: '' decErr st;
         d = fold (write_key (se_osf S) (PubkeysDir km)) keys d;
         files = map key_file (file_times (se_osf S) dir d)
     in case load_keys (se_osf S) (se_parsePEM S) files (km, d) of
          (Ok _, km, d) \<Rightarrow>
            bind_res (GetKeyList km) (\<lambda>cached.
              Ok (km, d, if cached = []
                         then log_km S ''Critical'' (''Failed to setup keymanager: '' @ last_error S files (km, d)) st
                         else st))
        | _ \<Rightarrow> Panic)"

definition start_keys ::
    "'k start_env \<Rightarrow> int \<Rightarrow> string \<Rightarrow> error + bytes \<times> error option \<Rightarrow> disk \<times> log_state \<Rightarrow>
     ('k KeyManager \<times> disk \<times> log_state) res" where
  "start_keys S keys_cache_size pubkeys_dir resp ds =
     bind_res (MakeKeyManager keys_cache_size pubkeys_dir) (\<lambda>km.
       case make_keys_dir S pubkeys_dir ds of (d, st) \<Rightarrow>
         (case resp of
            Inl err \<Rightarrow> Ok (km, d, log_km S ''Error'' (''Failed to get keys from blob storage: '' @ err) st)
          | Inr body \<Rightarrow> fetch_keys S pubkeys_dir body (km, d, st)))"

section \<open>Provisioning\<close>

text \<open>Lines 240 to 255: the error of \<^verbatim>\<open>AddProvisionedStatus\<close> is dropped.\<close>

definition provision_data :: "string \<Rightarrow> int \<Rightarrow> ApiData" where
  "provision_data dev time =
     \<lparr>ApiId = dev, ApiType = Provisioned, RetryCount = 0, OperationTime = time,
      SendCloudTelemetry = False, SendIOTCentralTelemetry = False, Properties = []\<rparr>"

definition start_provision :: "'db capi \<Rightarrow> string \<Rightarrow> int \<Rightarrow> 'db FileSystem \<Rightarrow> 'db FileSystem res" where
  "start_provision E dev now fs =
     (case marshal (ca_json E) (provision_data dev now) of
        Inl _ \<Rightarrow> Ok fs
      | Inr byteArr \<Rightarrow>
          (case AddProvisionedStatus (ca_bolt E) dev byteArr fs of (Panic, _) \<Rightarrow> Panic | (_, fs) \<Rightarrow> Ok fs))"

section \<open>Key files\<close>

lemma format_nat_plain: "CHR ''/'' \<notin> set (format_nat n)"
  using format_nat_digits [of "CHR ''/''" n] by (auto simp: digit_of_def)

lemma FormatInt_plain: "CHR ''/'' \<notin> set (FormatInt t)"
  by (simp add: FormatInt_def format_nat_plain)

lemma simple_key_file: "simple (key_file t)"
proof -
  have len: "4 < length (key_file t)" by (simp add: key_file_def)
  have "key_file t \<noteq> s" if "length s \<le> 4" for s using that len by force
  from this [of "[]"] this [of "''.''"] this [of "''..''"] show ?thesis
    by (simp add: simple_def) (simp add: key_file_def FormatInt_plain)
qed

lemma key_file_inj: "key_file t = key_file u \<Longrightarrow> t \<in> {- (2 ^ 63)..<2 ^ 63} \<Longrightarrow> u \<in> {- (2 ^ 63)..<2 ^ 63} \<Longrightarrow> t = u"
proof -
  assume "key_file t = key_file u" and t: "t \<in> {- (2 ^ 63)..<2 ^ 63}" and u: "u \<in> {- (2 ^ 63)..<2 ^ 63}"
  then have "FormatInt t = FormatInt u" by (simp add: key_file_def)
  moreover have "ParseInt 64 (FormatInt t) = (t, None)" "ParseInt 64 (FormatInt u) = (u, None)"
    using ParseInt_FormatInt [of 64 t] ParseInt_FormatInt [of 64 u] t u by simp_all
  ultimately show "t = u" by (metis fst_conv)
qed

lemma Ext_pem: "Ext (x @ ''.pem'') = ''.pem''"
  by (simp add: Ext_def)

text \<open>A directory \<open>cs\<close> of key files: the path of the key file of time \<open>t\<close>.\<close>

definition key_path :: "string list \<Rightarrow> int \<Rightarrow> string" where
  "key_path cs t = abs_path (cs @ [key_file t])"

lemma key_path_split: "cs \<noteq> [] \<Longrightarrow> key_path cs t = abs_path cs @ CHR ''/'' # key_file t"
  by (simp add: key_path_def abs_path_append abs_path_def [of "[_]"])

lemma key_path_Join:
  assumes "cs \<noteq> []" "\<forall>c \<in> set cs. simple c"
  shows "Join [abs_path cs, key_file t] = key_path cs t"
  using Join_abs [of cs "[key_file t]"] assms simple_key_file by (simp add: key_path_def)

lemma key_path_inj:
  assumes "key_path cs t = key_path cs u" "cs \<noteq> []" "t \<in> {- (2 ^ 63)..<2 ^ 63}" "u \<in> {- (2 ^ 63)..<2 ^ 63}"
  shows "t = u"
  using assms by (simp add: key_path_split key_file_inj)

lemma key_time_path:
  assumes "cs \<noteq> []" "\<forall>c \<in> set cs. simple c" "t \<in> {- (2 ^ 63)..<2 ^ 63}"
  shows "key_time (key_path cs t) = Some t"
proof -
  have e: "Ext (key_path cs t) = ''.pem''"
    using Ext_pem [of "abs_path cs @ CHR ''/'' # FormatInt t"] by (simp add: key_path_split [OF assms(1)] key_file_def)
  have "Base (key_path cs t) = key_file t"
    unfolding key_path_def by (rule Base_abs) (use assms(2) simple_key_file in simp)
  then show ?thesis using ParseInt_FormatInt [of 64 t] assms(3) by (simp add: key_time_def e key_file_def)
qed

text \<open>
  The disk holds, below the directory \<open>cs\<close>, exactly the key files of the times \<open>ts\<close>, with contents \<open>val\<close>.
\<close>

definition key_dir :: "string list \<Rightarrow> int list \<Rightarrow> (int \<Rightarrow> bytes) \<Rightarrow> disk \<Rightarrow> bool" where
  "key_dir cs ts val d \<longleftrightarrow> map_of d (abs_path cs) = Some Directory \<and>
     (\<forall>p. HasPrefix p (abs_path cs @ ''/'') \<and> os_exists d p \<longleftrightarrow> p \<in> key_path cs ` set ts) \<and>
     (\<forall>t \<in> set ts. map_of d (key_path cs t) = Some (File (val t)))"

definition good_dir :: "string list \<Rightarrow> int list \<Rightarrow> bool" where
  "good_dir cs ts \<longleftrightarrow> cs \<noteq> [] \<and> (\<forall>c \<in> set cs. simple c) \<and> key_time (abs_path cs) = None \<and>
     set ts \<subseteq> {- (2 ^ 63)..<2 ^ 63} \<and> distinct ts"

lemma good_dirD:
  assumes "good_dir cs ts"
  shows "cs \<noteq> []" "\<forall>c \<in> set cs. simple c" "key_time (abs_path cs) = None" "distinct ts"
    "t \<in> set ts \<Longrightarrow> t \<in> {- (2 ^ 63)..<2 ^ 63}"
  using assms by (auto simp: good_dir_def)

abbreviation faultless :: os_faults where
  "faultless \<equiv> \<lambda>_ _. None"

lemma write_key_new:
  assumes d: "key_dir cs ts val d" and good: "good_dir cs (ts @ [t])"
  shows "key_dir cs (ts @ [t]) (val(t := v)) (write_key faultless (abs_path cs) \<lparr>pk_TimeStamp = FormatInt t, pk_value = v\<rparr> d)"
proof -
  note g = good_dirD [OF good]
  let ?p = "key_path cs t"
  have j: "Join [abs_path cs, FormatInt t @ ''.pem''] = ?p" using key_path_Join [OF g(1,2)] by (simp add: key_file_def)
  have new: "?p \<notin> key_path cs ` set ts" using key_path_inj [OF _ g(1)] g(4,5) by fastforce
  have pre: "HasPrefix ?p (abs_path cs @ ''/'')" by (simp add: key_path_split [OF g(1)] HasPrefix_def)
  with new d have free: "map_of d ?p = None" unfolding key_dir_def os_exists_def by blast
  have "Dir ?p = abs_path cs" unfolding key_path_def by (rule Dir_abs) (use g simple_key_file in simp_all)
  with free d have "can_write ?p d = None" by (simp add: can_write_def key_dir_def)
  then have w: "write_key faultless (abs_path cs) \<lparr>pk_TimeStamp = FormatInt t, pk_value = v\<rparr> d = set_file ?p v (set_file ?p [] d)"
    using free by (simp add: write_key_def j os_OpenCreate_def write_start_def os_exists_def Let_def)
  have ne: "abs_path cs \<noteq> ?p" by (simp add: key_path_split [OF g(1)])
  have other: "u \<noteq> t \<and> key_path cs u \<noteq> ?p" if "u \<in> set ts" for u using that new g(4) by (metis distinct_append disjoint_insert(1) image_eqI list.set(2))
  show ?thesis
    unfolding w key_dir_def
    using d pre ne other by (auto simp: key_dir_def)
qed

lemma write_keys_new:
  assumes "key_dir cs ts val d" "good_dir cs (ts @ map fst new)"
  shows "\<exists>val'. key_dir cs (ts @ map fst new) val'
      (fold (write_key faultless (abs_path cs)) (map (\<lambda>(t, v). \<lparr>pk_TimeStamp = FormatInt t, pk_value = v\<rparr>) new) d) \<and>
    (\<forall>t \<in> set ts. val' t = val t) \<and> (\<forall>(t, v) \<in> set new. val' t = v)"
  using assms
proof (induction new arbitrary: ts val d)
  case (Cons n new)
  obtain t v where n: "n = (t, v)" by (cases n)
  have "good_dir cs (ts @ [t])" using Cons.prems(2) by (auto simp: good_dir_def n)
  from write_key_new [OF Cons.prems(1) this, of v]
  have kd: "key_dir cs (ts @ [t]) (val(t := v)) (write_key faultless (abs_path cs) \<lparr>pk_TimeStamp = FormatInt t, pk_value = v\<rparr> d)" .
  moreover have "t \<notin> set ts" "t \<notin> fst ` set new" using Cons.prems(2) by (auto simp: good_dir_def n)
  ultimately show ?case using Cons.IH [OF kd] Cons.prems(2) by (auto simp: n)
qed auto

lemma map_filter_the: "\<forall>x \<in> set xs. f x \<noteq> None \<Longrightarrow> List.map_filter f xs = map (the \<circ> f) xs"
  by (induction xs) (auto simp: List.map_filter_simps)

lemma file_times_dir:
  assumes d: "key_dir cs ts val d" and good: "good_dir cs ts"
  shows "file_times faultless (abs_path cs) d = sort ts"
proof -
  note g = good_dirD [OF good]
  let ?root = "abs_path cs"
  let ?ps = "tl (Walk_paths faultless ?root d)"
  have c: "Clean ?root = ?root" using Clean_abs g(1,2) by blast
  have seen: "list_all (\<lambda>i. length ?root \<le> i \<and> key_path cs t ! i = CHR ''/'' \<longrightarrow> walked faultless d (take i (key_path cs t)))
      [0..<length (key_path cs t)]" for t
  proof -
    have "i = length ?root" if "length ?root \<le> i" "i < length (key_path cs t)" "key_path cs t ! i = CHR ''/''" for i
    proof (rule ccontr)
      assume "i \<noteq> length ?root"
      with that have "key_path cs t ! i = key_file t ! (i - Suc (length ?root))" "i - Suc (length ?root) < length (key_file t)"
        by (auto simp: key_path_split [OF g(1)] nth_append nth_Cons' Suc_le_eq)
      with that(3) nth_mem [of "i - Suc (length ?root)" "key_file t"] show False using simple_key_file [of t] by (simp add: simple_def)
    qed
    moreover have "walked faultless d ?root" using d by (simp add: walked_def key_dir_def)
    moreover have "take (length ?root) (key_path cs t) = ?root" by (simp add: key_path_split [OF g(1)])
    ultimately show ?thesis unfolding list_all_iff by (metis atLeastLessThan_iff set_upt)
  qed
  have set_ps: "set ?ps = key_path cs ` set ts"
  proof -
    have "p \<in> set ?ps \<longleftrightarrow> HasPrefix p (?root @ ''/'') \<and> os_exists d p \<and>
        list_all (\<lambda>i. length ?root \<le> i \<and> p ! i = CHR ''/'' \<longrightarrow> walked faultless d (take i p)) [0..<length p]" for p
      by (auto simp: Walk_paths_def c os_exists_def map_of_eq_None_iff)
    then show ?thesis using d seen unfolding key_dir_def by blast
  qed
  have times: "List.map_filter key_time (Walk_paths faultless ?root d) = map (the \<circ> key_time) ?ps"
  proof -
    have e: "Walk_paths faultless ?root d = ?root # ?ps" by (simp add: Walk_paths_def)
    have "\<forall>p \<in> set ?ps. key_time p \<noteq> None" using set_ps key_time_path [OF g(1,2)] g(5) by auto
    from map_filter_the [OF this] g(3) show ?thesis by (subst e) (simp add: List.map_filter_simps)
  qed
  have T: "the (key_time (key_path cs t)) = t" if "t \<in> set ts" for t using key_time_path [OF g(1,2)] g(5) that by simp
  have "set (map (the \<circ> key_time) ?ps) = set ts" using T by (force simp: set_ps)
  moreover have "distinct (map (the \<circ> key_time) ?ps)"
    using T set_ps by (auto simp: distinct_map Walk_paths_def inj_on_def)
  ultimately show ?thesis
    unfolding file_times_def times using g(4) by (intro sorted_distinct_set_unique) simp_all
qed

section \<open>Filling the cache\<close>

text \<open>The directory exists, the key store answers with the keys \<open>new\<close>, and every key parses.\<close>

definition key_store_up ::
    "'k start_env \<Rightarrow> string list \<Rightarrow> int list \<Rightarrow> (int \<Rightarrow> bytes) \<Rightarrow> (int \<times> bytes) list \<Rightarrow> (int \<Rightarrow> 'k) \<Rightarrow> bytes \<Rightarrow> disk \<Rightarrow> bool" where
  "key_store_up S cs old val new pk body d \<longleftrightarrow> se_osf S = faultless \<and> key_dir cs old val d \<and> good_dir cs (old @ map fst new) \<and>
     se_dec S body = (map (\<lambda>(t, v). \<lparr>pk_TimeStamp = FormatInt t, pk_value = v\<rparr>) new, None) \<and>
     (\<forall>t \<in> set old. se_parsePEM S (val t) = Inr (pk t)) \<and> (\<forall>(t, v) \<in> set new. se_parsePEM S v = Inr (pk t))"

lemma start_keys_newest:
  fixes S :: "'k start_env"
  assumes up: "key_store_up S cs old val new pk body d" and n: "0 < n"
  defines "newest \<equiv> last_n (nat n) (sort (old @ map fst new))"
  shows "\<exists>km d' st'. start_keys S n (abs_path cs) (Inr (body, None)) (d, st) = Ok (km, d', st') \<and>
    km_inv km \<and> map key (cached km) = map (Some \<circ> pk) newest"
proof -
  let ?dir = "abs_path cs" and ?ts = "old @ map fst new"
  let ?d1 = "fold (write_key faultless ?dir) (map (\<lambda>(t, v). \<lparr>pk_TimeStamp = FormatInt t, pk_value = v\<rparr>) new) d"
  let ?files = "map key_file (sort ?ts)"
  let ?t = "\<lambda>f. fst (ParseInt 64 (take (length f - 4) f))"
  have osf: "se_osf S = faultless" and dir: "key_dir cs old val d" and good: "good_dir cs ?ts"
    and dec: "se_dec S body = (map (\<lambda>(t, v). \<lparr>pk_TimeStamp = FormatInt t, pk_value = v\<rparr>) new, None)"
    and oldp: "\<And>t. t \<in> set old \<Longrightarrow> se_parsePEM S (val t) = Inr (pk t)"
    and newp: "\<And>t v. (t, v) \<in> set new \<Longrightarrow> se_parsePEM S v = Inr (pk t)"
    using up by (auto simp: key_store_up_def)
  note g = good_dirD [OF good]
  obtain val' where d1: "key_dir cs ?ts val' ?d1" and same: "\<forall>t \<in> set old. val' t = val t" "\<forall>(t, v) \<in> set new. val' t = v"
    using write_keys_new [OF dir good] by blast
  have parse: "se_parsePEM S (val' t) = Inr (pk t)" if "t \<in> set ?ts" for t
    using that same oldp newp by fastforce
  let ?km = "\<lparr>keys = replicate (nat n) \<lparr>key = None, fileName = []\<rparr>, maxLength = n, currentLength = 0, PubkeysDir = ?dir\<rparr> :: 'k KeyManager"
  have km: "MakeKeyManager n ?dir = Ok ?km" "km_inv ?km" "cached ?km = []" using n by (simp_all add: MakeKeyManager_def km_inv_def cached_def)
  have times: "file_times faultless ?dir ?d1 = sort ?ts" by (rule file_times_dir [OF d1 good])
  have t: "?t (key_file t) = t" if "t \<in> set ?ts" for t
    using ParseInt_FormatInt [of 64 t] g(5) [OF that] by (simp add: key_file_def)
  have read: "\<exists>pem. os_ReadFile faultless (Join [?dir, f]) ?d1 = Ok pem \<and> se_parsePEM S pem = Inr (pk (?t f))" if "f \<in> set ?files" for f
  proof -
    from that obtain u where u: "u \<in> set ?ts" "f = key_file u" by auto
    then have "map_of ?d1 (key_path cs u) = Some (File (val' u))" using d1 unfolding key_dir_def by blast
    with u parse t key_path_Join [OF g(1,2), of u] show ?thesis by (simp add: os_ReadFile_def)
  qed
  have "distinct (map (\<lambda>f. Join [?dir, f]) ?files)"
    using g(4) key_path_Join [OF g(1,2)] key_path_inj [OF _ g(1)] g(5) by (auto simp: distinct_map inj_on_def)
  then obtain km' d' where load: "load_keys faultless (se_parsePEM S) ?files (?km, ?d1) = (Ok (), km', d')" "km_inv km'"
      "map key (cached km') = last_n (nat n) (map (\<lambda>f. Some (pk (?t f))) ?files)"
    using load_keys_cached [of ?km ?files ?d1 "se_parsePEM S" "\<lambda>f. pk (?t f)"] km(2,3) n read by auto
  have "map (\<lambda>f. Some (pk (?t f))) ?files = map (Some \<circ> pk) (sort ?ts)" using t by simp
  then have keys: "map key (cached km') = map (Some \<circ> pk) newest"
    using load(3) unfolding newest_def map_last_n by (simp only:)
  have "\<not> IsNotExist faultless ?dir d" using dir by (simp add: IsNotExist_def os_exists_def key_dir_def)
  then have "start_keys S n ?dir (Inr (body, None)) (d, st) = fetch_keys S ?dir (body, None) (?km, d, st)"
    by (simp add: start_keys_def km(1) make_keys_dir_def osf)
  moreover have "\<exists>st'. fetch_keys S ?dir (body, None) (?km, d, st) = Ok (km', d', st')"
    by (simp add: fetch_keys_def dec osf times load(1) GetKeyList_cached [OF load(2)] Let_def)
  ultimately show ?thesis using load(2) keys by auto
qed

section \<open>Properties\<close>

text \<open>
  C13: Who gets in after start-up. Suppose the key directory holds the parsable key files of the times
  \<open>old\<close>, the key store delivers parsable keys for the new times \<open>new\<close>, and no file operation fails. Then
  start-up succeeds, and afterwards the middleware hands a request on exactly when its token is
  validated by one of the \<open>n\<close> newest keys, \<open>n\<close> being the size of the cache: keys older than these
  no longer open the routes.
\<close>

theorem startup_access:
  fixes S :: "'k start_env" and A :: "'k auth_env"
  assumes "key_store_up S cs old val new pk body d" "0 < n" "jwt_reports A"
  shows "\<exists>km d' st'. start_keys S n (abs_path cs) (Inr (body, None)) (d, st) = Ok (km, d', st') \<and>
    (\<forall>path auth ls. (fst (AuthRequiredMiddleware A km path auth ls) = Ok Unauthorized \<longleftrightarrow>
       \<not> (\<exists>t \<in> set (last_n (nat n) (sort (old @ map fst new))).
            validates A (Replace1 auth ''Bearer '' []) (Some (pk t)))) \<and>
     (\<exists>r. fst (AuthRequiredMiddleware A km path auth ls) = Ok r))"
proof -
  obtain km d' st' where km: "start_keys S n (abs_path cs) (Inr (body, None)) (d, st) = Ok (km, d', st')" "km_inv km"
    "map key (cached km) = map (Some \<circ> pk) (last_n (nat n) (sort (old @ map fst new)))"
    using start_keys_newest [OF assms(1,2)] by blast
  let ?newest = "last_n (nat n) (sort (old @ map fst new))"
  have "(fst (AuthRequiredMiddleware A km path auth ls) = Ok Unauthorized \<longleftrightarrow>
       \<not> (\<exists>t \<in> set ?newest. validates A (Replace1 auth ''Bearer '' []) (Some (pk t)))) \<and>
     (\<exists>r. fst (AuthRequiredMiddleware A km path auth ls) = Ok r)" for path auth ls
  proof -
    let ?v = "validates A (Replace1 auth ''Bearer '' [])"
    have "find ?v (map (Some \<circ> pk) ?newest) = None \<longleftrightarrow> \<not> (\<exists>t \<in> set ?newest. ?v (Some (pk t)))"
      by (simp add: find_None_iff)
    with middleware_find [OF assms(3) GetKeyList_cached [OF km(2)], of path auth ls] show ?thesis
      unfolding km(3) by (cases "find ?v (map (Some \<circ> pk) ?newest)") simp_all
  qed
  with km(1) show ?thesis by blast
qed

definition demo_start :: "string start_env" where
  "demo_start = \<lparr>se_osf = faultless, se_parsePEM = Inr,
     se_dec = \<lambda>_. ([\<lparr>pk_TimeStamp = ''2'', pk_value = ''K2''\<rparr>], None),
     se_logger = au_logger demo_auth, se_log = au_log demo_auth\<rparr>"

definition demo_key_disk :: disk where
  "demo_key_disk = [(''/k'', Directory), (''/k/1.pem'', File ''K1'')]"

lemma demo_key_store:
  "key_store_up demo_start [''k''] [1] (\<lambda>_. ''K1'') [(2, ''K2'')] (\<lambda>t. if t = 1 then ''K1'' else ''K2'') [] demo_key_disk"
proof -
  have f: "FormatInt 1 = ''1''" "FormatInt 2 = ''2''" by code_simp+
  have p: "key_path [''k''] 1 = ''/k/1.pem''" by (simp add: key_path_def abs_path_def key_file_def f)
  have a: "abs_path [''k''] = ''/k''" by (simp add: abs_path_def)
  have "key_time ''/k'' = None" by (simp add: key_time_def Ext_def)
  then have "good_dir [''k''] ([1] @ map fst [(2, ''K2'')])" by (simp add: good_dir_def a simple_def)
  moreover have "key_dir [''k''] [1] (\<lambda>_. ''K1'') demo_key_disk"
    by (auto simp: key_dir_def demo_key_disk_def a p os_exists_def HasPrefix_def)
  ultimately show ?thesis by (simp add: key_store_up_def demo_start_def f)
qed

theorem startup_access_witness:
  "\<exists>km d' st'. start_keys demo_start 1 ''/k'' (Inr ([], None)) (demo_key_disk, demo_log) = Ok (km, d', st') \<and>
     fst (AuthRequiredMiddleware demo_auth km ''/x'' ''Bearer K1'' demo_log) = Ok Unauthorized \<and>
     fst (AuthRequiredMiddleware demo_auth km ''/x'' ''Bearer K2'' demo_log) \<noteq> Ok Unauthorized"
proof -
  have A: "jwt_reports demo_auth" by (simp add: jwt_reports_def demo_auth_def)
  have a: "abs_path [''k''] = ''/k''" by (simp add: abs_path_def)
  have r: "Replace1 ''Bearer K1'' ''Bearer '' [] = ''K1''" "Replace1 ''Bearer K2'' ''Bearer '' [] = ''K2''"
    using Replace1_prefix [of "''Bearer ''" "''K1''"] Replace1_prefix [of "''Bearer ''" "''K2''"] by simp_all
  have v: "validates demo_auth tk k \<longleftrightarrow> k = Some tk" for tk k by (simp add: validates_def demo_auth_def)
  have l: "last_n (nat 1) (sort ([1] @ map fst [(2, ''K2'')])) = [2 :: int]" by (simp add: last_n_def)
  from startup_access [OF demo_key_store _ A, of 1 demo_log, unfolded l a]
  obtain km d' st' where "start_keys demo_start 1 ''/k'' (Inr ([], None)) (demo_key_disk, demo_log) = Ok (km, d', st')"
    and all: "\<And>path auth ls. fst (AuthRequiredMiddleware demo_auth km path auth ls) = Ok Unauthorized \<longleftrightarrow>
       \<not> validates demo_auth (Replace1 auth ''Bearer '' []) (Some ''K2'')" by auto
  with all [of "''/x''" "''Bearer K1''" demo_log] all [of "''/x''" "''Bearer K2''" demo_log] show ?thesis
    by (auto simp: r v)
qed

text \<open>
  Without the key store nobody gets in. When \<^verbatim>\<open>http.Get\<close> of the key store fails at start-up, the key
  files already on the disk are not read either: the cache stays empty and every request that is
  authenticated is answered with 401.
\<close>

theorem no_key_store_no_access:
  assumes "jwt_reports A" "0 \<le> n" "start_keys S n dir (Inl err) ds = Ok (km, d', st')"
  shows "fst (AuthRequiredMiddleware A km path auth ls) = Ok Unauthorized"
proof -
  from assms(2,3) have "GetKeyList km = Ok []"
    by (auto simp: start_keys_def MakeKeyManager_def GetKeyList_def split: prod.splits)
  from middleware_find [OF assms(1) this] show ?thesis by simp
qed

theorem no_key_store_no_access_witness:
  "\<exists>km d' st'. start_keys demo_start 1 ''/k'' (Inl ''timeout'') (demo_key_disk, demo_log) = Ok (km, d', st') \<and>
     fst (AuthRequiredMiddleware demo_auth km ''/x'' ''Bearer K1'' demo_log) = Ok Unauthorized"
proof -
  have A: "jwt_reports demo_auth" by (simp add: jwt_reports_def demo_auth_def)
  obtain km d' st' where k: "start_keys demo_start 1 ''/k'' (Inl ''timeout'') (demo_key_disk, demo_log) = Ok (km, d', st')"
    by (cases "make_keys_dir demo_start ''/k'' (demo_key_disk, demo_log)") (simp add: start_keys_def MakeKeyManager_def)
  from no_key_store_no_access [OF A _ k] k show ?thesis by auto
qed

lemma dropWhile_head: "dropWhile (\<lambda>x. x = c) s = s \<longleftrightarrow> s = [] \<or> hd s \<noteq> c"
  by (simp add: dropWhile_eq_self_iff)

lemma Trim_id: "Trim s c = s \<longleftrightarrow> s = [] \<or> hd s \<noteq> c \<and> last s \<noteq> c"
proof
  assume trim: "Trim s c = s"
  let ?d = "dropWhile (\<lambda>x. x = c)"
  have "length s \<le> length (?d s)" using length_dropWhile_le [of "\<lambda>x. x = c" "rev (?d s)"] trim by (metis Trim_def length_rev)
  then have head: "?d s = s" using dropWhile_eq_drop [of "\<lambda>x. x = c" s] length_dropWhile_le [of "\<lambda>x. x = c" s]
    by (metis le_antisym length_drop length_takeWhile_le diff_diff_cancel diff_self_eq_0 drop0)
  with trim have "?d (rev s) = rev s" by (metis Trim_def rev_rev_ident)
  with head show "s = [] \<or> hd s \<noteq> c \<and> last s \<noteq> c" by (auto simp: dropWhile_head hd_rev)
next
  assume "s = [] \<or> hd s \<noteq> c \<and> last s \<noteq> c"
  then have "dropWhile (\<lambda>x. x = c) s = s" "dropWhile (\<lambda>x. x = c) (rev s) = rev s" by (auto simp: dropWhile_head hd_rev)
  then show "Trim s c = s" by (simp add: Trim_def)
qed

lemma keywords_simps [simp]: "keywords_of [] = []" "keywords_of (f # fs) = CHR ''/'' # f @ keywords_of fs"
  by (simp_all add: keywords_of_def)

lemma keywords_last: "filters \<noteq> [] \<Longrightarrow> last (keywords_of filters) = (if last filters = [] then CHR ''/'' else last (last filters))"
  by (induction filters) (auto simp: neq_Nil_conv)

text \<open>When trimming the slashes and putting one in front gives the keywords back.\<close>

lemma keywords_trimmed:
  assumes "filters \<noteq> []"
  shows "CHR ''/'' # Trim (keywords_of filters) CHR ''/'' = keywords_of filters \<longleftrightarrow>
    filters = [[]] \<or> hd filters \<noteq> [] \<and> hd (hd filters) \<noteq> CHR ''/'' \<and> last filters \<noteq> [] \<and> last (last filters) \<noteq> CHR ''/''"
proof -
  obtain f fs where f: "filters = f # fs" using assms by (cases filters) auto
  let ?t = "f @ keywords_of fs"
  have "Trim (CHR ''/'' # ?t) CHR ''/'' = Trim ?t CHR ''/''" by (simp add: Trim_def)
  then have "CHR ''/'' # Trim (keywords_of filters) CHR ''/'' = keywords_of filters \<longleftrightarrow> ?t = [] \<or> hd ?t \<noteq> CHR ''/'' \<and> last ?t \<noteq> CHR ''/''"
    by (simp add: f Trim_id)
  moreover have "?t = [] \<longleftrightarrow> filters = [[]]" by (cases fs) (auto simp: f)
  moreover have "hd ?t = (if f = [] then CHR ''/'' else hd f)" if "?t \<noteq> []" using that by (cases fs) auto
  moreover have "last ?t = (if last filters = [] then CHR ''/'' else last (last filters))" if "?t \<noteq> []"
  proof -
    have "keywords_of filters = CHR ''/'' # ?t" by (simp add: f)
    then have "last (keywords_of filters) = last ?t" using that by (simp only: last_ConsR not_False_eq_True)
    with keywords_last [OF assms] show ?thesis by (simp only:)
  qed
  ultimately show ?thesis by (auto simp: f split: if_splits)
qed

text \<open>
  C36: What a restart makes of the filters last set. A filter update with the list \<open>filters\<close> has been applied, so the
  receiver was asked for each filter after a slash and the ini file was saved; the hub is started again from that
  ini file. If the list was empty, the receiver is now asked for \<open>/Invalid\<close>, which is also saved. Otherwise it is
  asked for one slash and the old keywords without the slashes at their ends. These are the same keywords
  exactly when the first filter does not begin and the last does not end with a slash and neither is empty, or
  the list is a single empty filter.
\<close>

theorem restart_keeps_filters:
  fixes C' :: "'db2 cmd_env"
  assumes "handleFilterUpdate C payload ini st = Ok st1"
    and "dec_filter C payload = (p, None)" "uf_DeviceID p = cm_deviceId C" "uf_CommandID p \<noteq> []" "Filters p = Some filters"
    and "callSetkeywords C (keywords_of filters) st = Ok (None, st')" "save_ini C ini = None"
    and restarted: "filters_key st2 = filters_file st1"
  defines "asks \<equiv> \<lambda>keywords st. bind_res (callSetkeywords C' keywords st) (\<lambda>(_, st). Ok st)"
  shows "if filters = []
    then start_filters C' st2 = asks ''/Invalid'' (st2\<lparr>filters_key := ''Invalid'',
      filters_file := (if save_ini C' (DEVICE_DETAIL_FILE C') = None then ''Invalid'' else filters_file st2)\<rparr>)
    else \<exists>keywords. start_filters C' st2 = asks keywords st2 \<and>
      keywords = CHR ''/'' # Trim (concat (map (\<lambda>filter. ''/'' @ filter) filters)) CHR ''/'' \<and>
      (keywords = keywords_of filters \<longleftrightarrow> filters = [[]] \<or>
        hd filters \<noteq> [] \<and> hd (hd filters) \<noteq> CHR ''/'' \<and> last filters \<noteq> [] \<and> last (last filters) \<noteq> CHR ''/'')"
proof -
  have "filters_file st1 = keywords_of filters"
    using assms(1-7) by (auto simp: handleFilterUpdate_def apply_filters_def Let_def split: sum.splits prod.splits res.splits)
  then have key: "filters_key st2 = keywords_of filters" by (simp add: restarted)
  show ?thesis
  proof (cases "filters = []")
    case True
    have "Trim ''Invalid'' CHR ''/'' = ''Invalid''" by (simp add: Trim_id)
    with True key show ?thesis
      by (cases "save_ini C' (DEVICE_DETAIL_FILE C')") (simp_all add: start_filters_def persisted_filters_def asks_def)
  next
    case False
    then have "keywords_of filters \<noteq> []" by (cases filters) simp_all
    with key have "start_filters C' st2 = asks (CHR ''/'' # Trim (keywords_of filters) CHR ''/'') st2"
      by (simp add: start_filters_def persisted_filters_def asks_def)
    with False keywords_trimmed [OF False] show ?thesis unfolding keywords_of_def by (simp only: if_False) blast
  qed
qed

theorem restart_keeps_filters_witness:
  "\<exists>st1. handleFilterUpdate (mem_cmd (Inr ''<body> SET OK </body>'') None ''dev'') ''{}'' ''i'' mem_cmd_state = Ok st1 \<and>
     (\<forall>C'. start_filters C' (mem_cmd_state\<lparr>filters_key := filters_file st1\<rparr>) =
       bind_res (callSetkeywords C' ''/f'' (mem_cmd_state\<lparr>filters_key := filters_file st1\<rparr>)) (\<lambda>(_, st). Ok st))"
proof -
  let ?C = "mem_cmd (Inr ''<body> SET OK </body>'') None ''dev''"
  have "apply_filters ?C ''/f'' ''i'' mem_cmd_state =
      Ok ([], mem_cmd_state\<lparr>cs_http := Suc (cs_http mem_cmd_state), filters_key := ''/f'', filters_file := ''/f''\<rparr>)"
    by (simp add: apply_filters_def demo_call)
  from demo_update [OF this] obtain st1 where h: "handleFilterUpdate ?C ''{}'' ''i'' mem_cmd_state = Ok st1" by blast
  have "start_filters C' (mem_cmd_state\<lparr>filters_key := filters_file st1\<rparr>) =
      bind_res (callSetkeywords C' ''/f'' (mem_cmd_state\<lparr>filters_key := filters_file st1\<rparr>)) (\<lambda>(_, st). Ok st)" for C'
    using restart_keeps_filters [OF h, of "\<lparr>uf_DeviceID = ''dev'', uf_CommandID = ''c'', Filters = Some [''f'']\<rparr>" "[''f'']" _
        "mem_cmd_state\<lparr>filters_key := filters_file st1\<rparr>" C'] by (simp add: demo_call)
  with h show ?thesis by blast
qed

text \<open>
  Every start queues one provisioning request and keeps what is pending. When the request can be
  encoded and stored and the transaction commits, it is pending under the device id after start-up and
  the requests of all other ids are as before.
\<close>

theorem start_queues_provisioning:
  assumes "bolt_spec (ca_bolt E)" "commits (ca_bolt E)" "pending_ready (ca_bolt E) fs"
    and "marshal (ca_json E) (provision_data dev now) = Inr b" "fits dev b"
  shows "\<exists>fs'. start_provision E dev now fs = Ok fs' \<and> pending (ca_bolt E) fs' = (pending (ca_bolt E) fs)(dev \<mapsto> b)"
proof -
  obtain r fs' where add: "AddProvisionedStatus (ca_bolt E) dev b fs = (r, fs')" by (cases "AddProvisionedStatus (ca_bolt E) dev b fs")
  obtain db' where "bucket_put (ca_bolt E) PendingAPIRequestMapping dev b (nodesDB fs) = Ok db'"
    using bolt_spec.bucket_put_succeeds [OF assms(1), of "nodesDB fs" PendingAPIRequestMapping dev b] assms(3,5)
    by (auto simp: pending_ready_def fits_def)
  with add assms(2) have "r = Ok ()" by (auto simp: AddProvisionedStatus_def fs_update_def commits_def)
  with add assms(4) have "start_provision E dev now fs = Ok fs'" by (simp add: start_provision_def)
  moreover have "pending (ca_bolt E) fs' = (pending (ca_bolt E) fs)(dev \<mapsto> b)"
    using bolt_spec.pending_put_Ok(2) [OF assms(1) add [unfolded AddProvisionedStatus_def \<open>r = Ok ()\<close>], of PendingAPIRequestMapping]
    by auto
  ultimately show ?thesis by blast
qed

theorem start_queues_provisioning_witness:
  "\<exists>fs' b. start_provision (mem_capi (\<lambda>_. None)) ''dev'' 0 (mem_fs [] [] []) = Ok fs' \<and> pending mem_bolt fs' ''dev'' = Some b"
proof -
  obtain b where b: "marshal api_codec (provision_data ''dev'' 0) = Inr b" "fits ''dev'' b"
    by (simp add: api_codec_def provision_data_def enc_int_def enc_bool_def fits_def max_key_def max_value_def)
  from start_queues_provisioning [of "mem_capi (\<lambda>_. None)" "mem_fs [] [] []" "''dev''" 0 b] b show ?thesis
    by (auto simp: mem_bolt_spec mem_commits)
qed

end
