(* ===== verification/Hub_Routes.thy ===== *)
theory Hub_Routes
  imports Hub_Repository Hub_Start Folder_Deletion
begin

text \<open>
  The HTTP routes of the hub, \<^verbatim>\<open>src/route_handler.go\<close>. The response is the record \<open>http_out\<close>: the headers,
  the status line (sent with the first byte of the body), the body as far as the connection took it,
  and the number of bytes it will still take. Parameters of a request are arguments. Redirects are
  recorded with their target; what \<^verbatim>\<open>http.Redirect\<close> adds to the body is not modelled.
\<close>

section \<open>Responses\<close>

record http_out =
  ho_headers :: "(string \<times> string) list"
  ho_status :: "int option"
  ho_body :: bytes
  ho_left :: nat
  ho_location :: "string option"

definition gin_status :: "int \<Rightarrow> http_out \<Rightarrow> http_out" where
  "gin_status code w = (if ho_status w = None then w\<lparr>ho_status := Some code\<rparr> else w)"

definition gin_write :: "http_out writer" where
  "gin_write w b =
     (let w = gin_status 200 w in
      if length b \<le> ho_left w then ((length b, None), w\<lparr>ho_body := ho_body w @ b, ho_left := ho_left w - length b\<rparr>)
      else ((ho_left w, Some ''broken pipe''), w\<lparr>ho_body := ho_body w @ take (ho_left w) b, ho_left := 0\<rparr>))"

definition gin_header :: "string \<Rightarrow> string \<Rightarrow> http_out \<Rightarrow> http_out" where
  "gin_header k v w = (if ho_status w = None then w\<lparr>ho_headers := ho_headers w @ [(k, v)]\<rparr> else w)"

text \<open>\<^verbatim>\<open>context.String\<close>: a status that comes after the first byte is ignored.\<close>

definition gin_String :: "int \<Rightarrow> string \<Rightarrow> http_out \<Rightarrow> http_out" where
  "gin_String code text w = snd (gin_write (gin_status code w) text)"

text \<open>
  \<^verbatim>\<open>errorResponse\<close> passes its arguments as one extra argument of an empty format string, which
  \<^verbatim>\<open>fmt.Fprintf\<close> reports.
\<close>

definition errorResponse :: "string list \<Rightarrow> http_out \<Rightarrow> http_out" where
  "errorResponse response =
     gin_String 400 (''%!(EXTRA []interface {}=['' @ Join_with CHR '' '' response @ ''])'')"

section \<open>Handlers\<close>

definition strip_slash :: "string \<Rightarrow> string" where
  "strip_slash p = TrimPrefix p ''/''"

type_synonym route_state = "log_state \<times> http_out"

text \<open>\<^verbatim>\<open>vanillaJSON\<close>: a failed encoding is reported.\<close>

definition vanillaJSON :: "'db route_env \<Rightarrow> error + string \<Rightarrow> log_state \<Rightarrow> (error + string) \<times> log_state" where
  "vanillaJSON R encoded st =
     (case encoded of
        Inr s \<Rightarrow> (Inr s, st)
      | Inl err \<Rightarrow> (Inl err, snd (Log (rt_logger R) (rt_log R) Error
          (zero_MessageSubType\<lparr>StringMessage := ''RouteHandler: vanillaJSON: error while encoding '' @ err\<rparr>) st)))"

definition static :: string where
  "static = ''/static''"

definition serve_json :: "'db route_env \<Rightarrow> error + string \<Rightarrow> string \<Rightarrow> route_state \<Rightarrow> route_state" where
  "serve_json R encoded failure = (\<lambda>(st, w).
     case vanillaJSON R encoded st of
       (Inr val, st) \<Rightarrow> (st, gin_String 200 val (gin_header ''hubId'' (rt_hubId R) w))
     | (Inl _, st) \<Rightarrow> (st, errorResponse [failure] w))"

definition serveFolderPath :: "'db route_env \<Rightarrow> string \<Rightarrow> route_state \<Rightarrow> route_state res" where
  "serveFolderPath R assetId = (\<lambda>(st, w).
     case getAssetFolderPath R assetId of
       Ok path \<Rightarrow>
         Ok (serve_json R (enc_path R (path\<lparr>Folderpath := static @ Folderpath path\<rparr>))
               ''Folderpath for the AssetID not found'' (st, w))
     | Err _ \<Rightarrow> Ok (st, errorResponse [''Folderpath for the AssetID not found''] w)
     | _ \<Rightarrow> Panic)"

definition serveDeviceId :: "'db route_env \<Rightarrow> route_state \<Rightarrow> route_state res" where
  "serveDeviceId R = (\<lambda>(st, w). Ok (st, gin_header ''hubId'' (rt_hubId R) w))"

definition serveLeaves :: "'db route_env \<Rightarrow> route_state \<Rightarrow> route_state res" where
  "serveLeaves R = (\<lambda>(st, w).
     case getAvailableFolders R st of
       (Ok folders, st) \<Rightarrow> Ok (serve_json R (enc_folders R folders) ''Leaves not found'' (st, w))
     | (Diverge, _) \<Rightarrow> Diverge
     | _ \<Rightarrow> Panic)"

text \<open>\<open>Diverge\<close> is a write loop that does not end.\<close>

definition written :: "log_state \<Rightarrow> (int \<times> http_out) option \<Rightarrow> route_state res" where
  "written st r = (case r of None \<Rightarrow> Diverge | Some (_, w) \<Rightarrow> Ok (st, w))"

definition serveSingleMetadata :: "'db route_env \<Rightarrow> string \<Rightarrow> string \<Rightarrow> route_state \<Rightarrow> route_state res" where
  "serveSingleMetadata R mediaHouse path = (\<lambda>(st, w).
     let path = strip_slash path in
     case writeInt64 gin_write (getFolderSize mediaHouse path) w of
       None \<Rightarrow> Diverge
     | Some (n, w) \<Rightarrow>
         if n < 0 then Ok (st, w)
         else (case getFolderInfo R mediaHouse path st of
           (Ok None, st) \<Rightarrow> Ok (st, errorResponse [''Folder info for '', path, '' was nil''] w)
         | (Ok (Some folderInfo), st) \<Rightarrow>
             written st (writeMetadataFiles gin_write (rt_osf R) (rt_disk R) (MetadataFiles folderInfo) w)
         | (r, st) \<Rightarrow> bind_res r (\<lambda>_. Panic)))"

definition serveMetadata :: "'db route_env \<Rightarrow> string \<Rightarrow> string \<Rightarrow> route_state \<Rightarrow> route_state res" where
  "serveMetadata R parent mediaHouse = (\<lambda>(st, w).
     case getChildren R mediaHouse (strip_slash parent) st of
       (Ok children, st) \<Rightarrow> written st (write_children gin_write (rt_osf R) (rt_disk R) children w)
     | (r, _) \<Rightarrow> bind_res r (\<lambda>_. Panic))"

text \<open>\<^verbatim>\<open>url.QueryUnescape\<close>; on a malformed escape the value is the empty string, with an error.\<close>

definition hex_value :: "char \<Rightarrow> nat option" where
  "hex_value c =
     (let n = of_char c in
      if 48 \<le> n \<and> n \<le> 57 then Some (n - 48)
      else if 97 \<le> n \<and> n \<le> 102 then Some (n - 87)
      else if 65 \<le> n \<and> n \<le> 70 then Some (n - 55) else None)"

fun QueryUnescape :: "string \<Rightarrow> string option" where
  "QueryUnescape [] = Some []"
| "QueryUnescape (c # cs) =
     (if c = CHR ''%'' then
        (case cs of
           a # b # rest \<Rightarrow>
             (case (hex_value a, hex_value b) of
                (Some x, Some y) \<Rightarrow> map_option (Cons (char_of (16 * x + y))) (QueryUnescape rest)
              | _ \<Rightarrow> None)
         | _ \<Rightarrow> None)
      else map_option (Cons (if c = CHR ''+'' then CHR '' '' else c)) (QueryUnescape cs))"

definition unescaped :: "string \<Rightarrow> string" where
  "unescaped s = strip_slash (case QueryUnescape s of None \<Rightarrow> [] | Some t \<Rightarrow> t)"

definition route_message :: "string \<Rightarrow> MessageSubType" where
  "route_message text = zero_MessageSubType\<lparr>StringMessage := ''RouteHandler: '' @ text\<rparr>"

definition gin_Redirect :: "string \<Rightarrow> http_out \<Rightarrow> http_out" where
  "gin_Redirect url w = (gin_status 307 w)\<lparr>ho_location := Some url\<rparr>"

definition serveFile :: "'db route_env \<Rightarrow> string \<Rightarrow> string \<Rightarrow> string \<Rightarrow> route_state \<Rightarrow> route_state res" where
  "serveFile R mediaHouse path file_name = (\<lambda>(st, w).
     let path = unescaped path; file_name = unescaped file_name;
         log = (\<lambda>ev text st. snd (Log (rt_logger R) (rt_log R) ev (route_message text) st))
     in case GetActualPathForAbstractedPath (rt_bolt R) (rt_fs R) (mediaHouse @ ''/'' @ path) of
       Ok actualPath \<Rightarrow>
         Ok (log Info (''Redirecting: '' @ path @ '' to actual: '' @ actualPath @ ''/'' @ file_name) st,
             gin_Redirect (''/static/'' @ strip_slash actualPath @ ''/'' @ file_name) w)
     | Err _ \<Rightarrow>
         Ok (log Error (''Could not get actual path for abstract path '' @ path) st, errorResponse [''Invalid path''] w)
     | r \<Rightarrow> bind_res r (\<lambda>_. Panic))"

section \<open>Routing\<close>

text \<open>
  The requests that match a route of \<^verbatim>\<open>setupRoutes\<close>, with their query parameters. The handler of static
  files belongs to gin and is the parameter \<open>static_file\<close>.
\<close>

datatype request = Get_static string | Get_metadata string string | Get_list_files string string | Get_list_leaves
  | Get_folderpath string | Get_deviceId | Get_download_files string string string

fun handler :: "'db route_env \<Rightarrow> (string \<Rightarrow> route_state \<Rightarrow> route_state res) \<Rightarrow> request \<Rightarrow> route_state \<Rightarrow> route_state res" where
  "handler R static_file (Get_static p) = static_file p"
| "handler R static_file (Get_metadata mediaHouse path) = serveSingleMetadata R mediaHouse path"
| "handler R static_file (Get_list_files mediaHouse path) = serveMetadata R path mediaHouse"
| "handler R static_file Get_list_leaves = serveLeaves R"
| "handler R static_file (Get_folderpath assetId) = serveFolderPath R assetId"
| "handler R static_file Get_deviceId = serveDeviceId R"
| "handler R static_file (Get_download_files mediaHouse path file_name) = serveFile R mediaHouse path file_name"

text \<open>\<^verbatim>\<open>ENABLE_AUTH\<close> is read as a boolean; a setting that is none disables the authentication.\<close>

definition auth_enabled :: "error + bool \<Rightarrow> bool" where
  "auth_enabled setting = (case setting of Inl _ \<Rightarrow> False | Inr b \<Rightarrow> b)"

definition unauthorized_body :: string where
  "unauthorized_body = ''{\"data\":{\"message\":\"You must be logged in to do this\"},\"status\":\"error\"}''"

definition setupRoutes ::
    "error + bool \<Rightarrow> 'k auth_env \<Rightarrow> 'k KeyManager \<Rightarrow> 'db route_env \<Rightarrow> (string \<Rightarrow> route_state \<Rightarrow> route_state res) \<Rightarrow>
     string \<Rightarrow> string \<Rightarrow> request \<Rightarrow> route_state \<Rightarrow> route_state res" where
  "setupRoutes setting A km R static_file fullPath authorization req = (\<lambda>(st, w).
     if auth_enabled setting then
       (case AuthRequiredMiddleware A km fullPath authorization st of
          (Ok Unauthorized, st) \<Rightarrow> Ok (st, gin_String 401 unauthorized_body w)
        | (Ok (Next user hubId), st) \<Rightarrow> handler R static_file req (st, gin_header ''hubId'' hubId w)
        | (r, st) \<Rightarrow> bind_res r (\<lambda>_. Panic))
     else handler R static_file req (st, w))"

section \<open>The response writer\<close>

interpretation gin: stream_spec gin_write ho_body "\<lambda>w. ho_left w = 0"
  by unfold_locales
    (auto simp: gin_write_def gin_status_def Let_def simp flip: length_greater_0_conv split: if_splits)

lemma gin_status_body [simp]: "ho_body (gin_status c w) = ho_body w" "ho_left (gin_status c w) = ho_left w"
  by (simp_all add: gin_status_def)

lemma gin_status_sent: "ho_status (gin_status c w) = Some (case ho_status w of None \<Rightarrow> c | Some d \<Rightarrow> d)"
  by (simp add: gin_status_def split: option.split)

lemma gin_String_sent:
  assumes "length text \<le> ho_left w"
  shows "ho_body (gin_String code text w) = ho_body w @ text"
    "ho_status (gin_String code text w) = Some (case ho_status w of None \<Rightarrow> code | Some d \<Rightarrow> d)"
  using assms by (simp_all add: gin_String_def gin_write_def Let_def gin_status_sent)

lemma gin_writeBytes:
  assumes "v \<noteq> []" "length v \<le> ho_left w"
  shows "writeBytes gin_write v w =
    Some (int (length v), (gin_status 200 w)\<lparr>ho_body := ho_body w @ v, ho_left := ho_left w - length v\<rparr>)"
  using assms by (simp add: gin.writeBytes_once gin_write_def Let_def)

section \<open>A hub to look at\<close>

definition demo_route :: "mem_db FileSystem \<Rightarrow> disk \<Rightarrow> mem_db route_env" where
  "demo_route fs d = \<lparr>rt_bolt = mem_bolt, rt_osf = faultless, rt_disk = d, rt_fs = fs, rt_fuel = 5,
     rt_logger = au_logger demo_auth, rt_log = au_log demo_auth, rt_hubId = ''hub'', dec_metadata = \<lambda>_. Inl ''no json'',
     dec_info = \<lambda>b. \<lparr>DownloadTime = 0, FolderPath = b, CommandId = []\<rparr>,
     enc_path = \<lambda>i. Inr (fp_Id i @ '' '' @ Folderpath i), enc_folders = \<lambda>_. Inr ''[]''\<rparr>"

definition demo_out :: http_out where
  "demo_out = \<lparr>ho_headers = [], ho_status = None, ho_body = [], ho_left = 1000, ho_location = None\<rparr>"

definition demo_sat :: "mem_db FileSystem" where
  "demo_sat = demo_tree\<lparr>nodesDB := (nodesDB demo_tree)(SatelliteMapping \<mapsto> [(''a'', ''/sat/x9'')])\<rparr>"

definition demo_folder_disk :: disk where
  "demo_folder_disk = [(''/d'', Directory), (''/d/h'', Directory), (''/d/h/b'', Directory),
     (''/d/h/b/metadatafiles'', Directory), (''/d/h/b/metadatafiles/m'', File ''hi''),
     (''/d/h/b/bulkfiles'', Directory), (''/d/h/b/bulkfiles/v'', File ''movie'')]"

lemma demo_route_simps [simp]:
  "rt_bolt (demo_route fs d) = mem_bolt" "rt_osf (demo_route fs d) = faultless" "rt_disk (demo_route fs d) = d"
  "rt_fs (demo_route fs d) = fs" "rt_fuel (demo_route fs d) = 5"
  "ho_left demo_out = 1000" "ho_body demo_out = []" "ho_status demo_out = None"
  by (simp_all add: demo_route_def demo_out_def)

lemma demo_sat_simps [simp]:
  "tree_of mem_bolt demo_sat = [''h'' \<mapsto> ''ha'', ''a'' \<mapsto> ''h'']" "name_of mem_bolt demo_sat = [''h'' \<mapsto> ''home'', ''a'' \<mapsto> ''tv'']"
  "nodeLength demo_sat = 1" "homeNode demo_sat = ''h''"
  "bolt_bucket mem_bolt (nodesDB demo_sat) Tree" "bolt_bucket mem_bolt (nodesDB demo_sat) FolderNameMapping"
  by (auto simp: demo_sat_def demo_tree_def mem_defs)

lemma demo_sat_kids: "kids mem_bolt demo_sat k = (if k = ''h'' then [''a''] else [])"
  by (simp add: kids_def slots.simps)

lemma demo_sat_inv: "tree_inv mem_bolt demo_sat"
  by (simp add: tree_inv_def demo_sat_kids)

lemma demo_node_path: "node_path demo_deep ''b'' = ''/d/h/b''"
  by (simp add: node_path_def Join_def Clean_def clean_step_def HasPrefix_def)

lemma demo_plain: "plain_nodes mem_bolt demo_deep"
  unfolding plain_nodes_def by (auto simp: demo_deep_kids simple_def abs_path_def intro!: exI [of _ "[''d'']"])

lemma demo_listing:
  "folder_size (demo_route demo_deep demo_folder_disk) ''/d/h/b'' = 5"
  "metadata_files (demo_route demo_deep demo_folder_disk) ''/d/h/b'' = [''/d/h/b/metadatafiles/m'']"
  by (simp_all add: folder_size_def metadata_files_def os_ReadDir_def demo_folder_disk_def dir_names_def HasPrefix_def
      List.map_filter_simps plain_size_def)

section \<open>Properties\<close>

text \<open>
  C12: The listing of a folder is the folder. On a well-formed hierarchy whose child folders have their
  directories and whose metadata files can be read, \<^verbatim>\<open>serveMetadata\<close> for the path of a node returns; the
  client receives a prefix of a stream, and all of it if the connection stays up, that decodes to exactly
  the children of that node in their order: for each its name, whether it has children itself, the total
  size of its bulk files, and the names and contents of its metadata files.
\<close>

theorem listing_is_folder:
  fixes R :: "'db route_env"
  defines "B \<equiv> rt_bolt R" and "fs \<equiv> rt_fs R"
  assumes inv: "tree_inv B fs" "plain_nodes B fs"
    and k: "tree_walk B fs (homeNode fs) (path_parts (getBineFsPath mediaHouse (strip_slash path))) = Inr k"
    and dirs: "\<forall>c \<in> set (kids B fs k). os_exists (rt_disk R) (node_path fs c)"
    and files: "\<forall>c \<in> set (kids B fs k). \<forall>p \<in> set (metadata_files R (node_path fs c)). readable (rt_osf R) (rt_disk R) p"
    and fits: "\<forall>c \<in> set (kids B fs k). child_fits (child_info (rt_disk R) (child_entry R c))" "length (kids B fs k) < 2 ^ 32"
    and up: "ho_left w \<noteq> 0"
  shows "\<exists>st' w' bs. serveMetadata R path mediaHouse (st, w) = Ok (st', w') \<and> prefix (ho_body w') (ho_body w @ bs) \<and>
    (ho_left w' \<noteq> 0 \<longrightarrow> ho_body w' = ho_body w @ bs) \<and>
    get_listing bs = Some (map (\<lambda>c. (the (name_of B fs c), kids B fs c \<noteq> [], folder_size R (node_path fs c),
      map (\<lambda>p. (Base p, content_of (rt_disk R) p)) (metadata_files R (node_path fs c)))) (kids B fs k), [])"
proof -
  let ?cs = "map (child_entry R) (kids B fs k)"
  let ?bs = "listing_bytes (map (child_info (rt_disk R)) ?cs)"
  obtain st' where ch: "getChildren R mediaHouse (strip_slash path) st = (Ok ?cs, st')"
    using getChildren_kids [of R mediaHouse "strip_slash path" k st] inv k dirs
    by (cases "getChildren R mediaHouse (strip_slash path) st") (simp add: B_def fs_def)
  have "\<forall>c \<in> set ?cs. \<forall>p \<in> set (MetadataFiles c). readable (rt_osf R) (rt_disk R) p"
    using files by (simp add: child_entry_def fs_def)
  from gin.write_children_emits [OF this, of w] up obtain n w' where
    w': "write_children gin_write (rt_osf R) (rt_disk R) ?cs w = Some (n, w')" "prefix (ho_body w') (ho_body w @ ?bs)"
      "ho_left w' \<noteq> 0 \<longrightarrow> ho_body w' = ho_body w @ ?bs"
    by (cases rule: emits_cases) (auto simp: take_is_prefix)
  moreover have "get_listing ?bs = Some (map (child_info (rt_disk R)) ?cs, [])"
    using get_listing [of "map (child_info (rt_disk R)) ?cs" "[]"] fits by simp
  moreover have "map (child_info (rt_disk R)) ?cs = map (\<lambda>c. (the (name_of B fs c), kids B fs c \<noteq> [],
      folder_size R (node_path fs c), map (\<lambda>p. (Base p, content_of (rt_disk R) p)) (metadata_files R (node_path fs c)))) (kids B fs k)"
    by (simp add: child_info_def child_entry_def B_def fs_def)
  moreover have "serveMetadata R path mediaHouse (st, w) = Ok (st', w')" using ch w'(1) by (simp add: serveMetadata_def written_def)
  ultimately show ?thesis by metis
qed

theorem listing_is_folder_witness:
  "\<exists>st' w' bs. serveMetadata (demo_route demo_deep demo_folder_disk) [] ''tv'' (demo_log, demo_out) = Ok (st', w') \<and>
     prefix (ho_body w') bs \<and> get_listing bs = Some ([(''news'', False, 5, [(''m'', ''hi'')])], [])"
proof -
  let ?R = "demo_route demo_deep demo_folder_disk"
  have p: "path_parts (getBineFsPath ''tv'' (strip_slash [])) = [''tv'']"
    by (simp add: getBineFsPath_def ReplaceAll.simps path_parts_def Trim_def HasPrefix_def strip_slash_def TrimPrefix_def)
  have k: "tree_walk mem_bolt demo_deep (homeNode demo_deep) [''tv''] = Inr ''a''" by (simp add: demo_deep_kids)
  have e: "os_exists demo_folder_disk ''/d/h/b''" "readable faultless demo_folder_disk ''/d/h/b/metadatafiles/m''"
    "content_of demo_folder_disk ''/d/h/b/metadatafiles/m'' = ''hi''" "Base ''/d/h/b/metadatafiles/m'' = ''m''"
    by (simp_all add: os_exists_def readable_def content_of_def demo_folder_disk_def Base_def)
  have "child_fits (child_info demo_folder_disk (child_entry ?R ''b''))"
    by (simp add: child_fits_def file_fits_def child_info_def child_entry_def demo_node_path demo_listing e)
  with listing_is_folder [of ?R "''tv''" "[]" "''a''" demo_out demo_log, unfolded demo_route_simps p, OF demo_deep_inv demo_plain k]
  show ?thesis by (simp add: demo_deep_kids demo_node_path demo_listing e) blast
qed

text \<open>
  C11: With authentication enabled no handler runs for a request without a valid token. For a key cache in
  its invariant the hub answers such a request, whatever its route, with status 401 and the fixed
  message; a request whose token a cached key validates is answered by the handler of its route.
\<close>

theorem routes_need_token:
  fixes A :: "'k auth_env" and km :: "'k KeyManager" and authorization :: string
  assumes "jwt_reports A" "km_inv km"
  defines "token \<equiv> Replace1 authorization ''Bearer '' []"
  shows "\<exists>st'. setupRoutes (Inr True) A km R static_file fullPath authorization req (st, w) =
    (if \<exists>k \<in> set (map key (cached km)). validates A token k
     then handler R static_file req (st', gin_header ''hubId'' (au_hubId A) w)
     else Ok (st', gin_String 401 unauthorized_body w))"
proof -
  note gate = middleware_find [OF assms(1) GetKeyList_cached [OF assms(2)], of fullPath authorization st, folded token_def]
  obtain r st' where r: "AuthRequiredMiddleware A km fullPath authorization st = (r, st')" by fastforce
  have "setupRoutes (Inr True) A km R static_file fullPath authorization req (st, w) =
    (if \<exists>k \<in> set (map key (cached km)). validates A token k
     then handler R static_file req (st', gin_header ''hubId'' (au_hubId A) w)
     else Ok (st', gin_String 401 unauthorized_body w))"
  proof (cases "find (validates A token) (map key (cached km))")
    case None
    then have "\<not> (\<exists>k \<in> set (map key (cached km)). validates A token k)" by (auto simp: find_None_iff)
    then show ?thesis using gate r None by (simp add: setupRoutes_def auth_enabled_def)
  next
    case (Some k)
    then have "k \<in> set (map key (cached km))" "validates A token k" by (auto simp: find_Some_iff)
    then have "\<exists>k \<in> set (map key (cached km)). validates A token k" by blast
    then show ?thesis using gate r Some by (simp add: setupRoutes_def auth_enabled_def)
  qed
  then show ?thesis by blast
qed

theorem routes_need_token_witness:
  "\<exists>st'. setupRoutes (Inr True) demo_auth demo_keys (demo_route demo_tree []) (\<lambda>_. Ok) ''/list/leaves/'' ''Bearer K3''
     Get_list_leaves (demo_log, demo_out) = Ok (st', gin_String 401 unauthorized_body demo_out)"
proof -
  have A: "jwt_reports demo_auth" by (simp add: jwt_reports_def demo_auth_def)
  have K: "km_inv demo_keys" by (simp add: km_inv_def demo_keys_def)
  have c: "map key (cached demo_keys) = [Some ''K1'', Some ''K2'']" by (simp add: demo_keys_def cached_def)
  have t: "Replace1 ''Bearer K3'' ''Bearer '' [] = ''K3''" using Replace1_prefix [of "''Bearer ''" "''K3''"] by simp
  have v: "validates demo_auth tk k \<longleftrightarrow> k = Some tk" for tk k by (simp add: validates_def demo_auth_def)
  show ?thesis
    using routes_need_token [OF A K, of "demo_route demo_tree []" "\<lambda>_. Ok" "''/list/leaves/''" "''Bearer K3''" Get_list_leaves
        demo_log demo_out] by (simp add: c t v)
qed

text \<open>
  A broken setting opens the routes: when \<^verbatim>\<open>ENABLE_AUTH\<close> cannot be read as a boolean, every request is
  answered by its handler, without a token.
\<close>

theorem bad_setting_opens_routes:
  "setupRoutes (Inl e) A km R static_file fullPath authorization req (st, w) = handler R static_file req (st, w)"
  by (simp add: setupRoutes_def auth_enabled_def)

text \<open>
  C37: The folder routes of a new hub crash. After the start-up of a hub on a store that has never had a
  folder hierarchy, listing a folder, listing the leaves and downloading a file panic for every path:
  the start-up no longer creates the buckets they read.
\<close>

theorem new_hub_routes_panic:
  assumes "bolt_spec (rt_bolt R)" "\<not> bolt_bucket (rt_bolt R) db Tree" "\<not> bolt_bucket (rt_bolt R) db FolderNameMapping"
    and start: "start_index (rt_bolt R) l E (Inr db) home True lst = (Ok (rt_fs R), lst')" and fuel: "0 < rt_fuel R"
  shows "handler R static_file (Get_list_files mediaHouse path) s = Panic \<and>
    handler R static_file Get_list_leaves s = Panic \<and>
    handler R static_file (Get_download_files mediaHouse path file_name) s = Panic"
proof -
  let ?B = "rt_bolt R" and ?fs = "rt_fs R"
  obtain fs0 u where init: "InitFileSystem ?B fs0 = (Ok u, ?fs)" "nodesDB fs0 = db"
    using start by (auto simp: start_index_def MakeFileSystem_def split: prod.splits res.splits)
  have no: "\<not> bolt_bucket ?B (nodesDB ?fs) Tree" "\<not> bolt_bucket ?B (nodesDB ?fs) FolderNameMapping"
    using bolt_spec.InitFileSystem_buckets [OF assms(1) init(1)] init(2) assms(2,3) by simp_all
  obtain st w where s: "s = (st, w)" by fastforce
  obtain f where f: "rt_fuel R = Suc f" using fuel by (cases "rt_fuel R") auto
  have "getNodeForPath ?B ?fs (path_parts p) = Panic" for p by (rule no_tree_lookup [OF no(1)])
  moreover have "preOrderTraversal ?B ?fs (rt_fuel R) (homeNode ?fs) [] = Panic"
    using no(2) by (simp add: f name_or_empty_def GetFolderNameForNode_def bucket_get_def)
  ultimately show ?thesis
    by (simp add: s serveMetadata_def getChildren_def GetChildrenInfo_def serveLeaves_def getAvailableFolders_def
        GetLeavesList_def Trim_def serveFile_def GetActualPathForAbstractedPath_def Let_def)
qed

theorem new_hub_routes_panic_witness:
  "\<exists>fs. fst (start_index mem_bolt (au_logger demo_auth) (au_log demo_auth) (Inr Map.empty) ''/d'' True demo_log) = Ok fs \<and>
     handler (demo_route fs []) (\<lambda>_. Ok) Get_list_leaves (demo_log, demo_out) = Panic"
proof -
  obtain fs where fs: "start_index mem_bolt (au_logger demo_auth) (au_log demo_auth) (Inr Map.empty) ''/d'' True demo_log = (Ok fs, demo_log)"
    by (simp add: start_index_def MakeFileSystem_def InitFileSystem_def CreateBucket_def fs_update_def mem_defs)
  have none: "\<not> bolt_bucket mem_bolt Map.empty b" for b by (simp add: mem_bolt_def)
  from new_hub_routes_panic [of "demo_route fs []" Map.empty, unfolded demo_route_simps, OF mem_bolt_spec none none fs]
  have "handler (demo_route fs []) (\<lambda>_. Ok) Get_list_leaves (demo_log, demo_out) = Panic" by simp
  with fs show ?thesis by simp
qed

text \<open>
  The metadata of a satellite folder is never served. For a folder that is mapped to a directory of the
  satellite receiver whose name is no node of the tree, \<^verbatim>\<open>serveSingleMetadata\<close> sends a size of 0 and then the
  text of an error, under the status 200.
\<close>

theorem satellite_metadata_lost:
  fixes R :: "'db route_env"
  defines "B \<equiv> rt_bolt R" and "fs \<equiv> rt_fs R"
  assumes "tree_inv B fs" "tree_walk B fs (homeNode fs) (path_parts (mediaHouse @ ''/'' @ strip_slash path)) = Inr m"
    and "GetSatelliteFolderPath B fs m = Ok (p, None)" "tree_of B fs (last (path_parts p)) = None"
    and "ho_status w = None" "8 + length (''%!(EXTRA []interface {}=[Folder info for  '' @ strip_slash path @ ''  was nil])'') \<le> ho_left w"
  shows "\<exists>st' w'. serveSingleMetadata R mediaHouse path (st, w) = Ok (st', w') \<and> ho_status w' = Some 200 \<and>
    ho_body w' = ho_body w @ PutUint64 0 @ ''%!(EXTRA []interface {}=[Folder info for  '' @ strip_slash path @ ''  was nil])''"
proof -
  let ?p = "strip_slash path"
  let ?w = "(gin_status 200 w)\<lparr>ho_body := ho_body w @ PutUint64 0, ho_left := ho_left w - 8\<rparr>"
  have len: "length (PutUint64 0) = 8" by (simp add: PutUint64_def)
  have "writeInt64 gin_write 0 w = Some (8, ?w)"
    unfolding writeInt64_def using gin_writeBytes [of "PutUint64 0" w] len assms(8) by (auto simp: PutUint64_def)
  moreover have "GetActualPathForAbstractedPath B fs (mediaHouse @ ''/'' @ ?p) = Ok p"
    using assms(3-5) by (simp add: GetActualPathForAbstractedPath_def getNodeForPath_walk)
  moreover have "\<exists>e. IsLeaf B (rt_disk R) fs p = Err e"
    using assms(6) tree_invD(2) [OF assms(3)] by (auto simp: IsLeaf_def GetChildrenForNode_def bucket_get_def)
  moreover obtain sz st1 fl st2 where "getFolderSizeParser R p st = (sz, st1)" "getMetdataFileParser R p st1 = (fl, st2)"
    by fastforce
  ultimately have "serveSingleMetadata R mediaHouse path (st, w) =
      Ok (st2, errorResponse [''Folder info for '', ?p, '' was nil''] ?w)"
    by (auto simp: serveSingleMetadata_def getFolderInfo_def getFolderSize_def Let_def B_def fs_def)
  moreover have "ho_status ?w = Some 200" using assms(7) by (simp add: gin_status_def)
  ultimately show ?thesis
    using assms(8) by (simp add: errorResponse_def gin_String_sent)
qed

theorem satellite_metadata_lost_witness:
  "\<exists>st' w'. serveSingleMetadata (demo_route demo_sat []) [] ''/tv'' (demo_log, demo_out) = Ok (st', w') \<and> ho_status w' = Some 200"
proof -
  have p: "path_parts ''/tv'' = [''tv'']" "strip_slash ''/tv'' = ''tv''" "path_parts ''/sat/x9'' = [''sat'', ''x9'']"
    by (simp_all add: path_parts_def Trim_def strip_slash_def TrimPrefix_def HasPrefix_def)
  have "GetSatelliteFolderPath mem_bolt demo_sat ''a'' = Ok (''/sat/x9'', None)"
    by (simp add: GetSatelliteFolderPath_def bucket_get_def demo_sat_def mem_bolt_def)
  with satellite_metadata_lost [of "demo_route demo_sat []" "[]" "''/tv''" "''a''" "''/sat/x9''" demo_out demo_log]
  show ?thesis by (auto simp: demo_sat_inv demo_sat_kids p)
qed

text \<open>
  A content that has been indexed can be found. After \<^verbatim>\<open>CreateSatelliteIndexing\<close> has stored the encoded
  information on a content, a request for its folder path is answered with status 200, the header
  \<^verbatim>\<open>hubId\<close> and the encoded path of exactly that content below \<^verbatim>\<open>/static\<close>.
\<close>

theorem indexed_path_served:
  fixes R :: "'db route_env"
  assumes "bolt_spec (rt_bolt R)" "CreateSatelliteIndexing (rt_bolt R) satId assetId b fs = (Ok u, rt_fs R)"
    and "dec_info R b = info" "enc_path R \<lparr>fp_Id = assetId, Folderpath = ''/static'' @ FolderPath info\<rparr> = Inr json"
    and "ho_status w = None" "length json \<le> ho_left w"
  shows "\<exists>w'. handler R static_file (Get_folderpath assetId) (st, w) = Ok (st, w') \<and> ho_status w' = Some 200 \<and>
    ho_body w' = ho_body w @ json \<and> (''hubId'', rt_hubId R) \<in> set (ho_headers w')"
proof -
  let ?w = "gin_header ''hubId'' (rt_hubId R) w"
  have w: "ho_status ?w = None" "ho_body ?w = ho_body w" "ho_left ?w = ho_left w" "(''hubId'', rt_hubId R) \<in> set (ho_headers ?w)"
    using assms(5) by (simp_all add: gin_header_def)
  have "bolt_get (rt_bolt R) (nodesDB (rt_fs R)) AssetPathMapping assetId = Some b"
    "bolt_bucket (rt_bolt R) (nodesDB (rt_fs R)) AssetPathMapping"
    using bolt_spec.CreateSatelliteIndexing_Ok(3) [OF assms(1,2)] bolt_spec.no_bucket [OF assms(1)]
    by (metis fun_upd_same, metis fun_upd_same option.distinct(1))
  then have "getAssetFolderPath R assetId = Ok \<lparr>fp_Id = assetId, Folderpath = FolderPath info\<rparr>"
    by (simp add: getAssetFolderPath_def GetAssetFolderPathFromDB_def bucket_get_def assms(3))
  with assms(4) have "handler R static_file (Get_folderpath assetId) (st, w) = Ok (st, gin_String 200 json ?w)"
    by (simp add: serveFolderPath_def serve_json_def vanillaJSON_def static_def)
  moreover have "ho_headers (gin_String 200 json ?w) = ho_headers ?w"
    by (simp add: gin_String_def gin_write_def gin_status_def Let_def)
  ultimately show ?thesis using assms(6) w by (simp add: gin_String_sent)
qed

theorem indexed_path_served_witness:
  "\<exists>fs w'. CreateSatelliteIndexing mem_bolt ''7'' ''asset'' ''/mstore/f'' (mem_fs [] [] []) = (Ok (), fs) \<and>
     handler (demo_route fs []) (\<lambda>_. Ok) (Get_folderpath ''asset'') (demo_log, demo_out) = Ok (demo_log, w') \<and>
     ho_body w' = ''asset /static/mstore/f''"
proof -
  obtain fs where fs: "CreateSatelliteIndexing mem_bolt ''7'' ''asset'' ''/mstore/f'' (mem_fs [] [] []) = (Ok (), fs)"
    by (simp add: CreateSatelliteIndexing_def fs_update_def mem_defs mem_fs_def bucket_put_def max_key_def max_value_def)
  from indexed_path_served [of "demo_route fs []", unfolded demo_route_simps, OF mem_bolt_spec fs refl, of "''asset /static/mstore/f''" demo_out]
  show ?thesis using fs by (auto simp: demo_route_def)
qed

section \<open>Durations\<close>

lemma parse_digits_nonneg: "0 \<le> n \<Longrightarrow> 0 \<le> maxVal \<Longrightarrow> 0 \<le> fst (parse_digits maxVal cs n)"
  by (induction cs arbitrary: n) (auto split: option.split)

lemma ParseInt_range:
  assumes "duration_error (ParseInt 32 s) = Ok v"
  shows "- (2 ^ 31) \<le> v \<and> v < 2 ^ 31"
proof -
  let ?rest = "if hd s = CHR ''-'' \<or> hd s = CHR ''+'' then tl s else s"
  obtain un e where p: "ParseUint 32 ?rest = (un, e)" by fastforce
  have "0 \<le> fst (ParseUint 32 ?rest)" using parse_digits_nonneg [of 0 "2 ^ 32 - 1" ?rest] by (simp add: ParseUint_def)
  then have "0 \<le> un" by (simp add: p)
  with assms p show ?thesis
    by (simp add: duration_error_def ParseInt_def Let_def split: if_splits)
qed

lemma FormatInt_colon: "CHR '':'' \<notin> set (FormatInt t)"
proof -
  have "CHR '':'' \<notin> set (format_nat n)" for n using format_nat_digits [of "CHR '':''" n] by (auto simp: digit_of_def)
  then show ?thesis by (simp add: FormatInt_def)
qed

lemma ParseInt32: "t \<in> {- (2 ^ 31)..<2 ^ 31} \<Longrightarrow> duration_error (ParseInt 32 (FormatInt t)) = Ok t"
  using ParseInt_FormatInt [of 32 t] by (simp add: duration_error_def)

text \<open>
  Durations. A duration \<^verbatim>\<open>hh:mm:ss\<close> with hours and minutes of 32 bits is served as the number of seconds
  of the full minutes, whatever stands for the seconds; a plain number counts minutes. Every result is
  a decimal number far inside the range of 64 bits, so the multiplications of the code do not wrap.
\<close>

theorem duration_in_seconds:
  "(\<forall>r. getDurationInSeconds d = Ok r \<longrightarrow> (\<exists>v. r = FormatInt v \<and> \<bar>v\<bar> < 2 ^ 44)) \<and>
   (\<forall>h \<in> {- (2 ^ 31)..<2 ^ 31}. \<forall>m \<in> {- (2 ^ 31)..<2 ^ 31}. \<forall>s. CHR '':'' \<notin> set s \<longrightarrow>
      getDurationInSeconds (FormatInt h @ '':'' @ FormatInt m @ '':'' @ s) = Ok (FormatInt ((h * 60 + m) * 60))) \<and>
   (\<forall>m \<in> {- (2 ^ 31)..<2 ^ 31}. getDurationInSeconds (FormatInt m) = Ok (FormatInt (m * 60)))"
proof (intro conjI allI ballI impI)
  fix r assume "getDurationInSeconds d = Ok r"
  then consider h m where "duration_error (ParseInt 32 (Split d CHR '':'' ! 0)) = Ok h"
      "duration_error (ParseInt 32 (Split d CHR '':'' ! 1)) = Ok m" "r = FormatInt ((h * 60 + m) * 60)"
    | m where "duration_error (ParseInt 32 d) = Ok m" "r = FormatInt (m * 60)"
    by (auto simp: getDurationInSeconds_def Let_def split: if_splits)
  then show "\<exists>v. r = FormatInt v \<and> \<bar>v\<bar> < 2 ^ 44"
  proof cases
    case 1
    with ParseInt_range [OF 1(1)] ParseInt_range [OF 1(2)] show ?thesis by (intro exI [of _ "(h * 60 + m) * 60"]) auto
  next
    case 2
    with ParseInt_range [OF 2(1)] show ?thesis by (intro exI [of _ "m * 60"]) auto
  qed
next
  fix h m :: int and s :: string
  assume "h \<in> {- (2 ^ 31)..<2 ^ 31}" "m \<in> {- (2 ^ 31)..<2 ^ 31}" "CHR '':'' \<notin> set s"
  then show "getDurationInSeconds (FormatInt h @ '':'' @ FormatInt m @ '':'' @ s) = Ok (FormatInt ((h * 60 + m) * 60))"
    using ParseInt32 [of h] ParseInt32 [of m]
    by (simp add: getDurationInSeconds_def Split_append_sep Split_no_sep FormatInt_colon)
next
  fix m :: int
  assume "m \<in> {- (2 ^ 31)..<2 ^ 31}"
  then show "getDurationInSeconds (FormatInt m) = Ok (FormatInt (m * 60))"
    using ParseInt32 [of m] by (simp add: getDurationInSeconds_def Split_no_sep FormatInt_colon)
qed

theorem duration_in_seconds_witness:
  "getDurationInSeconds (FormatInt 1 @ '':'' @ FormatInt 2 @ '':'' @ ''59'') = Ok (FormatInt 3720)"
proof -
  have r: "(1 :: int) \<in> {- (2 ^ 31)..<2 ^ 31}" "(2 :: int) \<in> {- (2 ^ 31)..<2 ^ 31}" "CHR '':'' \<notin> set ''59''" by simp_all
  have "getDurationInSeconds (FormatInt 1 @ '':'' @ FormatInt 2 @ '':'' @ ''59'') = Ok (FormatInt ((1 * 60 + 2) * 60))"
    using duration_in_seconds [of "[]"] r by blast
  then show ?thesis by simp
qed

end
