(* ===== verification/Media_Database.thy ===== *)
theory Media_Database
  imports Hub_Repository Memory_Hub "HOL-Library.Sublist"
begin

text \<open>
  The older database of folders and files (\<^verbatim>\<open>database.go\<close>, and \<^verbatim>\<open>getFilesToCheck\<close> of
  \<^verbatim>\<open>repository.go\<close>): nested buckets, first by kind, then by media house, then by identifier. The
  store is again a parameter, this time with buckets inside buckets; a bucket is named by the list
  of names that leads to it and a nil bucket is \<open>None\<close>. The locale \<open>nested_spec\<close> holds the documented
  behaviour the code relies on.

  \<^verbatim>\<open>db.Update\<close> runs its body on a state of its own and \<^verbatim>\<open>db.View\<close> reads the last committed state, also
  when it is called inside an update, as the erasure of a folder does.
\<close>

section \<open>The store\<close>

type_synonym bucket_path = "string list"

record 'db nested_bolt =
  nb_bucket :: "'db \<Rightarrow> bucket_path \<Rightarrow> bool"
  nb_get :: "'db \<Rightarrow> bucket_path \<Rightarrow> bytes \<Rightarrow> bytes option"
  nb_items :: "'db \<Rightarrow> bucket_path \<Rightarrow> (bytes \<times> bytes option) list" \<comment> \<open>a nested bucket has a nil value\<close>
  nb_create :: "'db \<Rightarrow> bucket_path \<Rightarrow> error + 'db" \<comment> \<open>\<^verbatim>\<open>CreateBucketIfNotExists\<close> in an update\<close>
  nb_put :: "'db \<Rightarrow> bucket_path \<Rightarrow> bytes \<Rightarrow> bytes \<Rightarrow> error + 'db"
  nb_delete :: "'db \<Rightarrow> bucket_path \<Rightarrow> bytes \<Rightarrow> error + 'db"
  nb_delete_bucket :: "'db \<Rightarrow> bucket_path \<Rightarrow> error + 'db"
  nb_update :: "'db \<Rightarrow> ('db \<Rightarrow> 'db res) \<Rightarrow> unit res \<times> 'db"

definition key_ok :: "bytes \<Rightarrow> bool" where
  "key_ok k \<longleftrightarrow> k \<noteq> [] \<and> length k \<le> max_key"

locale nested_spec =
  fixes N :: "'db nested_bolt"
  assumes create_bucket: "nb_create N db p = Inr db' \<Longrightarrow> nb_bucket N db' q = (q = p \<or> nb_bucket N db q)"
    and create_get: "nb_create N db p = Inr db' \<Longrightarrow> nb_get N db' q k = nb_get N db q k"
    and create_ok: "p = [] \<or> nb_bucket N db p \<Longrightarrow> key_ok n \<Longrightarrow> nb_get N db p n = None \<Longrightarrow> \<exists>db'. nb_create N db (p @ [n]) = Inr db'"
    and put_get: "nb_put N db p k v = Inr db' \<Longrightarrow> nb_get N db' q j = (if q = p \<and> j = k then Some v else nb_get N db q j)"
    and put_bucket: "nb_put N db p k v = Inr db' \<Longrightarrow> nb_bucket N db' q = nb_bucket N db q"
    and put_key: "nb_put N db p k v = Inr db' \<Longrightarrow> key_ok k"
    and put_ok: "nb_bucket N db p \<Longrightarrow> key_ok k \<Longrightarrow> length v \<le> max_value \<Longrightarrow> \<not> nb_bucket N db (p @ [k]) \<Longrightarrow> \<exists>db'. nb_put N db p k v = Inr db'"
    and delete_get: "nb_delete N db p k = Inr db' \<Longrightarrow> nb_get N db' q j = (if q = p \<and> j = k then None else nb_get N db q j)"
    and delete_bucket: "nb_delete N db p k = Inr db' \<Longrightarrow> nb_bucket N db' q = nb_bucket N db q"
    and delete_ok: "nb_bucket N db p \<Longrightarrow> \<not> nb_bucket N db (p @ [k]) \<Longrightarrow> \<exists>db'. nb_delete N db p k = Inr db'"
    and drop_bucket: "nb_delete_bucket N db p = Inr db' \<Longrightarrow> nb_bucket N db' q = (nb_bucket N db q \<and> \<not> prefix p q)"
    and drop_get: "nb_delete_bucket N db p = Inr db' \<Longrightarrow> nb_get N db' q k = (if prefix p q then None else nb_get N db q k)"
    and drop_ok: "nb_bucket N db p \<Longrightarrow> \<exists>db'. nb_delete_bucket N db p = Inr db'"
    and drop_fails: "\<not> nb_bucket N db p \<Longrightarrow> \<exists>e. nb_delete_bucket N db p = Inl e"
    and no_bucket: "\<not> nb_bucket N db p \<Longrightarrow> nb_get N db p k = None"
    and items_get: "(k, Some v) \<in> set (nb_items N db p) \<longleftrightarrow> nb_get N db p k = Some v"
    and items_bucket: "nb_bucket N db p \<Longrightarrow> (k, None) \<in> set (nb_items N db p) \<longleftrightarrow> nb_bucket N db (p @ [k])"
    and items_distinct: "distinct (map fst (nb_items N db p))"
    and update_commit: "f db = Ok db' \<Longrightarrow> nb_update N db f = (Ok (), db') \<or> (\<exists>e. nb_update N db f = (Err e, db))"
    and update_rollback: "f db = Err e \<Longrightarrow> nb_update N db f = (Err e, db)"
    and update_panic: "f db = Panic \<Longrightarrow> nb_update N db f = (Panic, db)"
    and update_diverge: "f db = Diverge \<Longrightarrow> nb_update N db f = (Diverge, db)"
begin

text \<open>A transaction that reports success has run its body to the end.\<close>

lemma update_Ok: "nb_update N db f = (Ok (), db') \<Longrightarrow> f db = Ok db'"
  using update_commit [of f db] update_rollback [of f db] update_panic [of f db] update_diverge [of f db]
  by (cases "f db") auto

lemma update_failed: "nb_update N db f = (r, db') \<Longrightarrow> r \<noteq> Ok () \<Longrightarrow> db' = db"
  using update_commit [of f db] update_rollback [of f db] update_panic [of f db] update_diverge [of f db]
  by (cases "f db") auto

end

section \<open>An in-memory store\<close>

text \<open>Buckets by their paths; a value is hidden by a bucket of the same name, and the operations never make one.\<close>

type_synonym mem_nested = "(bucket_path \<times> (bytes \<times> bytes) list) list"

definition mn_get :: "mem_nested \<Rightarrow> bucket_path \<Rightarrow> bytes \<Rightarrow> bytes option" where
  "mn_get db p k = (case map_of db p of None \<Rightarrow> None | Some al \<Rightarrow> if map_of db (p @ [k]) \<noteq> None then None else map_of al k)"

definition mn_items :: "mem_nested \<Rightarrow> bucket_path \<Rightarrow> (bytes \<times> bytes option) list" where
  "mn_items db p = (case map_of db p of None \<Rightarrow> []
     | Some al \<Rightarrow> map (\<lambda>(k, v). (k, Some v)) (filter (\<lambda>(k, _). map_of db (p @ [k]) = None) (AList.clearjunk al)) @
         map (\<lambda>q. (last q, None)) (filter (\<lambda>q. q \<noteq> [] \<and> butlast q = p) (map fst (AList.clearjunk db))))"

definition mn_create :: "mem_nested \<Rightarrow> bucket_path \<Rightarrow> error + mem_nested" where
  "mn_create db p =
     (if p = [] \<or> \<not> key_ok (last p) then Inl ''bucket name required''
      else if map_of db p \<noteq> None then Inr db
      else if mn_get db (butlast p) (last p) \<noteq> None then Inl ''incompatible value''
      else Inr ((p, []) # db))"

definition mn_put :: "mem_nested \<Rightarrow> bucket_path \<Rightarrow> bytes \<Rightarrow> bytes \<Rightarrow> error + mem_nested" where
  "mn_put db p k v =
     (if \<not> key_ok k then Inl ''key required''
      else if max_value < length v then Inl ''value too large''
      else if map_of db (p @ [k]) \<noteq> None then Inl ''incompatible value''
      else case map_of db p of None \<Rightarrow> Inl ''bucket not found'' | Some al \<Rightarrow> Inr (AList.update p (AList.update k v al) db))"

definition mn_delete :: "mem_nested \<Rightarrow> bucket_path \<Rightarrow> bytes \<Rightarrow> error + mem_nested" where
  "mn_delete db p k =
     (if map_of db (p @ [k]) \<noteq> None then Inl ''incompatible value''
      else case map_of db p of None \<Rightarrow> Inl ''bucket not found'' | Some al \<Rightarrow> Inr (AList.update p (AList.delete k al) db))"

definition mn_hidden :: "mem_nested \<Rightarrow> bucket_path \<Rightarrow> mem_nested" where
  "mn_hidden db p = (case map_of db (butlast p) of None \<Rightarrow> db
     | Some al \<Rightarrow> AList.update (butlast p) (AList.delete (last p) al) db)"

definition mn_delete_bucket :: "mem_nested \<Rightarrow> bucket_path \<Rightarrow> error + mem_nested" where
  "mn_delete_bucket db p =
     (if map_of db p = None then Inl ''bucket not found''
      else Inr (filter (\<lambda>(q, _). \<not> prefix p q) (mn_hidden db p)))"

definition mn_update :: "mem_nested \<Rightarrow> (mem_nested \<Rightarrow> mem_nested res) \<Rightarrow> unit res \<times> mem_nested" where
  "mn_update db f =
     (case f db of Ok db' \<Rightarrow> (Ok (), db') | Err e \<Rightarrow> (Err e, db) | Panic \<Rightarrow> (Panic, db) | Diverge \<Rightarrow> (Diverge, db))"

definition mem_nested :: "mem_nested nested_bolt" where
  "mem_nested = \<lparr>nb_bucket = \<lambda>db p. map_of db p \<noteq> None, nb_get = mn_get, nb_items = mn_items, nb_create = mn_create,
     nb_put = mn_put, nb_delete = mn_delete, nb_delete_bucket = mn_delete_bucket, nb_update = mn_update\<rparr>"

lemma mem_nested_simps [simp]:
  "nb_bucket mem_nested = (\<lambda>db p. map_of db p \<noteq> None)" "nb_get mem_nested = mn_get" "nb_items mem_nested = mn_items"
  "nb_create mem_nested = mn_create" "nb_put mem_nested = mn_put" "nb_delete mem_nested = mn_delete"
  "nb_delete_bucket mem_nested = mn_delete_bucket" "nb_update mem_nested = mn_update"
  by (simp_all add: mem_nested_def)

lemma map_of_filter_key: "map_of (filter (\<lambda>(q, _). P q) al) k = (if P k then map_of al k else None)"
  by (induction al) auto

lemma mn_hidden_map: "map_of (mn_hidden db p) q =
    (if q = butlast p then map_option (AList.delete (last p)) (map_of db q) else map_of db q)"
  by (auto simp: mn_hidden_def update_conv' split: option.splits)

lemma mn_drop_map:
  assumes "mn_delete_bucket db p = Inr db'"
  shows "map_of db' q = (if prefix p q then None
     else if q = butlast p then map_option (AList.delete (last p)) (map_of db q) else map_of db q)"
  using assms by (auto simp: mn_delete_bucket_def map_of_filter_key mn_hidden_map split: if_splits)

lemma mn_drop_get:
  assumes "mn_delete_bucket db p = Inr db'"
  shows "mn_get db' q k = (if prefix p q then None else mn_get db q k)"
proof (cases "prefix p q \<or> p = []")
  case False
  have p: "map_of db p \<noteq> None" using assms by (auto simp: mn_delete_bucket_def split: if_splits)
  have split: "p = q @ [k] \<longleftrightarrow> q = butlast p \<and> k = last p" using False by auto
  show ?thesis
  proof (cases "p = q @ [k]")
    case True
    with False p show ?thesis
      by (simp add: mn_get_def mn_drop_map [OF assms] delete_conv' split: option.split)
  next
    case ne: False
    with False have "\<not> prefix p (q @ [k])" by auto
    moreover have "q = butlast p \<Longrightarrow> k \<noteq> last p" using ne split by blast
    ultimately show ?thesis using False
      by (auto simp: mn_get_def mn_drop_map [OF assms] delete_conv' split: option.split)
  qed
qed (auto simp: mn_get_def mn_drop_map [OF assms])

lemma mn_create_get: "mn_create db p = Inr db' \<Longrightarrow> mn_get db' q k = mn_get db q k"
  by (auto simp: mn_create_def mn_get_def split: if_splits option.splits)

lemma mn_items_get: "(k, Some v) \<in> set (mn_items db p) \<longleftrightarrow> mn_get db p k = Some v"
  by (auto simp: mn_items_def mn_get_def map_of_clearjunk distinct_clearjunk
      simp flip: map_of_eq_Some_iff split: option.split)

lemma mn_bucket_keys: "q \<in> set (map fst (AList.clearjunk db)) \<longleftrightarrow> map_of db q \<noteq> None"
  by (simp add: dom_clearjunk map_of_eq_None_iff)

lemma mn_items_distinct: "distinct (map fst (mn_items db p))"
proof (cases "map_of db p")
  case (Some al)
  define subs where "subs = filter (\<lambda>q. q \<noteq> [] \<and> butlast q = p) (map fst (AList.clearjunk db))"
  define vals where "vals = filter (\<lambda>(k, _). map_of db (p @ [k]) = None) (AList.clearjunk al)"
  have items: "map fst (mn_items db p) = map fst vals @ map last subs"
    by (simp add: mn_items_def Some subs_def vals_def comp_def case_prod_beta)
  have sub: "q = p @ [last q]" if "q \<in> set subs" for q
    using that append_butlast_last_id [of q] by (simp add: subs_def)
  then have "inj_on last (set subs)" by (metis inj_onI)
  moreover have "distinct subs" using distinct_clearjunk [of db] by (simp add: subs_def)
  ultimately have 1: "distinct (map last subs)" by (simp add: distinct_map)
  have 2: "distinct (map fst vals)" unfolding vals_def by (rule distinct_map_filter [OF distinct_clearjunk])
  have 3: "k \<noteq> last q" if "k \<in> set (map fst vals)" "q \<in> set subs" for k q
  proof -
    have "map_of db (p @ [k]) = None" using that(1) by (auto simp: vals_def)
    moreover have "map_of db q \<noteq> None" using that(2) by (simp only: subs_def set_filter mem_Collect_eq mn_bucket_keys) simp
    ultimately show ?thesis using sub [OF that(2)] by metis
  qed
  have "set (map fst vals) \<inter> set (map last subs) = {}" using 3 by fastforce
  with 1 2 show ?thesis unfolding items by (simp only: distinct_append)
qed (simp add: mn_items_def)

lemma mn_items_bucket:
  assumes "map_of db p \<noteq> None"
  shows "(k, None) \<in> set (mn_items db p) \<longleftrightarrow> map_of db (p @ [k]) \<noteq> None"
proof -
  define names where "names = map fst (AList.clearjunk db)"
  obtain al where "map_of db p = Some al" using assms by blast
  then have "mn_items db p = map (\<lambda>(k, v). (k, Some v)) (filter (\<lambda>(k, _). map_of db (p @ [k]) = None) (AList.clearjunk al)) @
      map (\<lambda>q. (last q, None)) (filter (\<lambda>q. q \<noteq> [] \<and> butlast q = p) names)"
    by (simp add: mn_items_def names_def)
  then have "(k, None) \<in> set (mn_items db p) \<longleftrightarrow> (\<exists>q \<in> set names. q \<noteq> [] \<and> butlast q = p \<and> last q = k)" by auto
  also have "\<dots> \<longleftrightarrow> p @ [k] \<in> set names" by (metis append_butlast_last_id butlast_snoc last_snoc snoc_eq_iff_butlast)
  finally show ?thesis by (simp only: names_def mn_bucket_keys)
qed

lemma mn_put_map:
  assumes "mn_put db p k v = Inr db'"
  obtains al where "map_of db p = Some al" "map_of db (p @ [k]) = None" "map_of db' = (map_of db)(p \<mapsto> AList.update k v al)"
  using assms by (auto simp: mn_put_def update_conv' split: if_splits option.splits)

lemma mn_delete_map:
  assumes "mn_delete db p k = Inr db'"
  obtains al where "map_of db p = Some al" "map_of db (p @ [k]) = None" "map_of db' = (map_of db)(p \<mapsto> AList.delete k al)"
  using assms by (auto simp: mn_delete_def update_conv' split: if_splits option.splits)

lemma mn_put_get:
  assumes "mn_put db p k v = Inr db'"
  shows "mn_get db' q j = (if q = p \<and> j = k then Some v else mn_get db q j)"
  using assms by (elim mn_put_map) (auto simp: mn_get_def update_conv' split: option.split)

lemma mn_delete_get:
  assumes "mn_delete db p k = Inr db'"
  shows "mn_get db' q j = (if q = p \<and> j = k then None else mn_get db q j)"
  using assms by (elim mn_delete_map) (auto simp: mn_get_def delete_conv' split: option.split)

lemma mn_create_bucket: "mn_create db p = Inr db' \<Longrightarrow> map_of db' q \<noteq> None \<longleftrightarrow> q = p \<or> map_of db q \<noteq> None"
  by (auto simp: mn_create_def split: if_splits)

lemma mn_put_bucket: "mn_put db p k v = Inr db' \<Longrightarrow> map_of db' q \<noteq> None \<longleftrightarrow> map_of db q \<noteq> None"
  by (elim mn_put_map) auto

lemma mn_delete_bucket: "mn_delete db p k = Inr db' \<Longrightarrow> map_of db' q \<noteq> None \<longleftrightarrow> map_of db q \<noteq> None"
  by (elim mn_delete_map) auto

lemma mn_put_key: "mn_put db p k v = Inr db' \<Longrightarrow> key_ok k"
  by (simp add: mn_put_def split: if_splits)

lemma mn_drop_bucket: "mn_delete_bucket db p = Inr db' \<Longrightarrow> map_of db' q \<noteq> None \<longleftrightarrow> map_of db q \<noteq> None \<and> \<not> prefix p q"
  by (simp add: mn_drop_map)

lemma mn_ok:
  "p = [] \<or> map_of db p \<noteq> None \<Longrightarrow> key_ok n \<Longrightarrow> mn_get db p n = None \<Longrightarrow> \<exists>db'. mn_create db (p @ [n]) = Inr db'"
  "map_of db p \<noteq> None \<Longrightarrow> key_ok k \<Longrightarrow> length v \<le> max_value \<Longrightarrow> \<not> map_of db (p @ [k]) \<noteq> None \<Longrightarrow> \<exists>db'. mn_put db p k v = Inr db'"
  "map_of db p \<noteq> None \<Longrightarrow> \<not> map_of db (p @ [k]) \<noteq> None \<Longrightarrow> \<exists>db'. mn_delete db p k = Inr db'"
  "map_of db p \<noteq> None \<Longrightarrow> \<exists>db'. mn_delete_bucket db p = Inr db'"
  "\<not> map_of db p \<noteq> None \<Longrightarrow> \<exists>e. mn_delete_bucket db p = Inl e"
  by (auto simp: mn_create_def mn_put_def mn_delete_def mn_delete_bucket_def)

interpretation mem_db: nested_spec mem_nested
  by (unfold_locales; unfold mem_nested_simps)
    (fact mn_create_bucket mn_create_get mn_ok mn_put_get mn_put_bucket mn_put_key mn_delete_get mn_delete_bucket mn_drop_bucket mn_drop_get
       mn_items_get mn_items_bucket mn_items_distinct | simp add: mn_get_def mn_update_def)+

section \<open>The operations\<close>

definition folderStructureBucketName :: string where "folderStructureBucketName = ''folderStructure''"
definition metadataFilesBucketName :: string where "metadataFilesBucketName = ''metadataFiles''"
definition bulkFilesBucketName :: string where "bulkFilesBucketName = ''bulkFiles''"
definition childToParentBucketName :: string where "childToParentBucketName = ''childToParent''"

record FileEntry =
  fl_Name :: string
  fl_HashSum :: string

text \<open>
  \<open>writable\<close> tells an update from a view: the creation of a bucket in a view fails with
  \<^verbatim>\<open>ErrTxNotWritable\<close>. The result of a creation is not looked at.
\<close>

definition safeCreateIfNotExistsInBucket :: "'db nested_bolt \<Rightarrow> bool \<Rightarrow> bucket_path option \<Rightarrow> string \<Rightarrow> 'db \<Rightarrow> 'db" where
  "safeCreateIfNotExistsInBucket N writable bucket name db =
     (case bucket of
        None \<Rightarrow> db
      | Some p \<Rightarrow> (if writable then (case nb_create N db (p @ [name]) of Inl _ \<Rightarrow> db | Inr db \<Rightarrow> db) else db))"

definition safeCreateIfNotExistsInTran :: "'db nested_bolt \<Rightarrow> bool \<Rightarrow> string \<Rightarrow> 'db \<Rightarrow> 'db" where
  "safeCreateIfNotExistsInTran N writable name db =
     (if writable then (case nb_create N db [name] of Inl _ \<Rightarrow> db | Inr db \<Rightarrow> db) else db)"

text \<open>\<^verbatim>\<open>tx.Bucket(name)\<close> (from the path \<open>[]\<close>) and \<^verbatim>\<open>bucket.Bucket(name)\<close>.\<close>

definition Bucket :: "'db nested_bolt \<Rightarrow> 'db \<Rightarrow> bucket_path \<Rightarrow> string \<Rightarrow> bucket_path option" where
  "Bucket N db p name = (if nb_bucket N db (p @ [name]) then Some (p @ [name]) else None)"

definition getMediaHouseBucket ::
    "'db nested_bolt \<Rightarrow> bool \<Rightarrow> string \<Rightarrow> string \<Rightarrow> 'db \<Rightarrow> bucket_path option \<times> 'db" where
  "getMediaHouseBucket N writable rootBucketName mediaHouse db =
     (let db = safeCreateIfNotExistsInTran N writable rootBucketName db in
      case Bucket N db [] rootBucketName of
        None \<Rightarrow> (None, db)
      | Some folderStructureBucket \<Rightarrow>
          let db = safeCreateIfNotExistsInBucket N writable (Some folderStructureBucket) mediaHouse db
          in (Bucket N db folderStructureBucket mediaHouse, db))"

definition putEncodedJSON ::
    "'db nested_bolt \<Rightarrow> 'a codec \<Rightarrow> bucket_path option \<Rightarrow> 'a \<Rightarrow> string \<Rightarrow> 'db \<Rightarrow> 'db res" where
  "putEncodedJSON N J bucket v k db =
     (case marshal J v of
        Inl _ \<Rightarrow> Err ''Could not encode into json''
      | Inr encoded \<Rightarrow>
          (case bucket of
             None \<Rightarrow> Panic
           | Some p \<Rightarrow>
               (case nb_put N db p k encoded of
                  Inr db \<Rightarrow> Ok db
                | Inl _ \<Rightarrow> Err (''Could not add encoded entry: '' @ encoded))))"

definition putFileEntries ::
    "'db nested_bolt \<Rightarrow> FileEntry list codec \<Rightarrow> string \<Rightarrow> string \<Rightarrow> string \<Rightarrow> FileEntry list \<Rightarrow> 'db \<Rightarrow> 'db res" where
  "putFileEntries N J bucketName mediaHouse ident fileEntries db =
     (case getMediaHouseBucket N True bucketName mediaHouse db of
        (None, db) \<Rightarrow> Err (''Media house bucket was null while adding file entries to '' @ bucketName)
      | (Some p, db) \<Rightarrow> putEncodedJSON N J (Some p) fileEntries ident db)"

definition house_error :: "string \<Rightarrow> string \<Rightarrow> error" where
  "house_error mediaHouse b =
     ''Media house bucket associated with mediahouse value: '' @ mediaHouse @ '' in parent bucket: '' @ b @ '' was nil''"

text \<open>The error of the last \<^verbatim>\<open>Put\<close> is dropped.\<close>

definition put_folder ::
    "'db nested_bolt \<Rightarrow> FolderStructureEntry codec \<Rightarrow> string \<Rightarrow> string \<Rightarrow> FolderStructureEntry \<Rightarrow> 'db \<Rightarrow> 'db res" where
  "put_folder N J mediaHouse parent entry db =
     (case getMediaHouseBucket N True folderStructureBucketName mediaHouse db of
        (None, db) \<Rightarrow> Err (house_error mediaHouse folderStructureBucketName)
      | (Some p, db) \<Rightarrow>
          let db = safeCreateIfNotExistsInBucket N True (Some p) parent db in
          bind_res (putEncodedJSON N J (Bucket N db p parent) entry (fe_ID entry) db) (\<lambda>db.
          case getMediaHouseBucket N True childToParentBucketName mediaHouse db of
            (None, db) \<Rightarrow> Err (house_error mediaHouse childToParentBucketName)
          | (Some q, db) \<Rightarrow> Ok (case nb_put N db q (fe_ID entry) parent of Inl _ \<Rightarrow> db | Inr db \<Rightarrow> db)))"

definition addFolder ::
    "'db nested_bolt \<Rightarrow> FolderStructureEntry codec \<Rightarrow> string \<Rightarrow> string \<Rightarrow> FolderStructureEntry \<Rightarrow> 'db \<Rightarrow> unit res \<times> 'db" where
  "addFolder N J mediaHouse parent entry db = nb_update N db (put_folder N J mediaHouse parent entry)"

definition addMetadataFiles ::
    "'db nested_bolt \<Rightarrow> FileEntry list codec \<Rightarrow> string \<Rightarrow> string \<Rightarrow> FileEntry list \<Rightarrow> 'db \<Rightarrow> unit res \<times> 'db" where
  "addMetadataFiles N J mediaHouse ident fileEntries db =
     nb_update N db (putFileEntries N J metadataFilesBucketName mediaHouse ident fileEntries)"

definition addBulkFiles ::
    "'db nested_bolt \<Rightarrow> FileEntry list codec \<Rightarrow> string \<Rightarrow> string \<Rightarrow> FileEntry list \<Rightarrow> 'db \<Rightarrow> unit res \<times> 'db" where
  "addBulkFiles N J mediaHouse ident fileEntries db =
     nb_update N db (putFileEntries N J bulkFilesBucketName mediaHouse ident fileEntries)"

text \<open>A value that is not valid JSON, and the nil of a nested bucket, give what is decoded of them.\<close>

definition getChildrenEntries ::
    "'db nested_bolt \<Rightarrow> FolderStructureEntry codec \<Rightarrow> 'db \<Rightarrow> string \<Rightarrow> string \<Rightarrow> FolderStructureEntry list" where
  "getChildrenEntries N J db mediaHouse parent =
     (case fst (getMediaHouseBucket N False folderStructureBucketName mediaHouse db) of
        None \<Rightarrow> []
      | Some p \<Rightarrow>
          (case Bucket N db p parent of
             None \<Rightarrow> []
           | Some q \<Rightarrow> map (\<lambda>(k, v). fst (unmarshal J (case v of None \<Rightarrow> [] | Some v \<Rightarrow> v))) (nb_items N db q)))"

definition getFileEntries ::
    "'db nested_bolt \<Rightarrow> FileEntry list codec \<Rightarrow> 'db \<Rightarrow> string \<Rightarrow> string \<Rightarrow> string \<Rightarrow> FileEntry list" where
  "getFileEntries N J db mediaHouse ident bucketName =
     (case fst (getMediaHouseBucket N False bucketName mediaHouse db) of
        None \<Rightarrow> []
      | Some p \<Rightarrow> (case nb_get N db p ident of None \<Rightarrow> [] | Some files \<Rightarrow> fst (unmarshal J files)))"

definition getMetadataFileEntries ::
    "'db nested_bolt \<Rightarrow> FileEntry list codec \<Rightarrow> 'db \<Rightarrow> string \<Rightarrow> string \<Rightarrow> FileEntry list" where
  "getMetadataFileEntries N J db mediaHouse ident = getFileEntries N J db mediaHouse ident metadataFilesBucketName"

definition getBulkFileEntries ::
    "'db nested_bolt \<Rightarrow> FileEntry list codec \<Rightarrow> 'db \<Rightarrow> string \<Rightarrow> string \<Rightarrow> FileEntry list" where
  "getBulkFileEntries N J db mediaHouse ident = getFileEntries N J db mediaHouse ident bulkFilesBucketName"

definition eraseKey :: "'db nested_bolt \<Rightarrow> string \<Rightarrow> string \<Rightarrow> string \<Rightarrow> 'db \<Rightarrow> 'db res" where
  "eraseKey N bucketName mediaHouse ident db =
     (case getMediaHouseBucket N True bucketName mediaHouse db of
        (None, db) \<Rightarrow> Panic
      | (Some p, db) \<Rightarrow> lift_err (nb_delete N db p ident))"

text \<open>
  The part of \<^verbatim>\<open>doErase\<close> before its recursive calls: the entries of the files, and the key in the bucket of the
  parent. It returns the bucket of the media house too.
\<close>

definition erase_entries :: "'db nested_bolt \<Rightarrow> string \<Rightarrow> string \<Rightarrow> 'db \<Rightarrow> (bucket_path \<times> 'db) res" where
  "erase_entries N ident mediaHouse db =
     bind_res (eraseKey N metadataFilesBucketName mediaHouse ident db) (\<lambda>db.
     bind_res (eraseKey N bulkFilesBucketName mediaHouse ident db) (\<lambda>db.
     case getMediaHouseBucket N True childToParentBucketName mediaHouse db of
       (None, db) \<Rightarrow> Err ''Media house bucket as null while trying to get parent of child''
     | (Some c, db) \<Rightarrow>
         (case nb_get N db c ident of
            None \<Rightarrow> Err ''Parent was nil for the passed ID''
          | Some parent \<Rightarrow>
              (case getMediaHouseBucket N True folderStructureBucketName mediaHouse db of
                 (None, db) \<Rightarrow> Panic
               | (Some m, db) \<Rightarrow>
                   (case Bucket N db m parent of
                      None \<Rightarrow> Panic
                    | Some q \<Rightarrow> bind_res (lift_err (nb_delete N db q ident)) (\<lambda>db. Ok (m, db)))))))"

text \<open>The children are read from \<open>db0\<close>, the state before the update. The error of \<^verbatim>\<open>DeleteBucket\<close> is dropped.\<close>

fun doErase ::
    "'db nested_bolt \<Rightarrow> FolderStructureEntry codec \<Rightarrow> 'db \<Rightarrow> nat \<Rightarrow> string \<Rightarrow> string \<Rightarrow> 'db \<Rightarrow> 'db res" where
  "doErase N J db0 0 ident mediaHouse db = Diverge"
| "doErase N J db0 (Suc fuel) ident mediaHouse db =
     bind_res (erase_entries N ident mediaHouse db) (\<lambda>(m, db).
     bind_res (fold_res (\<lambda>child. doErase N J db0 fuel (fe_ID child) mediaHouse)
                 (getChildrenEntries N J db0 mediaHouse ident) db) (\<lambda>db.
     Ok (case nb_delete_bucket N db (m @ [ident]) of Inl _ \<Rightarrow> db | Inr db \<Rightarrow> db)))"

definition eraseFolder ::
    "'db nested_bolt \<Rightarrow> FolderStructureEntry codec \<Rightarrow> nat \<Rightarrow> string \<Rightarrow> string \<Rightarrow> 'db \<Rightarrow> unit res \<times> 'db" where
  "eraseFolder N J fuel ident mediaHouse db = nb_update N db (doErase N J db fuel ident mediaHouse)"

text \<open>
  Opening the database, and the test data of \<^verbatim>\<open>setupDbForTesting\<close>: calls of \<open>addBulkFiles\<close> (\<open>True\<close>) and
  \<open>addMetadataFiles\<close> (\<open>False\<close>) for one media house, whose results are not looked at.
\<close>

definition createDatabaseConnection :: "error + 'db \<Rightarrow> 'db option \<Rightarrow> bool \<times> 'db option" where
  "createDatabaseConnection opened db = (case opened of Inl err \<Rightarrow> (False, db) | Inr tempDb \<Rightarrow> (True, Some tempDb))"

definition test_calls :: "(bool \<times> string \<times> FileEntry list) list" where
  "test_calls = [
    (False, ''FRIENDS'', [\<lparr>fl_Name = ''cover.jpg'', fl_HashSum = ''7440c1695f713cfc40e02c1f7f246cad718a0377d759fd298f7aed351edd4b3a''\<rparr>, \<lparr>fl_Name = ''metadata.xml'', fl_HashSum = ''7b4bb8b01c333e7fa8145bcec20244197c7763786ef47c9de962effb017d01de''\<rparr>]),
    (False, ''FS01'', [\<lparr>fl_Name = ''cover.jpg'', fl_HashSum = ''e6ad15ad2d6fc3bd26024111656b06c438faa90015c55a9a1709419ab4711c43''\<rparr>, \<lparr>fl_Name = ''metadata.xml'', fl_HashSum = ''7b4bb8b01c333e7fa8145bcec20244197c7763786ef47c9de962effb017d01de''\<rparr>]),
    (False, ''FS02'', [\<lparr>fl_Name = ''cover.jpg'', fl_HashSum = ''87aaf4791fb76c812bca62caebcf66568150541b2c323e173b3a49be3c4cb857''\<rparr>, \<lparr>fl_Name = ''metadata.xml'', fl_HashSum = ''7b4bb8b01c333e7fa8145bcec20244197c7763786ef47c9de962effb017d01de''\<rparr>]),
    (False, ''FS01E01'', [\<lparr>fl_Name = ''cover.png'', fl_HashSum = ''e02d7821816870ee0e58918e35d7f8916144d5359c4b9c02ca5e1b756f87899f''\<rparr>, \<lparr>fl_Name = ''metadata.xml'', fl_HashSum = ''7b4bb8b01c333e7fa8145bcec20244197c7763786ef47c9de962effb017d01de''\<rparr>]),
    (False, ''FS02E01'', [\<lparr>fl_Name = ''cover.jpg'', fl_HashSum = ''b1f2a066e355ba7be9c01a3afe1843148f50c1868e650ac5290664a580c344cd''\<rparr>, \<lparr>fl_Name = ''metadata.xml'', fl_HashSum = ''7b4bb8b01c333e7fa8145bcec20244197c7763786ef47c9de962effb017d01de''\<rparr>]),
    (True, ''FS01E01'', [\<lparr>fl_Name = ''vod.mp4'', fl_HashSum = ''e754ddcf735de06ac797915b814c933771276831b1d802022036036e0edd4294''\<rparr>]),
    (True, ''FS02E01'', [\<lparr>fl_Name = ''vod.mp4'', fl_HashSum = ''e754ddcf735de06ac797915b814c933771276831b1d802022036036e0edd4294''\<rparr>])]"

definition test_call :: "'db nested_bolt \<Rightarrow> FileEntry list codec \<Rightarrow> bool \<times> string \<times> FileEntry list \<Rightarrow> 'db \<Rightarrow> 'db res" where
  "test_call N F = (\<lambda>(bulk, ident, files) db.
     case (if bulk then addBulkFiles else addMetadataFiles) N F ''MSR'' ident files db of
       (Panic, _) \<Rightarrow> Panic | (Diverge, _) \<Rightarrow> Diverge | (_, db) \<Rightarrow> Ok db)"

definition setupDbForTesting :: "'db nested_bolt \<Rightarrow> FileEntry list codec \<Rightarrow> 'db \<Rightarrow> 'db res" where
  "setupDbForTesting N F = fold_res (test_call N F) test_calls"

definition KeyExistsInDb :: "'db nested_bolt \<Rightarrow> 'db \<Rightarrow> string \<Rightarrow> string \<Rightarrow> string \<Rightarrow> bool" where
  "KeyExistsInDb N db mediaHouse parent ident =
     (case fst (getMediaHouseBucket N False folderStructureBucketName mediaHouse db) of
        None \<Rightarrow> False
      | Some p \<Rightarrow> (case Bucket N db p parent of None \<Rightarrow> False | Some q \<Rightarrow> nb_get N db q ident \<noteq> None))"

record FileToCheck =
  fc_path :: string
  sha256 :: string

definition getFilesToCheck ::
    "'db nested_bolt \<Rightarrow> FileEntry list codec \<Rightarrow> 'db \<Rightarrow> string \<Rightarrow> string \<Rightarrow> FileToCheck list" where
  "getFilesToCheck N J db mediaHouse folder =
     map (\<lambda>file. \<lparr>fc_path = getFilePath mediaHouse folder (fl_Name file), sha256 = fl_HashSum file\<rparr>)
       (getMetadataFileEntries N J db mediaHouse folder) @
     map (\<lambda>file. \<lparr>fc_path = getFilePath mediaHouse folder (fl_Name file), sha256 = fl_HashSum file\<rparr>)
       (getBulkFileEntries N J db mediaHouse folder)"

section \<open>The shape of the store\<close>

abbreviation "folders_root \<equiv> folderStructureBucketName"
abbreviation "metadata_root \<equiv> metadataFilesBucketName"
abbreviation "bulk_root \<equiv> bulkFilesBucketName"
abbreviation "parents_root \<equiv> childToParentBucketName"

lemmas root_names = folderStructureBucketName_def metadataFilesBucketName_def bulkFilesBucketName_def childToParentBucketName_def

definition roots :: "string set" where
  "roots = {folders_root, metadata_root, bulk_root, parents_root}"

text \<open>Where values and where buckets may stand, and that a bucket lies in its parent.\<close>

fun value_place :: "bucket_path \<Rightarrow> bool" where
  "value_place [r, h] = (r \<in> {metadata_root, bulk_root, parents_root})"
| "value_place [r, h, p] = (r = folders_root)"
| "value_place _ = False"

fun bucket_place :: "bucket_path \<Rightarrow> bool" where
  "bucket_place [r] = (r \<in> roots)"
| "bucket_place [r, h] = (r \<in> roots)"
| "bucket_place [r, h, p] = (r = folders_root)"
| "bucket_place _ = False"

definition db_layout :: "'db nested_bolt \<Rightarrow> 'db \<Rightarrow> bool" where
  "db_layout N db \<longleftrightarrow> (\<forall>q k. nb_get N db q k \<noteq> None \<longrightarrow> value_place q) \<and> (\<forall>q. nb_bucket N db q \<longrightarrow> bucket_place q) \<and>
     (\<forall>r h. nb_bucket N db [r, h] \<longrightarrow> nb_bucket N db [r]) \<and> (\<forall>r h p. nb_bucket N db [r, h, p] \<longrightarrow> nb_bucket N db [r, h])"

text \<open>An entry stands under its own identifier, and only in the bucket of its recorded parent.\<close>

definition entries_ok :: "'db nested_bolt \<Rightarrow> FolderStructureEntry codec \<Rightarrow> 'db \<Rightarrow> bool" where
  "entries_ok N J db \<longleftrightarrow> (\<forall>h p c v. nb_get N db [folders_root, h, p] c = Some v \<longrightarrow>
     fe_ID (fst (unmarshal J v)) = c \<and> nb_get N db [parents_root, h] c = Some p)"

lemma roots_distinct [simp]:
  "folders_root \<noteq> metadata_root" "folders_root \<noteq> bulk_root" "folders_root \<noteq> parents_root"
  "metadata_root \<noteq> bulk_root" "metadata_root \<noteq> parents_root" "bulk_root \<noteq> parents_root"
  "metadata_root \<noteq> folders_root" "bulk_root \<noteq> folders_root" "parents_root \<noteq> folders_root"
  "bulk_root \<noteq> metadata_root" "parents_root \<noteq> metadata_root" "parents_root \<noteq> bulk_root"
  by (simp_all add: root_names)

lemma roots_in [simp]: "folders_root \<in> roots" "metadata_root \<in> roots" "bulk_root \<in> roots" "parents_root \<in> roots"
  by (simp_all add: roots_def)

lemma roots_key_ok: "r \<in> roots \<Longrightarrow> key_ok r"
  by (auto simp: roots_def root_names key_ok_def max_key_def)

lemma value_place_roots: "value_place (r # rest) \<Longrightarrow> r \<in> roots"
  by (cases "r # rest" rule: value_place.cases) auto

lemma db_layoutD:
  assumes "db_layout N db"
  shows "nb_get N db [] k = None" "nb_get N db [r] k = None" "nb_get N db [folders_root, h] k = None"
    "\<not> nb_bucket N db []" "r \<noteq> folders_root \<Longrightarrow> \<not> nb_bucket N db [r, h, p]" "\<not> nb_bucket N db [r, h, p, c]"
    "nb_bucket N db [r, h] \<Longrightarrow> nb_bucket N db [r]" "nb_bucket N db [r, h, p] \<Longrightarrow> nb_bucket N db [r, h]"
  using assms unfolding db_layout_def by fastforce+

text \<open>
  What an erasure removes, for the relation \<open>erased mh F D L db db'\<close> below: in the house \<open>mh\<close> the file entries of the identifiers \<open>F\<close>, the folders \<open>D\<close> with
  all their entries, and the single entries \<open>L\<close> (folder, identifier) are gone; all other entries are
  as before, and so are the buckets other than those of the house itself.
\<close>

definition houses :: "string \<Rightarrow> bucket_path set" where
  "houses mh = {[r] |r. r \<in> roots} \<union> {[r, mh] |r. r \<in> roots}"

definition gone :: "string \<Rightarrow> string set \<Rightarrow> string set \<Rightarrow> (string \<times> string) set \<Rightarrow> bucket_path \<Rightarrow> bytes \<Rightarrow> bool" where
  "gone mh F D L q k \<longleftrightarrow> (q \<in> {[metadata_root, mh], [bulk_root, mh]} \<and> k \<in> F) \<or>
     (\<exists>x. q = [folders_root, mh, x] \<and> (x \<in> D \<or> (x, k) \<in> L))"

context nested_spec
begin

lemma getMediaHouseBucket_effect:
  assumes "getMediaHouseBucket N w r mh db = (b, db')"
  shows "nb_get N db' q k = nb_get N db q k"
    and "nb_bucket N db' q \<Longrightarrow> nb_bucket N db q \<or> q = [r] \<or> q = [r, mh]"
    and "nb_bucket N db q \<Longrightarrow> nb_bucket N db' q"
    and "b = Some p \<Longrightarrow> p = [r, mh] \<and> nb_bucket N db' [r, mh] \<and> nb_bucket N db' [r]"
    and "nb_bucket N db' [r, mh] \<Longrightarrow> nb_bucket N db' [r] \<or> nb_bucket N db [r, mh]"
  using assms create_bucket create_get
  by (auto simp: getMediaHouseBucket_def safeCreateIfNotExistsInTran_def safeCreateIfNotExistsInBucket_def Bucket_def Let_def
      split: if_splits sum.splits option.splits)

lemma getMediaHouseBucket_layout:
  assumes "getMediaHouseBucket N w r mh db = (b, db')" "db_layout N db" "r \<in> roots"
  shows "db_layout N db'"
proof -
  note e = getMediaHouseBucket_effect [OF assms(1)]
  have "nb_bucket N db' [r', h] \<Longrightarrow> nb_bucket N db' [r']" for r' h
    using e(2) [of "[r', h]"] e(3,5) db_layoutD(7) [OF assms(2)] by auto
  moreover have "nb_bucket N db' [r', h, p] \<Longrightarrow> nb_bucket N db' [r', h]" for r' h p
    using e(2) [of "[r', h, p]"] e(3) db_layoutD(8) [OF assms(2)] by auto
  ultimately show ?thesis using assms(2,3) e(1) e(2) unfolding db_layout_def
    by (metis bucket_place.simps(1,2))
qed

lemma getMediaHouseBucket_opens:
  assumes "db_layout N db" "r \<in> roots" "key_ok mh"
  shows "\<exists>db'. getMediaHouseBucket N True r mh db = (Some [r, mh], db')"
proof -
  obtain db1 where 1: "nb_create N db [r] = Inr db1"
    using create_ok [of "[]" db r] db_layoutD(1) [OF assms(1)] roots_key_ok [OF assms(2)] by auto
  obtain db2 where 2: "nb_create N db1 [r, mh] = Inr db2"
    using create_ok [of "[r]" db1 mh] create_bucket [OF 1] create_get [OF 1] db_layoutD(2) [OF assms(1)] assms(3) by auto
  show ?thesis using 1 2 create_bucket [OF 1] create_bucket [OF 2]
    by (simp add: getMediaHouseBucket_def safeCreateIfNotExistsInTran_def safeCreateIfNotExistsInBucket_def Bucket_def)
qed

lemma getMediaHouseBucket_view:
  "db_layout N db \<Longrightarrow> getMediaHouseBucket N False r mh db = (if nb_bucket N db [r, mh] then Some [r, mh] else None, db)"
  using db_layoutD(7) [of N db r mh]
  by (auto simp: getMediaHouseBucket_def safeCreateIfNotExistsInTran_def safeCreateIfNotExistsInBucket_def Bucket_def Let_def)

lemma getFileEntries_get:
  assumes "db_layout N db"
  shows "getFileEntries N F db mh x r = (case nb_get N db [r, mh] x of None \<Rightarrow> [] | Some v \<Rightarrow> fst (unmarshal F v))"
  using no_bucket [of db "[r, mh]" x] by (auto simp: getFileEntries_def getMediaHouseBucket_view [OF assms])

lemma KeyExistsInDb_get:
  assumes "db_layout N db"
  shows "KeyExistsInDb N db mh p c \<longleftrightarrow> nb_get N db [folders_root, mh, p] c \<noteq> None"
  using no_bucket [of db "[folders_root, mh, p]" c] db_layoutD(8) [OF assms, of folders_root mh p]
  by (auto simp: KeyExistsInDb_def getMediaHouseBucket_view [OF assms] Bucket_def)

lemma getChildrenEntries_set:
  assumes "db_layout N db"
  shows "set (getChildrenEntries N J db mh p) = {fst (unmarshal J v) |c v. nb_get N db [folders_root, mh, p] c = Some v}"
proof (cases "nb_bucket N db [folders_root, mh, p]")
  case True
  have "(k, v) \<in> set (nb_items N db [folders_root, mh, p]) \<Longrightarrow> v \<noteq> None" for k v
    using items_bucket [OF True, of k] db_layoutD(6) [OF assms] by (cases v) auto
  then have "set (nb_items N db [folders_root, mh, p]) = {(c, Some v) |c v. nb_get N db [folders_root, mh, p] c = Some v}"
    using items_get [of _ _ db "[folders_root, mh, p]"] by fastforce
  then show ?thesis using True db_layoutD(8) [OF assms True]
    by (auto simp: getChildrenEntries_def getMediaHouseBucket_view [OF assms] Bucket_def image_iff)
      (metis option.simps(5))
next
  case False
  then show ?thesis using no_bucket [OF False]
    by (simp add: getChildrenEntries_def getMediaHouseBucket_view [OF assms] Bucket_def split: option.split)
qed

text \<open>The single changes.\<close>

lemma put_layout: "nb_put N db p k v = Inr db' \<Longrightarrow> db_layout N db \<Longrightarrow> value_place p \<Longrightarrow> db_layout N db'"
  unfolding db_layout_def by (simp only: put_get put_bucket) (metis option.distinct(1))

lemma create_layout:
  "nb_create N db [folders_root, h, p] = Inr db' \<Longrightarrow> nb_bucket N db [folders_root, h] \<Longrightarrow> db_layout N db \<Longrightarrow> db_layout N db'"
  by (auto simp: db_layout_def create_bucket create_get)

text \<open>What an erasure may do: remove entries, but no record of a parent.\<close>

definition shrinks :: "'db \<Rightarrow> 'db \<Rightarrow> bool" where
  "shrinks db db' \<longleftrightarrow> (db_layout N db \<longrightarrow> db_layout N db') \<and>
     (\<forall>q k. nb_get N db' q k = nb_get N db q k \<or> nb_get N db' q k = None) \<and>
     (\<forall>h k. nb_get N db' [parents_root, h] k = nb_get N db [parents_root, h] k)"

lemma shrinks_refl: "shrinks db db"
  by (simp add: shrinks_def)

lemma shrinks_trans [trans]: "shrinks db db1 \<Longrightarrow> shrinks db1 db2 \<Longrightarrow> shrinks db db2"
  unfolding shrinks_def by metis

lemma shrinks_house: "getMediaHouseBucket N w r mh db = (b, db') \<Longrightarrow> r \<in> roots \<Longrightarrow> shrinks db db'"
  using getMediaHouseBucket_layout getMediaHouseBucket_effect(1) by (simp add: shrinks_def)

lemma shrinks_delete: "nb_delete N db (r # q) k = Inr db' \<Longrightarrow> r \<noteq> parents_root \<Longrightarrow> shrinks db db'"
  by (auto simp: shrinks_def db_layout_def delete_get delete_bucket)

lemma shrinks_drop:
  assumes "nb_delete_bucket N db [folders_root, h, x] = Inr db'"
  shows "shrinks db db'"
  unfolding shrinks_def db_layout_def drop_get [OF assms] drop_bucket [OF assms] by (auto, blast+)

lemma shrinks_eraseKey:
  assumes "eraseKey N r mh x db = Ok db'" "r \<in> roots" "r \<noteq> parents_root"
  shows "shrinks db db'"
proof -
  obtain p db1 where 1: "getMediaHouseBucket N True r mh db = (Some p, db1)" "nb_delete N db1 p x = Inr db'"
    using assms(1) by (auto simp: eraseKey_def split: prod.splits option.splits)
  then have "p = [r, mh]" using getMediaHouseBucket_effect(4) [OF 1(1)] by simp
  with 1 shrinks_house [OF 1(1) assms(2)] shrinks_delete [of db1 r "[mh]" x db'] assms(3) show ?thesis
    using shrinks_trans by blast
qed

lemma shrinks_erase_entries:
  assumes "erase_entries N x mh db = Ok (m, db')"
  shows "shrinks db db' \<and> m = [folders_root, mh]"
proof -
  obtain db1 db2 where 1: "eraseKey N metadata_root mh x db = Ok db1" "eraseKey N bulk_root mh x db1 = Ok db2"
    using assms by (auto simp: erase_entries_def)
  obtain c db3 where 3: "getMediaHouseBucket N True parents_root mh db2 = (Some c, db3)"
    using assms 1 by (auto simp: erase_entries_def split: prod.splits option.splits)
  obtain p where p: "nb_get N db3 c x = Some p" using assms 1 3 by (auto simp: erase_entries_def split: option.splits)
  obtain m' db4 where 4: "getMediaHouseBucket N True folders_root mh db3 = (Some m', db4)"
    using assms 1 3 p by (auto simp: erase_entries_def split: prod.splits option.splits)
  have "m' = [folders_root, mh]" using getMediaHouseBucket_effect(4) [OF 4] by simp
  with assms 1 3 4 p have 5: "nb_delete N db4 (folders_root # [mh, p]) x = Inr db'" "m = m'"
    by (auto simp: erase_entries_def Bucket_def split: option.splits if_splits)
  have "shrinks db db1" by (rule shrinks_eraseKey [OF 1(1)]) simp_all
  also have "shrinks db1 db2" by (rule shrinks_eraseKey [OF 1(2)]) simp_all
  also have "shrinks db2 db3" by (rule shrinks_house [OF 3]) simp
  also have "shrinks db3 db4" by (rule shrinks_house [OF 4]) simp
  also have "shrinks db4 db'" by (rule shrinks_delete [OF 5(1)]) simp
  finally have "shrinks db db'" .
  with \<open>m' = [folders_root, mh]\<close> 5(2) show ?thesis by simp
qed

lemma shrinks_doErase: "doErase N J db0 fuel x mh db = Ok db' \<Longrightarrow> shrinks db db'"
proof (induction fuel arbitrary: x db db')
  case (Suc fuel)
  then obtain m db1 db2 where 1: "erase_entries N x mh db = Ok (m, db1)"
      and 2: "fold_res (\<lambda>child. doErase N J db0 fuel (fe_ID child) mh) (getChildrenEntries N J db0 mh x) db1 = Ok db2"
      and 3: "db' = (case nb_delete_bucket N db2 (m @ [x]) of Inl _ \<Rightarrow> db2 | Inr db \<Rightarrow> db)"
    by (auto split: prod.splits)
  have "shrinks db db1" "m = [folders_root, mh]" using shrinks_erase_entries [OF 1] by auto
  moreover have "shrinks db1 db2"
    by (rule fold_res_invariant [OF 2, of "shrinks db1"]) (use Suc.IH shrinks_refl shrinks_trans in blast)+
  moreover have "shrinks db2 db'" using 3 \<open>m = _\<close> shrinks_refl shrinks_drop by (auto split: sum.splits)
  ultimately show ?case using shrinks_trans by blast
qed simp

lemma putFileEntries_Ok:
  assumes "putFileEntries N F r mh x fs db = Ok db'"
  obtains db1 v where "getMediaHouseBucket N True r mh db = (Some [r, mh], db1)" "marshal F fs = Inr v" "nb_put N db1 [r, mh] x v = Inr db'"
proof -
  obtain p db1 where 1: "getMediaHouseBucket N True r mh db = (Some p, db1)" "putEncodedJSON N F (Some p) fs x db1 = Ok db'"
    using assms by (auto simp: putFileEntries_def split: prod.splits option.splits)
  then have "p = [r, mh]" using getMediaHouseBucket_effect(4) [OF 1(1)] by simp
  with 1 that show ?thesis by (auto simp: putEncodedJSON_def split: sum.splits)
qed

lemma put_folder_Ok:
  assumes "put_folder N J mh parent entry db = Ok db'"
  obtains db1 db2 db3 db4 v where "getMediaHouseBucket N True folders_root mh db = (Some [folders_root, mh], db1)"
    "db2 = (case nb_create N db1 [folders_root, mh, parent] of Inl _ \<Rightarrow> db1 | Inr db \<Rightarrow> db)" "nb_bucket N db2 [folders_root, mh, parent]"
    "marshal J entry = Inr v" "nb_put N db2 [folders_root, mh, parent] (fe_ID entry) v = Inr db3"
    "getMediaHouseBucket N True parents_root mh db3 = (Some [parents_root, mh], db4)"
    "db' = (case nb_put N db4 [parents_root, mh] (fe_ID entry) parent of Inl _ \<Rightarrow> db4 | Inr db \<Rightarrow> db)"
proof -
  obtain p db1 where 0: "getMediaHouseBucket N True folders_root mh db = (Some p, db1)"
    using assms by (auto simp: put_folder_def split: prod.splits option.splits)
  then have 1: "getMediaHouseBucket N True folders_root mh db = (Some [folders_root, mh], db1)"
    using getMediaHouseBucket_effect(4) [OF 0] by simp
  define db2 where "db2 = (case nb_create N db1 [folders_root, mh, parent] of Inl _ \<Rightarrow> db1 | Inr db \<Rightarrow> db)"
  have 2: "safeCreateIfNotExistsInBucket N True (Some [folders_root, mh]) parent db1 = db2"
    by (simp add: safeCreateIfNotExistsInBucket_def db2_def)
  obtain v db3 where 3: "nb_bucket N db2 [folders_root, mh, parent]" "marshal J entry = Inr v"
      "nb_put N db2 [folders_root, mh, parent] (fe_ID entry) v = Inr db3"
    using assms by (auto simp: put_folder_def 1 2 putEncodedJSON_def Bucket_def Let_def split: option.splits sum.splits if_splits)
  obtain c db4 where 4: "getMediaHouseBucket N True parents_root mh db3 = (Some c, db4)"
    using assms 3 by (auto simp: put_folder_def 1 2 putEncodedJSON_def Bucket_def Let_def split: prod.splits option.splits)
  have c: "c = [parents_root, mh]" using getMediaHouseBucket_effect(4) [OF 4] by simp
  have 5: "db' = (case nb_put N db4 [parents_root, mh] (fe_ID entry) parent of Inl _ \<Rightarrow> db4 | Inr db \<Rightarrow> db)"
    using assms 3 4 by (simp add: put_folder_def 1 2 putEncodedJSON_def Bucket_def Let_def c)
  show ?thesis using that [OF 1 db2_def 3 4 [unfolded c] 5] .
qed

lemma putFileEntries_layout:
  assumes "putFileEntries N F r mh x fs db = Ok db'" "r \<in> {metadata_root, bulk_root}" "db_layout N db"
  shows "db_layout N db'"
  using assms(1)
proof (rule putFileEntries_Ok)
  fix db1 v
  assume 1: "getMediaHouseBucket N True r mh db = (Some [r, mh], db1)" and 2: "nb_put N db1 [r, mh] x v = Inr db'"
  have "db_layout N db1" using getMediaHouseBucket_layout [OF 1 assms(3)] assms(2) by auto
  with 2 assms(2) show ?thesis by (intro put_layout [OF 2]) auto
qed

lemma put_folder_layout:
  assumes "put_folder N J mh parent entry db = Ok db'" "db_layout N db"
  shows "db_layout N db'"
  using assms(1)
proof (rule put_folder_Ok)
  fix db1 db2 db3 db4 v
  assume 1: "getMediaHouseBucket N True folders_root mh db = (Some [folders_root, mh], db1)"
    and 2: "db2 = (case nb_create N db1 [folders_root, mh, parent] of Inl _ \<Rightarrow> db1 | Inr db \<Rightarrow> db)"
    and 3: "nb_put N db2 [folders_root, mh, parent] (fe_ID entry) v = Inr db3"
    and 4: "getMediaHouseBucket N True parents_root mh db3 = (Some [parents_root, mh], db4)"
    and 5: "db' = (case nb_put N db4 [parents_root, mh] (fe_ID entry) parent of Inl _ \<Rightarrow> db4 | Inr db \<Rightarrow> db)"
  have "db_layout N db1" using getMediaHouseBucket_layout [OF 1 assms(2)] by simp
  then have "db_layout N db2" using 2 create_layout getMediaHouseBucket_effect(4) [OF 1] by (auto split: sum.splits)
  then have "db_layout N db3" using put_layout [OF 3] by simp
  then have "db_layout N db4" using getMediaHouseBucket_layout [OF 4] by simp
  with 5 show ?thesis using put_layout by (auto split: sum.splits)
qed

text \<open>A transaction keeps what its body keeps.\<close>

lemma update_invariant: "(\<And>db'. f db = Ok db' \<Longrightarrow> P db') \<Longrightarrow> P db \<Longrightarrow> P (snd (nb_update N db f))"
  using update_Ok [of db f] update_failed [of db f] by (cases "nb_update N db f"; cases "fst (nb_update N db f)") auto

section \<open>What an erasure removes\<close>

definition erased :: "string \<Rightarrow> string set \<Rightarrow> string set \<Rightarrow> (string \<times> string) set \<Rightarrow> 'db \<Rightarrow> 'db \<Rightarrow> bool" where
  "erased mh F D L db db' \<longleftrightarrow>
     (\<forall>q k. nb_get N db' q k = (if gone mh F D L q k then None else nb_get N db q k)) \<and>
     (\<forall>q. q \<notin> houses mh \<longrightarrow> nb_bucket N db' q = (nb_bucket N db q \<and> \<not> (\<exists>x \<in> D. q = [folders_root, mh, x]))) \<and>
     (\<forall>q. nb_bucket N db q \<longrightarrow> nb_bucket N db' q \<or> (\<exists>x \<in> D. q = [folders_root, mh, x]))"

lemma gone_Un: "gone mh (F \<union> F') (D \<union> D') (L \<union> L') q k \<longleftrightarrow> gone mh F D L q k \<or> gone mh F' D' L' q k"
  by (auto simp: gone_def)

lemma erased_refl: "erased mh {} {} {} db db"
  by (simp add: erased_def gone_def)

lemma erased_trans: "erased mh F D L db db1 \<Longrightarrow> erased mh F' D' L' db1 db2 \<Longrightarrow> erased mh (F \<union> F') (D \<union> D') (L \<union> L') db db2"
  unfolding erased_def gone_Un by (auto simp: bex_Un)

lemma erased_absorb: "erased mh F D (L \<union> L') db db' \<Longrightarrow> fst ` L' \<subseteq> D \<Longrightarrow> erased mh F D L db db'"
proof -
  assume "fst ` L' \<subseteq> D"
  then have "gone mh F D (L \<union> L') q k \<longleftrightarrow> gone mh F D L q k" for q k by (auto simp: gone_def)
  then show "erased mh F D (L \<union> L') db db' \<Longrightarrow> erased mh F D L db db'" by (simp add: erased_def)
qed

lemma erased_house: "getMediaHouseBucket N w r mh db = (b, db') \<Longrightarrow> r \<in> roots \<Longrightarrow> erased mh {} {} {} db db'"
  using getMediaHouseBucket_effect(1-3) by (fastforce simp: erased_def gone_def houses_def)

lemma erased_folder: "erased mh F D L db db' \<Longrightarrow> nb_bucket N db' [folders_root, mh, x] \<longleftrightarrow> nb_bucket N db [folders_root, mh, x] \<and> x \<notin> D"
  by (auto simp: erased_def houses_def)

lemma erased_parent: "erased mh F D L db db' \<Longrightarrow> nb_get N db' [parents_root, h] k = nb_get N db [parents_root, h] k"
  by (auto simp: erased_def gone_def)

lemma eraseKey_erased:
  assumes "db_layout N db" "key_ok mh" "r \<in> {metadata_root, bulk_root}"
  obtains db' where "eraseKey N r mh x db = Ok db'" "db_layout N db'"
    "\<forall>q k. nb_get N db' q k = (if q = [r, mh] \<and> k = x then None else nb_get N db q k)"
    "\<forall>q. q \<notin> houses mh \<longrightarrow> nb_bucket N db' q = nb_bucket N db q" "\<forall>q. nb_bucket N db q \<longrightarrow> nb_bucket N db' q"
proof -
  have r: "r \<in> roots" "r \<noteq> parents_root" "r \<noteq> folders_root" using assms(3) by auto
  obtain db1 where 1: "getMediaHouseBucket N True r mh db = (Some [r, mh], db1)"
    using getMediaHouseBucket_opens [OF assms(1) r(1) assms(2)] by blast
  note l1 = getMediaHouseBucket_layout [OF 1 assms(1) r(1)]
  have "nb_bucket N db1 [r, mh]" "\<not> nb_bucket N db1 [r, mh, x]"
    using getMediaHouseBucket_effect(4) [OF 1] db_layoutD(5) [OF l1 r(3)] by auto
  then obtain db' where 2: "nb_delete N db1 [r, mh] x = Inr db'" using delete_ok [of db1 "[r, mh]" x] by auto
  have "eraseKey N r mh x db = Ok db'" by (simp add: eraseKey_def 1 2)
  moreover have "db_layout N db'" using shrinks_eraseKey [OF calculation r(1,2)] assms(1) by (simp add: shrinks_def)
  moreover have "\<forall>q k. nb_get N db' q k = (if q = [r, mh] \<and> k = x then None else nb_get N db q k)"
    using delete_get [OF 2] getMediaHouseBucket_effect(1) [OF 1] by simp
  moreover have "\<forall>q. q \<notin> houses mh \<longrightarrow> nb_bucket N db' q = nb_bucket N db q" "\<forall>q. nb_bucket N db q \<longrightarrow> nb_bucket N db' q"
    using delete_bucket [OF 2] erased_house [OF 1 r(1)] by (simp_all add: erased_def)
  ultimately show ?thesis using that by blast
qed

lemma erase_entries_erased:
  assumes "db_layout N db" "key_ok mh" "nb_get N db [parents_root, mh] x = Some p" "nb_bucket N db [folders_root, mh, p]"
  shows "\<exists>db'. erase_entries N x mh db = Ok ([folders_root, mh], db') \<and> erased mh {x} {} {(p, x)} db db'"
proof -
  obtain db1 where 1: "eraseKey N metadata_root mh x db = Ok db1" "db_layout N db1"
      "\<forall>q k. nb_get N db1 q k = (if q = [metadata_root, mh] \<and> k = x then None else nb_get N db q k)"
      "\<forall>q. q \<notin> houses mh \<longrightarrow> nb_bucket N db1 q = nb_bucket N db q" "\<forall>q. nb_bucket N db q \<longrightarrow> nb_bucket N db1 q"
    by (rule eraseKey_erased [OF assms(1,2), of metadata_root x]) auto
  obtain db2 where 2: "eraseKey N bulk_root mh x db1 = Ok db2" "db_layout N db2"
      "\<forall>q k. nb_get N db2 q k = (if q = [bulk_root, mh] \<and> k = x then None else nb_get N db1 q k)"
      "\<forall>q. q \<notin> houses mh \<longrightarrow> nb_bucket N db2 q = nb_bucket N db1 q" "\<forall>q. nb_bucket N db1 q \<longrightarrow> nb_bucket N db2 q"
    by (rule eraseKey_erased [OF 1(2) assms(2), of bulk_root x]) auto
  obtain db3 where 3: "getMediaHouseBucket N True parents_root mh db2 = (Some [parents_root, mh], db3)"
    using getMediaHouseBucket_opens [OF 2(2) _ assms(2), of parents_root] by auto
  note l3 = getMediaHouseBucket_layout [OF 3 2(2)]
  obtain db4 where 4: "getMediaHouseBucket N True folders_root mh db3 = (Some [folders_root, mh], db4)"
    using getMediaHouseBucket_opens [OF l3 _ assms(2), of folders_root] by auto
  note l4 = getMediaHouseBucket_layout [OF 4 l3]
  have g: "nb_get N db4 q k = (if q \<in> {[metadata_root, mh], [bulk_root, mh]} \<and> k = x then None else nb_get N db q k)"
      "nb_get N db3 q k = nb_get N db4 q k" for q k
    using 1(3) 2(3) getMediaHouseBucket_effect(1) [OF 3] getMediaHouseBucket_effect(1) [OF 4] by auto
  have b: "q \<notin> houses mh \<Longrightarrow> nb_bucket N db4 q = nb_bucket N db q" for q
    using 1(4) 2(4) erased_house [OF 3] erased_house [OF 4] by (simp add: erased_def)
  have keep: "nb_bucket N db q \<Longrightarrow> nb_bucket N db4 q" for q
    using 1(5) 2(5) getMediaHouseBucket_effect(3) [OF 3] getMediaHouseBucket_effect(3) [OF 4] by blast
  have p: "nb_bucket N db4 [folders_root, mh, p]" using b [of "[folders_root, mh, p]"] assms(4) by (simp add: houses_def)
  obtain db' where 5: "nb_delete N db4 [folders_root, mh, p] x = Inr db'"
    using delete_ok [OF p, of x] db_layoutD(6) [OF l4] by auto
  have "erase_entries N x mh db = Ok ([folders_root, mh], db')"
    using 1(1) 2(1) 3 4 5 p g assms(3) by (simp add: erase_entries_def Bucket_def)
  moreover have "erased mh {x} {} {(p, x)} db db'"
    using b g(1) keep by (auto simp: erased_def gone_def delete_get [OF 5] delete_bucket [OF 5])
  ultimately show ?thesis by blast
qed

lemma drop_erased: "erased mh {} {x} {} db (case nb_delete_bucket N db [folders_root, mh, x] of Inl _ \<Rightarrow> db | Inr db \<Rightarrow> db)"
  if "db_layout N db"
proof (cases "nb_bucket N db [folders_root, mh, x]")
  case True
  then obtain db' where 1: "nb_delete_bucket N db [folders_root, mh, x] = Inr db'" using drop_ok by blast
  have deep: "prefix [folders_root, mh, x] q \<Longrightarrow> q \<noteq> [folders_root, mh, x] \<Longrightarrow> \<not> nb_bucket N db q" for q
  proof -
    assume "prefix [folders_root, mh, x] q"
    then obtain zs where q: "q = folders_root # mh # x # zs" by (auto elim: prefixE)
    have "zs \<noteq> [] \<Longrightarrow> \<not> bucket_place q" by (cases zs) (simp_all add: q)
    with that have "zs \<noteq> [] \<Longrightarrow> \<not> nb_bucket N db q" by (auto simp: db_layout_def)
    moreover assume "q \<noteq> [folders_root, mh, x]"
    ultimately show ?thesis using q by simp
  qed
  with no_bucket have "prefix [folders_root, mh, x] q \<Longrightarrow> q \<noteq> [folders_root, mh, x] \<Longrightarrow> nb_get N db q k = None" for q k by blast
  with deep show ?thesis by (auto simp: 1 erased_def gone_def drop_get [OF 1] drop_bucket [OF 1])
next
  case False
  then obtain e where "nb_delete_bucket N db [folders_root, mh, x] = Inl e" using drop_fails by blast
  with False no_bucket [OF False] show ?thesis by (auto simp: erased_def gone_def)
qed

text \<open>
  The whole erasure, against the hierarchy of the committed state \<open>db0\<close>, which is a forest whose depth
  below a folder is bounded by \<open>d\<close>.
\<close>

definition lists :: "'db \<Rightarrow> string \<Rightarrow> (string \<times> string) set" where
  "lists db mh = {(p, c). nb_get N db [folders_root, mh, p] c \<noteq> None}"

lemma child_ids:
  assumes "db_layout N db" "entries_ok N J db"
  shows "fe_ID ` set (getChildrenEntries N J db mh p) = {c. (p, c) \<in> lists db mh}"
    and "distinct (map fe_ID (getChildrenEntries N J db mh p))"
proof -
  show "fe_ID ` set (getChildrenEntries N J db mh p) = {c. (p, c) \<in> lists db mh}"
    using assms(2) by (fastforce simp: getChildrenEntries_set [OF assms(1)] lists_def entries_ok_def image_iff)
  show "distinct (map fe_ID (getChildrenEntries N J db mh p))"
  proof (cases "nb_bucket N db [folders_root, mh, p]")
    case True
    let ?items = "nb_items N db [folders_root, mh, p]"
    have "fe_ID (fst (unmarshal J (case v of None \<Rightarrow> [] | Some v \<Rightarrow> v))) = k" if "(k, v) \<in> set ?items" for k v
      using that items_bucket [OF True, of k] db_layoutD(6) [OF assms(1)] items_get [of k _ db "[folders_root, mh, p]"] assms(2)
      by (cases v) (auto simp: entries_ok_def)
    then have "map (\<lambda>x. fe_ID (fst (unmarshal J (case snd x of None \<Rightarrow> [] | Some v \<Rightarrow> v)))) ?items = map fst ?items"
      by (intro map_cong refl) (metis prod.collapse)
    with True items_distinct [of db "[folders_root, mh, p]"] db_layoutD(8) [OF assms(1) True] show ?thesis
      by (simp add: getChildrenEntries_def getMediaHouseBucket_view [OF assms(1)] Bucket_def comp_def case_prod_beta del: map_eq_conv)
  next
    case False
    then show ?thesis
      by (simp add: getChildrenEntries_def getMediaHouseBucket_view [OF assms(1)] Bucket_def split: option.split)
  qed
qed

abbreviation below :: "'db \<Rightarrow> string \<Rightarrow> string \<Rightarrow> string set" where
  "below db mh x \<equiv> (lists db mh)\<^sup>* `` {x}"

lemma below_unfold: "below db mh x = insert x (\<Union>c \<in> {c. (x, c) \<in> lists db mh}. below db mh c)"
  by (auto simp: Image_iff elim: converse_rtranclE intro: converse_rtrancl_into_rtrancl)

lemma below_depth:
  assumes "\<forall>(p, c) \<in> lists db mh. d c < (d p :: nat)" "y \<in> below db mh x"
  shows "d y \<le> d x"
proof -
  from assms(2) have "(x, y) \<in> (lists db mh)\<^sup>*" by simp
  then show ?thesis using assms(1) by (induction rule: rtrancl_induct) (auto intro: less_imp_le order_trans)
qed

text \<open>Folders recorded under one parent have disjoint subtrees.\<close>

lemma below_disjoint:
  assumes "entries_ok N J db" "\<forall>(p, c) \<in> lists db mh. d c < (d p :: nat)"
    and c: "(x, c) \<in> lists db mh" "(x, c') \<in> lists db mh" "y \<in> below db mh c" "y \<in> below db mh c'"
  shows "c = c'"
proof -
  have sv: "single_valued ((lists db mh)\<inverse>)" using assms(1)
    by (auto simp: single_valued_def lists_def entries_ok_def) (metis option.inject)
  have "b = a" if "(a, b) \<in> (lists db mh)\<^sup>*" "(x, a) \<in> lists db mh" "(x, b) \<in> lists db mh" for a b
  proof (rule ccontr)
    assume "b \<noteq> a"
    with that(1) obtain z where "(a, z) \<in> (lists db mh)\<^sup>*" "(z, b) \<in> lists db mh" by (auto elim: rtranclE)
    moreover have "z = x" using sv that(3) \<open>(z, b) \<in> lists db mh\<close> by (auto simp: single_valued_def)
    ultimately have "d x \<le> d a" using below_depth [OF assms(2), of x a] by simp
    moreover have "d a < d x" using that(2) assms(2) by auto
    ultimately show False by simp
  qed
  moreover have "(c', c) \<in> (lists db mh)\<^sup>* \<or> (c, c') \<in> (lists db mh)\<^sup>*"
    using single_valued_confluent [OF sv, of y c c'] c(3,4) by (simp add: rtrancl_converse)
  ultimately show ?thesis using c(1,2) by metis
qed

lemma doErase_erased:
  assumes db0: "db_layout N db0" "entries_ok N J db0" "\<forall>(p, c) \<in> lists db0 mh. d c < (d p :: nat)" and "key_ok mh"
  shows "d x < fuel \<Longrightarrow> db_layout N db \<Longrightarrow> \<forall>k. nb_get N db [parents_root, mh] k = nb_get N db0 [parents_root, mh] k \<Longrightarrow>
    \<forall>y \<in> below db0 mh x. nb_bucket N db0 [folders_root, mh, y] \<longrightarrow> nb_bucket N db [folders_root, mh, y] \<Longrightarrow>
    nb_get N db [parents_root, mh] x = Some p \<Longrightarrow> nb_bucket N db [folders_root, mh, p] \<Longrightarrow>
    \<exists>db'. doErase N J db0 fuel x mh db = Ok db' \<and> erased mh (below db0 mh x) (below db0 mh x) {(p, x)} db db'"
proof (induction fuel arbitrary: x p db)
  case (Suc fuel)
  obtain db1 where 1: "erase_entries N x mh db = Ok ([folders_root, mh], db1)" "erased mh {x} {} {(p, x)} db db1"
    using erase_entries_erased [OF Suc.prems(2) assms(4) Suc.prems(5,6)] by blast
  let ?cs = "getChildrenEntries N J db0 mh x"
  let ?erase = "\<lambda>child. doErase N J db0 fuel (fe_ID child) mh"
  let ?under = "\<lambda>cs. \<Union>c \<in> fe_ID ` set cs. below db0 mh c"
  have l1: "db_layout N db1" using shrinks_erase_entries [OF 1(1)] Suc.prems(2) by (simp add: shrinks_def)
  have "\<exists>db2. fold_res ?erase cs db1 = Ok db2 \<and> erased mh (?under cs) (?under cs) ({x} \<times> fe_ID ` set cs) db1 db2"
    if "\<forall>c \<in> fe_ID ` set cs. (x, c) \<in> lists db0 mh" "distinct (map fe_ID cs)" "nb_bucket N db0 [folders_root, mh, x] \<longrightarrow> nb_bucket N db1 [folders_root, mh, x]"
      "\<forall>y \<in> ?under cs. nb_bucket N db0 [folders_root, mh, y] \<longrightarrow> nb_bucket N db1 [folders_root, mh, y]"
      "\<forall>k. nb_get N db1 [parents_root, mh] k = nb_get N db0 [parents_root, mh] k" "db_layout N db1" for cs db1
    using that
  proof (induction cs arbitrary: db1)
    case (Cons c cs)
    have c: "(x, fe_ID c) \<in> lists db0 mh" using Cons.prems(1) by simp
    then have "nb_bucket N db0 [folders_root, mh, x]" using no_bucket by (fastforce simp: lists_def)
    with Cons.prems(3) have x: "nb_bucket N db1 [folders_root, mh, x]" by simp
    have "d (fe_ID c) < d x" using c db0(3) by auto
    then have "d (fe_ID c) < fuel" using Suc.prems(1) by simp
    moreover have "nb_get N db1 [parents_root, mh] (fe_ID c) = Some x"
      using c db0(2) Cons.prems(5) by (auto simp: lists_def entries_ok_def)
    ultimately obtain db2 where 2: "?erase c db1 = Ok db2"
        "erased mh (below db0 mh (fe_ID c)) (below db0 mh (fe_ID c)) {(x, fe_ID c)} db1 db2"
      using Suc.IH [of "fe_ID c" db1 x] Cons.prems(4-6) x by auto
    have "x \<notin> below db0 mh (fe_ID c)" using below_depth [OF db0(3), of x "fe_ID c"] \<open>d (fe_ID c) < d x\<close> by auto
    then have "nb_bucket N db2 [folders_root, mh, x]" using erased_folder [OF 2(2)] x by simp
    moreover have "\<forall>y \<in> ?under cs. nb_bucket N db0 [folders_root, mh, y] \<longrightarrow> nb_bucket N db2 [folders_root, mh, y]"
    proof (intro ballI impI)
      fix y assume y: "y \<in> ?under cs" "nb_bucket N db0 [folders_root, mh, y]"
      then obtain c' where c': "c' \<in> fe_ID ` set cs" "y \<in> below db0 mh c'" by blast
      have "fe_ID c \<notin> fe_ID ` set cs" using Cons.prems(2) by simp
      then have "c' \<noteq> fe_ID c" using c'(1) by metis
      then have "y \<notin> below db0 mh (fe_ID c)" using below_disjoint [OF db0(2,3) c, of c' y] c' Cons.prems(1) by auto
      with y Cons.prems(4) show "nb_bucket N db2 [folders_root, mh, y]" using erased_folder [OF 2(2)] by simp
    qed
    moreover have "db_layout N db2" using shrinks_doErase [OF 2(1)] Cons.prems(6) by (simp add: shrinks_def)
    ultimately obtain db3 where 3: "fold_res ?erase cs db2 = Ok db3" "erased mh (?under cs) (?under cs) ({x} \<times> fe_ID ` set cs) db2 db3"
      using Cons.IH [of db2] Cons.prems(1,2,5) erased_parent [OF 2(2)] by auto
    have "{(x, fe_ID c)} \<union> {x} \<times> fe_ID ` set cs = {x} \<times> fe_ID ` set (c # cs)" by auto
    with erased_trans [OF 2(2) 3(2)] 2(1) 3(1) show ?case by simp
  qed (simp add: erased_refl)
  note children = this
  have under: "insert x (?under ?cs) = below db0 mh x" unfolding child_ids(1) [OF db0(1,2)] by (rule below_unfold [symmetric])
  have keep: "nb_bucket N db0 [folders_root, mh, y] \<longrightarrow> nb_bucket N db1 [folders_root, mh, y]" if "y \<in> below db0 mh x" for y
    using that erased_folder [OF 1(2)] Suc.prems(4) by simp
  obtain db2 where 2: "fold_res ?erase ?cs db1 = Ok db2" "erased mh (?under ?cs) (?under ?cs) ({x} \<times> fe_ID ` set ?cs) db1 db2"
  proof (rule exE [OF children [of ?cs db1]])
    show "\<forall>c \<in> fe_ID ` set ?cs. (x, c) \<in> lists db0 mh" unfolding child_ids(1) [OF db0(1,2)] by simp
    show "distinct (map fe_ID ?cs)" by (rule child_ids(2) [OF db0(1,2)])
    show "nb_bucket N db0 [folders_root, mh, x] \<longrightarrow> nb_bucket N db1 [folders_root, mh, x]" by (rule keep) simp
    show "\<forall>y \<in> ?under ?cs. nb_bucket N db0 [folders_root, mh, y] \<longrightarrow> nb_bucket N db1 [folders_root, mh, y]"
      using keep under by blast
    show "\<forall>k. nb_get N db1 [parents_root, mh] k = nb_get N db0 [parents_root, mh] k"
      using erased_parent [OF 1(2)] Suc.prems(3) by simp
    show "db_layout N db1" by (rule l1)
  qed blast
  have "db_layout N db2"
    by (rule fold_res_invariant [OF 2(1), of "db_layout N"]) (use l1 shrinks_doErase in \<open>auto simp: shrinks_def\<close>)
  note 3 = drop_erased [OF this, of mh x]
  let ?L = "{(p, x)} \<union> {x} \<times> fe_ID ` set ?cs"
  let ?db' = "case nb_delete_bucket N db2 [folders_root, mh, x] of Inl _ \<Rightarrow> db2 | Inr db \<Rightarrow> db"
  have "erased mh (below db0 mh x) (below db0 mh x) ?L db ?db'"
    using erased_trans [OF erased_trans [OF 1(2) 2(2)] 3] under by simp
  then have "erased mh (below db0 mh x) (below db0 mh x) {(p, x)} db ?db'" by (rule erased_absorb) (auto simp: under [symmetric])
  with 1(1) 2(1) show ?case by simp
qed simp

text \<open>The effect of adding a folder and of adding files.\<close>

lemma put_folder_effect:
  assumes "put_folder N J mh parent entry db = Ok db'" "db_layout N db" "length parent \<le> max_value"
  obtains v where "marshal J entry = Inr v"
    "\<forall>q k. nb_get N db' q k = (if q = [folders_root, mh, parent] \<and> k = fe_ID entry then Some v
       else if q = [parents_root, mh] \<and> k = fe_ID entry then Some parent else nb_get N db q k)"
  using assms(1)
proof (rule put_folder_Ok)
  fix db1 db2 db3 db4 v
  assume 1: "getMediaHouseBucket N True folders_root mh db = (Some [folders_root, mh], db1)"
    and 2: "db2 = (case nb_create N db1 [folders_root, mh, parent] of Inl _ \<Rightarrow> db1 | Inr db \<Rightarrow> db)"
    and v: "marshal J entry = Inr v"
    and 3: "nb_put N db2 [folders_root, mh, parent] (fe_ID entry) v = Inr db3"
    and 4: "getMediaHouseBucket N True parents_root mh db3 = (Some [parents_root, mh], db4)"
    and 5: "db' = (case nb_put N db4 [parents_root, mh] (fe_ID entry) parent of Inl _ \<Rightarrow> db4 | Inr db \<Rightarrow> db)"
  have l1: "db_layout N db1" using getMediaHouseBucket_layout [OF 1 assms(2)] by simp
  then have "db_layout N db2" using 2 create_layout getMediaHouseBucket_effect(4) [OF 1] by (auto split: sum.splits)
  then have "db_layout N db3" using put_layout [OF 3] by simp
  then have l4: "db_layout N db4" using getMediaHouseBucket_layout [OF 4] by simp
  have "nb_bucket N db4 [parents_root, mh]" "\<not> nb_bucket N db4 ([parents_root, mh] @ [fe_ID entry])"
    using getMediaHouseBucket_effect(4) [OF 4] db_layoutD(5) [OF l4] by auto
  then obtain db5 where 6: "nb_put N db4 [parents_root, mh] (fe_ID entry) parent = Inr db5"
    using put_ok [of db4 "[parents_root, mh]" "fe_ID entry" parent] put_key [OF 3] assms(3) by blast
  have "nb_get N db2 q k = nb_get N db q k" for q k
    using 2 create_get getMediaHouseBucket_effect(1) [OF 1] by (auto split: sum.splits)
  then have "nb_get N db4 q k = (if q = [folders_root, mh, parent] \<and> k = fe_ID entry then Some v else nb_get N db q k)" for q k
    using getMediaHouseBucket_effect(1) [OF 4] put_get [OF 3] by simp
  then have "\<forall>q k. nb_get N db' q k = (if q = [folders_root, mh, parent] \<and> k = fe_ID entry then Some v
       else if q = [parents_root, mh] \<and> k = fe_ID entry then Some parent else nb_get N db q k)"
    using 5 6 put_get [OF 6] by simp
  with v show ?thesis by (rule that)
qed

lemma put_files_effect:
  assumes "putFileEntries N F r mh x fs db = Ok db'"
  obtains v where "marshal F fs = Inr v" "\<forall>q k. nb_get N db' q k = (if q = [r, mh] \<and> k = x then Some v else nb_get N db q k)"
  using assms
proof (rule putFileEntries_Ok)
  fix db1 v
  assume 1: "getMediaHouseBucket N True r mh db = (Some [r, mh], db1)" "marshal F fs = Inr v" "nb_put N db1 [r, mh] x v = Inr db'"
  then show ?thesis using that [OF 1(2)] getMediaHouseBucket_effect(1) [OF 1(1)] put_get [OF 1(3)] by simp
qed

text \<open>The operations keep the shape.\<close>

lemma operations_layout:
  assumes "db_layout N db"
  shows "db_layout N (snd (addFolder N J mh parent entry db))" "db_layout N (snd (addMetadataFiles N F mh x fs db))"
    "db_layout N (snd (addBulkFiles N F mh x fs db))" "db_layout N (snd (eraseFolder N J fuel x mh db))"
  unfolding addFolder_def addMetadataFiles_def addBulkFiles_def eraseFolder_def
     apply (rule update_invariant [of _ db "db_layout N", OF _ assms], erule put_folder_layout [OF _ assms])
    apply (rule update_invariant [of _ db "db_layout N", OF _ assms], erule putFileEntries_layout [OF _ _ assms], simp)
   apply (rule update_invariant [of _ db "db_layout N", OF _ assms], erule putFileEntries_layout [OF _ _ assms], simp)
  apply (rule update_invariant [of _ db "db_layout N", OF _ assms], drule shrinks_doErase, simp add: shrinks_def assms)
  done

lemma entries_ok_shrinks: "shrinks db db' \<Longrightarrow> entries_ok N J db \<Longrightarrow> entries_ok N J db'"
  unfolding shrinks_def entries_ok_def by (metis option.distinct(1))

lemma KeyExistsInDb_lists: "db_layout N db \<Longrightarrow> {(p, c). KeyExistsInDb N db mh p c} = lists db mh"
  by (simp add: KeyExistsInDb_get lists_def)

lemma eraseFolder_effect:
  assumes "db_layout N db" "entries_ok N J db" "key_ok mh" "\<forall>p c. KeyExistsInDb N db mh p c \<longrightarrow> d c < (d p :: nat)" "d x < fuel"
    and "KeyExistsInDb N db mh p x"
  shows "\<exists>db'. doErase N J db fuel x mh db = Ok db' \<and> db_layout N db' \<and> entries_ok N J db' \<and>
    erased mh ({(p, c). KeyExistsInDb N db mh p c}\<^sup>* `` {x}) ({(p, c). KeyExistsInDb N db mh p c}\<^sup>* `` {x}) {(p, x)} db db'"
proof -
  have k: "nb_get N db [folders_root, mh, p] x \<noteq> None" using assms(6) by (simp add: KeyExistsInDb_get [OF assms(1)])
  have "\<forall>(p, c) \<in> lists db mh. d c < d p" using assms(4) unfolding KeyExistsInDb_lists [OF assms(1), symmetric] by blast
  moreover have "nb_get N db [parents_root, mh] x = Some p" using k assms(2) by (auto simp: entries_ok_def)
  moreover have "nb_bucket N db [folders_root, mh, p]" using k no_bucket [of db "[folders_root, mh, p]" x] by metis
  ultimately obtain db' where "doErase N J db fuel x mh db = Ok db'" "erased mh (below db mh x) (below db mh x) {(p, x)} db db'"
    using doErase_erased [of db J mh d x fuel db p, OF assms(1,2) _ assms(3,5,1)] by blast
  moreover from calculation have "shrinks db db'" using shrinks_doErase by blast
  then have "entries_ok N J db'" "db_layout N db'" using assms(1,2) entries_ok_shrinks [of db db' J] by (blast, simp add: shrinks_def)
  ultimately show ?thesis unfolding KeyExistsInDb_lists [OF assms(1)] by blast
qed

end

section \<open>A concrete database\<close>

text \<open>Encodings for the examples: the fields one after the other, as in \<open>Memory_Hub\<close>.\<close>

definition entry_codec :: "FolderStructureEntry codec" where
  "entry_codec = \<lparr>marshal = \<lambda>e. Inr (enc_fields (fe_ID e # enc_bool (HasChildren e) # InfoMetadataFileName e #
       enc_int (fe_Size e) # MetadataFiles e)),
     unmarshal = \<lambda>b. (case dec_fields [] b of
       i # c # m # n # fs \<Rightarrow> (\<lparr>fe_ID = i, HasChildren = (c = ''1''), InfoMetadataFileName = m, fe_Size = dec_int n, MetadataFiles = fs\<rparr>, None)
     | _ \<Rightarrow> (\<lparr>fe_ID = [], HasChildren = False, InfoMetadataFileName = [], fe_Size = 0, MetadataFiles = []\<rparr>,
          Some ''unexpected end of JSON input''))\<rparr>"

interpretation mem_entry: json_spec entry_codec "\<lambda>_. True"
  by unfold_locales (simp add: entry_codec_def dec_enc_fields del: enc_fields.simps)

fun pair_files :: "string list \<Rightarrow> FileEntry list" where
  "pair_files (n # h # fs) = \<lparr>fl_Name = n, fl_HashSum = h\<rparr> # pair_files fs"
| "pair_files _ = []"

definition files_codec :: "FileEntry list codec" where
  "files_codec = \<lparr>marshal = \<lambda>fs. Inr (enc_fields (concat (map (\<lambda>f. [fl_Name f, fl_HashSum f]) fs))),
     unmarshal = \<lambda>b. (pair_files (dec_fields [] b), None)\<rparr>"

lemma pair_files [simp]: "pair_files (concat (map (\<lambda>f. [fl_Name f, fl_HashSum f]) fs)) = fs"
  by (induction fs) auto

interpretation mem_files: json_spec files_codec "\<lambda>_. True"
  by unfold_locales (simp add: files_codec_def dec_enc_fields del: enc_fields.simps)

section \<open>The properties\<close>

text \<open>
  C15: The shape of the database. From a store in which buckets and values stand only where the code
  means them to (one bucket per kind, house and, for the folders, parent; values in the innermost
  buckets), every operation that writes leaves such a store, whatever its arguments, and also
  when it fails.
\<close>

theorem media_db_layout:
  assumes "nested_spec N" "db_layout N db"
  shows "db_layout N (snd (addFolder N J mh parent entry db)) \<and> db_layout N (snd (addMetadataFiles N F mh x fs db)) \<and>
    db_layout N (snd (addBulkFiles N F mh x fs db)) \<and> db_layout N (snd (eraseFolder N J fuel x mh db))"
  using nested_spec.operations_layout [OF assms] by blast

theorem media_db_layout_witness:
  "db_layout mem_nested (snd (addFolder mem_nested entry_codec ''h'' ''root'' \<lparr>fe_ID = ''F'', HasChildren = False,
     InfoMetadataFileName = [], fe_Size = 0, MetadataFiles = []\<rparr> []))"
  using media_db_layout [of mem_nested "[]" entry_codec "''h''" "''root''"
      "\<lparr>fe_ID = ''F'', HasChildren = False, InfoMetadataFileName = [], fe_Size = 0, MetadataFiles = []\<rparr>"
      files_codec "[]" "[]" 0] mem_db.nested_spec_axioms
  by (simp add: db_layout_def mn_get_def)

text \<open>
  Adding a folder. When it is reported as added, the folder stands in the bucket of its parent, with
  the entry given, and no other folder was added or lost. If no other folder already lists the
  identifier, entries keep standing only in the bucket of their recorded parent.
\<close>

theorem folder_added:
  assumes "nested_spec N" "json_spec J valid" "valid entry" "db_layout N db" "entries_ok N J db"
    and "addFolder N J mh parent entry db = (Ok (), db')" "length parent \<le> max_value"
    and "\<forall>p. p \<noteq> parent \<longrightarrow> \<not> KeyExistsInDb N db mh p (fe_ID entry)"
  shows "entries_ok N J db'" "entry \<in> set (getChildrenEntries N J db' mh parent)"
    "KeyExistsInDb N db' h p c \<longleftrightarrow> KeyExistsInDb N db h p c \<or> (h, p, c) = (mh, parent, fe_ID entry)"
proof -
  have put: "put_folder N J mh parent entry db = Ok db'"
    using nested_spec.update_Ok [OF assms(1)] assms(6) by (simp add: addFolder_def)
  then obtain v where v: "marshal J entry = Inr v" and
    get: "\<forall>q k. nb_get N db' q k = (if q = [folders_root, mh, parent] \<and> k = fe_ID entry then Some v
       else if q = [parents_root, mh] \<and> k = fe_ID entry then Some parent else nb_get N db q k)"
    by (rule nested_spec.put_folder_effect [OF assms(1) _ assms(4,7)])
  have dec: "unmarshal J v = (entry, None)" by (rule json_spec.marshal_valid [OF assms(2,3) v])
  note l = nested_spec.put_folder_layout [OF assms(1) put assms(4)]
  note key = nested_spec.KeyExistsInDb_get [OF assms(1,4)] nested_spec.KeyExistsInDb_get [OF assms(1) l]
  have fresh: "p \<noteq> parent \<Longrightarrow> nb_get N db [folders_root, mh, p] (fe_ID entry) = None" for p using assms(8) by (simp add: key)
  show "entries_ok N J db'" using assms(5) fresh by (auto simp: entries_ok_def get dec)
  show "entry \<in> set (getChildrenEntries N J db' mh parent)"
    unfolding nested_spec.getChildrenEntries_set [OF assms(1) l]
    by (intro CollectI exI [of _ "fe_ID entry"] exI [of _ v]) (simp add: get dec)
  show "KeyExistsInDb N db' h p c \<longleftrightarrow> KeyExistsInDb N db h p c \<or> (h, p, c) = (mh, parent, fe_ID entry)"
    by (auto simp: key get)
qed

text \<open>
  The files of a folder. After the metadata and the bulk files of a folder are stored, exactly these
  files are to be checked, in this order, under their paths and with their hash sums, and the files
  of other folders are as before.
\<close>

theorem files_to_check:
  assumes "nested_spec N" "json_spec F valid" "valid ms" "valid bs" "db_layout N db"
    and "addMetadataFiles N F mh x ms db = (Ok (), db1)" "addBulkFiles N F mh x bs db1 = (Ok (), db2)"
  shows "getFilesToCheck N F db2 mh x =
      map (\<lambda>f. \<lparr>fc_path = getFilePath mh x (fl_Name f), sha256 = fl_HashSum f\<rparr>) (ms @ bs)"
    and "(h, y) \<noteq> (mh, x) \<Longrightarrow> getFilesToCheck N F db2 h y = getFilesToCheck N F db h y"
proof -
  have put: "putFileEntries N F metadata_root mh x ms db = Ok db1" "putFileEntries N F bulk_root mh x bs db1 = Ok db2"
    using nested_spec.update_Ok [OF assms(1)] assms(6,7) by (simp_all add: addMetadataFiles_def addBulkFiles_def)
  obtain v where v: "marshal F ms = Inr v"
      "\<forall>q k. nb_get N db1 q k = (if q = [metadata_root, mh] \<and> k = x then Some v else nb_get N db q k)"
    by (rule nested_spec.put_files_effect [OF assms(1) put(1)])
  obtain w where w: "marshal F bs = Inr w"
      "\<forall>q k. nb_get N db2 q k = (if q = [bulk_root, mh] \<and> k = x then Some w else nb_get N db1 q k)"
    by (rule nested_spec.put_files_effect [OF assms(1) put(2)])
  have l1: "db_layout N db1" using nested_spec.putFileEntries_layout [OF assms(1) put(1) _ assms(5)] by simp
  have l2: "db_layout N db2" using nested_spec.putFileEntries_layout [OF assms(1) put(2) _ l1] by simp
  note defs = getFilesToCheck_def getMetadataFileEntries_def getBulkFileEntries_def
    nested_spec.getFileEntries_get [OF assms(1) l2] nested_spec.getFileEntries_get [OF assms(1,5)]
  show "getFilesToCheck N F db2 mh x = map (\<lambda>f. \<lparr>fc_path = getFilePath mh x (fl_Name f), sha256 = fl_HashSum f\<rparr>) (ms @ bs)"
    using json_spec.marshal_valid [OF assms(2,3) v(1)] json_spec.marshal_valid [OF assms(2,4) w(1)] by (simp add: defs v(2) w(2))
  show "getFilesToCheck N F db2 h y = getFilesToCheck N F db h y" if "(h, y) \<noteq> (mh, x)" using that by (auto simp: defs v(2) w(2))
qed

text \<open>
  C14: Erasing a folder. In a database whose folders form a forest, the erasure of a folder of a house, given
  enough stack for its depth, does not fail by itself, and leaves exactly this: of the values, the files of the folder
  and of all folders below it are gone, so are the entries in their buckets, and the entry of the folder in its
  parent; every other value of every house is as before, the records of the parents of the erased folders
  included. Of the buckets, those of the folder and of all folders below it are gone, no other is removed, and none is
  new but those of the house itself. So there are no files to check for the erased folders, and the children of all
  others are as before but for the erased folder itself. The transaction either has this effect or none.
\<close>

theorem erase_folder_subtree:
  fixes N :: "'db nested_bolt" and d :: "string \<Rightarrow> nat"
  assumes "nested_spec N" "db_layout N db" "entries_ok N J db" "key_ok mh"
    and "\<forall>p c. KeyExistsInDb N db mh p c \<longrightarrow> d c < d p" "d x < fuel" "KeyExistsInDb N db mh p x"
  defines "below \<equiv> {(p, c). KeyExistsInDb N db mh p c}\<^sup>* `` {x}"
  shows "\<exists>db'. doErase N J db fuel x mh db = Ok db' \<and>
      (eraseFolder N J fuel x mh db = (Ok (), db') \<or> (\<exists>e. eraseFolder N J fuel x mh db = (Err e, db))) \<and>
      (\<forall>q k. nb_get N db' q k =
        (if q \<in> {[''metadataFiles'', mh], [''bulkFiles'', mh]} \<and> k \<in> below \<or> (\<exists>y \<in> below. q = [''folderStructure'', mh, y]) \<or>
            q = [''folderStructure'', mh, p] \<and> k = x then None
         else nb_get N db q k)) \<and>
      (\<forall>y \<in> below. \<not> nb_bucket N db' [''folderStructure'', mh, y]) \<and>
      (\<forall>q. nb_bucket N db q \<longrightarrow> nb_bucket N db' q \<or> (\<exists>y \<in> below. q = [''folderStructure'', mh, y])) \<and>
      (\<forall>q. nb_bucket N db' q \<longrightarrow> nb_bucket N db q \<or>
        (\<exists>r \<in> {''metadataFiles'', ''bulkFiles'', ''childToParent'', ''folderStructure''}. q = [r] \<or> q = [r, mh])) \<and>
      (\<forall>h y. getFilesToCheck N F db' h y = (if h = mh \<and> y \<in> below then [] else getFilesToCheck N F db h y)) \<and>
      (\<forall>h q c. KeyExistsInDb N db' h q c \<longleftrightarrow> KeyExistsInDb N db h q c \<and> \<not> (h = mh \<and> (q \<in> below \<or> (q, c) = (p, x))))"
proof -
  obtain db' where e: "doErase N J db fuel x mh db = Ok db'" and l: "db_layout N db'"
      and del: "nested_spec.erased N mh below below {(p, x)} db db'"
    using nested_spec.eraseFolder_effect [OF assms(1-7)] unfolding below_def by blast
  note del = del [unfolded nested_spec.erased_def [OF assms(1)]]
  have get: "nb_get N db' q k = (if gone mh below below {(p, x)} q k then None else nb_get N db q k)" for q k
    using del by blast
  note defs = getFilesToCheck_def getMetadataFileEntries_def getBulkFileEntries_def
    nested_spec.getFileEntries_get [OF assms(1) l] nested_spec.getFileEntries_get [OF assms(1,2)]
  have gone: "gone mh below below {(p, x)} q k \<longleftrightarrow> q \<in> {[metadata_root, mh], [bulk_root, mh]} \<and> k \<in> below \<or>
      (\<exists>y \<in> below. q = [folders_root, mh, y]) \<or> q = [folders_root, mh, p] \<and> k = x" for q k
    by (auto simp: gone_def)
  have "\<forall>y \<in> below. \<not> nb_bucket N db' [folders_root, mh, y]" using del by (auto simp: houses_def)
  moreover have "nb_bucket N db q \<Longrightarrow> nb_bucket N db' q \<or> (\<exists>y \<in> below. q = [folders_root, mh, y])" for q using del by blast
  moreover have "nb_bucket N db' q \<Longrightarrow> nb_bucket N db q \<or>
      (\<exists>r \<in> {metadata_root, bulk_root, parents_root, folders_root}. q = [r] \<or> q = [r, mh])" for q
    using del by (auto simp: houses_def roots_def)
  moreover have "getFilesToCheck N F db' h y = (if h = mh \<and> y \<in> below then [] else getFilesToCheck N F db h y)" for h y
    by (simp add: defs get gone_def)
  moreover have "KeyExistsInDb N db' h q c \<longleftrightarrow> KeyExistsInDb N db h q c \<and> \<not> (h = mh \<and> (q \<in> below \<or> (q, c) = (p, x)))" for h q c
    by (auto simp: nested_spec.KeyExistsInDb_get [OF assms(1) l] nested_spec.KeyExistsInDb_get [OF assms(1,2)] get gone_def)
  moreover have "eraseFolder N J fuel x mh db = (Ok (), db') \<or> (\<exists>e. eraseFolder N J fuel x mh db = (Err e, db))"
    using nested_spec.update_commit [OF assms(1), of "doErase N J db fuel x mh" db db'] e unfolding eraseFolder_def by blast
  moreover note e get [unfolded gone]
  ultimately show ?thesis unfolding root_names by blast
qed

text \<open>A folder \<^verbatim>\<open>A\<close> with a metadata file and a folder \<^verbatim>\<open>B\<close> in it.\<close>

definition demo_db :: mem_nested where
  "demo_db = [([folders_root], []), ([folders_root, ''h''], []), ([folders_root, ''h'', ''root''], [(''A'', ''A'')]),
     ([folders_root, ''h'', ''A''], [(''B'', ''B'')]), ([parents_root], []), ([parents_root, ''h''], [(''A'', ''root''), (''B'', ''A'')]),
     ([metadata_root], []), ([metadata_root, ''h''], [(''B'', enc_fields [''m.xml'', ''0f''])])]"

definition id_codec :: "FolderStructureEntry codec" where
  "id_codec = \<lparr>marshal = \<lambda>e. Inr (fe_ID e),
     unmarshal = \<lambda>b. (\<lparr>fe_ID = b, HasChildren = False, InfoMetadataFileName = [], fe_Size = 0, MetadataFiles = []\<rparr>, None)\<rparr>"

lemma demo_db_ok: "db_layout mem_nested demo_db" "entries_ok mem_nested id_codec demo_db"
  by (auto simp: db_layout_def entries_ok_def mn_get_def demo_db_def id_codec_def split: if_splits option.splits)

lemma demo_db_keys: "KeyExistsInDb mem_nested demo_db ''h'' p c \<longleftrightarrow> (p, c) \<in> {(''root'', ''A''), (''A'', ''B'')}"
  unfolding mem_db.KeyExistsInDb_get [OF demo_db_ok(1)] by (auto simp: mn_get_def demo_db_def split: if_splits)

theorem erase_folder_subtree_witness:
  "\<exists>db'. eraseFolder mem_nested id_codec 2 ''A'' ''h'' demo_db = (Ok (), db') \<and>
     getFilesToCheck mem_nested files_codec demo_db ''h'' ''B'' \<noteq> [] \<and> getFilesToCheck mem_nested files_codec db' ''h'' ''B'' = []"
proof -
  let ?below = "{(p, c). KeyExistsInDb mem_nested demo_db ''h'' p c}\<^sup>* `` {''A''}"
  have "\<forall>p c. KeyExistsInDb mem_nested demo_db ''h'' p c \<longrightarrow>
      (if c = ''A'' then 1 else if c = ''root'' then 2 else 0) < (if p = ''A'' then 1 else if p = ''root'' then 2 else (0 :: nat))"
    by (auto simp: demo_db_keys)
  from erase_folder_subtree [OF mem_db.nested_spec_axioms demo_db_ok _ this, where x = "''A''" and p = "''root''" and fuel = 2 and F = files_codec]
  obtain db' where e: "doErase mem_nested id_codec demo_db 2 ''A'' ''h'' demo_db = Ok db'"
      "getFilesToCheck mem_nested files_codec db' ''h'' ''B'' = (if ''B'' \<in> ?below then [] else getFilesToCheck mem_nested files_codec demo_db ''h'' ''B'')"
    by (auto simp: demo_db_keys key_ok_def max_key_def)
  have "''B'' \<in> ?below" by (auto simp: demo_db_keys)
  moreover have "getFilesToCheck mem_nested files_codec demo_db ''h'' ''B'' \<noteq> []"
    by (simp add: getFilesToCheck_def getMetadataFileEntries_def mem_db.getFileEntries_get [OF demo_db_ok(1)])
       (simp add: mn_get_def demo_db_def files_codec_def dec_enc_fields del: enc_fields.simps)
  ultimately show ?thesis using e by (simp add: eraseFolder_def mn_update_def)
qed

text \<open>The test data keeps the shape of the database too.\<close>

lemma setup_layout:
  assumes "nested_spec N" "db_layout N db" "setupDbForTesting N F db = Ok db'"
  shows "db_layout N db'"
proof -
  have step: "db_layout N d'" if "db_layout N d" "test_call N F c d = Ok d'" for c d d'
  proof -
    obtain bulk i fs where c: "c = (bulk, i, fs)" by (metis prod_cases3)
    obtain r d1 where 1: "(if bulk then addBulkFiles else addMetadataFiles) N F ''MSR'' i fs d = (r, d1)" by fastforce
    have d1: "d1 = snd ((if bulk then addBulkFiles else addMetadataFiles) N F ''MSR'' i fs d)" by (simp only: 1 snd_conv)
    note layout = nested_spec.operations_layout(2,3) [OF assms(1) that(1)]
    have "db_layout N d1" unfolding d1 by (cases bulk) (simp_all only: if_True if_False layout)
    with that(2) 1 show ?thesis unfolding c test_call_def by (cases r) simp_all
  qed
  have "fold_res (test_call N F) cs d = Ok d' \<Longrightarrow> db_layout N d \<Longrightarrow> db_layout N d'" for cs d d'
  proof (induction cs arbitrary: d)
    case (Cons c cs)
    obtain d1 where "test_call N F c d = Ok d1" using Cons.prems(1) by (cases "test_call N F c d") simp_all
    with Cons step [OF Cons.prems(2)] show ?case by simp
  qed simp
  from this [OF assms(3) [unfolded setupDbForTesting_def] assms(2)] show ?thesis .
qed

end
