(* ===== verification/Device_Telemetry.thy ===== *)
theory Device_Telemetry
  imports Cloud_Batches "HOL-Library.Word" "HOL-Library.Signed_Division"
begin

text \<open>
  The periodic messages about the device (\<^verbatim>\<open>telemetry_events.go\<close>, lines 20 to 58), the size of the disk
  and the progress of a download (\<^verbatim>\<open>utils.go\<close>), the opening of the logger (\<^verbatim>\<open>logger.go\<close>) and the
  generator of test messages (\<^verbatim>\<open>mockUpstreamMsgs.go\<close>). Floating-point numbers are their 64 bits; the
  operations on them are those of the processor, fields of the parameter \<open>float_ops\<close>.
\<close>

section \<open>The disk\<close>

record float_ops =
  fl_of_uint :: "64 word \<Rightarrow> float64" \<comment> \<open>\<^verbatim>\<open>float64(x)\<close> of a \<^verbatim>\<open>uint64\<close>\<close>
  fl_of_int :: "int \<Rightarrow> float64" \<comment> \<open>an integer constant or \<^verbatim>\<open>float64(x)\<close> of an \<^verbatim>\<open>int64\<close>\<close>
  fl_add :: "float64 \<Rightarrow> float64 \<Rightarrow> float64"
  fl_mul :: "float64 \<Rightarrow> float64 \<Rightarrow> float64"
  fl_div :: "float64 \<Rightarrow> float64 \<Rightarrow> float64"
  fl_Round :: "float64 \<Rightarrow> float64" \<comment> \<open>\<^verbatim>\<open>math.Round\<close>\<close>

definition KB :: int where "KB = 1024"
definition MB :: int where "MB = 1024 * KB"

record Statfs =
  Blocks :: "64 word"
  Bavail :: "64 word"
  Bsize :: "64 word" \<comment> \<open>an \<^verbatim>\<open>int64\<close>; its conversion to \<^verbatim>\<open>uint64\<close> keeps the bits\<close>

record DiskStatus =
  Total :: "64 word"
  Avail :: "64 word"

definition DiskUsage :: "(string \<Rightarrow> error + Statfs) \<Rightarrow> string \<Rightarrow> DiskStatus \<times> error option" where
  "DiskUsage statfs path =
     (case statfs path of
        Inl err \<Rightarrow> (\<lparr>Total = 0, Avail = 0\<rparr>, Some err)
      | Inr s \<Rightarrow> (\<lparr>Total = Blocks s * Bsize s, Avail = Bavail s * Bsize s\<rparr>, None))"

text \<open>The floats available and total in megabytes; the zero constants are the zero bits.\<close>

definition getDiskInfo :: "float_ops \<Rightarrow> (string \<Rightarrow> error + Statfs) \<Rightarrow> string \<Rightarrow> float64 \<times> float64 \<times> error option" where
  "getDiskInfo fo statfs directory =
     (case DiskUsage statfs directory of
        (_, Some err) \<Rightarrow> (0, 0, Some err)
      | (disk, None) \<Rightarrow>
          (fl_div fo (fl_of_uint fo (Avail disk)) (fl_of_int fo MB), fl_div fo (fl_of_uint fo (Total disk)) (fl_of_int fo MB), None))"

text \<open>
  The walk over a directory: \<open>visits\<close> are the calls of its function, a size or an error each. The first
  error ends the walk; what was added until then is the result all the same.
\<close>

fun walk_size :: "float_ops \<Rightarrow> (error + int) list \<Rightarrow> float64 \<Rightarrow> float64" where
  "walk_size fo [] acc = acc"
| "walk_size fo (Inl err # visits) acc = acc"
| "walk_size fo (Inr n # visits) acc = walk_size fo visits (fl_add fo acc (fl_of_int fo n))"

definition getDirSizeinMB :: "float_ops \<Rightarrow> (string \<Rightarrow> (error + int) list) \<Rightarrow> string \<Rightarrow> float64" where
  "getDirSizeinMB fo walk path = fl_div fo (walk_size fo (walk path) 0) (fl_of_int fo MB)"

section \<open>The periodic messages\<close>

definition say :: "'db capi \<Rightarrow> string \<Rightarrow> MessageSubType \<Rightarrow> 'db capi_state \<Rightarrow> 'db capi_state" where
  "say E ev sm st = snd (log_msg E ev sm st)"

definition liveness :: "'db capi \<Rightarrow> 'db capi_state \<Rightarrow> 'db capi_state" where
  "liveness E = say E ''Liveness'' (zero_MessageSubType\<lparr>StringMessage := ''ALIVE''\<rparr>)"

definition livenessNumeric :: "'db capi \<Rightarrow> 'db capi_state \<Rightarrow> 'db capi_state" where
  "livenessNumeric E = say E LivenessNumeric (zero_MessageSubType\<lparr>Integer := 1\<rparr>)"

definition two_digits :: "float_ops \<Rightarrow> float64 \<Rightarrow> float64" where
  "two_digits fo x = fl_div fo (fl_Round fo (fl_mul fo x (fl_of_int fo 100))) (fl_of_int fo 100)"

definition storageInfo ::
    "'db capi \<Rightarrow> float_ops \<Rightarrow> (string \<Rightarrow> error + Statfs) \<Rightarrow> string \<Rightarrow> 'db capi_state \<Rightarrow> 'db capi_state" where
  "storageInfo E fo statfs dirpath st =
     (case getDiskInfo fo statfs dirpath of
        (_, _, Some err) \<Rightarrow> st
      | (avail, tot, None) \<Rightarrow>
          let st = say E HubStorageAvailable (zero_MessageSubType\<lparr>FloatValue := two_digits fo avail\<rparr>) st
          in say E TotalStorage (zero_MessageSubType\<lparr>FloatValue := two_digits fo tot\<rparr>) st)"

text \<open>One iteration of the endless loop of \<^verbatim>\<open>telemetryScheduler\<close>.\<close>

definition telemetryScheduler_pass ::
    "'db capi \<Rightarrow> float_ops \<Rightarrow> (string \<Rightarrow> error + Statfs) \<Rightarrow> string \<Rightarrow> 'db capi_state \<Rightarrow> 'db capi_state" where
  "telemetryScheduler_pass E fo statfs dirpath st = storageInfo E fo statfs dirpath (livenessNumeric E (liveness E st))"

text \<open>One iteration of the generator of test messages; \<open>r\<close> is the random number.\<close>

definition mock_hubstorageandmemory_pass :: "'db capi \<Rightarrow> float_ops \<Rightarrow> float64 \<Rightarrow> 'db capi_state \<Rightarrow> 'db capi_state" where
  "mock_hubstorageandmemory_pass E fo r =
     say E ''HubStorage'' (zero_MessageSubType\<lparr>FloatValue := fl_add fo (fl_of_int fo 20) (fl_mul fo r (fl_of_int fo (500 - 20)))\<rparr>)"

section \<open>The progress of a download\<close>

text \<open>Both counters are of type \<^verbatim>\<open>int64\<close>.\<close>

record ProgressWriter =
  Counter :: "64 word"
  pw_Total :: "64 word"

definition progress_text :: "(int \<Rightarrow> string) \<Rightarrow> ProgressWriter \<Rightarrow> string" where
  "progress_text show_int pw =
     CHR 13 # replicate 50 CHR '' '' @ [CHR 13] @ '' Downloaded: '' @ show_int (sint (Counter pw) sdiv 1024 sdiv 1024) @
     '' MB of '' @ show_int (sint (pw_Total pw)) @ '' MB''"

text \<open>\<open>printed\<close> is the standard output.\<close>

definition ProgressWriter_Write ::
    "(int \<Rightarrow> string) \<Rightarrow> bytes \<Rightarrow> ProgressWriter \<times> string \<Rightarrow> (nat \<times> error option) \<times> ProgressWriter \<times> string" where
  "ProgressWriter_Write show_int b = (\<lambda>(pw, printed).
     let written = length b;
         pw = pw\<lparr>Counter := Counter pw + of_nat written\<rparr>
     in ((written, None), pw, printed @ progress_text show_int pw))"

section \<open>Opening the logger\<close>

text \<open>
  A log file that cannot be opened ends the program, \<open>None\<close> here. \<^verbatim>\<open>bufio.NewWriterSize\<close> takes 4096 bytes
  when the size given is not positive. \<open>opened\<close> is the content of the file, which is appended to.
\<close>

definition MakeLogger ::
    "string \<Rightarrow> error + string \<Rightarrow> int \<Rightarrow> string \<Rightarrow> string \<Rightarrow> (Logger \<times> log_state) option" where
  "MakeLogger device opened buffer name version =
     (case opened of
        Inl err \<Rightarrow> None
      | Inr content \<Rightarrow>
          Some (\<lparr>deviceId = device, applicationName = name, applicationVersion = version,
                 bufferSize = (if buffer \<le> 0 then 4096 else nat buffer)\<rparr>,
                \<lparr>log_calls = [], upstream = [], log_file = content, log_buffer = [], old_calls = 0\<rparr>))"

text \<open>\<^verbatim>\<open>Close\<close> flushes the buffer; the errors of the calls are dropped.\<close>

definition Close :: "log_state \<Rightarrow> log_state" where
  "Close st = st\<lparr>log_file := log_file st @ log_buffer st, log_buffer := []\<rparr>"

section \<open>Properties\<close>

lemma DiskUsage_mod:
  assumes "statfs p = Inr s"
  shows "unat (Total (fst (DiskUsage statfs p))) = (unat (Blocks s) * unat (Bsize s)) mod 2 ^ 64"
    and "unat (Avail (fst (DiskUsage statfs p))) = (unat (Bavail s) * unat (Bsize s)) mod 2 ^ 64"
  using assms by (simp_all add: DiskUsage_def unat_word_ariths)

text \<open>
  The size of the disk. As long as its size in bytes is below 2 to the 64, the numbers reported are
  exactly the blocks times the block size, and what is available is not more than the total.
\<close>

theorem disk_usage_exact:
  assumes "statfs p = Inr s" "unat (Blocks s) * unat (Bsize s) < 2 ^ 64" "Bavail s \<le> Blocks s"
  shows "unat (Total (fst (DiskUsage statfs p))) = unat (Blocks s) * unat (Bsize s) \<and>
    unat (Avail (fst (DiskUsage statfs p))) = unat (Bavail s) * unat (Bsize s) \<and>
    Avail (fst (DiskUsage statfs p)) \<le> Total (fst (DiskUsage statfs p))"
proof -
  have le: "unat (Bavail s) * unat (Bsize s) \<le> unat (Blocks s) * unat (Bsize s)"
    using assms(3) by (intro mult_le_mono1) (simp add: word_le_nat_alt)
  note mod_eq = DiskUsage_mod [of statfs p s, OF assms(1)]
  have t: "unat (Total (fst (DiskUsage statfs p))) = unat (Blocks s) * unat (Bsize s)"
    unfolding mod_eq(1) by (rule mod_less [OF assms(2)])
  have a: "unat (Avail (fst (DiskUsage statfs p))) = unat (Bavail s) * unat (Bsize s)"
    unfolding mod_eq(2) by (rule mod_less [OF le_less_trans [OF le assms(2)]])
  show ?thesis unfolding word_le_nat_alt using t a le by simp
qed

theorem disk_usage_exact_witness:
  "unat (Avail (fst (DiskUsage (\<lambda>_. Inr \<lparr>Blocks = 10, Bavail = 3, Bsize = 4096\<rparr>) ''/''))) = 12288"
  using disk_usage_exact [of "\<lambda>_. Inr \<lparr>Blocks = 10, Bavail = 3, Bsize = 4096\<rparr>" "''/''"] by simp

text \<open>What a pass logs, whatever the network does with it.\<close>

lemma say_trace: "\<exists>ok. log_calls (ca_logst (say E ev sm st)) = log_calls (ca_logst st) @ [(ev, sm, ok)]"
  using Log_trace [of "ca_logger E" "ca_log E" ev sm "ca_logst st"] by (auto simp: say_def log_msg_def split: prod.split)

lemma say_fs [simp]: "ca_fs (say E ev sm st) = ca_fs st"
  by (simp add: say_def log_msg_def split: prod.split)

lemma telemetryScheduler_fs [simp]: "ca_fs (telemetryScheduler_pass E fo statfs p st) = ca_fs st"
  by (simp add: telemetryScheduler_pass_def storageInfo_def livenessNumeric_def liveness_def Let_def split: prod.split option.split)

text \<open>
  C32: The heartbeat. Every pass of the scheduler makes exactly these calls of the logger, in this order,
  whatever the network does with them: the text \<open>ALIVE\<close> as liveness, the number 1 as numeric liveness and,
  when the file system can be examined, the space available and the total space, each the number of blocks
  times the block size (as 64-bit words) in megabytes, rounded to two digits. An error there leaves the first two.
\<close>

theorem heartbeat:
  fixes st :: "'db capi_state" and E fo statfs p
  defines "pass \<equiv> telemetryScheduler_pass E fo statfs p"
  defines "megabytes \<equiv> \<lambda>bytes. fl_div fo (fl_of_uint fo bytes) (fl_of_int fo 1048576)"
  defines "rounded \<equiv> \<lambda>x. fl_div fo (fl_Round fo (fl_mul fo x (fl_of_int fo 100))) (fl_of_int fo 100)"
  defines "payload \<equiv> \<lambda>txt f i. \<lparr>StringMessage = txt, FloatValue = f, Integer = i, sub_ContentsInfo = \<lparr>NumberOfContents = 0, ContentProperties_text = []\<rparr>,
      sub_TelemetryCommandData = \<lparr>CommandName = ContentDownloaded, CommandData = [], IsAssetMap = False\<rparr>\<rparr>"
  shows "\<exists>new. log_calls (ca_logst (pass st)) = log_calls (ca_logst st) @ new \<and>
    map (\<lambda>(event, sm, accepted). (event, sm)) new = [(''Liveness'', payload ''ALIVE'' 0 0), (''LivenessNumeric'', payload [] 0 1)] @
      (case statfs p of Inl _ \<Rightarrow> []
       | Inr s \<Rightarrow> [(''HubStorageAvailable'', payload [] (rounded (megabytes (Bavail s * Bsize s))) 0),
           (''TotalStorage'', payload [] (rounded (megabytes (Blocks s * Bsize s))) 0)])"
proof -
  let ?s1 = "liveness E st" and ?s2 = "livenessNumeric E (liveness E st)"
  have payload: "zero_MessageSubType\<lparr>StringMessage := ''ALIVE''\<rparr> = payload ''ALIVE'' 0 0"
    "zero_MessageSubType\<lparr>Integer := 1\<rparr> = payload [] 0 1" "zero_MessageSubType\<lparr>FloatValue := f\<rparr> = payload [] f 0" for f
    by (simp_all add: payload_def zero_MessageSubType_def zero_ContentsInfo_def zero_TelemetryCommandData_def)
  have mega: "two_digits fo (fl_div fo (fl_of_uint fo x) (fl_of_int fo MB)) = rounded (megabytes x)" for x
    by (simp add: two_digits_def rounded_def megabytes_def MB_def KB_def)
  obtain a b where 1: "log_calls (ca_logst ?s2) = log_calls (ca_logst st) @
      [(''Liveness'', payload ''ALIVE'' 0 0, a), (''LivenessNumeric'', payload [] 0 1, b)]"
    using say_trace [of E "''Liveness''" "payload ''ALIVE'' 0 0" st] say_trace [of E LivenessNumeric "payload [] 0 1" ?s1]
    by (auto simp: liveness_def livenessNumeric_def payload)
  show ?thesis
  proof (cases "statfs p")
    case (Inl err)
    then show ?thesis
      by (simp add: pass_def telemetryScheduler_pass_def storageInfo_def getDiskInfo_def DiskUsage_def 1)
  next
    case (Inr s)
    let ?f = "\<lambda>x. payload [] (rounded (megabytes (x * Bsize s))) 0"
    let ?s3 = "say E HubStorageAvailable (?f (Bavail s)) ?s2"
    obtain c d where "log_calls (ca_logst (say E TotalStorage (?f (Blocks s)) ?s3)) =
        log_calls (ca_logst ?s2) @ [(''HubStorageAvailable'', ?f (Bavail s), c), (''TotalStorage'', ?f (Blocks s), d)]"
      using say_trace [of E HubStorageAvailable "?f (Bavail s)" ?s2] say_trace [of E TotalStorage "?f (Blocks s)" ?s3] by auto
    moreover have "pass st = say E TotalStorage (?f (Blocks s)) ?s3"
      by (simp add: pass_def telemetryScheduler_pass_def storageInfo_def getDiskInfo_def DiskUsage_def Inr payload mega)
    ultimately show ?thesis by (simp add: 1 Inr)
  qed
qed

text \<open>
  The progress of a download counts every byte: after a sequence of writes the counter has grown by the
  bytes written, modulo 2 to the 64.
\<close>

theorem progress_counts:
  "Counter (fst (foldl (\<lambda>s b. snd (ProgressWriter_Write show_int b s)) s bs)) = Counter (fst s) + of_nat (length (concat bs))"
  by (induction bs arbitrary: s) (simp_all add: ProgressWriter_Write_def Let_def case_prod_beta)

text \<open>The test messages carry an event type the logger does not know: none of them is ever sent.\<close>

theorem mock_messages_rejected: "upstream (ca_logst (mock_hubstorageandmemory_pass E fo r st)) = upstream (ca_logst st)"
  by (simp add: mock_hubstorageandmemory_pass_def say_def log_msg_def Log_def isValid_def note_call_def)

text \<open>
  A log file from its opening to its closing: nothing written before is lost, and after the lines of
  the old log calls and the closing the file is exactly what it was with these lines added.
\<close>

theorem log_file_complete:
  assumes "MakeLogger device (Inr content) buffer name version = Some (l, st)"
  shows "log_file (Close (foldl (\<lambda>st (ty, sub, body). Log_old l E ty sub body st) st calls)) =
    content @ concat (map (\<lambda>(n, ty, sub, body). old_line l E n ty sub body @ [CHR 10]) (enumerate 0 calls))"
proof -
  have "log_file (Close (foldl (\<lambda>st (ty, sub, body). Log_old l E ty sub body st) st calls)) =
      log_file st @ log_buffer st @
      concat (map (\<lambda>(n, ty, sub, body). old_line l E n ty sub body @ [CHR 10]) (enumerate (old_calls st) calls))" for st
  proof (induction calls arbitrary: st)
    case (Cons c calls)
    obtain ty sub body where c: "c = (ty, sub, body)" by (cases c)
    let ?st = "Log_old l E ty sub body st"
    have "old_calls ?st = Suc (old_calls st)" by (simp add: Log_old_def Let_def)
    moreover have "log_file ?st @ log_buffer ?st = log_file st @ log_buffer st @ old_line l E (old_calls st) ty sub body @ [CHR 10]"
      by (simp add: Log_old_def Let_def buf_write_stream)
    ultimately show ?case using Cons.IH [of ?st] by (simp add: c)
  qed (simp add: Close_def)
  then show ?thesis using assms by (auto simp: MakeLogger_def)
qed

theorem log_file_complete_witness:
  "\<exists>l st. MakeLogger ''d'' (Inr ''old '') 9 ''a'' ''1'' = Some (l, st) \<and>
     log_file (Close (Log_old l (mem_log_env (\<lambda>_. None)) ''Info'' ''x'' [] st)) = ''old o'' @ [CHR 10]"
proof -
  obtain l st where l: "MakeLogger ''d'' (Inr ''old '') 9 ''a'' ''1'' = Some (l, st)" by (simp add: MakeLogger_def)
  from log_file_complete [OF l, of "mem_log_env (\<lambda>_. None)" "[(''Info'', ''x'', [])]"] l show ?thesis
    by (simp add: old_line_def mem_log_env_def)
qed

end
