(* ===== verification/Hub_Run.thy ===== *)
theory Hub_Run
  imports Sync_Properties Asset_Map Hub_Start Device_Telemetry
begin

text \<open>
  The hub as a whole: its start-up (\<^verbatim>\<open>hub.go\<close>) and the activities it starts, which share the content
  index, the logger and the ini file. A state of the hub is what they share; a step is one pass of one
  of the endless loops, one command, or the request for the provisioning of the device. A run is any
  sequence of such steps, so the activities come in any order and number; the interleaving is that of
  whole passes, the code of a pass is not interrupted.
\<close>

section \<open>Settings\<close>

text \<open>
  Lines 256 to 297: a setting that is missing or is no integer is replaced by a default. \<open>ini\<close> is what
  \<^verbatim>\<open>cfg.Section("BLENDNET").Key(name).Int()\<close> returns.
\<close>

record hub_settings =
  handle_interval :: int
  downloadBatchMessageSize :: int
  deleteBatchMessageSize :: int
  assetmapMessageSize :: int
  sleepInterval :: int

definition int_setting :: "(string \<Rightarrow> error + int) \<Rightarrow> string \<Rightarrow> int \<Rightarrow> int" where
  "int_setting ini name otherwise = (case ini name of Inl err \<Rightarrow> otherwise | Inr n \<Rightarrow> n)"

definition start_settings :: "(string \<Rightarrow> error + int) \<Rightarrow> hub_settings" where
  "start_settings ini =
     \<lparr>handle_interval = int_setting ini ''HANDLE_INTERVAL'' 10,
      downloadBatchMessageSize = int_setting ini ''DOWNLOAD_TELEMETRY_MESSAGE_SIZE'' 10,
      deleteBatchMessageSize = int_setting ini ''DELETE_TELEMETRY_MESSAGE_SIZE'' 10,
      assetmapMessageSize = int_setting ini ''ASSETMAP_MESSAGE_SIZE'' 25,
      sleepInterval = int_setting ini ''ASSETMAP_SLEEP_INTERVAL'' 60\<rparr>"

section \<open>The state and the environment\<close>

record 'db hub_state =
  hs_capi :: "'db capi_state"
  hs_http :: nat
  hs_clock :: nat
  hs_filters_key :: string
  hs_filters_file :: string
  hs_timestamp_key :: string
  hs_timestamp_file :: string

record 'db hub_env =
  hv_sat :: "'db sat_env"
  hv_cmd :: "'db cmd_env"
  hv_settings :: hub_settings
  hv_containerStorage :: string
  hv_deviceStorage :: string
  hv_parseInt :: "string \<Rightarrow> int option"
  hv_formatInt :: "int \<Rightarrow> string"
  hv_float :: float_ops

text \<open>All activities use one file system object and one logger, those of \<open>hub_capi\<close>.\<close>

abbreviation hub_capi :: "'db hub_env \<Rightarrow> 'db capi" where
  "hub_capi H \<equiv> se_capi (hv_sat H)"

abbreviation hub_bolt :: "'db hub_env \<Rightarrow> 'db bolt" where
  "hub_bolt H \<equiv> ca_bolt (hub_capi H)"

abbreviation hub_fs :: "'db hub_state \<Rightarrow> 'db FileSystem" where
  "hub_fs h \<equiv> ca_fs (hs_capi h)"

definition hub_cmd :: "'db hub_env \<Rightarrow> 'db cmd_env" where
  "hub_cmd H = (hv_cmd H)\<lparr>cm_capi := hub_capi H\<rparr>"

definition sat_of :: "'db hub_state \<Rightarrow> 'db sat_state" where
  "sat_of h = \<lparr>ss_capi = hs_capi h, http_calls = hs_http h, clock_reads = hs_clock h\<rparr>"

definition with_sat :: "'db sat_state \<Rightarrow> 'db hub_state \<Rightarrow> 'db hub_state" where
  "with_sat s h = h\<lparr>hs_capi := ss_capi s, hs_http := http_calls s, hs_clock := clock_reads s\<rparr>"

definition cmd_of :: "'db hub_state \<Rightarrow> 'db cmd_state" where
  "cmd_of h = \<lparr>cs_capi = hs_capi h, cs_http = hs_http h, cs_clock = hs_clock h,
     filters_key = hs_filters_key h, filters_file = hs_filters_file h\<rparr>"

definition with_cmd :: "'db cmd_state \<Rightarrow> 'db hub_state \<Rightarrow> 'db hub_state" where
  "with_cmd s h = h\<lparr>hs_capi := cs_capi s, hs_http := cs_http s, hs_clock := cs_clock s,
     hs_filters_key := filters_key s, hs_filters_file := filters_file s\<rparr>"

definition am_of :: "'db hub_state \<Rightarrow> 'db assetmap_state" where
  "am_of h = \<lparr>timestamp_key = hs_timestamp_key h, saved_key = hs_timestamp_file h, am_capi = hs_capi h\<rparr>"

definition with_am :: "'db assetmap_state \<Rightarrow> 'db hub_state \<Rightarrow> 'db hub_state" where
  "with_am s h = h\<lparr>hs_capi := am_capi s, hs_timestamp_key := timestamp_key s, hs_timestamp_file := saved_key s\<rparr>"

section \<open>Start-up\<close>

text \<open>
  From the opening of the index to the first goroutine (lines 82 to 130): the index, the filters, and
  the listing of the buckets, which panics when one of them is missing.
\<close>

definition start_hub :: "'db hub_env \<Rightarrow> error + 'db \<Rightarrow> string \<Rightarrow> bool \<Rightarrow> 'db hub_state \<Rightarrow> 'db hub_state res" where
  "start_hub H opened home_dir_location initflag h =
     (case start_index (hub_bolt H) (ca_logger (hub_capi H)) (ca_log (hub_capi H)) opened home_dir_location initflag
             (ca_logst (hs_capi h)) of
        (Ok fs, lst) \<Rightarrow>
          bind_res (start_filters (hub_cmd H) (cmd_of (h\<lparr>hs_capi := \<lparr>ca_fs = fs, ca_logst = lst\<rparr>\<rparr>))) (\<lambda>st.
          bind_res (PrintBuckets (hub_bolt H) (ca_fs (cs_capi st))) (\<lambda>_. Ok (with_cmd st h)))
      | (r, _) \<Rightarrow> bind_res r (\<lambda>_. Panic))"

section \<open>Steps\<close>

datatype activity = Poll | Requests | AssetMap | Heartbeat | Provisioning | Command string string

text \<open>
  The orders in which the runtime ranges over Go maps, the time and the state of the disk are chosen
  anew in every step.
\<close>

definition pending_types :: "'db capi \<Rightarrow> 'db FileSystem \<Rightarrow> Type set" where
  "pending_types E fs =
     dom (GetSegregatedItems (map (\<lambda>data. fst (unmarshal (ca_json E) data)) (GetPendingApiRequests (ca_bolt E) fs)))"

inductive hub_step :: "'db hub_env \<Rightarrow> activity \<Rightarrow> 'db hub_state \<Rightarrow> 'db hub_state \<Rightarrow> bool" for H where
  poll: "\<forall>xs. mset (order xs) = mset xs \<Longrightarrow>
    pollMstore_pass (hv_sat H) order (hv_containerStorage H) (hv_deviceStorage H) (sat_of h) = Ok st \<Longrightarrow>
    hub_step H Poll h (with_sat st h)"
| requests: "distinct order \<Longrightarrow> set order = pending_types (hub_capi H) (hub_fs h) \<Longrightarrow>
    HandleApiRequests_pass (hub_capi H) order (downloadBatchMessageSize (hv_settings H))
      (deleteBatchMessageSize (hv_settings H)) (hs_capi h) = Ok st \<Longrightarrow>
    hub_step H Requests h (h\<lparr>hs_capi := st\<rparr>)"
| asset_map: "\<forall>xs. mset (order xs) = mset xs \<Longrightarrow>
    HandleAssetMapRequest_pass (hub_capi H) order (hv_parseInt H) (hv_formatInt H) saved
      (assetmapMessageSize (hv_settings H)) now (am_of h) = Ok st \<Longrightarrow>
    hub_step H AssetMap h (with_am st h)"
| heartbeat: "hub_step H Heartbeat h
    (h\<lparr>hs_capi := telemetryScheduler_pass (hub_capi H) (hv_float H) statfs (hv_containerStorage H) (hs_capi h)\<rparr>)"
| provisioning: "start_provision (hub_capi H) (ca_deviceId (hub_capi H)) now (hub_fs h) = Ok fs \<Longrightarrow>
    hub_step H Provisioning h (h\<lparr>hs_capi := (hs_capi h)\<lparr>ca_fs := fs\<rparr>\<rparr>)"
| command: "snd (ReceiveCommand (hub_cmd H) name payload (cmd_of h)) = Ok st \<Longrightarrow>
    hub_step H (Command name payload) h (with_cmd st h)"

inductive_cases poll_stepE: "hub_step H Poll h h'"

inductive hub_run :: "'db hub_env \<Rightarrow> activity list \<Rightarrow> 'db hub_state \<Rightarrow> 'db hub_state \<Rightarrow> bool" for H where
  run_Nil: "hub_run H [] h h"
| run_snoc: "hub_run H as h h1 \<Longrightarrow> hub_step H a h1 h2 \<Longrightarrow> hub_run H (as @ [a]) h h2"

section \<open>Results with a postcondition\<close>

text \<open>
  \<open>post t P r\<close>: a result that is returned satisfies \<open>P\<close>, and if \<open>t\<close>, a result is returned. With
  \<open>t = False\<close> this is partial, with \<open>t = True\<close> total correctness, by the same rules.
\<close>

definition post :: "bool \<Rightarrow> ('a \<Rightarrow> bool) \<Rightarrow> 'a res \<Rightarrow> bool" where
  "post t P r \<longleftrightarrow> (\<forall>x. r = Ok x \<longrightarrow> P x) \<and> (t \<longrightarrow> is_Ok r)"

lemma post_simps [simp]: "post t P (Ok x) = P x" "post t P Panic = (\<not> t)" "post t P (Err e) = (\<not> t)" "post t P Diverge = (\<not> t)"
  by (auto simp: post_def)

lemma post_bind: "post t P r \<Longrightarrow> (\<And>x. P x \<Longrightarrow> post t Q (f x)) \<Longrightarrow> post t Q (bind_res r f)"
  by (cases r) auto

lemma post_fold: "P s \<Longrightarrow> (\<And>x s. x \<in> set xs \<Longrightarrow> P s \<Longrightarrow> post t P (f x s)) \<Longrightarrow> post t P (fold_res f xs s)"
proof (induction xs arbitrary: s)
  case (Cons x xs)
  then show ?case by (auto intro!: post_bind [of t P])
qed simp

lemma post_weaken: "post t P r \<Longrightarrow> (\<And>x. P x \<Longrightarrow> Q x) \<Longrightarrow> post t Q r"
  by (auto simp: post_def)

section \<open>The handlers of the pending requests keep the index\<close>

text \<open>The store of a batching loop holds the requests it was given, up to flags and counters.\<close>

lemma update_variants:
  assumes "list_all2 variant a0 store" "\<And>d0 d. variant d0 d \<Longrightarrow> variant d0 (f d)"
  shows "list_all2 variant a0 (update_at f is store)"
  using assms(1)
proof (induction "is" arbitrary: store)
  case (Cons i "is")
  have "list_all2 variant a0 (store[i := f (store ! i)])"
    using Cons.prems assms(2) by (cases "i < length store") (auto simp: list_all2_conv_all_nth nth_list_update)
  from Cons.IH [OF this] show ?case by simp
qed simp

lemma store_variants:
  "list_all2 variant a0 store \<Longrightarrow> list_all2 variant a0 (setTelemetryFlag flag v ptrs store)"
  "list_all2 variant a0 store \<Longrightarrow> list_all2 variant a0 (IncrementRetryCount ptrs store)"
  by (auto simp: setTelemetryFlag_def IncrementRetryCount_def variant_def intro!: update_variants)

lemma encodable_data:
  assumes "encodable J a0" "list_all2 variant a0 store" "\<forall>j \<in> set ptrs. j < length a0"
  shows "length (GetDataArray J ptrs store) = length (GetIds ptrs store)"
proof -
  have "\<exists>b. marshal J (store ! j) = Inr b" if "j \<in> set ptrs" for j
    using that assms nth_mem unfolding encodable_def list_all2_conv_all_nth by blast
  then have "\<forall>d \<in> set (map ((!) store) ptrs). \<exists>b. marshal J d = Inr b" by simp
  then show ?thesis by (simp add: GetIds_def GetDataArray_def length_marshal_all)
qed

context cloud_env
begin

text \<open>A state with the index of \<open>fs0\<close>, and with a pending bucket if the result is to be total.\<close>

definition keeps :: "bool \<Rightarrow> 'db FileSystem \<Rightarrow> 'db FileSystem \<Rightarrow> bool" where
  "keeps t fs0 fs \<longleftrightarrow> same_index (ca_bolt E) fs0 fs \<and> (t \<longrightarrow> pending_ready (ca_bolt E) fs)"

lemma keeps_step: "keeps t fs0 fs \<Longrightarrow> same_index (ca_bolt E) fs fs' \<Longrightarrow> keeps t fs0 fs'"
  using same_index_trans by (auto simp: keeps_def pending_ready_def same_index_def)

lemma DeletePending_same: "DeletePendingAPIRequestEntries (ca_bolt E) ks fs = (r, fs') \<Longrightarrow> same_index (ca_bolt E) fs fs'"
  using DeletePending_effect by (auto simp: same_index_def)

lemma AddContents_same: "AddContents (ca_bolt E) ids data fs = (r, fs') \<Longrightarrow> same_index (ca_bolt E) fs fs'"
  using AddContents_effect(1,2) by (auto simp: same_index_def)

lemma pending_put_same:
  assumes "fs_update (ca_bolt E) (\<lambda>db. wrap_err p (bucket_put (ca_bolt E) PendingAPIRequestMapping k v db)) fs = (r, fs')"
  shows "same_index (ca_bolt E) fs fs'"
  using assms
proof (cases rule: fs_update_cases)
  case applied
  then have "bucket_put (ca_bolt E) PendingAPIRequestMapping k v (nodesDB fs) = Ok (nodesDB fs')" by simp
  from bucket_put_Ok(1,2) [OF this] show ?thesis by (auto simp: same_index_def)
qed simp

lemma pending_put_no_panic:
  assumes "fs_update (ca_bolt E) (\<lambda>db. wrap_err p (bucket_put (ca_bolt E) PendingAPIRequestMapping k v db)) fs = (Panic, fs')"
  shows "\<not> pending_ready (ca_bolt E) fs"
  using fs_update_Panic [of "\<lambda>db. wrap_err p (bucket_put (ca_bolt E) PendingAPIRequestMapping k v db)" fs] assms
  by (auto simp: bucket_put_def pending_ready_def split: if_splits)

lemma requeue_keeps:
  assumes "keeps t fs0 (ca_fs st)" and enc: "t \<longrightarrow> encodable (ca_json E) a0"
    and store: "list_all2 variant a0 store" and ptr: "\<forall>j \<in> set ptrs. j < length a0"
  shows "post t (\<lambda>(store', st). keeps t fs0 (ca_fs st) \<and> list_all2 variant a0 store')
    (AddApiDataBackToPendingAPIBucketOrDelete E err ptrs flag store st)"
proof (cases err)
  case None
  let ?store = "setTelemetryFlag flag False ptrs store"
  let ?ks = "GetApiDataToBeRemovedFromPendingAPI ptrs ?store"
  obtain r fs where del: "DeletePendingAPIRequestEntries (ca_bolt E) ?ks (ca_fs st) = (r, fs)" by fastforce
  have "t \<Longrightarrow> r \<noteq> Panic" using command_queue.remove_no_panic [of "ca_fs st" ?ks] assms(1) del by (simp add: keeps_def)
  with keeps_step [OF assms(1) DeletePending_same [OF del]] del None store_variants(1) [OF store] show ?thesis
    by (cases r) (auto simp: AddApiDataBackToPendingAPIBucketOrDelete_def Let_def)
next
  case (Some e)
  let ?s = "IncrementRetryCount ptrs store"
  obtain r fs where add: "AddContents (ca_bolt E) (GetIds ptrs ?s) (GetDataArray (ca_json E) ptrs ?s) (ca_fs st) = (r, fs)" by fastforce
  note variants = store_variants(2) [OF store, of ptrs]
  have "length (GetIds ptrs ?s) \<le> length (GetDataArray (ca_json E) ptrs ?s)" if t
    using encodable_data [OF _ variants ptr] enc that by simp
  then have "t \<Longrightarrow> r \<noteq> Panic" using AddContents_no_panic [of "ca_fs st"] assms(1) add by (metis fst_conv keeps_def)
  with keeps_step [OF assms(1) AddContents_same [OF add]] add Some variants show ?thesis
    by (cases r) (auto simp: AddApiDataBackToPendingAPIBucketOrDelete_def Let_def)
qed

lemma delete_sent_keeps:
  assumes "keeps t fs0 (ca_fs st)"
  shows "post t (\<lambda>st. keeps t fs0 (ca_fs st)) (delete_sent E (ids, st))"
proof -
  obtain r fs where del: "DeletePendingAPIRequestEntries (ca_bolt E) ids (ca_fs st) = (r, fs)" by fastforce
  have "t \<Longrightarrow> r \<noteq> Panic" using command_queue.remove_no_panic [of "ca_fs st" ids] assms del by (simp add: keeps_def)
  with keeps_step [OF assms DeletePending_same [OF del]] del show ?thesis by (cases r) (auto simp: delete_sent_def)
qed

text \<open>The sends touch the log only.\<close>

definition quiet :: "'db batch_kind \<Rightarrow> bool" where
  "quiet K \<longleftrightarrow> (\<forall>r st. ca_fs (snd (bk_send_content K r st)) = ca_fs st) \<and> (\<forall>ps st. ca_fs (snd (bk_send_props K ps st)) = ca_fs st)"

lemma log_msg_fs: "ca_fs (snd (log_msg E ev sm st)) = ca_fs st"
  by (simp add: log_msg_def split: prod.split)

lemma kinds_quiet: "quiet (download_kind E)" "quiet (delete_kind E)"
  by (simp_all add: quiet_def download_kind_def delete_kind_def send_defs log_msg_fs split: sum.split)

definition batch_keeps :: "bool \<Rightarrow> 'db FileSystem \<Rightarrow> ApiData list \<Rightarrow> 'db batch_state \<Rightarrow> bool" where
  "batch_keeps t fs0 a0 bs \<longleftrightarrow> keeps t fs0 (ca_fs (bs_st bs)) \<and> list_all2 variant a0 (bs_store bs) \<and>
     (\<forall>j \<in> set (contentDataApiBatch bs) \<union> set (contentPropertiesApiBatch bs). j < length a0)"

lemma flush_content_keeps:
  assumes "quiet K" "batch_keeps t fs0 a0 bs" "t \<longrightarrow> encodable (ca_json E) a0"
  shows "post t (batch_keeps t fs0 a0) (flush_content E K bs)"
proof -
  obtain err st where send: "bk_send_content K \<lparr>ur_DeviceId = ca_deviceId E, Contents = contentDataBatch bs\<rparr> (bs_st bs) = (err, st)" by fastforce
  have "ca_fs st = ca_fs (bs_st bs)" using assms(1) send unfolding quiet_def by (metis snd_conv)
  then have "post t (\<lambda>(store', st). keeps t fs0 (ca_fs st) \<and> list_all2 variant a0 store')
      (AddApiDataBackToPendingAPIBucketOrDelete E err (contentDataApiBatch bs) SendCloudTelemetryFlag (bs_store bs) st)"
    using requeue_keeps [of t fs0 st a0] assms(2,3) by (simp add: batch_keeps_def)
  then show ?thesis unfolding flush_content_def send prod.case by (rule post_bind) (use assms(2) in \<open>auto simp: batch_keeps_def\<close>)
qed

lemma flush_props_keeps:
  assumes "quiet K" "batch_keeps t fs0 a0 bs" "t \<longrightarrow> encodable (ca_json E) a0"
  shows "post t (batch_keeps t fs0 a0) (flush_props E K bs)"
proof -
  obtain err st where send: "bk_send_props K (contentPropertiesBatch bs) (bs_st bs) = (err, st)" by fastforce
  have "ca_fs st = ca_fs (bs_st bs)" using assms(1) send unfolding quiet_def by (metis snd_conv)
  then have "post t (\<lambda>(store', st). keeps t fs0 (ca_fs st) \<and> list_all2 variant a0 store')
      (AddApiDataBackToPendingAPIBucketOrDelete E err (contentPropertiesApiBatch bs) SendIOTCentralTelemetryFlag (bs_store bs) st)"
    using requeue_keeps [of t fs0 st a0] assms(2,3) by (simp add: batch_keeps_def)
  then show ?thesis unfolding flush_props_def send prod.case by (rule post_bind) (use assms(2) in \<open>auto simp: batch_keeps_def\<close>)
qed

lemma add_to_batches_st [simp]: "bs_st (add_to_batches K i d bs) = bs_st bs"
  by (simp add: add_to_batches_def Let_def)

lemma add_to_batches_keeps: "batch_keeps t fs0 a0 bs \<Longrightarrow> i < length a0 \<Longrightarrow> batch_keeps t fs0 a0 (add_to_batches K i d bs)"
  by (auto simp: add_to_batches_def batch_keeps_def Let_def)

lemma send_in_batches_keeps:
  assumes "quiet K" "keeps t fs0 (ca_fs st)" "t \<longrightarrow> encodable (ca_json E) a0 \<and> 0 < n"
  shows "post t (batch_keeps t fs0 a0) (send_in_batches E K a0 n st)"
proof -
  have e: "t \<longrightarrow> encodable (ca_json E) a0" using assms(3) by blast
  note flush = flush_content_keeps [OF assms(1) _ e] flush_props_keeps [OF assms(1) _ e]
  have full: "post t (batch_keeps t fs0 a0) (flush_content_full E K n bs)" "post t (batch_keeps t fs0 a0) (flush_props_full E K n bs)"
    if "batch_keeps t fs0 a0 bs" for bs
    using flush [OF that] that assms(3) by (auto simp: flush_content_full_def flush_props_full_def)
  have "post t (batch_keeps t fs0 a0) (fold_res (batch_item E K n) [0..<length a0] s)" if "batch_keeps t fs0 a0 s" for s
  proof (rule post_fold [of "batch_keeps t fs0 a0", OF that])
    fix i bs assume "batch_keeps t fs0 a0 bs" "i \<in> set [0..<length a0]"
    then show "post t (batch_keeps t fs0 a0) (batch_item E K n i bs)"
      unfolding batch_item_def by (intro post_bind [OF full(1) full(2)] add_to_batches_keeps) simp_all
  qed
  moreover have "post t (batch_keeps t fs0 a0) (flush_rest E K bs)" if "batch_keeps t fs0 a0 bs" for bs
    unfolding flush_rest_def using flush that by (intro post_bind [of t "batch_keeps t fs0 a0"]) auto
  moreover have "list_all2 variant a0 a0" by (simp add: list_all2_conv_all_nth)
  ultimately show ?thesis using assms(2,3) unfolding send_in_batches_def
    by (auto intro!: post_bind [of t "batch_keeps t fs0 a0"] simp: batch_keeps_def)
qed

text \<open>The requests that are sent one by one.\<close>

lemma stored_keeps:
  assumes "keeps t fs0 fs" "fs_update (ca_bolt E) (\<lambda>db. wrap_err p (bucket_put (ca_bolt E) PendingAPIRequestMapping k v db)) fs = (r, fs')"
  shows "keeps t fs0 fs'" "t \<Longrightarrow> r \<noteq> Panic"
  using keeps_step [OF assms(1) pending_put_same [OF assms(2)]] pending_put_no_panic [of p k v fs fs'] assms
  by (auto simp: keeps_def)

lemma stored_after_log:
  assumes "log_msg E ev sm st = (e, st1)" "keeps t fs0 (ca_fs st)"
    and "fs_update (ca_bolt E) (\<lambda>db. wrap_err p (bucket_put (ca_bolt E) PendingAPIRequestMapping k v db)) (ca_fs st1) = (r, fs')"
  shows "keeps t fs0 fs' \<and> (t \<longrightarrow> r \<noteq> Panic)"
proof -
  have "ca_fs st1 = ca_fs st" using log_msg_calls [OF assms(1)] by simp
  with assms(2) have "keeps t fs0 (ca_fs st1)" by simp
  with stored_keeps [OF this assms(3)] show ?thesis by blast
qed

lemma filter_updated_item_keeps:
  "keeps t fs0 (ca_fs st) \<Longrightarrow> post t (\<lambda>(_, st). keeps t fs0 (ca_fs st)) (filter_updated_item E d (ids, st))"
  unfolding filter_updated_item_def AddCommandStatus_def Let_def
  by (auto split: sum.split prod.split option.split res.split dest: stored_after_log log_msg_calls)

lemma provisioned_item_keeps:
  "keeps t fs0 (ca_fs st) \<Longrightarrow> post t (\<lambda>(_, st). keeps t fs0 (ca_fs st)) (provisioned_item E d (ids, st))"
  unfolding provisioned_item_def AddProvisionedStatus_def
  by (auto split: sum.split prod.split option.split res.split dest: stored_after_log log_msg_calls)

lemma single_requests_keep:
  assumes "\<And>d ids st. keeps t fs0 (ca_fs st) \<Longrightarrow> post t (\<lambda>(_, st). keeps t fs0 (ca_fs st)) (item d (ids, st))"
    and "keeps t fs0 (ca_fs st)"
  shows "post t (\<lambda>st. keeps t fs0 (ca_fs st)) (bind_res (fold_res item ds ([], st)) (delete_sent E))"
proof (rule post_bind [of t "\<lambda>(_, st). keeps t fs0 (ca_fs st)"])
  show "post t (\<lambda>(_, st). keeps t fs0 (ca_fs st)) (fold_res item ds ([], st))"
    using assms by (intro post_fold) auto
qed (auto intro: delete_sent_keeps)

lemma process_type_keeps:
  assumes "keeps t fs0 (ca_fs st)"
    and "t \<longrightarrow> (\<forall>items. m ty = Some items \<longrightarrow> encodable (ca_json E) items) \<and> 0 < down \<and> 0 < del"
  shows "post t (\<lambda>st. keeps t fs0 (ca_fs st)) (process_type E m down del ty st)"
proof -
  let ?items = "case m ty of None \<Rightarrow> [] | Some xs \<Rightarrow> xs"
  have enc: "t \<longrightarrow> encodable (ca_json E) ?items" using assms(2) by (cases "m ty") (auto simp: encodable_def)
  have batch: "post t (\<lambda>st. keeps t fs0 (ca_fs st)) (bind_res (send_in_batches E K ?items n st) (\<lambda>bs. Ok (bs_st bs)))"
    if "quiet K" "t \<longrightarrow> 0 < n" for K n
    by (rule post_bind [OF send_in_batches_keeps [OF that(1) assms(1)]]) (use enc that(2) in \<open>simp_all add: batch_keeps_def\<close>)
  show ?thesis
    using assms batch [OF kinds_quiet(1)] batch [OF kinds_quiet(2)] single_requests_keep [of t fs0 "filter_updated_item E", OF filter_updated_item_keeps assms(1)]
      single_requests_keep [of t fs0 "provisioned_item E", OF provisioned_item_keeps assms(1)]
    by (cases ty) (simp_all add: process_type_def Let_def sendDownloadRequestInBatches_def sendDeleteRequestInBatches_def
        handleFilterUpdatedRequest_def handledProvisionedRequest_def)
qed

lemma requests_keep: "post False (\<lambda>st'. keeps False (ca_fs st) (ca_fs st')) (HandleApiRequests_pass E order down del st)"
  unfolding HandleApiRequests_pass_def ProcessRequests_def Let_def
  by (rule post_fold, simp add: keeps_def, rule process_type_keeps) simp_all

text \<open>The asset map reads the index only.\<close>

lemma send_download_fs: "ca_fs (snd (sendDownloadedTelemetryData E b r st)) = ca_fs st"
  by (simp add: sendDownloadedTelemetryData_def log_msg_fs split: sum.split)

lemma assetmap_loop_fs: "ca_fs (snd (assetmap_loop E n items batch st)) = ca_fs st"
proof (induction items arbitrary: batch st)
  case (Cons item items)
  obtain i v where item: "item = (i, v)" by (cases item)
  show ?case
    using Cons.IH send_download_fs [of True _ st] unfolding item
    by (auto simp: Let_def split: prod.split option.split) (metis snd_conv)+
qed (simp add: send_download_fs)

lemma asset_map_keeps:
  assumes "t \<longrightarrow> has_buckets (ca_bolt E) (ca_fs (am_capi s)) \<and> 0 \<le> n"
  shows "post t (\<lambda>s'. ca_fs (am_capi s') = ca_fs (am_capi s)) (HandleAssetMapRequest_pass E order parse format saved n now s)"
proof -
  have "post t (\<lambda>r. ca_fs (snd r) = ca_fs (am_capi s)) (sendAssetmapInBatches E order n (am_capi s))"
    using assms by (auto simp: sendAssetmapInBatches_def GetAssetInfoMapItems_def bucket_items_def has_buckets_def assetmap_loop_fs)
  then show ?thesis unfolding HandleAssetMapRequest_pass_def Let_def
    by (auto intro!: post_bind [of t "\<lambda>r. ca_fs (snd r) = ca_fs (am_capi s)"] split: option.split prod.split)
qed

lemma provisioning_keeps:
  assumes "t \<longrightarrow> pending_ready (ca_bolt E) fs"
  shows "post t (\<lambda>fs'. same_index (ca_bolt E) fs fs') (start_provision E dev now fs)"
  unfolding start_provision_def AddProvisionedStatus_def using pending_put_same pending_put_no_panic assms
  by (auto split: sum.split prod.split res.split)

end

section \<open>What a step changes\<close>

lemma command_keeps:
  assumes "bolt_spec (ca_bolt (cm_capi C))" "snd (ReceiveCommand C name payload st) = Ok st'"
  shows "same_index (ca_bolt (cm_capi C)) (ca_fs (cs_capi st)) (ca_fs (cs_capi st'))"
proof (cases "name = ''FilterUpdate''")
  case True
  then have run: "handleFilterUpdate C payload (DEVICE_DETAIL_FILE C) st = Ok st'"
    using assms(2) by (simp add: ReceiveCommand_def)
  obtain p err where dec: "dec_filter C payload = (p, err)" by fastforce
  show ?thesis
  proof (cases "err \<noteq> None \<or> uf_DeviceID p \<noteq> cm_deviceId C \<or> uf_CommandID p = [] \<or> Filters p = None")
    case True
    with run dec show ?thesis by (cases err) (auto simp: handleFilterUpdate_def)
  next
    case False
    obtain reason st1 where applied: "apply_filters C (keywords_of (the (Filters p))) (DEVICE_DETAIL_FILE C) st = Ok (reason, st1)"
      using run dec False by (auto simp: handleFilterUpdate_def)
    then have fs: "ca_fs (cs_capi st1) = ca_fs (cs_capi st)" by (rule apply_filters_cases) simp_all
    have same: "same_index (ca_bolt (cm_capi C)) fs fs'"
      if "AddCommandStatus (ca_bolt (cm_capi C)) k v fs = (r, fs')" for k v fs r fs'
      using that cloud_env.pending_put_same [OF cloud_env.intro [OF assms(1)]] by (simp add: AddCommandStatus_def)
    let ?status = "status_record (cm_deviceId C) (uf_CommandID p) (cm_now C (cs_clock st1)) reason"
    obtain flt where flt: "Filters p = Some flt" using False by blast
    show ?thesis
    proof (cases "marshal (ca_json (cm_capi C)) ?status")
      case (Inl e)
      with run dec False fs applied show ?thesis by (auto simp: handleFilterUpdate_def Let_def)
    next
      case (Inr b)
      obtain r fs' where add: "AddCommandStatus (ca_bolt (cm_capi C)) (uf_CommandID p) b (ca_fs (cs_capi st1)) = (r, fs')" by fastforce
      have "ca_fs (cs_capi st') = fs'"
        using run dec False applied Inr add flt by (cases r) (auto simp: handleFilterUpdate_def Let_def)
      with same [OF add] fs show ?thesis by simp
    qed
  qed
next
  case False
  with assms(2) show ?thesis by (auto simp: ReceiveCommand_def handleDownload_def handleDelete_def split: if_splits)
qed

text \<open>
  The commands that crash the hub: a valid filter update the receiver answers with fewer than three words, or
  accepts when the ini file cannot be saved. Every other command returns.
\<close>

definition crashing :: "'db cmd_env \<Rightarrow> string \<Rightarrow> string \<Rightarrow> 'db cmd_state \<Rightarrow> bool" where
  "crashing C name payload st \<longleftrightarrow> name = ''FilterUpdate'' \<and>
     (\<exists>p fl response. dec_filter C payload = (p, None) \<and> uf_DeviceID p = cm_deviceId C \<and> uf_CommandID p \<noteq> [] \<and> Filters p = Some fl \<and>
        cm_http C (cs_http st) (''http://host.docker.internal:8134/setkeywords/'' @ serviceId C @ keywords_of fl) = Inr response \<and>
        (let status = Fields (Trim (body_match response) (CHR 10))
         in length status \<le> 2 \<or> status ! 2 \<noteq> ''FAILED'' \<and> save_ini C (DEVICE_DETAIL_FILE C) \<noteq> None))"

lemma command_returns:
  assumes "bolt_spec (ca_bolt (cm_capi C))" and ready: "pending_ready (ca_bolt (cm_capi C)) (ca_fs (cs_capi st))"
  shows "(\<exists>st'. snd (ReceiveCommand C name payload st) = Ok st') \<longleftrightarrow> \<not> crashing C name payload st"
proof (cases "name = ''FilterUpdate''")
  case True
  obtain p err where dec: "dec_filter C payload = (p, err)" by fastforce
  show ?thesis
  proof (cases "err \<noteq> None \<or> uf_DeviceID p \<noteq> cm_deviceId C \<or> uf_CommandID p = [] \<or> Filters p = None")
    case True
    then have "\<not> crashing C name payload st" using dec by (auto simp: crashing_def)
    moreover have "\<exists>st'. handleFilterUpdate C payload (DEVICE_DETAIL_FILE C) st = Ok st'"
      using True dec by (cases err) (auto simp: handleFilterUpdate_def)
    ultimately show ?thesis using \<open>name = _\<close> by (simp add: ReceiveCommand_def)
  next
    case False
    then obtain fl where fl: "Filters p = Some fl" by blast
    let ?ini = "DEVICE_DETAIL_FILE C" and ?kw = "keywords_of fl"
    have applied: "(\<exists>reason st1. apply_filters C ?kw ?ini st = Ok (reason, st1)) \<longleftrightarrow> \<not> crashing C name payload st"
      using True False dec fl by (auto simp: crashing_def apply_filters_def callSetkeywords_def Let_def split: sum.splits if_splits option.splits)
    have "(\<exists>st'. handleFilterUpdate C payload ?ini st = Ok st') \<longleftrightarrow> (\<exists>reason st1. apply_filters C ?kw ?ini st = Ok (reason, st1))"
    proof
      assume "\<exists>st'. handleFilterUpdate C payload ?ini st = Ok st'"
      then show "\<exists>reason st1. apply_filters C ?kw ?ini st = Ok (reason, st1)" using False dec fl by (auto simp: handleFilterUpdate_def)
    next
      assume "\<exists>reason st1. apply_filters C ?kw ?ini st = Ok (reason, st1)"
      then obtain reason st1 where 1: "apply_filters C ?kw ?ini st = Ok (reason, st1)" by blast
      have "ca_fs (cs_capi st1) = ca_fs (cs_capi st)" using 1 by (rule apply_filters_cases) simp_all
      then have "AddCommandStatus (ca_bolt (cm_capi C)) k v (ca_fs (cs_capi st1)) \<noteq> (Panic, fs)" for k v fs
        using cloud_env.pending_put_no_panic [OF cloud_env.intro [OF assms(1)]] ready by (fastforce simp: AddCommandStatus_def)
      then show "\<exists>st'. handleFilterUpdate C payload ?ini st = Ok st'"
        using False dec fl 1 by (auto simp: handleFilterUpdate_def Let_def split: sum.split prod.split res.split)
    qed
    with applied True show ?thesis by (simp add: ReceiveCommand_def)
  qed
qed (auto simp: crashing_def ReceiveCommand_def handleDownload_def handleDelete_def)

lemma hub_fs_simps [simp]:
  "hub_fs (with_sat s h) = ss_fs s" "ss_fs (sat_of h) = hub_fs h" "hub_fs (with_cmd c h) = ca_fs (cs_capi c)"
  "ca_fs (cs_capi (cmd_of h)) = hub_fs h" "hub_fs (with_am m h) = ca_fs (am_capi m)" "ca_fs (am_capi (am_of h)) = hub_fs h"
  "cm_capi (hub_cmd H) = hub_capi H"
  by (simp_all add: with_sat_def sat_of_def with_cmd_def cmd_of_def with_am_def am_of_def hub_cmd_def)

lemma post_False: "post False P r \<longleftrightarrow> (\<forall>x. r = Ok x \<longrightarrow> P x)"
  by (simp add: post_def)

lemma quiet_step:
  assumes "bolt_spec (hub_bolt H)" "hub_step H a h h'" "a \<noteq> Poll"
  shows "same_index (hub_bolt H) (hub_fs h) (hub_fs h')"
proof -
  note env = cloud_env.intro [OF assms(1)]
  from assms(2) show ?thesis
  proof cases
    case (requests order st)
    with cloud_env.requests_keep [OF env] show ?thesis by (simp add: post_False cloud_env.keeps_def [OF env])
  next
    case (asset_map order saved now st)
    with cloud_env.asset_map_keeps [OF env, of False] have "ca_fs (am_capi st) = hub_fs h" by (fastforce simp: post_False)
    with asset_map show ?thesis by simp
  next
    case (provisioning now fs)
    with cloud_env.provisioning_keeps [OF env, of False] show ?thesis by (simp add: post_False)
  next
    case (command name payload st)
    with command_keeps [of "hub_cmd H" name payload "cmd_of h" st] assms(1) show ?thesis by simp
  qed (use assms(3) in auto)
qed

lemma step_inv:
  assumes "bolt_spec (hub_bolt H)" "hub_step H a h h'" "index_inv (hub_bolt H) (hub_fs h)"
  shows "index_inv (hub_bolt H) (hub_fs h')"
proof (cases "a = Poll")
  case True
  with assms(2) have "hub_step H Poll h h'" by simp
  then obtain order st where 1: "\<forall>xs. mset (order xs) = mset xs" "h' = with_sat st h"
      "pollMstore_pass (hv_sat H) order (hv_containerStorage H) (hv_deviceStorage H) (sat_of h) = Ok st"
    by (auto elim: poll_stepE)
  with sat_hub.poll_inv [OF sat_hub_of [OF assms(1)] 1(3,1)] assms(3) show ?thesis by simp
next
  case False
  with quiet_step [OF assms(1,2)] assms(3) show ?thesis by (simp add: same_index_inv)
qed

lemma run_inv: "hub_run H as h h' \<Longrightarrow> bolt_spec (hub_bolt H) \<Longrightarrow> index_inv (hub_bolt H) (hub_fs h) \<Longrightarrow> index_inv (hub_bolt H) (hub_fs h')"
  by (induction rule: hub_run.induct) (auto dest: step_inv)

text \<open>What the start-up leaves. The listing of the buckets has seen all three of them.\<close>

definition linked :: "'db bolt \<Rightarrow> 'db \<Rightarrow> bool" where
  "linked B db \<longleftrightarrow>
     (\<forall>cid a. bolt_get B db SatelliteIdtoAssetIdMapping cid = Some a \<longrightarrow> bolt_get B db AssetPathMapping a \<noteq> None) \<and>
     (\<forall>c1 c2 a. bolt_get B db SatelliteIdtoAssetIdMapping c1 = Some a \<longrightarrow>
        bolt_get B db SatelliteIdtoAssetIdMapping c2 = Some a \<longrightarrow> c1 = c2)"

lemma hub_started_inv:
  assumes "bolt_spec (hub_bolt H)" "linked (hub_bolt H) db" "start_hub H (Inr db) home initflag h0 = Ok h"
  shows "index_inv (hub_bolt H) (hub_fs h)"
proof -
  let ?B = "hub_bolt H"
  obtain fs lst where 1: "start_index ?B (ca_logger (hub_capi H)) (ca_log (hub_capi H)) (Inr db) home initflag (ca_logst (hs_capi h0)) = (Ok fs, lst)"
    using assms(3) by (auto simp: start_hub_def split: prod.splits res.splits)
  then have get: "bolt_get ?B (nodesDB fs) b k = bolt_get ?B db b k" for b k
    using bolt_spec.InitFileSystem_Ok(2) [OF assms(1)]
    by (auto simp: start_index_def MakeFileSystem_def split: if_splits prod.splits res.splits)
  obtain st items where 2: "start_filters (hub_cmd H) (cmd_of (h0\<lparr>hs_capi := \<lparr>ca_fs = fs, ca_logst = lst\<rparr>\<rparr>)) = Ok st"
      "PrintBuckets ?B (ca_fs (cs_capi st)) = Ok items" "h = with_cmd st h0"
    using assms(3) by (auto simp: start_hub_def 1)
  have "ca_fs (cs_capi st) = fs"
    using 2(1) callSetkeywords_frame(1)
    by (fastforce simp: start_filters_def persisted_filters_def Let_def cmd_of_def split: if_splits option.splits)
  with 2 have "has_buckets ?B fs" "hub_fs h = fs"
    by (auto simp: PrintBuckets_def bucket_items_def has_buckets_def split: if_splits)
  with assms(2) get show ?thesis by (simp add: index_inv_def linked_def)
qed

section \<open>A hub in memory\<close>

definition mem_hub :: "string list \<Rightarrow> VodInfo \<Rightarrow> mem_db hub_env" where
  "mem_hub ids vod = \<lparr>hv_sat = mem_sat ids vod, hv_cmd = mem_cmd (Inr ''<body> SET OK </body>'') None ''dev'',
     hv_settings = start_settings (\<lambda>_. Inl ''missing''), hv_containerStorage = ''/c'', hv_deviceStorage = ''/x'',
     hv_parseInt = \<lambda>_. None, hv_formatInt = \<lambda>_. ''0'',
     hv_float = \<lparr>fl_of_uint = id, fl_of_int = word_of_int, fl_add = (+), fl_mul = (*), fl_div = (div), fl_Round = id\<rparr>\<rparr>"

definition mem_hub_start :: "mem_db hub_state" where
  "mem_hub_start = \<lparr>hs_capi = mem_state (mem_fs [] [] []), hs_http = 0, hs_clock = 0, hs_filters_key = ''/f'', hs_filters_file = ''/f'',
     hs_timestamp_key = [], hs_timestamp_file = []\<rparr>"

lemma mem_hub_simps [simp]:
  "hub_capi (mem_hub ids vod) = mem_capi (\<lambda>_. None)" "hv_sat (mem_hub ids vod) = mem_sat ids vod"
  "downloadBatchMessageSize (hv_settings (mem_hub ids vod)) = 10" "deleteBatchMessageSize (hv_settings (mem_hub ids vod)) = 10"
  "assetmapMessageSize (hv_settings (mem_hub ids vod)) = 25"
  by (simp_all add: mem_hub_def start_settings_def int_setting_def)

lemma mem_hub_starts: "\<exists>h. start_hub (mem_hub ids vod) (Inr Map.empty) ''/d'' True mem_hub_start = Ok h"
proof -
  have cmd: "hub_cmd (mem_hub ids vod) = mem_cmd (Inr ''<body> SET OK </body>'') None ''dev''"
    by (simp add: hub_cmd_def mem_hub_def mem_cmd_def)
  show ?thesis
    by (simp add: start_hub_def cmd start_index_def MakeFileSystem_def InitFileSystem_def CreateBucket_def fs_update_def mem_defs
        start_filters_def persisted_filters_def cmd_of_def mem_hub_start_def demo_call PrintBuckets_def bucket_items_def)
qed

lemma mem_linked: "linked mem_bolt Map.empty"
  by (simp add: linked_def mem_defs)

lemma heartbeat_poll_run:
  assumes B: "bolt_spec (hub_bolt H)" and inv: "index_inv (hub_bolt H) (hub_fs h)"
  obtains h' where "hub_run H [Heartbeat, Poll] h h'"
proof -
  obtain h1 where 1: "hub_step H Heartbeat h h1" using hub_step.heartbeat by blast
  have "index_inv (hub_bolt H) (hub_fs h1)" using quiet_step [OF B 1] inv by (simp add: same_index_inv)
  then obtain st where "pollMstore_pass (hv_sat H) (\<lambda>xs. xs) (hv_containerStorage H) (hv_deviceStorage H) (sat_of h1) = Ok st"
    using sat_hub.poll_total [OF sat_hub_of [OF B], of "sat_of h1" "\<lambda>xs. xs"] by (simp, blast)
  then have "hub_step H Poll h1 (with_sat st h1)" by (intro hub_step.poll) simp_all
  with 1 that show ?thesis using hub_run.intros by (metis append_Cons append_Nil)
qed

end
