(* ===== verification/Hub_Config.thy ===== *)
theory Hub_Config
  imports Hub_Run
begin

text \<open>
  The configuration of the hub: what \<^verbatim>\<open>main\<close> of \<^verbatim>\<open>src/hub.go\<close> reads from its two ini files, and how the
  environment and the first state of \<^verbatim>\<open>Hub_Run\<close> come from it. The ini library is a parameter: \<open>ini_Load\<close>
  parses a file, \<open>ini_Int\<close> and \<open>ini_Bool\<close> are \<^verbatim>\<open>Key(...).Int()\<close> and \<^verbatim>\<open>Key(...).Bool()\<close> of the text of a
  key; both yield a value also when they fail. A parsed file gives the text of a key in a section, the
  empty text for one it does not have.
\<close>

section \<open>The two files\<close>

type_synonym ini = "string \<Rightarrow> string \<Rightarrow> string"

record ini_lib =
  ini_Load :: "string \<Rightarrow> error + ini"
  ini_Int :: "string \<Rightarrow> int \<times> error option"
  ini_Bool :: "string \<Rightarrow> bool \<times> error option"

definition int_key :: "ini_lib \<Rightarrow> ini \<Rightarrow> string \<Rightarrow> string \<Rightarrow> error + int" where
  "int_key L cfg section name = (case ini_Int L (cfg section name) of (n, None) \<Rightarrow> Inr n | (_, Some err) \<Rightarrow> Inl err)"

definition device_ini :: "ini \<Rightarrow> string" where
  "device_ini cfg = cfg ''HUB_AUTHENTICATION'' ''DEVICE_DETAIL_FILE''"

record code_logs =
  cl_Filename :: string
  cl_MaxSize :: int
  cl_MaxBackups :: int
  cl_MaxAge :: int

definition code_logs_of :: "ini_lib \<Rightarrow> ini \<Rightarrow> code_logs" where
  "code_logs_of L cfg =
     \<lparr>cl_Filename = cfg ''LOGGER'' ''CODE_LOGS_FILE_PATH'',
      cl_MaxSize = fst (ini_Int L (cfg ''LOGGER'' ''CODE_LOGS_FILE_MAX_SIZE'')),
      cl_MaxBackups = fst (ini_Int L (cfg ''LOGGER'' ''CODE_LOGS_FILE_MAX_BACKUPS'')),
      cl_MaxAge = fst (ini_Int L (cfg ''LOGGER'' ''CODE_LOGS_FILE_MAX_AGE''))\<rparr>"

text \<open>
  The error of the first load is overwritten by those of the three numbers, so the check of line 65 sees
  the last of them; the nil file of a failed load is dereferenced before. An \<open>Err\<close> ends the process.
\<close>

definition load_config :: "ini_lib \<Rightarrow> (ini \<times> ini \<times> code_logs) res" where
  "load_config L =
     (case ini_Load L ''hub_config.ini'' of
        Inl err \<Rightarrow> Panic
      | Inr cfg \<Rightarrow>
          (let device_cfg = ini_Load L (device_ini cfg); logs = code_logs_of L cfg in
           case snd (ini_Int L (cfg ''LOGGER'' ''CODE_LOGS_FILE_MAX_AGE'')) of
             Some err \<Rightarrow> Err (''Failed to read config file: '' @ err)
           | None \<Rightarrow>
               (case device_cfg of
                  Inl device_err \<Rightarrow> Err (''Failed to read config file: '' @ device_err)
                | Inr device_cfg \<Rightarrow> Ok (cfg, device_cfg, logs))))"

section \<open>From the configuration to the hub\<close>

definition logger_of ::
    "ini_lib \<Rightarrow> (string \<Rightarrow> error + string) \<Rightarrow> ini \<Rightarrow> ini \<Rightarrow> (Logger \<times> log_state) option" where
  "logger_of L open_log cfg device_cfg =
     MakeLogger (device_cfg ''DEVICE_DETAIL'' ''deviceId'') (open_log (cfg ''LOGGER'' ''TEMP_LOG_FILE_PATH''))
       (fst (ini_Int L (cfg ''LOGGER'' ''MEM_BUFFER_SIZE'')))
       (cfg ''APP_INFO'' ''APPLICATION_NAME'') (cfg ''APP_INFO'' ''APPLICATION_VERSION'')"

text \<open>
  The environment: the services \<open>H\<close> of the outside world with the logger, the ids, the paths and the
  settings of the configuration.
\<close>

definition configured :: "ini_lib \<Rightarrow> ini \<Rightarrow> ini \<Rightarrow> Logger \<Rightarrow> 'db hub_env \<Rightarrow> 'db hub_env" where
  "configured L cfg device_cfg l H =
     (let dev = device_cfg ''DEVICE_DETAIL'' ''deviceId'' in
      H\<lparr>hv_sat := (hv_sat H)\<lparr>se_capi := (hub_capi H)\<lparr>ca_logger := l, ca_deviceId := dev\<rparr>\<rparr>,
        hv_cmd := (hv_cmd H)\<lparr>cm_deviceId := dev, serviceId := cfg ''MSTORE_SERVICE'' ''serviceId'',
          DEVICE_DETAIL_FILE := device_ini cfg\<rparr>,
        hv_settings := start_settings (int_key L cfg ''BLENDNET''),
        hv_containerStorage := cfg ''DEVICE_INFO'' ''MSTORE_CONTAINER_STORAGE'',
        hv_deviceStorage := cfg ''DEVICE_INFO'' ''MSTORE_DEVICE_STORAGE''\<rparr>)"

text \<open>The first state: the keys of the device file in memory and on the disk, an empty trace of calls.\<close>

definition first_state :: "ini \<Rightarrow> log_state \<Rightarrow> 'db FileSystem \<Rightarrow> 'db hub_state" where
  "first_state device_cfg lst fs =
     (let filters = device_cfg ''DEVICE_DETAIL'' ''FILTERS''; timestamp = device_cfg ''DEVICE_DETAIL'' ''ASSETMAP_TIMESTAMP'' in
      \<lparr>hs_capi = \<lparr>ca_fs = fs, ca_logst = lst\<rparr>, hs_http = 0, hs_clock = 0, hs_filters_key = filters, hs_filters_file = filters,
       hs_timestamp_key = timestamp, hs_timestamp_file = timestamp\<rparr>)"

text \<open>
  \<^verbatim>\<open>main\<close> up to the first goroutine. \<open>fs0\<close> stands for the file system object before it is made, which
  nothing reads. A log file that cannot be opened ends the process.
\<close>

definition hub_main ::
    "ini_lib \<Rightarrow> (string \<Rightarrow> error + string) \<Rightarrow> (string \<Rightarrow> error + 'db) \<Rightarrow> 'db FileSystem \<Rightarrow> 'db hub_env \<Rightarrow>
     ('db hub_env \<times> 'db hub_state) res" where
  "hub_main L open_log open_db fs0 H =
     bind_res (load_config L) (\<lambda>(cfg, device_cfg, logs).
       case logger_of L open_log cfg device_cfg of
         None \<Rightarrow> Err (''[Logger]error in opening file:%!(EXTRA string='' @ cfg ''LOGGER'' ''TEMP_LOG_FILE_PATH'' @ '')'')
       | Some (l, lst) \<Rightarrow>
           (let H = configured L cfg device_cfg l H in
            bind_res (start_hub H (open_db (cfg ''FILE_SYSTEM'' ''BOLTDB_LOCATION'')) (cfg ''FILE_SYSTEM'' ''HOME_DIR_LOCATION'')
                (fst (ini_Bool L (cfg ''DEVICE_INFO'' ''INIT_FILE_SYSTEM''))) (first_state device_cfg lst fs0)) (\<lambda>h.
            Ok (H, h))))"

section \<open>Properties\<close>

text \<open>A main file that cannot be read crashes the hub before line 65 looks at the error.\<close>

lemma missing_config_panics: "ini_Load L ''hub_config.ini'' = Inl err \<Longrightarrow> hub_main L open_log open_db fs0 H = Panic"
  by (simp add: hub_main_def load_config_def)

text \<open>Of the numbers of the first block only the last one is checked: the others read as the value of a failed conversion.\<close>

lemma only_max_age_checked:
  assumes "ini_Load L ''hub_config.ini'' = Inr cfg" "ini_Load L (device_ini cfg) = Inr device_cfg"
  shows "is_Ok (load_config L) \<longleftrightarrow> snd (ini_Int L (cfg ''LOGGER'' ''CODE_LOGS_FILE_MAX_AGE'')) = None"
  using assms by (simp add: load_config_def Let_def split: option.split)

lemma hub_main_Ok:
  assumes "hub_main L open_log open_db fs0 H = Ok (H', h)"
  obtains cfg device_cfg logs l lst where "load_config L = Ok (cfg, device_cfg, logs)"
    "logger_of L open_log cfg device_cfg = Some (l, lst)" "H' = configured L cfg device_cfg l H"
    "start_hub H' (open_db (cfg ''FILE_SYSTEM'' ''BOLTDB_LOCATION'')) (cfg ''FILE_SYSTEM'' ''HOME_DIR_LOCATION'')
       (fst (ini_Bool L (cfg ''DEVICE_INFO'' ''INIT_FILE_SYSTEM''))) (first_state device_cfg lst fs0) = Ok h"
  using assms by (auto simp: hub_main_def Let_def split: option.splits)

lemma configured_simps [simp]:
  "hub_bolt (configured L cfg device_cfg l H) = hub_bolt H" "ca_logger (hub_capi (configured L cfg device_cfg l H)) = l"
  "ca_log (hub_capi (configured L cfg device_cfg l H)) = ca_log (hub_capi H)"
  by (simp_all add: configured_def Let_def)

lemma start_hub_opened: "start_hub H opened home flag h0 = Ok h \<Longrightarrow> \<exists>db. opened = Inr db"
  by (cases opened) (auto simp: start_hub_def start_index_def MakeFileSystem_def)

text \<open>
  Whatever the configuration says: a hub that comes up on an index whose satellite ids are linked to
  different assets of the index has all its buckets and the same index.
\<close>

lemma hub_main_index:
  assumes "bolt_spec (hub_bolt H)" "hub_main L open_log open_db fs0 H = Ok (H', h)"
    and "\<And>p db. open_db p = Inr db \<Longrightarrow> linked (hub_bolt H) db"
  shows "index_inv (hub_bolt H') (hub_fs h) \<and> hub_bolt H' = hub_bolt H"
proof -
  from assms(2) obtain cfg device_cfg logs l lst where m: "H' = configured L cfg device_cfg l H"
    "start_hub H' (open_db (cfg ''FILE_SYSTEM'' ''BOLTDB_LOCATION'')) (cfg ''FILE_SYSTEM'' ''HOME_DIR_LOCATION'')
       (fst (ini_Bool L (cfg ''DEVICE_INFO'' ''INIT_FILE_SYSTEM''))) (first_state device_cfg lst fs0) = Ok h"
    by (rule hub_main_Ok)
  from start_hub_opened [OF m(2)] obtain db where db: "open_db (cfg ''FILE_SYSTEM'' ''BOLTDB_LOCATION'') = Inr db" by blast
  with m(2) have "start_hub H' (Inr db) (cfg ''FILE_SYSTEM'' ''HOME_DIR_LOCATION'')
       (fst (ini_Bool L (cfg ''DEVICE_INFO'' ''INIT_FILE_SYSTEM''))) (first_state device_cfg lst fs0) = Ok h" by simp
  then show ?thesis using hub_started_inv [of H' db] assms(1) assms(3) [OF db] m(1) by simp
qed

text \<open>
  The settings of the loops are numbers of the configuration, or the defaults: a missing or malformed
  number never stops the start-up, and one that is there is used as it is, zero and negative ones too.
\<close>

lemma configured_sizes:
  "downloadBatchMessageSize (hv_settings (configured L cfg device_cfg l H)) =
     (case int_key L cfg ''BLENDNET'' ''DOWNLOAD_TELEMETRY_MESSAGE_SIZE'' of Inl _ \<Rightarrow> 10 | Inr n \<Rightarrow> n)"
  "deleteBatchMessageSize (hv_settings (configured L cfg device_cfg l H)) =
     (case int_key L cfg ''BLENDNET'' ''DELETE_TELEMETRY_MESSAGE_SIZE'' of Inl _ \<Rightarrow> 10 | Inr n \<Rightarrow> n)"
  "assetmapMessageSize (hv_settings (configured L cfg device_cfg l H)) =
     (case int_key L cfg ''BLENDNET'' ''ASSETMAP_MESSAGE_SIZE'' of Inl _ \<Rightarrow> 25 | Inr n \<Rightarrow> n)"
  by (simp_all add: configured_def Let_def start_settings_def int_setting_def)

text \<open>From the configuration on: the index stays consistent in every run of a configured hub.\<close>

lemma configured_runs_keep_index:
  assumes "bolt_spec (hub_bolt H)" "hub_main L open_log open_db fs0 H = Ok (H', h)"
    and "\<And>p db. open_db p = Inr db \<Longrightarrow> linked (hub_bolt H) db" "hub_run H' as h h'"
  shows "index_inv (hub_bolt H') (hub_fs h')"
proof -
  have inv: "index_inv (hub_bolt H') (hub_fs h) \<and> hub_bolt H' = hub_bolt H" by (rule hub_main_index [OF assms(1-3)])
  show ?thesis by (rule run_inv [OF assms(4) _ conjunct1 [OF inv]]) (use inv assms(1) in simp)
qed

section \<open>A configured hub in memory\<close>

definition demo_ini :: "ini_lib" where
  "demo_ini =
     \<lparr>ini_Load = (\<lambda>f. if f = ''hub_config.ini'' then Inr (\<lambda>s k. if k = ''DEVICE_DETAIL_FILE'' then ''device.ini'' else [])
                else if f = ''device.ini'' then Inr (\<lambda>s k. if k = ''FILTERS'' then ''/f'' else ''dev'')
                else Inl ''open: no such file or directory''),
      ini_Int = (\<lambda>t. (28, None)), ini_Bool = (\<lambda>t. (True, None))\<rparr>"

lemma demo_main:
  "\<exists>H h. hub_main demo_ini (\<lambda>_. Inr []) (\<lambda>_. Inr Map.empty) (mem_fs [] [] []) (mem_hub ids vod) = Ok (H, h) \<and>
     hs_filters_file h = ''/f'' \<and> hv_settings H = start_settings (\<lambda>_. Inr 28)"
proof -
  define cfg :: ini where "cfg = (\<lambda>s k. if k = ''DEVICE_DETAIL_FILE'' then ''device.ini'' else [])"
  define device :: ini where "device = (\<lambda>s k. if k = ''FILTERS'' then ''/f'' else ''dev'')"
  define l where "l = \<lparr>deviceId = ''dev'', applicationName = [], applicationVersion = [], bufferSize = 28\<rparr>"
  define lst where "lst = \<lparr>log_calls = [], upstream = [], log_file = [], log_buffer = [], old_calls = 0\<rparr>"
  let ?H = "configured demo_ini cfg device l (mem_hub ids vod)"
  have load: "load_config demo_ini = Ok (cfg, device, code_logs_of demo_ini cfg)"
    by (simp add: load_config_def demo_ini_def device_ini_def cfg_def device_def Let_def)
  have logger: "logger_of demo_ini (\<lambda>_. Inr []) cfg device = Some (l, lst)"
    by (simp add: logger_of_def MakeLogger_def demo_ini_def cfg_def device_def l_def lst_def)
  have bolt: "hub_bolt ?H = mem_bolt" by simp
  have http: "cm_http (hub_cmd ?H) n u = Inr ''<body> SET OK </body>''" for n u
    by (simp add: hub_cmd_def configured_def mem_hub_def mem_cmd_def Let_def)
  have filters: "start_filters (hub_cmd ?H) st = Ok (st\<lparr>cs_http := Suc (cs_http st)\<rparr>)" if "filters_key st = ''/f''" for st
    using that unfolding start_filters_def persisted_filters_def callSetkeywords_def http Let_def sum.case demo_answer by simp
  have flag: "fst (ini_Bool demo_ini t) = True" for t by (simp add: demo_ini_def)
  have home: "cfg ''FILE_SYSTEM'' ''HOME_DIR_LOCATION'' = []" by (simp add: cfg_def)
  have filters_text: "device ''DEVICE_DETAIL'' ''FILTERS'' = ''/f''" by (simp add: device_def)
  obtain h where h: "start_hub ?H (Inr Map.empty) [] True (first_state device lst (mem_fs [] [] [])) = Ok h" "hs_filters_file h = ''/f''"
    by (simp add: start_hub_def bolt start_index_def MakeFileSystem_def InitFileSystem_def CreateBucket_def fs_update_def mem_defs
        filters cmd_of_def first_state_def filters_text with_cmd_def PrintBuckets_def bucket_items_def Let_def)
  have "hub_main demo_ini (\<lambda>_. Inr []) (\<lambda>_. Inr Map.empty) (mem_fs [] [] []) (mem_hub ids vod) = Ok (?H, h)"
    using h(1) by (simp add: hub_main_def load logger flag home Let_def)
  moreover have "hv_settings ?H = start_settings (\<lambda>_. Inr 28)"
    by (simp add: configured_def Let_def int_key_def [abs_def] demo_ini_def)
  ultimately show ?thesis using h(2) by blast
qed

end
