(* ===== verification/Folder_Moves.thy ===== *)
theory Folder_Moves
  imports Folder_Tree Go_Files
begin

text \<open>
  Moving files between folders, in \<^verbatim>\<open>src/filesys/filesys.go\<close>: \<^verbatim>\<open>MoveFolder\<close> moves all entries of one
  directory into another, \<^verbatim>\<open>MoveFile\<close> takes a file into the directory of a folder of the hierarchy;
  with \<^verbatim>\<open>os.Rename\<close> on the model of the disk, the listing of the old buckets, and the accessors of the
  file system object.
\<close>

section \<open>Renaming\<close>

text \<open>
  \<^verbatim>\<open>os.Rename\<close> on Linux. A file replaces a file; a directory takes all below it along and replaces
  nothing; what names a directory already is never replaced.
\<close>

definition moved :: "string \<Rightarrow> string \<Rightarrow> disk \<Rightarrow> disk" where
  "moved old new d =
     (if old = new then d
      else map (\<lambda>(q, e). (if in_tree old q then new @ drop (length old) q else q, e))
             (filter (\<lambda>(q, _). \<not> in_tree new q) d))"

definition rename_error :: "string \<Rightarrow> string \<Rightarrow> disk \<Rightarrow> error option" where
  "rename_error old new d =
     (if \<not> os_exists d old then Some ''no such file or directory''
      else if map_of d new = Some Directory then Some ''file exists''
      else if Dir new \<notin> {''/'', ''.''} \<and> \<not> os_exists d (Dir new) then Some ''no such file or directory''
      else if Dir new \<notin> {''/'', ''.''} \<and> map_of d (Dir new) \<noteq> Some Directory then Some ''not a directory''
      else if map_of d old = Some Directory \<and> in_tree old new then Some ''invalid argument''
      else if map_of d old = Some Directory \<and> os_exists d new then Some ''not a directory''
      else None)"

definition os_Rename :: "os_faults \<Rightarrow> string \<Rightarrow> string \<Rightarrow> disk \<Rightarrow> unit res \<times> disk" where
  "os_Rename osf old new d =
     (case osf (Rename old new) d of
        Some e \<Rightarrow> (Err e, d)
      | None \<Rightarrow>
          (case rename_error old new d of
             Some why \<Rightarrow> (Err (''rename '' @ old @ '' '' @ new @ '': '' @ why), d)
           | None \<Rightarrow> (Ok (), moved old new d)))"

section \<open>The operations\<close>

text \<open>The loop over the entries of the source directory, which ends at the first error.\<close>

fun move_entries :: "os_faults \<Rightarrow> string \<Rightarrow> string \<Rightarrow> string list \<Rightarrow> disk \<Rightarrow> unit res \<times> disk" where
  "move_entries osf source destination [] disk = (Ok (), disk)"
| "move_entries osf source destination (n # ns) disk =
     (case os_Rename osf (Join [source, n]) (Join [destination, n]) disk of
        (Ok _, disk) \<Rightarrow> move_entries osf source destination ns disk
      | (r, disk) \<Rightarrow> (wrap_err ''[Filesystem][MoveFolder] '' r, disk))"

definition MoveFolder :: "os_faults \<Rightarrow> string \<Rightarrow> string \<Rightarrow> disk \<Rightarrow> unit res \<times> disk" where
  "MoveFolder osf source_folder destination_folder disk =
     (if IsNotExist osf source_folder disk
      then (Err ''[Filesystem][MoveFolder] Source Folder path does not exist'', disk)
      else if IsNotExist osf destination_folder disk
      then (Err ''[Filesystem][MoveFolder] Destination Folder path does not exist'', disk)
      else case wrap_err ''[Filesystem][MoveFolder] '' (os_ReadDir osf source_folder disk) of
        Ok subdirs \<Rightarrow> move_entries osf source_folder destination_folder (map fst subdirs) disk
      | r \<Rightarrow> (bind_res r (\<lambda>_. Ok ()), disk))"

definition MoveFile :: "'db bolt \<Rightarrow> os_faults \<Rightarrow> 'db FileSystem \<Rightarrow> string \<Rightarrow> string \<Rightarrow> string \<Rightarrow> disk \<Rightarrow> unit res \<times> disk" where
  "MoveFile B osf fs source_file_path destination_folder file_type disk =
     (case getNodeForPath B fs (path_parts destination_folder) of
        Ok node \<Rightarrow>
          (let new_file = file_type @ ''_'' @ Base source_file_path;
               new_location = Join [homeDirLocation fs, homeNode fs, node, new_file]
           in os_Rename osf source_file_path new_location disk)
      | r \<Rightarrow> (bind_res r (\<lambda>_. Ok ()), disk))"

text \<open>\<open>Old_PrintBuckets\<close> returns the items it prints, those of the three buckets in turn.\<close>

definition Old_PrintBuckets :: "'db bolt \<Rightarrow> 'db FileSystem \<Rightarrow> (bytes \<times> bytes) list res" where
  "Old_PrintBuckets B fs =
     bind_res (bucket_items B (nodesDB fs) Tree) (\<lambda>nodes.
     bind_res (bucket_items B (nodesDB fs) FolderNameMapping) (\<lambda>names.
     bind_res (bucket_items B (nodesDB fs) SatelliteMapping) (\<lambda>sats.
       Ok (nodes @ names @ sats))))"

definition GetHomeNode :: "'db FileSystem \<Rightarrow> bytes" where
  "GetHomeNode fs = homeNode fs"

definition GetHomeDirLocation :: "'db FileSystem \<Rightarrow> string" where
  "GetHomeDirLocation fs = homeDirLocation fs"

definition GetNodeLength :: "'db FileSystem \<Rightarrow> nat" where
  "GetNodeLength fs = nodeLength fs"

section \<open>What is where after a move\<close>

lemma in_tree_refl [simp]: "in_tree p p"
  by (simp add: in_tree_def)

lemma in_tree_iff: "in_tree p q \<longleftrightarrow> q = p \<or> (\<exists>r. q = p @ CHR ''/'' # r)"
  by (auto simp: in_tree_def HasPrefix_def) (metis append_Cons append_Nil append_assoc append_take_drop_id)

text \<open>Neither of two paths is below the other.\<close>

definition apart :: "string \<Rightarrow> string \<Rightarrow> bool" where
  "apart p q \<longleftrightarrow> \<not> in_tree p q \<and> \<not> in_tree q p"

lemma slash_append_eq:
  "(a :: string) @ CHR ''/'' # r = b @ CHR ''/'' # s \<Longrightarrow> a = b \<or> (\<exists>t. b = a @ CHR ''/'' # t) \<or> (\<exists>t. a = b @ CHR ''/'' # t)"
  by (auto simp: append_eq_append_conv2 Cons_eq_append_conv append_eq_Cons_conv)

lemma apart_disjoint: "apart p q \<Longrightarrow> in_tree p r \<Longrightarrow> \<not> in_tree q r"
  by (auto simp: apart_def in_tree_iff dest: slash_append_eq)

lemma in_tree_drop: "in_tree p q \<Longrightarrow> q = p @ drop (length p) q"
  by (auto simp: in_tree_iff)

lemma in_tree_swap: "in_tree p q \<Longrightarrow> in_tree p' (p' @ drop (length p) q)"
  by (auto simp: in_tree_iff)

lemma moved_lookup:
  assumes "apart old new"
  shows "map_of (moved old new d) q =
    (if in_tree new q then map_of d (old @ drop (length new) q) else if in_tree old q then None else map_of d q)"
proof -
  have ne: "old \<noteq> new" using assms by (auto simp: apart_def)
  let ?f = "\<lambda>(q, e). (if in_tree old q then new @ drop (length old) q else q, e)"
  have "map_of (map ?f (filter (\<lambda>(q, _). \<not> in_tree new q) d)) q =
    (if in_tree new q then map_of d (old @ drop (length new) q) else if in_tree old q then None else map_of d q)"
  proof (induction d)
    case (Cons x d)
    obtain p e where x: "x = (p, e)" by (cases x)
    consider "in_tree new p" | "in_tree old p" "\<not> in_tree new p" | "\<not> in_tree old p" "\<not> in_tree new p" by blast
    then show ?case
    proof cases
      case 1
      then have "\<not> in_tree old p" using apart_disjoint [OF assms] by blast
      then have "in_tree new q \<Longrightarrow> p \<noteq> old @ drop (length new) q" by (auto intro: in_tree_swap)
      with 1 Cons.IH x show ?thesis by auto
    next
      case 2
      from in_tree_swap [OF 2(1), of new] have t: "in_tree new (new @ drop (length old) p)" .
      have "new @ drop (length old) p = q \<longleftrightarrow> in_tree new q \<and> p = old @ drop (length new) q"
        using t in_tree_drop [OF 2(1)] by (auto dest: in_tree_drop)
      with 2 Cons.IH x show ?thesis by auto
    next
      case 3
      have "in_tree new q \<Longrightarrow> p \<noteq> old @ drop (length new) q" using 3(1) by (auto intro: in_tree_swap)
      with 3 Cons.IH x show ?thesis by auto
    qed
  qed simp
  with ne show ?thesis by (simp add: moved_def)
qed

text \<open>\<open>relocated src dst ns d d'\<close>: the entries \<open>ns\<close> of \<open>src\<close> are, with all below them, in \<open>dst\<close>, the rest is where it was.\<close>

definition relocated :: "string \<Rightarrow> string \<Rightarrow> string set \<Rightarrow> disk \<Rightarrow> disk \<Rightarrow> bool" where
  "relocated src dst ns d d' \<longleftrightarrow> (\<forall>q. map_of d' q =
     (if \<exists>n \<in> ns. in_tree (dst @ ''/'' @ n) q then map_of d (src @ drop (length dst) q)
      else if \<exists>n \<in> ns. in_tree (src @ ''/'' @ n) q then None else map_of d q))"

lemma in_tree_parent: "in_tree (p @ ''/'' @ n) q \<Longrightarrow> in_tree p q"
  by (auto simp: in_tree_iff)

lemma apart_below: "apart p q \<Longrightarrow> apart (p @ ''/'' @ m) (q @ ''/'' @ n)"
  unfolding apart_def using apart_disjoint [of p q] by (metis apart_def in_tree_parent in_tree_refl)

lemma in_tree_names:
  assumes "in_tree (p @ ''/'' @ m) (p @ ''/'' @ n)" "CHR ''/'' \<notin> set n"
  shows "m = n"
  using assms by (auto simp: in_tree_iff)

lemma in_tree_two_names:
  assumes "in_tree (p @ ''/'' @ m) q" "in_tree (p @ ''/'' @ n) q" "CHR ''/'' \<notin> set m" "CHR ''/'' \<notin> set n"
  shows "m = n"
  using assms by (auto simp: in_tree_iff dest: slash_append_eq)

lemma move_entries_all:
  assumes "\<And>c d. osf c d = None" "cs \<noteq> []" "ds \<noteq> []" "\<forall>c \<in> set (cs @ ds). simple c" "apart (abs_path cs) (abs_path ds)"
    and "distinct ns" "\<forall>n \<in> set ns. simple n" "map_of d (abs_path ds) = Some Directory"
    and "\<forall>n \<in> set ns. os_exists d (abs_path cs @ ''/'' @ n) \<and> \<not> os_exists d (abs_path ds @ ''/'' @ n)"
  shows "\<exists>d'. move_entries osf (abs_path cs) (abs_path ds) ns d = (Ok (), d') \<and> relocated (abs_path cs) (abs_path ds) (set ns) d d'"
  using assms(6-9)
proof (induction ns arbitrary: d)
  case Nil
  then show ?case by (simp add: relocated_def)
next
  case (Cons n ns)
  let ?s = "abs_path cs" and ?t = "abs_path ds"
  let ?old = "?s @ ''/'' @ n" and ?new = "?t @ ''/'' @ n"
  have n: "simple n" "n \<notin> set ns" using Cons.prems by auto
  have slash: "CHR ''/'' \<notin> set m" if "m \<in> set (n # ns)" for m using Cons.prems(2) that by (auto simp: simple_def)
  have single: "abs_path [n] = ''/'' @ n" by (simp add: abs_path_def)
  have J: "Join [?s, n] = ?old" "Join [?t, n] = ?new"
    using Join_abs [of cs "[n]"] Join_abs [of ds "[n]"] assms(2-4) n(1) by (simp_all add: abs_path_append single)
  have "Dir (abs_path (ds @ [n])) = ?t" using Dir_abs [of ds n] assms(3,4) n(1) by simp
  then have D: "Dir ?new = ?t" using assms(3) by (simp add: abs_path_append single)
  have ap: "apart ?old ?new" by (rule apart_below [OF assms(5)])
  have "rename_error ?old ?new d = None"
    using Cons.prems(3,4) ap D by (auto simp: rename_error_def apart_def os_exists_def)
  then have r: "os_Rename osf ?old ?new d = (Ok (), moved ?old ?new d)" by (simp add: os_Rename_def assms(1))
  note look = moved_lookup [OF ap, of d] moved_lookup [OF ap, of d, simplified]
  have elsewhere: "map_of (moved ?old ?new d) (?s @ ''/'' @ m) = map_of d (?s @ ''/'' @ m)"
    "map_of (moved ?old ?new d) (?t @ ''/'' @ m) = map_of d (?t @ ''/'' @ m)" if "m \<in> set ns" for m
  proof -
    have m: "CHR ''/'' \<notin> set m" "m \<noteq> n" using slash [of m] that n(2) by auto
    have no: "\<not> in_tree ?old (?s @ ''/'' @ m)" "\<not> in_tree ?new (?t @ ''/'' @ m)" using in_tree_names [of _ n m] m by blast+
    have "\<not> in_tree ?new (?s @ ''/'' @ m)" "\<not> in_tree ?old (?t @ ''/'' @ m)"
      using apart_disjoint [OF assms(5)] by (meson in_tree_parent in_tree_refl)+
    with no show "map_of (moved ?old ?new d) (?s @ ''/'' @ m) = map_of d (?s @ ''/'' @ m)"
      "map_of (moved ?old ?new d) (?t @ ''/'' @ m) = map_of d (?t @ ''/'' @ m)" by (simp_all add: look)
  qed
  have "\<not> in_tree ?new ?t" "\<not> in_tree ?old ?t"
    using apart_disjoint [OF assms(5)] by (auto simp: in_tree_iff)
  then have "map_of (moved ?old ?new d) ?t = Some Directory" using Cons.prems(3) by (simp add: look)
  then obtain d' where d': "move_entries osf ?s ?t ns (moved ?old ?new d) = (Ok (), d')" "relocated ?s ?t (set ns) (moved ?old ?new d) d'"
    using Cons.IH [of "moved ?old ?new d"] Cons.prems elsewhere by (auto simp: os_exists_def)
  have "relocated ?s ?t (set (n # ns)) d d'"
    unfolding relocated_def
  proof (rule allI)
    fix q
    note q = d'(2) [unfolded relocated_def, rule_format, of q]
    have apart: "in_tree ?t q \<Longrightarrow> \<not> in_tree ?s q" using apart_disjoint [OF assms(5)] by blast
    consider (here) "in_tree ?new q" | (there) m where "m \<in> set ns" "in_tree (?t @ ''/'' @ m) q" "\<not> in_tree ?new q"
      | (neither) "\<forall>m \<in> set (n # ns). \<not> in_tree (?t @ ''/'' @ m) q" by auto
    then show "map_of d' q = (if \<exists>m \<in> set (n # ns). in_tree (?t @ ''/'' @ m) q then map_of d (?s @ drop (length ?t) q)
        else if \<exists>m \<in> set (n # ns). in_tree (?s @ ''/'' @ m) q then None else map_of d q)"
    proof cases
      case here
      have "\<not> in_tree (?t @ ''/'' @ m) q" "\<not> in_tree (?s @ ''/'' @ m) q" if "m \<in> set ns" for m
        using in_tree_two_names [OF here, of m] slash [of m] slash [of n] that n(2) apart here in_tree_parent by auto
      then have "map_of d' q = map_of d (?old @ drop (length ?new) q)" using q here by (simp add: look)
      moreover have "?old @ drop (length ?new) q = ?s @ drop (length ?t) q" using here by (auto simp: in_tree_iff)
      ultimately show ?thesis using here by auto
    next
      case (there m)
      have "in_tree (?s @ ''/'' @ m) (?s @ drop (length ?t) q)" using there(2) by (auto simp: in_tree_iff)
      then have "\<not> in_tree ?old (?s @ drop (length ?t) q)" "\<not> in_tree ?new (?s @ drop (length ?t) q)"
        using in_tree_two_names [of ?s m _ n] slash [of m] slash [of n] there(1) n(2) apart_disjoint [OF assms(5)] in_tree_parent
        by (auto simp del: append_Cons) blast
      then have "map_of d' q = map_of d (?s @ drop (length ?t) q)" using q there by (auto simp: look)
      then show ?thesis using there by auto
    next
      case neither
      then show ?thesis using q by (auto simp: look)
    qed
  qed
  with d'(1) r show ?case by (auto simp: J)
qed

text \<open>
  Moving a directory. When no call of the operating system fails and no entry of the source is in the
  destination yet, every entry of the source arrives in the destination with all below it, none stays
  behind, and nothing else on the disk changes.
\<close>

lemma move_folder_all:
  assumes "\<And>c d. osf c d = None" "cs \<noteq> []" "ds \<noteq> []" "\<forall>c \<in> set (cs @ ds). simple c" "apart (abs_path cs) (abs_path ds)"
    and "map_of d (abs_path cs) = Some Directory" "map_of d (abs_path ds) = Some Directory"
    and "\<forall>n \<in> set (dir_names (abs_path cs) d). simple n \<and> \<not> os_exists d (abs_path ds @ ''/'' @ n)"
  shows "\<exists>d'. MoveFolder osf (abs_path cs) (abs_path ds) d = (Ok (), d') \<and>
    relocated (abs_path cs) (abs_path ds) (set (dir_names (abs_path cs) d)) d d'"
proof -
  obtain l where l: "os_ReadDir osf (abs_path cs) d = Ok l" using assms(1,6) by (simp add: os_ReadDir_def)
  have "\<not> IsNotExist osf (abs_path cs) d" "\<not> IsNotExist osf (abs_path ds) d"
    using assms(6,7) by (simp_all add: IsNotExist_def os_exists_def)
  then have "MoveFolder osf (abs_path cs) (abs_path ds) d = move_entries osf (abs_path cs) (abs_path ds) (dir_names (abs_path cs) d) d"
    using ReadDir_Ok(2) [OF l] by (simp add: MoveFolder_def l)
  moreover have "\<forall>n \<in> set (dir_names (abs_path cs) d). os_exists d (abs_path cs @ ''/'' @ n)" by (simp add: dir_names_iff)
  ultimately show ?thesis
    using move_entries_all [of osf cs ds "dir_names (abs_path cs) d" d] assms dir_names_distinct by auto
qed

text \<open>A second entry that cannot be moved leaves the first one moved: the disk is not put back.\<close>

lemma move_folder_half_done:
  "MoveFolder (\<lambda>c d. None) ''/a'' ''/b''
     [(''/a'', Directory), (''/b'', Directory), (''/a/x'', File ''1''), (''/a/y'', File ''2''), (''/b/y'', Directory)] =
   (Err ''[Filesystem][MoveFolder] rename /a/y /b/y: file exists'',
    [(''/a'', Directory), (''/b'', Directory), (''/b/x'', File ''1''), (''/a/y'', File ''2''), (''/b/y'', Directory)])"
  by code_simp

end
