(* ===== verification/Receiver_Upkeep.thy ===== *)
theory Receiver_Upkeep
  imports Receiver_Folders Hub_Commands Satellite_Sync
begin

text \<open>
  The rest of the two receivers: asking the first one to delete a content (\<^verbatim>\<open>deleteAPI\<close> of
  \<^verbatim>\<open>src/satdata_mstore.go\<close>), the loop that polls the second one (\<^verbatim>\<open>pollNoovo\<close> of
  \<^verbatim>\<open>src/satdata_noovo.go\<close>), and the two functions that run a stored answer of a receiver through the
  code that handles it (\<^verbatim>\<open>testMstore\<close>, \<^verbatim>\<open>dummyTest\<close>). What they print is not modelled.
\<close>

section \<open>Deleting at the receiver\<close>

text \<open>The group of \<^verbatim>\<open>(?s)<body>(.*)</body>\<close>, \<open>None\<close> when the expression does not match.\<close>

definition body_group :: "string \<Rightarrow> string option" where
  "body_group s =
     (case after_first ''<body>'' s of
        None \<Rightarrow> None
      | Some r \<Rightarrow> map_option rev (after_first (rev ''</body>'') (rev r)))"

text \<open>An answer without a body, or with fewer than three words in it, is indexed out of range.\<close>

definition deleteAPI :: "(string \<Rightarrow> error + bytes) \<Rightarrow> string \<Rightarrow> unit res" where
  "deleteAPI get cid =
     (case get (''http://localhost:8134/deletecontent/'' @ cid) of
        Inl err \<Rightarrow> Err err
      | Inr response \<Rightarrow>
          (case body_group response of
             None \<Rightarrow> Panic
           | Some body \<Rightarrow>
               (let status = Fields (Trim body (CHR 10)) in
                if length status \<le> 2 then Panic
                else if status ! 2 = ''OK'' then Ok () else Err ''Could not Delete from Mstore db'')))"

section \<open>Polling the second receiver\<close>

text \<open>One turn of the loop; an error is printed and the loop goes on.\<close>

definition pollNoovo_pass ::
    "'db relay_env \<Rightarrow> (error + bytes) \<Rightarrow> (bytes \<Rightarrow> VodObj list \<times> error option) \<Rightarrow> 'db relay_state \<Rightarrow> 'db relay_state res" where
  "pollNoovo_pass E response decode s = bind_res (callNoovoAPI E response decode s) (\<lambda>(err, s). Ok s)"

section \<open>Stored answers\<close>

definition testMstore :: "'db sat_env \<Rightarrow> os_faults \<Rightarrow> disk \<Rightarrow> 'db sat_state \<Rightarrow> (error option \<times> 'db sat_state) res" where
  "testMstore S osf disk st =
     bind_res (PrintBuckets (ca_bolt (se_capi S)) (ss_fs st)) (\<lambda>_.
     case os_ReadFile osf ''test/mstore_test.json'' disk of
       Err err \<Rightarrow> Ok (Some err, st)
     | r \<Rightarrow> bind_res r (\<lambda>bytevalue.
         case dec_vod S bytevalue of
           (_, Some err) \<Rightarrow> Ok (Some err, st)
         | (vod, None) \<Rightarrow>
             if vod_Status vod = ''15'' then Ok (Some ''No metadata available'', st)
             else bind_res (getMstoreFiles S vod [] [] st) (\<lambda>((_, err), st).
               case err of
                 Some err \<Rightarrow> Ok (Some err, st)
               | None \<Rightarrow> bind_res (PrintBuckets (ca_bolt (se_capi S)) (ss_fs st)) (\<lambda>_. Ok (None, st)))))"

text \<open>
  \<^verbatim>\<open>dummyTest\<close> takes the contents of one source only, and joins the ancestors with a slash where
  \<^verbatim>\<open>callNoovoAPI\<close> does not. The decoder also yields the source of every content. The error of reading the
  file is dropped, as is that of a download.
\<close>

definition dummy_content :: "'db relay_env \<Rightarrow> string \<times> VodObj \<Rightarrow> 'db relay_state \<Rightarrow> 'db relay_state res" where
  "dummy_content E = (\<lambda>(src, vod) s.
     if src = ''mstore'' \<and> matches_BINE (no_MovieID vod) then
       (let heirarchy =
              (if no_AncestorIds vod \<noteq> [] then no_MediaHouse vod @ ''/'' @ no_AncestorIds vod @ ''/'' @ no_MediaId vod
               else no_MediaHouse vod @ ''/'' @ no_MediaId vod)
        in case downloadContent E vod heirarchy s of
             (Panic, _) \<Rightarrow> Panic
           | (Diverge, _) \<Rightarrow> Diverge
           | (_, s) \<Rightarrow> Ok s)
     else Ok s)"

definition dummyTest ::
    "'db relay_env \<Rightarrow> (bytes \<Rightarrow> (string \<times> VodObj) list \<times> error option) \<Rightarrow> 'db relay_state \<Rightarrow>
     (error option \<times> 'db relay_state) res" where
  "dummyTest E decode = (\<lambda>(n, disk, fs).
     case os_Open (re_osf E) ''test/sampleResp.json'' disk of
       Err err \<Rightarrow> Ok (Some err, n, disk, fs)
     | r \<Rightarrow> bind_res r (\<lambda>file.
         case decode (case file of None \<Rightarrow> [] | Some bytevalue \<Rightarrow> bytevalue) of
           (_, Some err) \<Rightarrow> Ok (Some err, n, disk, fs)
         | (vods, None) \<Rightarrow> bind_res (fold_res (dummy_content E) vods (n, disk, fs)) (\<lambda>s. Ok (None, s))))"

section \<open>Properties\<close>

lemma after_first_append: "after_first p s = Some r \<Longrightarrow> \<exists>q. s = q @ p @ r"
proof (induction p s rule: after_first.induct)
  case (2 p c cs)
  show ?case
  proof (cases "HasPrefix (c # cs) p")
    case True
    then have "c # cs = [] @ p @ drop (length p) (c # cs)"
      by (metis HasPrefix_def append_Nil append_take_drop_id)
    with True 2(2) show ?thesis by (metis after_first.simps(2) option.inject)
  next
    case False
    with 2 obtain q where "cs = q @ p @ r" by auto
    then have "c # cs = (c # q) @ p @ r" by simp
    then show ?thesis by blast
  qed
qed (auto split: if_splits)

text \<open>The body of an answer lies between the two tags, and it reaches up to the last closing one.\<close>

lemma body_group_between:
  assumes "body_group s = Some b"
  shows "\<exists>pre post. s = pre @ ''<body>'' @ b @ ''</body>'' @ post"
proof -
  obtain r where r: "after_first ''<body>'' s = Some r" using assms by (auto simp: body_group_def split: option.splits)
  then obtain b' where b': "after_first (rev ''</body>'') (rev r) = Some b'" "b = rev b'"
    using assms by (auto simp: body_group_def)
  obtain pre where pre: "s = pre @ ''<body>'' @ r" using after_first_append [OF r] by blast
  obtain q where "rev r = q @ rev ''</body>'' @ b'" using after_first_append [OF b'(1)] by blast
  then have "rev (rev r) = rev (q @ rev ''</body>'' @ b')" by (rule arg_cong)
  then have "r = b @ ''</body>'' @ rev q" by (simp only: rev_append rev_rev_ident b'(2) append_assoc)
  with pre show ?thesis by auto
qed

text \<open>
  The receiver is believed only when it says so: a success means that it answered, with \<^verbatim>\<open>OK\<close> as the third
  word of the body.
\<close>

lemma delete_confirmed:
  assumes "deleteAPI get cid = Ok ()"
  obtains pre b post where
    "get (''http://localhost:8134/deletecontent/'' @ cid) = Inr (pre @ ''<body>'' @ b @ ''</body>'' @ post)"
    "2 < length (Fields (Trim b (CHR 10)))" "Fields (Trim b (CHR 10)) ! 2 = ''OK''"
proof -
  obtain s b where s: "get (''http://localhost:8134/deletecontent/'' @ cid) = Inr s" "body_group s = Some b"
      "\<not> length (Fields (Trim b (CHR 10))) \<le> 2" "Fields (Trim b (CHR 10)) ! 2 = ''OK''"
    using assms by (auto simp: deleteAPI_def Let_def split: sum.splits option.splits if_splits)
  obtain pre post where "s = pre @ ''<body>'' @ b @ ''</body>'' @ post" using body_group_between [OF s(2)] by blast
  with s that [of pre b post] show thesis by (simp only: not_le)
qed

lemma delete_answers:
  "deleteAPI (\<lambda>_. Inr ''<html><body>DELETE 7 OK</body></html>'') ''7'' = Ok ()"
  "deleteAPI (\<lambda>_. Inr ''<html><body>DELETE 7 FAILED</body></html>'') ''7'' = Err ''Could not Delete from Mstore db''"
  "deleteAPI (\<lambda>_. Inr ''<html><body>OK</body></html>'') ''7'' = Panic"
  "deleteAPI (\<lambda>_. Inr ''busy'') ''7'' = Panic"
  by code_simp+

text \<open>A receiver that is down, or answers what is no list of contents, changes nothing.\<close>

lemma poll_down:
  "pollNoovo_pass E (Inl err) decode s = Ok s"
  "snd (decode body) = Some err \<Longrightarrow> pollNoovo_pass E (Inr body) decode s = Ok s"
  by (cases "decode body"; cases s; simp add: pollNoovo_pass_def callNoovoAPI_def)+

end
