(* ===== verification/Pending_Reports.thy ===== *)
theory Pending_Reports
  imports Hub_Run
begin

text \<open>
  What the pending bucket is for: a change of the contents is told to the cloud, at least once, however the
  activities of the hub take turns and whatever fails. Two things are kept in every run: each entry of the
  bucket is a request stored under its own key (\<open>queue_ok\<close>), and a content whose report waits in the
  bucket waits there until the cloud has accepted a report of it (\<open>awaiting\<close>, \<open>reported_since\<close>).
\<close>

section \<open>The entries of the bucket\<close>

text \<open>The key a request is stored under: command requests by the id of the command, the others by their own.\<close>

definition request_key :: "ApiData \<Rightarrow> string" where
  "request_key d = (case ApiType d of FilterUpdated \<Rightarrow> prop_value (Properties d) ''commandId'' | _ \<Rightarrow> ApiId d)"

abbreviation request_of :: "'db capi \<Rightarrow> bytes \<Rightarrow> ApiData" where
  "request_of E b \<equiv> fst (unmarshal (ca_json E) b)"

abbreviation commands_in :: "log_state \<Rightarrow> (MessageSubType \<times> bool) list" where
  "commands_in \<equiv> calls_of TelemetryCommandMessage"

text \<open>What JSON can carry does not depend on the flags and the counter of a request.\<close>

definition request_codec :: "'db capi \<Rightarrow> (ApiData \<Rightarrow> bool) \<Rightarrow> bool" where
  "request_codec E valid \<longleftrightarrow> json_spec (ca_json E) valid \<and> (\<forall>d d'. valid d \<longrightarrow> variant d d' \<longrightarrow> valid d')"

definition queue_ok :: "'db capi \<Rightarrow> (ApiData \<Rightarrow> bool) \<Rightarrow> 'db FileSystem \<Rightarrow> bool" where
  "queue_ok E valid fs \<longleftrightarrow> (\<forall>k b. pending (ca_bolt E) fs k = Some b \<longrightarrow>
     valid (request_of E b) \<and> request_key (request_of E b) = k)"

text \<open>
  \<open>moves E valid R W fs fs'\<close>: an entry of the bucket stays, is removed if \<open>R\<close> allows it for its key, or is
  replaced by a request that \<open>W\<close> allows.
\<close>

definition moves :: "'db capi \<Rightarrow> (ApiData \<Rightarrow> bool) \<Rightarrow> (string \<Rightarrow> bool) \<Rightarrow> (ApiData \<Rightarrow> bool) \<Rightarrow> 'db FileSystem \<Rightarrow> 'db FileSystem \<Rightarrow> bool" where
  "moves E valid R W fs fs' \<longleftrightarrow> (\<forall>k.
     pending (ca_bolt E) fs' k = pending (ca_bolt E) fs k \<or> R k \<and> pending (ca_bolt E) fs' k = None \<or>
     (\<exists>d b. W d \<and> valid d \<and> request_key d = k \<and> marshal (ca_json E) d = Inr b \<and> pending (ca_bolt E) fs' k = Some b))"

definition grown :: "log_state \<Rightarrow> log_state \<Rightarrow> bool" where
  "grown lg lg' \<longleftrightarrow> (\<exists>new. commands_in lg' = commands_in lg @ new)"

lemma moves_refl [simp]: "moves E valid R W fs fs"
  by (simp add: moves_def)

lemma moves_trans: "moves E valid R W fs fs1 \<Longrightarrow> moves E valid R W fs1 fs2 \<Longrightarrow> moves E valid R W fs fs2"
  unfolding moves_def by metis

lemma moves_mono:
  "moves E valid R W fs fs' \<Longrightarrow> (\<And>k. R k \<Longrightarrow> R' k) \<Longrightarrow> (\<And>d. W d \<Longrightarrow> W' d) \<Longrightarrow> moves E valid R' W' fs fs'"
  unfolding moves_def by metis

lemma grown_refl [simp]: "grown lg lg"
  by (simp add: grown_def)

lemma grown_trans: "grown lg lg1 \<Longrightarrow> grown lg1 lg2 \<Longrightarrow> grown lg lg2"
  by (auto simp: grown_def)

lemma request_codecD:
  assumes "request_codec E valid" "valid d"
  shows "\<exists>b. marshal (ca_json E) d = Inr b" "marshal (ca_json E) d = Inr b \<Longrightarrow> request_of E b = d"
    "variant d d' \<Longrightarrow> valid d'"
  using assms json_spec.marshal_valid [of "ca_json E" valid d b] json_spec.round_trip [of "ca_json E" valid d]
  by (auto simp: request_codec_def)

lemma variant_key: "variant d d' \<Longrightarrow> request_key d' = request_key d"
  by (simp add: variant_def request_key_def split: Type.split)

lemma moves_queue_ok:
  assumes "request_codec E valid" "moves E valid R W fs fs'" "queue_ok E valid fs"
  shows "queue_ok E valid fs'"
  unfolding queue_ok_def
proof (intro allI impI)
  fix k b assume b: "pending (ca_bolt E) fs' k = Some b"
  from assms(2) [unfolded moves_def, rule_format, of k] b
  consider "pending (ca_bolt E) fs k = Some b" | d where "valid d" "request_key d = k" "marshal (ca_json E) d = Inr b" by auto
  then show "valid (request_of E b) \<and> request_key (request_of E b) = k"
  proof cases
    case 1
    with assms(3) show ?thesis by (simp add: queue_ok_def)
  next
    case 2
    with request_codecD(2) [OF assms(1) 2(1,3)] show ?thesis by simp
  qed
qed

section \<open>Reports\<close>

definition report_name :: "Type \<Rightarrow> TelemetryCommandName" where
  "report_name ty = (if ty = Deleted then ContentDeleted else ContentDownloaded)"

definition reported_content :: "Type \<Rightarrow> string \<Rightarrow> string" where
  "reported_content ty k = (if ty = Deleted then TrimPrefix k ''DL_'' else k)"

definition reported_since :: "'db capi \<Rightarrow> Type \<Rightarrow> string \<Rightarrow> log_state \<Rightarrow> log_state \<Rightarrow> bool" where
  "reported_since E ty k lg0 lg \<longleftrightarrow> (\<exists>new c. commands_in lg = commands_in lg0 @ new \<and>
     ContentId c = reported_content ty k \<and> told (content_messages E (report_name ty)) new c)"

definition awaiting :: "'db capi \<Rightarrow> Type \<Rightarrow> string \<Rightarrow> 'db FileSystem \<Rightarrow> bool" where
  "awaiting E ty k fs \<longleftrightarrow> (\<exists>b. pending (ca_bolt E) fs k = Some b \<and> ApiType (request_of E b) = ty \<and>
     SendCloudTelemetry (request_of E b))"

lemma reported_grown: "reported_since E ty k lg0 lg \<Longrightarrow> grown lg lg' \<Longrightarrow> reported_since E ty k lg0 lg'"
  by (fastforce simp: reported_since_def grown_def told_def)

lemma reported_before: "grown lg0 lg1 \<Longrightarrow> reported_since E ty k lg1 lg \<Longrightarrow> reported_since E ty k lg0 lg"
  by (fastforce simp: reported_since_def grown_def told_def)

lemma moves_awaiting:
  assumes "request_codec E valid" "moves E valid R W fs fs'" "awaiting E ty k fs" "\<not> R k"
    and "\<And>d. W d \<Longrightarrow> request_key d = k \<Longrightarrow> ApiType d = ty \<and> SendCloudTelemetry d"
  shows "awaiting E ty k fs'"
proof -
  from assms(2) [unfolded moves_def, rule_format, of k] assms(4)
  consider "pending (ca_bolt E) fs' k = pending (ca_bolt E) fs k"
    | d b where "W d" "valid d" "request_key d = k" "marshal (ca_json E) d = Inr b" "pending (ca_bolt E) fs' k = Some b" by auto
  then show ?thesis
  proof cases
    case 1
    with assms(3) show ?thesis by (simp add: awaiting_def)
  next
    case (2 d b)
    with request_codecD(2) [OF assms(1) 2(2,4)] assms(5) [OF 2(1,3)] show ?thesis by (simp add: awaiting_def)
  qed
qed

section \<open>Writing to the bucket\<close>

context cloud_env
begin

lemma put_pending_value:
  assumes "fs_update (ca_bolt E) (\<lambda>db. wrap_err p (bucket_put (ca_bolt E) PendingAPIRequestMapping i v db)) fs = (r, fs')"
  shows "pending (ca_bolt E) fs' k = pending (ca_bolt E) fs k \<or> k = i \<and> pending (ca_bolt E) fs' k = Some v"
  using assms
proof (cases rule: fs_update_cases)
  case applied
  then have "bucket_put (ca_bolt E) PendingAPIRequestMapping i v (nodesDB fs) = Ok (nodesDB fs')" by simp
  from bucket_put_Ok(1) [OF this, of PendingAPIRequestMapping k] show ?thesis by auto
qed simp

lemma put_logged_value:
  assumes "put_logged (ca_bolt E) PendingAPIRequestMapping i v db = Ok db'"
  shows "bolt_get (ca_bolt E) db' PendingAPIRequestMapping k = bolt_get (ca_bolt E) db PendingAPIRequestMapping k \<or>
    k = i \<and> bolt_get (ca_bolt E) db' PendingAPIRequestMapping k = Some v"
  using assms bucket_put_Ok(1) [of PendingAPIRequestMapping i v db db' PendingAPIRequestMapping k]
  by (auto simp: put_logged_def split: res.splits if_splits)

lemma AddContent_value:
  assumes "AddContent (ca_bolt E) i v fs = (r, fs')"
  shows "pending (ca_bolt E) fs' k = pending (ca_bolt E) fs k \<or> k = i \<and> pending (ca_bolt E) fs' k = Some v"
  using assms unfolding AddContent_def
proof (cases rule: fs_update_cases)
  case applied
  from put_logged_value [OF applied(2), of k] show ?thesis by simp
qed simp

lemma put_contents_value:
  "put_contents (ca_bolt E) ids data db = Ok db' \<Longrightarrow>
   bolt_get (ca_bolt E) db' PendingAPIRequestMapping k = bolt_get (ca_bolt E) db PendingAPIRequestMapping k \<or>
   (\<exists>v. (k, v) \<in> set (zip ids data) \<and> bolt_get (ca_bolt E) db' PendingAPIRequestMapping k = Some v)"
proof (induction ids arbitrary: data db)
  case (Cons i ids)
  then obtain d data' db1 where "data = d # data'" "put_logged (ca_bolt E) PendingAPIRequestMapping i d db = Ok db1"
      "put_contents (ca_bolt E) ids data' db1 = Ok db'" by (cases data) auto
  with Cons.IH [of data' db1] put_logged_value [of i d db db1 k] show ?case by auto
qed simp

lemma AddContents_value:
  assumes "AddContents (ca_bolt E) ids data fs = (r, fs')"
  shows "pending (ca_bolt E) fs' k = pending (ca_bolt E) fs k \<or>
    (\<exists>v. (k, v) \<in> set (zip ids data) \<and> pending (ca_bolt E) fs' k = Some v)"
  using assms unfolding AddContents_def
proof (cases rule: fs_update_cases)
  case applied
  from put_contents_value [OF applied(2), of k] show ?thesis by simp
qed simp

lemma DeletePending_value:
  assumes "DeletePendingAPIRequestEntries (ca_bolt E) ks fs = (r, fs')"
  shows "pending (ca_bolt E) fs' k = pending (ca_bolt E) fs k \<or> k \<in> set ks \<and> pending (ca_bolt E) fs' k = None"
  using assms unfolding DeletePendingAPIRequestEntries_def
proof (cases rule: fs_update_cases)
  case applied
  then have "fold_res (bucket_delete (ca_bolt E) PendingAPIRequestMapping) ks (nodesDB fs) = Ok (nodesDB fs')" by simp
  from fold_delete_Ok(1) [OF this, of PendingAPIRequestMapping k] show ?thesis by auto
qed simp

text \<open>Writing one request, and removing entries, as \<open>moves\<close>.\<close>

lemma put_moves:
  assumes "\<And>k. pending (ca_bolt E) fs' k = pending (ca_bolt E) fs k \<or> k = i \<and> pending (ca_bolt E) fs' k = Some v"
    and "marshal (ca_json E) d = Inr v" "valid d" "request_key d = i" "W d"
  shows "moves E valid R W fs fs'"
  unfolding moves_def using assms by blast

lemma delete_moves:
  "DeletePendingAPIRequestEntries (ca_bolt E) ks fs = (r, fs') \<Longrightarrow> (\<And>k. k \<in> set ks \<Longrightarrow> R k) \<Longrightarrow> moves E valid R W fs fs'"
  unfolding moves_def using DeletePending_value by blast

text \<open>What a batch leaves in the bucket: of a batch that failed, the requests with their counter increased.\<close>

lemma requeue_value:
  assumes req: "AddApiDataBackToPendingAPIBucketOrDelete E err ptrs flag store st = Ok (store', st')"
    and ptr: "pointers ptrs store" and codec: "request_codec E valid" "\<forall>j \<in> set ptrs. valid (store ! j)"
  shows "pending (ca_bolt E) (ca_fs st') k = pending (ca_bolt E) (ca_fs st) k \<or> pending (ca_bolt E) (ca_fs st') k = None \<or>
    (\<exists>j \<in> set ptrs. \<exists>b. k = ApiId (store ! j) \<and> marshal (ca_json E) (retried (store ! j)) = Inr b \<and>
      pending (ca_bolt E) (ca_fs st') k = Some b)"
  using req
proof (cases rule: requeue_cases)
  case (sent r fs)
  from DeletePending_value [OF sent(3), of k] sent(5) show ?thesis by auto
next
  case (failed e r fs)
  have nth: "store' ! j = retried (store ! j)" if "j \<in> set ptrs" for j
    using failed(2) that ptr by (simp add: IncrementRetryCount_nth pointers_def)
  have enc: "\<exists>b. marshal (ca_json E) (retried (store ! j)) = Inr b" if "j \<in> set ptrs" for j
    using that codec request_codecD(1,3) [OF codec(1)] by (metis variant_refl variant_retried)
  define bytes where "bytes j = projr (marshal (ca_json E) (retried (store ! j)))" for j
  have "\<forall>j \<in> set ptrs. marshal (ca_json E) (store' ! j) = Inr (bytes j)" using enc nth by (fastforce simp: bytes_def)
  then have data: "GetDataArray (ca_json E) ptrs store' = map bytes ptrs"
    unfolding GetDataArray_def by (rule marshal_all_map)
  have ids: "GetIds ptrs store' = map (\<lambda>j. ApiId (store ! j)) ptrs" using failed(2) ptr by (simp add: GetIds_increment)
  have zip: "set (zip (map (\<lambda>j. ApiId (store ! j)) ptrs) (map bytes ptrs)) = (\<lambda>j. (ApiId (store ! j), bytes j)) ` set ptrs"
    by (auto simp: zip_map1 zip_map2 zip_same_conv_map image_iff)
  have marshalled: "marshal (ca_json E) (retried (store ! j)) = Inr (bytes j)" if "j \<in> set ptrs" for j
    using enc [OF that] by (auto simp: bytes_def)
  from AddContents_value [OF failed(3) [unfolded data ids], of k] show ?thesis
    unfolding zip using marshalled failed(5) by auto
qed

end

section \<open>A pass over one kind of requests\<close>

context batch_channels
begin

text \<open>The content of request \<open>j\<close> was part of a command the cloud accepted since the loop started.\<close>

definition told_cloud :: "ApiData list \<Rightarrow> log_state \<Rightarrow> nat \<Rightarrow> log_state \<Rightarrow> bool" where
  "told_cloud a0 lg0 j lg \<longleftrightarrow> (\<exists>new. cloud_log lg = cloud_log lg0 @ new \<and> told cloud_msgs new (bk_content K (a0 ! j)))"

text \<open>
  What the loop has written into the bucket: its requests, up to flags and counter, and still to be sent to
  the cloud unless the cloud was told.
\<close>

definition stored_inv :: "ApiData list \<Rightarrow> 'db capi_state \<Rightarrow> 'db batch_state \<Rightarrow> bool" where
  "stored_inv a0 st0 bs \<longleftrightarrow> (\<forall>k b. pending (ca_bolt E) (ca_fs (bs_st bs)) k = Some b \<longrightarrow>
     pending (ca_bolt E) (ca_fs st0) k = Some b \<or>
     (\<exists>j < length a0. \<exists>s. k = ApiId (a0 ! j) \<and> variant (a0 ! j) s \<and> marshal (ca_json E) s = Inr b \<and>
        (SendCloudTelemetry (a0 ! j) \<longrightarrow> SendCloudTelemetry s \<or> told_cloud a0 (ca_logst st0) j (ca_logst (bs_st bs)))))"

lemma told_cloud_append:
  "told_cloud a0 lg0 j lg \<Longrightarrow> cloud_log lg' = cloud_log lg @ extra \<Longrightarrow> told_cloud a0 lg0 j lg'"
  by (auto simp: told_cloud_def intro: told_append)

text \<open>One flush, of either channel: \<open>st\<close> is the state after the send.\<close>

lemma stored_requeue:
  assumes req: "AddApiDataBackToPendingAPIBucketOrDelete E err ptrs flag (bs_store bs) st = Ok (store', st')"
    and flag: "is_flag flag" and inv: "batch_inv a0 st0 i bs" and stored: "stored_inv a0 st0 bs"
    and slice: "slice_inv a0 due content i ptrs batch"
    and codec: "request_codec E valid" "\<forall>d \<in> set a0. valid d"
    and sent: "ca_fs st = ca_fs (bs_st bs)" "cloud_log (ca_logst st) = cloud_log (ca_logst (bs_st bs)) @ extra"
  shows "stored_inv a0 st0 (bs'\<lparr>bs_st := st'\<rparr>)"
proof -
  have store: "store_inv a0 i (bs_store bs)" using inv by (simp add: batch_inv_def)
  note ptr = slice_inv_pointers [OF slice store]
  have lg: "cloud_log (ca_logst st') = cloud_log (ca_logst (bs_st bs)) @ extra"
    using requeue_store(3) [OF req flag ptr] sent(2) by simp
  have at: "j < length a0" "variant (a0 ! j) (bs_store bs ! j)" "ApiId (bs_store bs ! j) = ApiId (a0 ! j)" if "j \<in> set ptrs" for j
    using that ptr store store_inv_ApiId [OF store] by (auto simp: pointers_def store_inv_def)
  have valids: "\<forall>j \<in> set ptrs. valid (bs_store bs ! j)" using at codec(2) request_codecD(3) [OF codec(1)] nth_mem by blast
  have told: "told_cloud a0 (ca_logst st0) j (ca_logst st')"
    if "j < length a0" "SendCloudTelemetry (a0 ! j)" "\<not> SendCloudTelemetry (bs_store bs ! j)" for j
  proof (rule told_cloud_append [OF _ lg])
    show "told_cloud a0 (ca_logst st0) j (ca_logst (bs_st bs))"
      using inv that by (auto simp: batch_inv_def log_inv_def told_cloud_def)
  qed
  show ?thesis unfolding stored_inv_def
  proof (intro allI impI)
    fix k b assume b: "pending (ca_bolt E) (ca_fs (bs_st (bs'\<lparr>bs_st := st'\<rparr>))) k = Some b"
    from requeue_value [OF req ptr codec(1) valids, of k] b sent(1)
    consider "pending (ca_bolt E) (ca_fs (bs_st bs)) k = Some b"
      | j where "j \<in> set ptrs" "k = ApiId (bs_store bs ! j)" "marshal (ca_json E) (retried (bs_store bs ! j)) = Inr b" by auto
    then show "pending (ca_bolt E) (ca_fs st0) k = Some b \<or>
     (\<exists>j < length a0. \<exists>s. k = ApiId (a0 ! j) \<and> variant (a0 ! j) s \<and> marshal (ca_json E) s = Inr b \<and>
        (SendCloudTelemetry (a0 ! j) \<longrightarrow> SendCloudTelemetry s \<or>
           told_cloud a0 (ca_logst st0) j (ca_logst (bs_st (bs'\<lparr>bs_st := st'\<rparr>)))))"
    proof cases
      case 1
      with stored told_cloud_append [OF _ lg] show ?thesis unfolding stored_inv_def by fastforce
    next
      case (2 j)
      have "SendCloudTelemetry (a0 ! j) \<longrightarrow> SendCloudTelemetry (retried (bs_store bs ! j)) \<or> told_cloud a0 (ca_logst st0) j (ca_logst st')"
        using told at(1) [OF 2(1)] by auto
      with 2 at [OF 2(1)] have "j < length a0 \<and> k = ApiId (a0 ! j) \<and> variant (a0 ! j) (retried (bs_store bs ! j)) \<and>
          marshal (ca_json E) (retried (bs_store bs ! j)) = Inr b \<and>
          (SendCloudTelemetry (a0 ! j) \<longrightarrow> SendCloudTelemetry (retried (bs_store bs ! j)) \<or> told_cloud a0 (ca_logst st0) j (ca_logst st'))"
        by simp
      then show ?thesis by (intro disjI2 exI [of _ j] conjI exI [of _ "retried (bs_store bs ! j)"]) simp_all
    qed
  qed
qed

lemma stored_inv_state: "bs_st bs' = bs_st bs \<Longrightarrow> stored_inv a0 st0 bs' = stored_inv a0 st0 bs"
  by (simp add: stored_inv_def)

lemma flush_content_stored:
  assumes "flush_content E K bs = Ok bs'" "batch_inv a0 st0 i bs" "stored_inv a0 st0 bs"
    and codec: "request_codec E valid" "\<forall>d \<in> set a0. valid d"
  shows "stored_inv a0 st0 bs'"
  using assms(1)
proof (rule flush_content_cases)
  fix err st store st'
  assume send: "bk_send_content K \<lparr>ur_DeviceId = ca_deviceId E, Contents = contentDataBatch bs\<rparr> (bs_st bs) = (err, st)"
    and req: "AddApiDataBackToPendingAPIBucketOrDelete E err (contentDataApiBatch bs) SendCloudTelemetryFlag (bs_store bs) st = Ok (store, st')"
    and bs': "bs' = bs\<lparr>bs_store := store, bs_st := st', contentDataBatch := [], contentDataApiBatch := []\<rparr>"
  have slice: "slice_inv a0 SendCloudTelemetry (bk_content K) i (contentDataApiBatch bs) (contentDataBatch bs)"
    using assms(2) by (simp add: batch_inv_def)
  have "stored_inv a0 st0 (bs\<lparr>bs_st := st'\<rparr>)"
    by (rule stored_requeue [OF req _ assms(2,3) slice codec]) (use send_content [OF send] in simp_all)
  then show ?thesis by (simp add: bs' stored_inv_def)
qed

lemma flush_props_stored:
  assumes "flush_props E K bs = Ok bs'" "batch_inv a0 st0 i bs" "stored_inv a0 st0 bs"
    and codec: "request_codec E valid" "\<forall>d \<in> set a0. valid d"
  shows "stored_inv a0 st0 bs'"
  using assms(1)
proof (rule flush_props_cases)
  fix err st store st'
  assume send: "bk_send_props K (contentPropertiesBatch bs) (bs_st bs) = (err, st)"
    and req: "AddApiDataBackToPendingAPIBucketOrDelete E err (contentPropertiesApiBatch bs) SendIOTCentralTelemetryFlag (bs_store bs) st = Ok (store, st')"
    and bs': "bs' = bs\<lparr>bs_store := store, bs_st := st', contentPropertiesBatch := [], contentPropertiesApiBatch := []\<rparr>"
  have slice: "slice_inv a0 SendIOTCentralTelemetry (bk_props K) i (contentPropertiesApiBatch bs) (contentPropertiesBatch bs)"
    using assms(2) by (simp add: batch_inv_def)
  have "stored_inv a0 st0 (bs\<lparr>bs_st := st'\<rparr>)"
    by (rule stored_requeue [OF req _ assms(2,3) slice codec, where extra = "[]"]) (use send_props [OF send] in simp_all)
  then show ?thesis by (simp add: bs' stored_inv_def)
qed

lemma send_in_batches_stored:
  assumes "send_in_batches E K a0 n st = Ok bs'" and dist: "distinct (map ApiId a0)"
    and codec: "request_codec E valid" "\<forall>d \<in> set a0. valid d"
  shows "stored_inv a0 st bs'"
  using assms(1)
proof (rule send_in_batches_cases)
  fix bs assume loop: "fold_res (batch_item E K n) [0..<length a0] (start a0 st) = Ok bs"
    and rest: "flush_rest E K bs = Ok bs'"
  note content = flush_content_stored [OF _ _ _ codec] and props = flush_props_stored [OF _ _ _ codec]
  have "batch_inv a0 st (length a0) bs \<and> stored_inv a0 st bs"
  proof (rule fold_res_upt_invariant [OF _ loop])
    fix i t t' assume "i < length a0" "batch_inv a0 st i t \<and> stored_inv a0 st t" "batch_item E K n i t = Ok t'"
    then have i: "i < length a0" and inv: "batch_inv a0 st i t" and stored: "stored_inv a0 st t"
      and item: "batch_item E K n i t = Ok t'" by auto
    let ?t = "add_to_batches K i (bs_store t ! i) t"
    note inv1 = add_to_batches_inv [OF inv i]
    have stored1: "stored_inv a0 st ?t" using stored by (simp add: stored_inv_def)
    obtain t2 where t2: "flush_content_full E K n ?t = Ok t2" "flush_props_full E K n t2 = Ok t'"
      using item by (auto simp: batch_item_def)
    have "batch_inv a0 st (Suc i) t2 \<and> stored_inv a0 st t2"
      using t2(1) inv1 stored1 dist flush_content_inv content by (auto simp: flush_content_full_def split: if_splits)
    then show "batch_inv a0 st (Suc i) t' \<and> stored_inv a0 st t'"
      using t2(2) dist flush_props_inv props by (auto simp: flush_props_full_def split: if_splits)
  qed (use start_inv in \<open>auto simp: stored_inv_def\<close>)
  then have inv: "batch_inv a0 st (length a0) bs" and stored: "stored_inv a0 st bs" by auto
  obtain bs1 where 1: "(if contentDataBatch bs \<noteq> [] then flush_content E K bs else Ok bs) = Ok bs1"
    and 2: "(if contentPropertiesBatch bs1 \<noteq> [] then flush_props E K bs1 else Ok bs1) = Ok bs'"
    using rest by (auto simp: flush_rest_def)
  have "batch_inv a0 st (length a0) bs1 \<and> stored_inv a0 st bs1"
    using 1 inv stored dist flush_content_inv content by (auto split: if_splits)
  then show "stored_inv a0 st bs'" using 2 props by (auto split: if_splits)
qed

text \<open>What the whole loop does to the bucket, and to a request that waits in it.\<close>

lemma loop_moves:
  assumes run: "send_in_batches E K a0 n st = Ok bs'" and dist: "distinct (map ApiId a0)"
    and codec: "request_codec E valid" "\<forall>d \<in> set a0. valid d" and keys: "\<forall>d \<in> set a0. request_key d = ApiId d"
  shows "moves E valid (\<lambda>k. k \<in> request_key ` set a0) (\<lambda>d. \<exists>d0 \<in> set a0. variant d0 d) (ca_fs st) (ca_fs (bs_st bs'))"
    and "\<exists>new. cloud_log (ca_logst (bs_st bs')) = cloud_log (ca_logst st) @ new"
proof -
  let ?R = "\<lambda>k. k \<in> request_key ` set a0" and ?W = "\<lambda>d. \<exists>d0 \<in> set a0. variant d0 d"
  show "moves E valid ?R ?W (ca_fs st) (ca_fs (bs_st bs'))"
    unfolding moves_def
  proof (rule allI)
    fix k
    show "pending (ca_bolt E) (ca_fs (bs_st bs')) k = pending (ca_bolt E) (ca_fs st) k \<or>
      ?R k \<and> pending (ca_bolt E) (ca_fs (bs_st bs')) k = None \<or>
      (\<exists>d b. ?W d \<and> valid d \<and> request_key d = k \<and> marshal (ca_json E) d = Inr b \<and> pending (ca_bolt E) (ca_fs (bs_st bs')) k = Some b)"
    proof (cases "pending (ca_bolt E) (ca_fs (bs_st bs')) k")
      case None
      have "pending (ca_bolt E) (ca_fs (bs_st bs')) k = pending (ca_bolt E) (ca_fs st) k" if "\<not> ?R k"
        by (rule frame [OF run dist]) (use that keys in force)
      with None show ?thesis by blast
    next
      case (Some b)
      from send_in_batches_stored [OF run dist codec, unfolded stored_inv_def, rule_format, OF Some]
      consider "pending (ca_bolt E) (ca_fs st) k = Some b"
        | j s where "j < length a0" "k = ApiId (a0 ! j)" "variant (a0 ! j) s" "marshal (ca_json E) s = Inr b" by blast
      then show ?thesis
      proof cases
        case (2 j s)
        have mem: "a0 ! j \<in> set a0" using 2(1) by simp
        have "valid s" by (rule request_codecD(3) [OF codec(1) _ 2(3)]) (use mem codec(2) in blast)
        moreover have "request_key s = k" using variant_key [OF 2(3)] keys mem 2(2) by simp
        ultimately show ?thesis using 2(3,4) mem Some by blast
      qed (use Some in simp)
    qed
  qed
  show "\<exists>new. cloud_log (ca_logst (bs_st bs')) = cloud_log (ca_logst st) @ new"
    using send_in_batches_inv [OF run dist] by (auto simp: batch_inv_def log_inv_def)
qed

lemma loop_waiting:
  assumes run: "send_in_batches E K a0 n st = Ok bs'" and dist: "distinct (map ApiId a0)"
    and codec: "request_codec E valid" "\<forall>d \<in> set a0. valid d"
    and d: "d \<in> set a0" "SendCloudTelemetry d" and waiting: "awaiting E (ApiType d) (ApiId d) (ca_fs st)"
  shows "(\<exists>new. cloud_log (ca_logst (bs_st bs')) = cloud_log (ca_logst st) @ new \<and> told cloud_msgs new (bk_content K d)) \<or>
    awaiting E (ApiType d) (ApiId d) (ca_fs (bs_st bs'))"
proof (cases "pending (ca_bolt E) (ca_fs (bs_st bs')) (ApiId d)")
  case None
  have "pending (ca_bolt E) (ca_fs st) (ApiId d) \<noteq> None" using waiting by (auto simp: awaiting_def)
  from removed_was_sent(1) [OF run dist d(1) this None] d(2) show ?thesis by blast
next
  case (Some b)
  from send_in_batches_stored [OF run dist codec, unfolded stored_inv_def, rule_format, OF Some]
  consider "pending (ca_bolt E) (ca_fs st) (ApiId d) = Some b"
    | j s where "j < length a0" "ApiId d = ApiId (a0 ! j)" "variant (a0 ! j) s" "marshal (ca_json E) s = Inr b"
        "SendCloudTelemetry (a0 ! j) \<longrightarrow> SendCloudTelemetry s \<or> told_cloud a0 (ca_logst st) j (ca_logst (bs_st bs'))" by blast
  then show ?thesis
  proof cases
    case 1
    with waiting Some show ?thesis by (auto simp: awaiting_def)
  next
    case (2 j s)
    then have "a0 ! j = d" using d(1) dist by (metis in_set_conv_nth length_map nth_eq_iff_index_eq nth_map)
    have "valid s" by (rule request_codecD(3) [OF codec(1) _ 2(3)]) (use 2(1) codec(2) in simp)
    then have "request_of E b = s" by (rule request_codecD(2) [OF codec(1) _ 2(4)])
    with 2 Some d(2) \<open>a0 ! j = d\<close> show ?thesis by (auto simp: told_cloud_def awaiting_def variant_def)
  qed
qed

end

section \<open>A pass over all kinds of requests\<close>

lemma GetSegregatedItems_filter:
  "(case GetSegregatedItems ds ty of None \<Rightarrow> [] | Some xs \<Rightarrow> xs) = filter (\<lambda>d. ApiType d = ty) ds"
proof -
  let ?f = "\<lambda>m data. m(ApiType data \<mapsto> (case m (ApiType data) of None \<Rightarrow> [] | Some values \<Rightarrow> values) @ [data])"
  have "(case foldl ?f m ds ty of None \<Rightarrow> [] | Some xs \<Rightarrow> xs) =
      (case m ty of None \<Rightarrow> [] | Some xs \<Rightarrow> xs) @ filter (\<lambda>d. ApiType d = ty) ds" for m :: "Type \<rightharpoonup> ApiData list"
    by (induction ds arbitrary: m) auto
  from this [of Map.empty] show ?thesis by (simp add: GetSegregatedItems_def)
qed

context cloud_env
begin

lemma log_msg_grown: "log_msg E ev sm st = (err, st') \<Longrightarrow> ca_fs st' = ca_fs st \<and> grown (ca_logst st) (ca_logst st')"
  using log_msg_calls [of E ev sm st err st'] by (auto simp: grown_def)

text \<open>The requests that are sent one by one: a request that was sent is noted for deletion, another one is put back.\<close>

definition handles :: "(ApiData \<Rightarrow> bool) \<Rightarrow> (ApiData \<Rightarrow> string list \<times> 'db capi_state \<Rightarrow> (string list \<times> 'db capi_state) res) \<Rightarrow> ApiData \<Rightarrow> bool" where
  "handles valid item d \<longleftrightarrow> (\<forall>ids st ids' st'. item d (ids, st) = Ok (ids', st') \<longrightarrow>
     moves E valid (\<lambda>_. False) (variant d) (ca_fs st) (ca_fs st') \<and> grown (ca_logst st) (ca_logst st') \<and>
     set ids' \<subseteq> insert (request_key d) (set ids))"

lemma put_back_moves:
  assumes "request_codec E valid" "valid d" "marshal (ca_json E) (retried d) = Inr v"
    and "fs_update (ca_bolt E) (\<lambda>db. wrap_err p (bucket_put (ca_bolt E) PendingAPIRequestMapping (request_key d) v db)) fs = (r, fs')"
  shows "moves E valid R (variant d) fs fs'"
proof (rule put_moves [OF put_pending_value [OF assms(4)] assms(3)])
  show "valid (retried d)" by (rule request_codecD(3) [OF assms(1,2)]) simp
  show "request_key (retried d) = request_key d" by (rule variant_key) simp
qed simp

lemma sent_or_put_back:
  assumes "request_codec E valid" "valid d"
    and item: "\<And>ids st. item d (ids, st) = (case body of
        Inl _ \<Rightarrow> Ok (ids, st)
      | Inr m \<Rightarrow>
          (case log_msg E TelemetryCommandMessage (msg m) st of
             (None, st) \<Rightarrow> Ok (ids @ [request_key d], st)
           | (Some _, st) \<Rightarrow>
               (case marshal (ca_json E) (retried d) of
                  Inl _ \<Rightarrow> Ok (ids, st)
                | Inr v \<Rightarrow>
                    (case fs_update (ca_bolt E) (\<lambda>db. wrap_err p (bucket_put (ca_bolt E) PendingAPIRequestMapping (request_key d) v db)) (ca_fs st) of
                       (Panic, _) \<Rightarrow> Panic | (_, fs) \<Rightarrow> Ok (ids, st\<lparr>ca_fs := fs\<rparr>)))))"
  shows "handles valid item d"
  unfolding handles_def
proof (intro allI impI)
  fix ids st ids' st' assume run: "item d (ids, st) = Ok (ids', st')"
  show "moves E valid (\<lambda>_. False) (variant d) (ca_fs st) (ca_fs st') \<and> grown (ca_logst st) (ca_logst st') \<and>
    set ids' \<subseteq> insert (request_key d) (set ids)"
  proof (cases body)
    case (Inr m)
    obtain e st1 where log: "log_msg E TelemetryCommandMessage (msg m) st = (e, st1)" by fastforce
    note g = log_msg_grown [OF log]
    obtain v where v: "marshal (ca_json E) (retried d) = Inr v"
      using request_codecD(1) [OF assms(1) request_codecD(3) [OF assms(1,2), of "retried d"]] by auto
    show ?thesis
    proof (cases e)
      case None
      with run Inr log g show ?thesis unfolding item by auto
    next
      case (Some err)
      obtain r fs where put: "fs_update (ca_bolt E) (\<lambda>db. wrap_err p (bucket_put (ca_bolt E) PendingAPIRequestMapping (request_key d) v db)) (ca_fs st1) = (r, fs)"
        by fastforce
      from run Inr log Some v put have "st' = st1\<lparr>ca_fs := fs\<rparr>" "ids' = ids" unfolding item by (cases r; simp)+
      with put_back_moves [OF assms(1,2) v put] g show ?thesis by auto
    qed
  next
    case (Inl a)
    with run item [of ids st] have "ids' = ids" "st' = st" by simp_all
    then show ?thesis by auto
  qed
qed

lemma filter_updated_handles:
  assumes "request_codec E valid" "valid d" "ApiType d = FilterUpdated"
  shows "handles valid (filter_updated_item E) d"
proof -
  have "cs_CommandId (command_status_request d) = request_key d"
    using assms(3) by (simp add: command_status_request_def request_key_def)
  then show ?thesis
    by (intro sent_or_put_back [OF assms(1,2), where body = "ca_command E (command_status_request d)" and
          msg = "\<lambda>m. command_message CompleteCommand m False" and p = "''[AddCommandStatus] ''"])
      (simp only: filter_updated_item_def Let_def AddCommandStatus_def retried_def prod.case)
qed

lemma provisioned_handles:
  assumes "request_codec E valid" "valid d" "ApiType d = Provisioned"
  shows "handles valid (provisioned_item E) d"
proof -
  have "request_key d = ApiId d" using assms(3) by (simp add: request_key_def)
  then show ?thesis
    by (intro sent_or_put_back [OF assms(1,2), where body = "ca_provision E \<lparr>pr_DeviceId = ApiId d\<rparr>" and
          msg = "\<lambda>m. command_message ProvisionDevice m False" and p = "''[AddProvisionedStatus] ''"])
      (simp only: provisioned_item_def AddProvisionedStatus_def retried_def prod.case)
qed

lemma single_requests_move:
  assumes "bind_res (fold_res item ds ([], st)) (delete_sent E) = Ok st'" "\<forall>d \<in> set ds. handles valid item d"
  shows "moves E valid (\<lambda>k. k \<in> request_key ` set ds) (\<lambda>d. \<exists>d0 \<in> set ds. variant d0 d) (ca_fs st) (ca_fs st') \<and>
    grown (ca_logst st) (ca_logst st')"
proof -
  let ?R = "\<lambda>k. k \<in> request_key ` set ds" and ?W = "\<lambda>d. \<exists>d0 \<in> set ds. variant d0 d"
  have "fold_res item xs (ids, st1) = Ok (ids', st2) \<Longrightarrow> set xs \<subseteq> set ds \<Longrightarrow> set ids \<subseteq> request_key ` set ds \<Longrightarrow>
      moves E valid ?R ?W (ca_fs st1) (ca_fs st2) \<and> grown (ca_logst st1) (ca_logst st2) \<and> set ids' \<subseteq> request_key ` set ds" for xs ids st1 ids' st2
  proof (induction xs arbitrary: ids st1)
    case (Cons x xs)
    obtain ids1 st3 where 1: "item x (ids, st1) = Ok (ids1, st3)" "fold_res item xs (ids1, st3) = Ok (ids', st2)"
      using Cons.prems(1) by (cases "item x (ids, st1)") auto
    have x: "x \<in> set ds" using Cons.prems(2) by simp
    with assms(2) 1(1) have step: "moves E valid (\<lambda>_. False) (variant x) (ca_fs st1) (ca_fs st3)" "grown (ca_logst st1) (ca_logst st3)"
      "set ids1 \<subseteq> insert (request_key x) (set ids)" by (auto simp: handles_def)
    have "moves E valid ?R ?W (ca_fs st1) (ca_fs st3)" by (rule moves_mono [OF step(1)]) (use x in auto)
    moreover have "set ids1 \<subseteq> request_key ` set ds" using step(3) Cons.prems(3) x by auto
    moreover have "moves E valid ?R ?W (ca_fs st3) (ca_fs st2) \<and> grown (ca_logst st3) (ca_logst st2) \<and> set ids' \<subseteq> request_key ` set ds"
      by (rule Cons.IH [OF 1(2)]) (use Cons.prems(2) calculation in auto)
    ultimately show ?case using moves_trans [of E valid ?R ?W] grown_trans [OF step(2)] by blast
  qed simp
  moreover obtain ids st1 where loop: "fold_res item ds ([], st) = Ok (ids, st1)" and del: "delete_sent E (ids, st1) = Ok st'"
    using assms(1) by (cases "fold_res item ds ([], st)") auto
  ultimately have all: "moves E valid ?R ?W (ca_fs st) (ca_fs st1) \<and> grown (ca_logst st) (ca_logst st1) \<and> set ids \<subseteq> request_key ` set ds"
    by simp
  obtain r fs where fs: "DeletePendingAPIRequestEntries (ca_bolt E) ids (ca_fs st1) = (r, fs)" "st' = st1\<lparr>ca_fs := fs\<rparr>"
    using del by (auto simp: delete_sent_def split: prod.splits res.splits)
  have "moves E valid ?R ?W (ca_fs st1) fs" by (rule delete_moves [OF fs(1)]) (use all in blast)
  with all fs(2) moves_trans [of E valid ?R ?W "ca_fs st" "ca_fs st1" fs] show ?thesis by simp
qed

lemma process_type_moves:
  assumes run: "process_type E (GetSegregatedItems ds) down del ty st = Ok st'" and codec: "request_codec E valid" "\<forall>d \<in> set ds. valid d"
    and dist: "distinct (map request_key ds)" and "items = filter (\<lambda>d. ApiType d = ty) ds"
  shows "moves E valid (\<lambda>k. k \<in> request_key ` set items) (\<lambda>d. \<exists>d0 \<in> set items. variant d0 d) (ca_fs st) (ca_fs st') \<and>
    grown (ca_logst st) (ca_logst st')"
proof -
  have valid: "\<forall>d \<in> set items. valid d" and ty: "\<forall>d \<in> set items. ApiType d = ty" using codec(2) assms(5) by auto
  have batch: "moves E valid (\<lambda>k. k \<in> request_key ` set items) (\<lambda>d. \<exists>d0 \<in> set items. variant d0 d) (ca_fs st) (ca_fs (bs_st bs)) \<and>
      grown (ca_logst st) (ca_logst (bs_st bs))"
    if "send_in_batches E K items n st = Ok bs" "batch_channels E K msgs ims commands_in iml" "ty = Downloaded \<or> ty = Deleted"
    for K msgs ims iml n bs
  proof -
    have keys: "\<forall>d \<in> set items. request_key d = ApiId d" using ty that(3) by (auto simp: request_key_def)
    then have same: "map ApiId items = map request_key items" by simp
    have "distinct (map request_key items)" unfolding assms(5) by (rule distinct_map_filter [OF dist])
    then have "distinct (map ApiId items)" by (simp only: same)
    from batch_channels.loop_moves [OF that(2,1) this codec(1) valid keys] show ?thesis by (simp add: grown_def)
  qed
  have single: "moves E valid (\<lambda>k. k \<in> request_key ` set items) (\<lambda>d. \<exists>d0 \<in> set items. variant d0 d) (ca_fs st) (ca_fs st') \<and>
      grown (ca_logst st) (ca_logst st')"
    if "bind_res (fold_res item items ([], st)) (delete_sent E) = Ok st'" "\<forall>d \<in> set items. handles valid item d" for item
    by (rule single_requests_move [OF that])
  have items: "(case GetSegregatedItems ds ty of None \<Rightarrow> [] | Some xs \<Rightarrow> xs) = items" using assms(5) by (simp only: GetSegregatedItems_filter)
  show ?thesis
  proof (cases ty)
    case Downloaded
    with run items obtain bs where "send_in_batches E (download_kind E) items down st = Ok bs" "st' = bs_st bs"
      by (auto simp: process_type_def sendDownloadRequestInBatches_def Let_def)
    with batch [OF _ download_channels] Downloaded show ?thesis by simp
  next
    case Deleted
    with run items obtain bs where "send_in_batches E (delete_kind E) items del st = Ok bs" "st' = bs_st bs"
      by (auto simp: process_type_def sendDeleteRequestInBatches_def Let_def)
    with batch [OF _ delete_channels] Deleted show ?thesis by simp
  next
    case FilterUpdated
    with run items have "bind_res (fold_res (filter_updated_item E) items ([], st)) (delete_sent E) = Ok st'"
      by (simp add: process_type_def handleFilterUpdatedRequest_def Let_def)
    from single [OF this] filter_updated_handles [OF codec(1)] valid ty FilterUpdated show ?thesis by blast
  next
    case Provisioned
    with run items have "bind_res (fold_res (provisioned_item E) items ([], st)) (delete_sent E) = Ok st'"
      by (simp add: process_type_def handledProvisionedRequest_def Let_def)
    from single [OF this] provisioned_handles [OF codec(1)] valid ty Provisioned show ?thesis by blast
  next
    case (OtherType x)
    with run show ?thesis by (simp add: process_type_def Let_def)
  qed
qed

lemma process_type_waiting:
  assumes run: "process_type E (GetSegregatedItems ds) down del (ApiType d) st = Ok st'"
    and codec: "request_codec E valid" "\<forall>d \<in> set ds. valid d" and dist: "distinct (map request_key ds)"
    and d: "d \<in> set ds" "SendCloudTelemetry d" "ApiType d = ty" "ty = Downloaded \<or> ty = Deleted"
    and waiting: "awaiting E ty (ApiId d) (ca_fs st)"
  shows "reported_since E ty (ApiId d) (ca_logst st) (ca_logst st') \<or> awaiting E ty (ApiId d) (ca_fs st')"
proof -
  define items where "items = filter (\<lambda>d. ApiType d = ty) ds"
  have valid: "\<forall>d \<in> set items. valid d" and mem: "d \<in> set items" using codec(2) d by (auto simp: items_def)
  have keys: "map ApiId items = map request_key items" using d(4) by (auto simp: items_def request_key_def)
  have "distinct (map request_key items)" unfolding items_def by (rule distinct_map_filter [OF dist])
  then have dist': "distinct (map ApiId items)" by (simp only: keys)
  have items: "(case GetSegregatedItems ds ty of None \<Rightarrow> [] | Some xs \<Rightarrow> xs) = items" by (simp only: GetSegregatedItems_filter items_def)
  have batch: "reported_since E ty (ApiId d) (ca_logst st) (ca_logst (bs_st bs)) \<or> awaiting E ty (ApiId d) (ca_fs (bs_st bs))"
    if "send_in_batches E K items n st = Ok bs" "batch_channels E K (content_messages E (report_name ty)) ims commands_in iml"
      "ContentId (bk_content K d) = reported_content ty (ApiId d)" for K ims iml n bs
    unfolding reported_since_def
    using batch_channels.loop_waiting [OF that(2,1) dist' codec(1) valid mem d(2)] waiting that(3) unfolding d(3) by blast
  from d(4) show ?thesis
  proof
    assume ty: "ty = Downloaded"
    with run items d(3) obtain bs where run': "send_in_batches E (download_kind E) items down st = Ok bs" "st' = bs_st bs"
      by (auto simp: process_type_def sendDownloadRequestInBatches_def Let_def)
    have "report_name ty = ContentDownloaded" "ContentId (bk_content (download_kind E) d) = reported_content ty (ApiId d)"
      using ty by (simp_all add: report_name_def reported_content_def download_kind_def)
    with batch [OF run'(1), unfolded \<open>report_name ty = _\<close>, OF download_channels] run'(2) show ?thesis by simp
  next
    assume ty: "ty = Deleted"
    with run items d(3) obtain bs where run': "send_in_batches E (delete_kind E) items del st = Ok bs" "st' = bs_st bs"
      by (auto simp: process_type_def sendDeleteRequestInBatches_def Let_def)
    have "report_name ty = ContentDeleted" "ContentId (bk_content (delete_kind E) d) = reported_content ty (ApiId d)"
      using ty by (simp_all add: report_name_def reported_content_def delete_kind_def)
    with batch [OF run'(1), unfolded \<open>report_name ty = _\<close>, OF delete_channels] run'(2) show ?thesis by simp
  qed
qed

text \<open>What a pass reads from the bucket: every entry once.\<close>

lemma snapshot:
  assumes "queue_ok E valid fs" "ds = map (\<lambda>data. request_of E data) (GetPendingApiRequests (ca_bolt E) fs)"
  shows "\<forall>d \<in> set ds. valid d" "distinct (map request_key ds)"
    "pending (ca_bolt E) fs k = Some b \<Longrightarrow> request_of E b \<in> set ds"
proof -
  let ?items = "bolt_items (ca_bolt E) (nodesDB fs) PendingAPIRequestMapping"
  show "\<forall>d \<in> set ds. valid d"
    using assms items_iff by (auto simp: GetPendingApiRequests_def queue_ok_def split: if_splits)
  have "\<forall>(k, b) \<in> set ?items. request_key (request_of E b) = k" using assms(1) items_iff by (auto simp: queue_ok_def)
  then have keys: "map (\<lambda>kb. request_key (request_of E (snd kb))) ?items = map fst ?items" by auto
  have "distinct (map (\<lambda>kb. request_key (request_of E (snd kb))) ?items)" unfolding keys by (rule items_distinct)
  then show "distinct (map request_key ds)" by (auto simp: assms(2) GetPendingApiRequests_def o_def)
  assume b: "pending (ca_bolt E) fs k = Some b"
  then have "bolt_bucket (ca_bolt E) (nodesDB fs) PendingAPIRequestMapping" using no_bucket by fastforce
  moreover have "(k, b) \<in> set ?items" using b items_iff by blast
  ultimately show "request_of E b \<in> set ds" by (force simp: assms(2) GetPendingApiRequests_def)
qed

end

end
