(* ===== verification/Hub_Reports.thy ===== *)
theory Hub_Reports
  imports Pending_Reports
begin

text \<open>
  Every report reaches the cloud or stays in the pending bucket: what each activity of the hub does to the
  bucket, and what a step keeps (\<open>sound_step\<close>).
\<close>

section \<open>What the strings of a request may be\<close>

text \<open>
  A request of one of the four kinds that JSON can write is read back as it was, if its strings are texts. \<open>text s\<close>
  says so of a string: to the codec of Go it is every string of valid UTF-8, and the strings it decodes are
  of that kind. Whether a request can be written does not depend on its flags and its counter (it fails for a
  time outside of the years 0 to 9999 only).
\<close>

definition text_request :: "(string \<Rightarrow> bool) \<Rightarrow> ApiData \<Rightarrow> bool" where
  "text_request text d \<longleftrightarrow> text (ApiId d) \<and> (\<forall>n. ApiType d \<noteq> OtherType n) \<and> (\<forall>p \<in> set (Properties d). text (Value p) \<and>
     Key p \<in> {''sesCid'', ''size'', ''commandId'', ''containerLocation'', ''isFailed'', ''failureReason''})"

definition text_codec :: "ApiData codec \<Rightarrow> (string \<Rightarrow> bool) \<Rightarrow> bool" where
  "text_codec J text \<longleftrightarrow> (\<forall>d b. text_request text d \<longrightarrow> marshal J d = Inr b \<longrightarrow> unmarshal J b = (d, None)) \<and>
     (\<forall>d d' b. variant d d' \<longrightarrow> marshal J d = Inr b \<longrightarrow> (\<exists>b'. marshal J d' = Inr b'))"

definition sendable :: "'db capi \<Rightarrow> (string \<Rightarrow> bool) \<Rightarrow> ApiData \<Rightarrow> bool" where
  "sendable E text d \<longleftrightarrow> text_request text d \<and> (\<exists>b. marshal (ca_json E) d = Inr b)"

definition text_info :: "(string \<Rightarrow> bool) \<Rightarrow> DeletedContentsInfo \<Rightarrow> bool" where
  "text_info text i \<longleftrightarrow> text (SesCid i) \<and> text (del_CommandId i)"

text \<open>What is decoded of the receiver's answers consists of texts.\<close>

definition text_vod :: "'db sat_env \<Rightarrow> (string \<Rightarrow> bool) \<Rightarrow> string \<Rightarrow> string \<Rightarrow> bool" where
  "text_vod S text cs ds \<longleftrightarrow> (\<forall>p. text (size_text S p)) \<and>
     (\<forall>b. text (CommandId (fst (unmarshal (ca_info (se_capi S)) b)))) \<and>
     (\<forall>b vod. dec_vod S b = (vod, None) \<longrightarrow> text (Contentid vod) \<and> text (CID vod) \<and> text (Contentbroadcastcommandid vod) \<and>
        text (Dir (Replace1 (VideoFilename vod) ds cs)))"

definition text_hub :: "'db hub_env \<Rightarrow> (string \<Rightarrow> bool) \<Rightarrow> bool" where
  "text_hub H text \<longleftrightarrow> text_codec (ca_json (hub_capi H)) text \<and>
     text [] \<and> text ''true'' \<and> text ''false'' \<and> (\<forall>a. text a \<longrightarrow> text (''DL_'' @ a)) \<and>
     text (ca_deviceId (hub_capi H)) \<and> text (cm_deviceId (hv_cmd H)) \<and>
     (\<forall>p f. dec_filter (hv_cmd H) p = (f, None) \<longrightarrow> text (uf_CommandID f)) \<and>
     text_vod (hv_sat H) text (hv_containerStorage H) (hv_deviceStorage H)"

text \<open>
  The receiver never answers a request for the data of a content with a content id that looks like the key of a
  deletion.
\<close>

definition plain_contents :: "'db sat_env \<Rightarrow> bool" where
  "plain_contents S \<longleftrightarrow> (\<forall>n i body vod. http_get S n (''http://host.docker.internal:8134/getmetadata/'' @ i) = Inr body \<longrightarrow>
     dec_vod S body = (vod, None) \<longrightarrow> \<not> HasPrefix (Contentid vod) ''DL_'')"

definition text_index :: "'db bolt \<Rightarrow> (string \<Rightarrow> bool) \<Rightarrow> 'db FileSystem \<Rightarrow> bool" where
  "text_index B text fs \<longleftrightarrow> (\<forall>c a. satellites B fs c = Some a \<longrightarrow> text c \<and> text a)"

lemma sendable_codec: "text_codec (ca_json E) text \<Longrightarrow> request_codec E (sendable E text)"
  unfolding request_codec_def sendable_def text_codec_def
  by (intro conjI json_spec.intro) (auto simp: text_request_def variant_def)

context cloud_env
begin

lemma put_text_moves:
  assumes "\<And>k. pending (ca_bolt E) fs' k = pending (ca_bolt E) fs k \<or> k = i \<and> pending (ca_bolt E) fs' k = Some v"
    and "marshal (ca_json E) d = Inr v" "text_request text d" "request_key d = i" "W d"
  shows "moves E (sendable E text) R W fs fs'"
proof -
  have "sendable E text d" using assms(2,3) by (auto simp: sendable_def)
  then show ?thesis by (rule put_moves [where W = W, OF assms(1,2) _ assms(4,5)])
qed

end

lemma text_shrink:
  "text_index B text fs \<Longrightarrow> (\<And>c a. satellites B fs' c = Some a \<Longrightarrow> satellites B fs c = Some a) \<Longrightarrow> text_index B text fs'"
  unfolding text_index_def by blast

lemma text_same: "same_index B fs fs' \<Longrightarrow> text_index B text fs \<Longrightarrow> text_index B text fs'"
  by (simp add: text_index_def same_index_get)

text \<open>The reports that a poll queues.\<close>

definition poll_report :: "ApiData \<Rightarrow> bool" where
  "poll_report d \<longleftrightarrow> SendCloudTelemetry d \<and>
     (ApiType d = Downloaded \<and> \<not> HasPrefix (ApiId d) ''DL_'' \<or> ApiType d = Deleted \<and> HasPrefix (ApiId d) ''DL_'')"

lemma poll_report_key: "poll_report d \<Longrightarrow> request_key d = ApiId d"
  by (auto simp: poll_report_def request_key_def)

lemma download_request_text:
  "text_request text (download_request a t c s i p) \<longleftrightarrow> text a \<and> text c \<and> text s \<and> text i \<and> text p"
  by (auto simp: text_request_def download_request_def)

lemma delete_request_text: "text_request text (delete_request a t i) \<longleftrightarrow> text (''DL_'' @ a) \<and> text_info text i"
  by (auto simp: text_request_def text_info_def delete_request_def)

lemma poll_reports:
  "poll_report (delete_request a t i)" "\<not> HasPrefix a ''DL_'' \<Longrightarrow> poll_report (download_request a t c s i' p)"
  using HasPrefix_append [of "''DL_''" a] by (simp_all add: poll_report_def delete_request_def download_request_def)

section \<open>What a poll logs\<close>

context sat_hub
begin

abbreviation "sat_log st \<equiv> ca_logst (ss_capi st)"

lemma log_quiet_grown [simp]: "grown (sat_log st) (sat_log (log_quiet S ev sm st))"
  by (cases "log_msg (se_capi S) ev sm (ss_capi st)") (auto simp: log_quiet_def dest: log_msg_grown)

lemma log_error_grown [simp]: "grown (sat_log st) (sat_log (log_error S t st))"
  "grown (sat_log st) (sat_log (totalAssetsCount S n st))"
  by (simp_all add: log_error_def totalAssetsCount_def)

lemma Log_old_grown: "grown lg (Log_old l e ty sub body lg)"
  by (simp add: grown_def calls_of_def Log_old_def Let_def)

lemma getMstoreFiles_log: "getMstoreFiles S vod cs ds st = Ok (r, st') \<Longrightarrow> sat_log st' = sat_log st"
  by (auto simp: getMstoreFiles_def Let_def set_fs_def split: if_splits sum.splits prod.splits res.splits)

lemma getMetadataAPI_grown:
  assumes "getMetadataAPI S i cs ds st = Ok (err, st')"
  shows "grown (sat_log st) (sat_log st')"
  using assms Log_old_grown
  by (fastforce simp: getMetadataAPI_def Let_def dest!: getMstoreFiles_log split: sum.splits prod.splits option.splits if_splits)

lemma sync_content_grown:
  assumes "sync_content S cs ds i st = Ok st'"
  shows "grown (sat_log st) (sat_log st')"
proof -
  obtain err st1 where 1: "getMetadataAPI S (ContentID i) cs ds st = Ok (err, st1)"
      "st' = st1 \<or> (\<exists>e. st' = log_error S e st1)"
    using assms by (auto simp: sync_content_def split: option.splits)
  with grown_trans [OF getMetadataAPI_grown [OF 1(1)]] getMetadataAPI_grown [OF 1(1)] show ?thesis by auto
qed

lemma queue_deleted_log: "queue_deleted S m a st = Ok st' \<Longrightarrow> sat_log st' = sat_log st"
  by (auto simp: queue_deleted_def Let_def set_fs_def split: sum.splits prod.splits res.splits)

lemma fold_queue_log: "fold_res (queue_deleted S m) ids st = Ok st' \<Longrightarrow> sat_log st' = sat_log st"
  by (erule fold_res_invariant [where P = "\<lambda>s. sat_log s = sat_log st"]) (auto dest: queue_deleted_log)

lemma set_fs_log [simp]: "sat_log (set_fs fs st) = sat_log st"
  by (simp add: set_fs_def)

lemma handleDeleted_log:
  assumes "handleDeletedContents S order vl st = Ok (err, st')"
  shows "sat_log st' = sat_log st"
proof -
  obtain ms m where run: "(case DeleteSatelliteIds B (map fst (gone vl (order ms))) (ss_fs st) of
           (Panic, _) \<Rightarrow> Panic
         | (Diverge, _) \<Rightarrow> Diverge
         | (Err err, fs) \<Rightarrow> Ok (Some err, set_fs fs st)
         | (Ok _, fs) \<Rightarrow>
             (case DeleteAssetMapping B (map snd (gone vl (order ms))) fs of
                (Panic, _) \<Rightarrow> Panic
              | (Diverge, _) \<Rightarrow> Diverge
              | (Err err, fs) \<Rightarrow> Ok (Some err, set_fs fs st)
              | (Ok _, fs) \<Rightarrow>
                  bind_res (fold_res (queue_deleted S m) (map snd (gone vl (order ms))) (set_fs fs st)) (\<lambda>st. Ok (None, st)))) = Ok (err, st')"
    using assms by (auto simp only: handleDeletedContents_def Let_def bind_res_eq_Ok)
  show ?thesis
  proof (cases "DeleteSatelliteIds B (map fst (gone vl (order ms))) (ss_fs st)")
    case (Pair r1 fs1)
    obtain r2 fs2 where "DeleteAssetMapping B (map snd (gone vl (order ms))) fs1 = (r2, fs2)" by fastforce
    with run Pair show ?thesis by (cases r1; cases r2) (auto dest!: fold_queue_log)
  qed
qed

lemma poll_grown:
  assumes "pollMstore_pass S order cs ds st = Ok st'"
  shows "grown (sat_log st) (sat_log st')"
proof -
  have sync: "fold_res (sync_content S cs ds) xs st1 = Ok st2 \<Longrightarrow> grown (sat_log st1) (sat_log st2)" for xs st1 st2
    by (erule fold_res_invariant [where P = "\<lambda>s. grown (sat_log st1) (sat_log s)"])
      (auto intro: grown_trans sync_content_grown)
  have "grown (sat_log st) (sat_log st1)" if check: "checkForVODViaMstore S order cs ds st = Ok (err, st1)" for err st1
  proof -
    let ?st = "st\<lparr>http_calls := Suc (http_calls st)\<rparr>"
    from check consider "sat_log st1 = sat_log st"
      | vl st2 err' where "fold_res (sync_content S cs ds) (ListContents vl) (totalAssetsCount S (int (length (ListContents vl))) ?st) = Ok st2"
          "handleDeletedContents S order vl st2 = Ok (err', st1)"
      by (fastforce simp: checkForVODViaMstore_def Let_def split: sum.splits prod.splits option.splits)
    then show ?thesis
    proof cases
      case (2 vl st2 err')
      have "grown (sat_log st) (sat_log (totalAssetsCount S (int (length (ListContents vl))) ?st))"
        using log_error_grown(2) [of ?st] by simp
      with sync [OF 2(1)] handleDeleted_log [OF 2(2)] show ?thesis using grown_trans by metis
    qed simp
  qed
  with assms grown_trans [OF _ log_error_grown(1)] show ?thesis
    by (fastforce simp: pollMstore_pass_def split: option.splits)
qed

text \<open>What a poll does to the bucket and to the ids of the index.\<close>

lemma getMstoreFiles_pending:
  assumes "getMstoreFiles S vod cs ds st = Ok (r, st')"
  obtains (same) "\<And>k. pending B (ss_fs st') k = pending B (ss_fs st) k"
  | (queued) fs data r' where "pending B fs = pending B (ss_fs st)" "AddContent B (Contentid vod) data fs = (r', ss_fs st')"
      "marshal (ca_json (se_capi S)) (download_request (Contentid vod) (se_now S (clock_reads st)) (CID vod)
        (size_text S (Dir (Replace1 (VideoFilename vod) ds cs))) (Contentbroadcastcommandid vod) (Dir (Replace1 (VideoFilename vod) ds cs))) = Inr data"
proof (cases "DoesContentIdExist B (ss_fs st) (Contentid vod)")
  case (Ok found)
  define t where "t = se_now S (clock_reads st)"
  define dir where "dir = Dir (Replace1 (VideoFilename vod) ds cs)"
  define d where "d = download_request (Contentid vod) t (CID vod) (size_text S dir) (Contentbroadcastcommandid vod) dir"
  note queued' = queued [folded t_def dir_def, folded d_def]
  show ?thesis
  proof (cases "found \<or> (\<exists>e. marshal (ca_info (se_capi S)) (content_info vod t cs ds) = Inl e)")
    case True
    then have "ss_fs st' = ss_fs st" using assms Ok by (auto simp: getMstoreFiles_def Let_def t_def split: if_splits)
    then show ?thesis by (intro same) simp
  next
    case False
    then obtain info where info: "marshal (ca_info (se_capi S)) (content_info vod t cs ds) = Inr info"
      by (cases "marshal (ca_info (se_capi S)) (content_info vod t cs ds)") auto
    obtain r1 fs where create: "CreateSatelliteIndexing B (CID vod) (Contentid vod) info (ss_fs st) = (r1, fs)" by fastforce
    show ?thesis
    proof (cases r1)
      case (Err e)
      then have "ss_fs st' = ss_fs st" using assms Ok False info create CreateSatelliteIndexing_failed
        by (auto simp: getMstoreFiles_def Let_def t_def split: if_splits)
      then show ?thesis by (intro same) simp
    next
      case added: (Ok u)
      note kept = CreateSatelliteIndexing_Ok(4) [OF create [unfolded added]]
      show ?thesis
      proof (cases "marshal (ca_json (se_capi S)) d")
        case (Inl e)
        then have "ss_fs st' = fs" using assms Ok False info create added
          by (auto simp: getMstoreFiles_def Let_def t_def dir_def d_def content_info_def)
        then show ?thesis using kept by (intro same) simp
      next
        case (Inr data)
        obtain r2 fs2 where add: "AddContent B (Contentid vod) data fs = (r2, fs2)" by fastforce
        have "ss_fs st' = fs2" using assms Ok False info create added Inr add
          by (cases r2) (auto simp: getMstoreFiles_def Let_def t_def dir_def d_def content_info_def)
        with add have "AddContent B (Contentid vod) data fs = (r2, ss_fs st')" by simp
        from queued' [OF kept this Inr] show ?thesis .
      qed
    qed (use assms Ok False info create in \<open>auto simp: getMstoreFiles_def Let_def t_def\<close>)
  qed
qed (use assms in \<open>simp_all add: getMstoreFiles_def Let_def\<close>)

lemma getMstoreFiles_moves:
  assumes run: "getMstoreFiles S vod cs ds st = Ok (r, st')" and vod: "text_vod S text cs ds" "dec_vod S b = (vod, None)"
    and plain: "\<not> HasPrefix (Contentid vod) ''DL_''"
  shows "moves (se_capi S) (sendable (se_capi S) text) R poll_report (ss_fs st) (ss_fs st')"
    and "text_index B text (ss_fs st) \<Longrightarrow> text_index B text (ss_fs st')"
proof -
  have texts: "text (Contentid vod)" "text (CID vod)" "text (Contentbroadcastcommandid vod)" "\<And>p. text (size_text S p)"
      "text (Dir (Replace1 (VideoFilename vod) ds cs))" "\<not> HasPrefix (Contentid vod) ''DL_''"
    using vod plain by (auto simp: text_vod_def)
  from run show "moves (se_capi S) (sendable (se_capi S) text) R poll_report (ss_fs st) (ss_fs st')"
  proof (cases rule: getMstoreFiles_pending)
    case same
    then show ?thesis by (simp add: moves_def)
  next
    case (queued fs data r')
    let ?d = "download_request (Contentid vod) (se_now S (clock_reads st)) (CID vod)
        (size_text S (Dir (Replace1 (VideoFilename vod) ds cs))) (Contentbroadcastcommandid vod) (Dir (Replace1 (VideoFilename vod) ds cs))"
    have "moves (se_capi S) (sendable (se_capi S) text) R poll_report fs (ss_fs st')"
    proof (rule put_text_moves [OF AddContent_value [OF queued(2)] queued(3)])
      show "request_key ?d = Contentid vod" by (simp add: request_key_def download_request_def)
    qed (use texts poll_reports(2) in \<open>simp_all add: download_request_text\<close>)
    then show ?thesis by (simp add: moves_def queued(1))
  qed
  assume idx: "text_index B text (ss_fs st)"
  obtain h err where r: "r = (h, err)" by (cases r)
  from run [unfolded r] show "text_index B text (ss_fs st')"
  proof (cases rule: getMstoreFiles_cases)
    case (indexed bytes fs)
    have "text_index B text fs" using idx CreateSatelliteIndexing_Ok(2) [OF indexed(4)] texts(1,2) by (simp add: text_index_def)
    then show ?thesis by (rule text_same [OF indexed(5)])
  qed (use idx in simp_all)
qed

lemma sync_content_moves:
  assumes run: "sync_content S cs ds i st = Ok st'" and vod: "text_vod S text cs ds" and plain: "plain_contents S"
  shows "moves (se_capi S) (sendable (se_capi S) text) R poll_report (ss_fs st) (ss_fs st') \<and>
    (text_index B text (ss_fs st) \<longrightarrow> text_index B text (ss_fs st'))"
proof -
  obtain err st1 where 1: "getMetadataAPI S (ContentID i) cs ds st = Ok (err, st1)" "ss_fs st' = ss_fs st1"
    using run by (auto simp: sync_content_def split: option.splits)
  from 1(1) show ?thesis
  proof (cases rule: getMetadataAPI_cases)
    case (files jsonRes v h st2)
    have "\<not> HasPrefix (Contentid v) ''DL_''" using plain files(1,2) unfolding plain_contents_def by blast
    with getMstoreFiles_moves [OF files(5) vod files(2)] files(6) 1(2) show ?thesis by simp
  qed (use 1(2) in simp)
qed

lemma queue_deleted_moves:
  assumes run: "queue_deleted S m a st = Ok st'" and known: "text (''DL_'' @ a)" "text_info text (info_at m a)"
  shows "moves (se_capi S) (sendable (se_capi S) text) R poll_report (ss_fs st) (ss_fs st')"
  using run
proof (cases rule: queue_deleted_cases)
  case (added data r)
  show ?thesis
  proof (rule put_text_moves [OF AddContent_value [OF added(2)] added(1)])
    show "request_key (delete_request a (se_now S (clock_reads st)) (info_at m a)) = ''DL_'' @ a"
      by (simp add: request_key_def delete_request_def)
  qed (use known poll_reports(1) in \<open>simp_all only: delete_request_text\<close>)
qed simp

lemma fold_queue_moves:
  assumes "fold_res (queue_deleted S m) ids st = Ok st'" "\<And>a. a \<in> set ids \<Longrightarrow> text (''DL_'' @ a) \<and> text_info text (info_at m a)"
  shows "moves (se_capi S) (sendable (se_capi S) text) R poll_report (ss_fs st) (ss_fs st')"
  by (rule fold_res_invariant [OF assms(1), where P = "\<lambda>s. moves (se_capi S) (sendable (se_capi S) text) R poll_report (ss_fs st) (ss_fs s)"])
    (use assms(2) queue_deleted_moves in \<open>blast intro: moves_refl moves_trans\<close>)+

lemma handleDeleted_moves:
  assumes run: "handleDeletedContents S order vl st = Ok (err, st')" and order: "\<forall>xs. mset (order xs) = mset xs"
    and inv: "index_inv B (ss_fs st)" and idx: "text_index B text (ss_fs st)" and vod: "text_vod S text cs ds"
    and prefixed: "\<And>a. text a \<Longrightarrow> text (''DL_'' @ a)"
  shows "moves (se_capi S) (sendable (se_capi S) text) R poll_report (ss_fs st) (ss_fs st') \<and> text_index B text (ss_fs st')"
  using run order inv
proof (cases rule: handleDeleted_cases)
  case (sat_failed e)
  with idx show ?thesis by simp
next
  case (asset_failed e)
  note e1 = DeleteSatelliteIds_Ok [OF asset_failed(2)]
  have "text_index B text (ss_fs st')" by (rule text_shrink [OF idx]) (simp add: e1(1) split: if_splits)
  then show ?thesis by (simp add: moves_def e1(1))
next
  case (removed fs1 fs2 m)
  define del where "del = gone vl (order (sat_items (ss_fs st)))"
  note idx2 = deleted_index [OF removed(2,3) inv set_gone [OF order]]
  have ids: "text k \<and> text a" if "(k, a) \<in> set del" for k a
    using idx that set_gone [OF order] by (auto simp: text_index_def del_def)
  have known: "text (''DL_'' @ a) \<and> text_info text (info_at m a)" if gone: "a \<in> set (map snd del)" for a
  proof -
    from gone obtain k where k: "(k, a) \<in> set del" by auto
    with vod ids [OF k] prefixed removed(5) [of k a] show ?thesis by (auto simp: text_info_def known_info_def text_vod_def del_def)
  qed
  have "moves (se_capi S) (sendable (se_capi S) text) R poll_report (ss_fs (set_fs fs2 st)) (ss_fs st')"
    by (rule fold_queue_moves [OF removed(4)]) (use known in \<open>auto simp: del_def\<close>)
  then have "moves (se_capi S) (sendable (se_capi S) text) R poll_report (ss_fs st) (ss_fs st')" by (simp add: moves_def idx2(4))
  moreover have "text_index B text fs2" by (rule text_shrink [OF idx]) (simp add: idx2(1) split: if_splits)
  then have "text_index B text (ss_fs st')" using text_same fold_queue_same_index [OF removed(4)] by simp
  ultimately show ?thesis ..
qed

lemma poll_moves:
  assumes run: "pollMstore_pass S order cs ds st = Ok st'" and order: "\<forall>xs. mset (order xs) = mset xs"
    and inv: "index_inv B (ss_fs st)" and idx: "text_index B text (ss_fs st)" and vod: "text_vod S text cs ds"
    and plain: "plain_contents S" and prefixed: "\<And>a. text a \<Longrightarrow> text (''DL_'' @ a)"
  shows "moves (se_capi S) (sendable (se_capi S) text) (\<lambda>_. False) poll_report (ss_fs st) (ss_fs st') \<and> text_index B text (ss_fs st')"
  using run
proof (cases rule: poll_cases)
  case (list jsonRes vl st0 st1 err st2)
  let ?moves = "moves (se_capi S) (sendable (se_capi S) text) (\<lambda>_. False) poll_report (ss_fs st)"
  have "?moves (ss_fs st1) \<and> text_index B text (ss_fs st1) \<and> index_inv B (ss_fs st1)"
  proof (rule fold_res_invariant [OF list(4), where P = "\<lambda>s. ?moves (ss_fs s) \<and> text_index B text (ss_fs s) \<and> index_inv B (ss_fs s)"])
    fix x s s' assume "?moves (ss_fs s) \<and> text_index B text (ss_fs s) \<and> index_inv B (ss_fs s)" "sync_content S cs ds x s = Ok s'"
    with sync_content_moves [OF _ vod plain, of x s s' "\<lambda>_. False"] sync_content_inv show "?moves (ss_fs s') \<and> text_index B text (ss_fs s') \<and> index_inv B (ss_fs s')"
      by (blast intro: moves_trans)
  qed (use list(3) idx inv in simp)
  then show ?thesis
    using handleDeleted_moves [OF list(5) order _ _ vod prefixed, of "\<lambda>_. False"] list(6) moves_trans by auto
qed (use idx in simp)

end

section \<open>A pass over the pending requests\<close>

context cloud_env
begin

lemma requests_pass:
  assumes run: "HandleApiRequests_pass E order down del st = Ok st'" and codec: "request_codec E valid" and queue: "queue_ok E valid (ca_fs st)"
  shows "moves E valid (\<lambda>_. True) (\<lambda>_. True) (ca_fs st) (ca_fs st') \<and> grown (ca_logst st) (ca_logst st')"
    and "awaiting E ty k (ca_fs st) \<Longrightarrow> ty = Downloaded \<or> ty = Deleted \<Longrightarrow>
      reported_since E ty k (ca_logst st) (ca_logst st') \<or> awaiting E ty k (ca_fs st')"
proof -
  define ds where "ds = map (\<lambda>data. request_of E data) (GetPendingApiRequests (ca_bolt E) (ca_fs st))"
  note snap = snapshot [OF queue ds_def]
  have fold: "fold_res (process_type E (GetSegregatedItems ds) down del) order st = Ok st'"
    using run by (simp add: HandleApiRequests_pass_def ProcessRequests_def Let_def ds_def)
  have one: "moves E valid (\<lambda>k. k \<in> request_key ` set (filter (\<lambda>d. ApiType d = t) ds)) (\<lambda>d. \<exists>d0 \<in> set (filter (\<lambda>d. ApiType d = t) ds). variant d0 d) (ca_fs s) (ca_fs s')"
    "grown (ca_logst s) (ca_logst s')" if "process_type E (GetSegregatedItems ds) down del t s = Ok s'" for t s s'
    using process_type_moves [OF that codec snap(1,2) refl] by blast+
  show "moves E valid (\<lambda>_. True) (\<lambda>_. True) (ca_fs st) (ca_fs st') \<and> grown (ca_logst st) (ca_logst st')"
  proof (rule fold_res_invariant [OF fold, where P = "\<lambda>s. moves E valid (\<lambda>_. True) (\<lambda>_. True) (ca_fs st) (ca_fs s) \<and> grown (ca_logst st) (ca_logst s)"])
    fix t s s' assume P: "moves E valid (\<lambda>_. True) (\<lambda>_. True) (ca_fs st) (ca_fs s) \<and> grown (ca_logst st) (ca_logst s)"
      and "process_type E (GetSegregatedItems ds) down del t s = Ok s'"
    note step = one [OF this(2)]
    have "moves E valid (\<lambda>_. True) (\<lambda>_. True) (ca_fs s) (ca_fs s')" by (rule moves_mono [OF step(1)]) simp_all
    with P step(2) show "moves E valid (\<lambda>_. True) (\<lambda>_. True) (ca_fs st) (ca_fs s') \<and> grown (ca_logst st) (ca_logst s')"
      using moves_trans grown_trans by blast
  qed simp
  assume waiting: "awaiting E ty k (ca_fs st)" and ty: "ty = Downloaded \<or> ty = Deleted"
  then obtain b where b: "pending (ca_bolt E) (ca_fs st) k = Some b" "ApiType (request_of E b) = ty" "SendCloudTelemetry (request_of E b)"
    by (auto simp: awaiting_def)
  define d where "d = request_of E b"
  have d: "d \<in> set ds" "SendCloudTelemetry d" "ApiType d = ty" using snap(3) [OF b(1)] b by (simp_all add: d_def)
  have "request_key d = k" using queue b(1) by (simp add: queue_ok_def d_def)
  then have key: "request_key d = k" "ApiId d = k" using ty d(3) by (auto simp: request_key_def)
  let ?P = "\<lambda>s. grown (ca_logst st) (ca_logst s) \<and> (reported_since E ty k (ca_logst st) (ca_logst s) \<or> awaiting E ty k (ca_fs s))"
  have "?P st'"
  proof (rule fold_res_invariant [OF fold, where P = ?P])
    fix t s s' assume P: "?P s" and step: "process_type E (GetSegregatedItems ds) down del t s = Ok s'"
    note st = one [OF step]
    have "reported_since E ty k (ca_logst st) (ca_logst s') \<or> awaiting E ty k (ca_fs s')"
    proof (cases "reported_since E ty k (ca_logst st) (ca_logst s)")
      case True
      with reported_grown st(2) show ?thesis by blast
    next
      case False
      with P have w: "awaiting E ty k (ca_fs s)" by blast
      show ?thesis
      proof (cases "t = ty")
        case True
        with process_type_waiting [of ds down del d s s' valid ty] step codec snap(1,2) d ty w key(2)
        have "reported_since E ty k (ca_logst s) (ca_logst s') \<or> awaiting E ty k (ca_fs s')" by simp
        with P reported_before show ?thesis by blast
      next
        case False
        have other: "request_key d0 \<noteq> k" if "d0 \<in> set ds" "ApiType d0 = t" for d0
          using that d(1,3) key(1) snap(2) False by (metis distinct_map inj_onD)
        have none: False if "\<exists>d0 \<in> set (filter (\<lambda>d. ApiType d = t) ds). variant d0 x" "request_key x = k" for x
          using that other variant_key by fastforce
        have "k \<notin> request_key ` set (filter (\<lambda>d. ApiType d = t) ds)" using other by auto
        from moves_awaiting [OF codec st(1) w this] none have "awaiting E ty k (ca_fs s')" by blast
        then show ?thesis ..
      qed
    qed
    with P st(2) grown_trans show "?P s'" by blast
  qed (use waiting in simp)
  then show "reported_since E ty k (ca_logst st) (ca_logst st') \<or> awaiting E ty k (ca_fs st')" by simp
qed

text \<open>The asset map sends reports of its own; the heartbeat sends none.\<close>

lemma assetmap_loop_grown: "grown (ca_logst st) (ca_logst (snd (assetmap_loop E n items batch st)))"
proof (induction items arbitrary: batch st)
  case Nil
  show ?case using assetmap_send(2) [of E batch st] by (cases "sendDownloadedTelemetryData E True \<lparr>ur_DeviceId = ca_deviceId E, Contents = batch\<rparr> st")
      (auto simp: grown_def)
next
  case (Cons item items)
  obtain i v where item: "item = (i, v)" by (cases item)
  obtain info e where dec: "unmarshal (ca_info E) v = (info, e)" by fastforce
  let ?batch = "batch @ [\<lparr>ContentId = i, cd_OperationTime = DownloadTime info\<rparr>]"
  obtain err st1 where send: "sendDownloadedTelemetryData E True \<lparr>ur_DeviceId = ca_deviceId E, Contents = ?batch\<rparr> st = (err, st1)" by fastforce
  have "grown (ca_logst st) (ca_logst st1)" using assetmap_send(2) [OF send] by (simp add: grown_def)
  with Cons.IH grown_trans dec send show ?case unfolding item by (auto simp: Let_def split: option.split)
qed

lemma asset_map_grown:
  assumes "HandleAssetMapRequest_pass E order parse format saved n now s = Ok s'"
  shows "grown (ca_logst (am_capi s)) (ca_logst (am_capi s'))"
proof -
  have "sendAssetmapInBatches E order n st = Ok (err, st') \<Longrightarrow> grown (ca_logst st) (ca_logst st')" for st err st'
    using assetmap_loop_grown [of st n _ "[]"] by (auto simp: sendAssetmapInBatches_def split: res.splits if_splits) (metis snd_conv)
  with assms show ?thesis by (fastforce simp: HandleAssetMapRequest_pass_def Let_def split: if_splits option.splits prod.splits)
qed

lemma say_grown: "grown (ca_logst st) (ca_logst (say E ev sm st))"
  using log_msg_grown [of ev sm st] by (cases "log_msg E ev sm st") (simp add: say_def)

lemma heartbeat_grown: "grown (ca_logst st) (ca_logst (telemetryScheduler_pass E fo statfs p st))"
  unfolding telemetryScheduler_pass_def storageInfo_def livenessNumeric_def liveness_def Let_def
  using say_grown grown_trans by (auto split: prod.split option.split) blast+

end

section \<open>What a step does to the bucket\<close>

text \<open>The requests an activity may write, other than those it has read from the bucket.\<close>

definition step_writes :: "'db hub_env \<Rightarrow> activity \<Rightarrow> ApiData \<Rightarrow> bool" where
  "step_writes H a d = (case a of
     Poll \<Rightarrow> poll_report d
   | Provisioning \<Rightarrow> request_key d = ca_deviceId (hub_capi H)
   | Command name payload \<Rightarrow> request_key d = uf_CommandID (fst (dec_filter (hv_cmd H) payload))
   | _ \<Rightarrow> False)"

abbreviation hub_log :: "'db hub_state \<Rightarrow> log_state" where
  "hub_log h \<equiv> ca_logst (hs_capi h)"

lemma hub_log_simps [simp]:
  "hub_log (with_sat s h) = ca_logst (ss_capi s)" "ca_logst (ss_capi (sat_of h)) = hub_log h" "hub_log (with_cmd c h) = ca_logst (cs_capi c)"
  "ca_logst (cs_capi (cmd_of h)) = hub_log h" "hub_log (with_am m h) = ca_logst (am_capi m)" "ca_logst (am_capi (am_of h)) = hub_log h"
  by (simp_all add: with_sat_def sat_of_def with_cmd_def cmd_of_def with_am_def am_of_def)

lemma status_record_text: "text dev \<Longrightarrow> text i \<Longrightarrow> text [] \<Longrightarrow> text ''true'' \<Longrightarrow> text ''false'' \<Longrightarrow>
    text_request text (status_record dev i t reason) \<and> request_key (status_record dev i t reason) = i"
  by (auto simp: text_request_def status_record_def request_key_def prop_value_def)

lemma cm_log_grown: "grown (ca_logst (cs_capi st)) (ca_logst (cs_capi (cm_log C ev t st)))"
proof -
  obtain err st' where "log_msg (cm_capi C) ev (zero_MessageSubType\<lparr>StringMessage := t\<rparr>) (cs_capi st) = (err, st')" by fastforce
  then show ?thesis using log_msg_calls by (fastforce simp: cm_log_def grown_def)
qed

lemma apply_filters_grown:
  assumes "apply_filters C keywords ini st = Ok (reason, st')"
  shows "grown (ca_logst (cs_capi st)) (ca_logst (cs_capi st'))"
proof -
  have "callSetkeywords C keywords st = Ok (err, st1) \<Longrightarrow> grown (ca_logst (cs_capi st)) (ca_logst (cs_capi st1))" for err st1
    using cm_log_grown [where st = "st\<lparr>cs_http := Suc (cs_http st)\<rparr>"]
    by (auto simp: callSetkeywords_def Let_def split: sum.splits if_splits)
  with assms show ?thesis by (fastforce simp: apply_filters_def Let_def split: option.splits)
qed

lemma command_moves:
  assumes B: "bolt_spec (ca_bolt (cm_capi C))" and run: "snd (ReceiveCommand C name payload st) = Ok st'"
    and texts: "text [] " "text ''true''" "text ''false''" "text (cm_deviceId C)"
      "\<And>f. dec_filter C payload = (f, None) \<Longrightarrow> text (uf_CommandID f)"
  shows "moves (cm_capi C) (sendable (cm_capi C) text) (\<lambda>_. False) (\<lambda>d. request_key d = uf_CommandID (fst (dec_filter C payload)))
      (ca_fs (cs_capi st)) (ca_fs (cs_capi st')) \<and> grown (ca_logst (cs_capi st)) (ca_logst (cs_capi st'))"
proof (cases "name = ''FilterUpdate''")
  case True
  note env = cloud_env.intro [OF B]
  have run: "handleFilterUpdate C payload (DEVICE_DETAIL_FILE C) st = Ok st'" using run True by (simp add: ReceiveCommand_def)
  obtain p err where dec: "dec_filter C payload = (p, err)" by fastforce
  show ?thesis
  proof (cases "err \<noteq> None \<or> uf_DeviceID p \<noteq> cm_deviceId C \<or> uf_CommandID p = [] \<or> Filters p = None")
    case True
    with run dec cm_log_grown show ?thesis by (cases err) (auto simp: handleFilterUpdate_def)
  next
    case False
    then obtain flt where flt: "Filters p = Some flt" by blast
    from run dec False flt obtain reason st1 where applied: "apply_filters C (keywords_of flt) (DEVICE_DETAIL_FILE C) st = Ok (reason, st1)"
      by (auto simp: handleFilterUpdate_def)
    have fs: "ca_fs (cs_capi st1) = ca_fs (cs_capi st)" using applied by (rule apply_filters_cases) simp_all
    note log = apply_filters_grown [OF applied]
    let ?status = "status_record (cm_deviceId C) (uf_CommandID p) (cm_now C (cs_clock st1)) reason"
    have status: "text_request text ?status \<and> request_key ?status = uf_CommandID p"
      using texts False dec by (intro status_record_text) auto
    show ?thesis
    proof (cases "marshal (ca_json (cm_capi C)) ?status")
      case (Inl e)
      with run dec False fs flt applied log show ?thesis by (auto simp: handleFilterUpdate_def Let_def)
    next
      case (Inr b)
      obtain r fs' where add: "AddCommandStatus (ca_bolt (cm_capi C)) (uf_CommandID p) b (ca_fs (cs_capi st1)) = (r, fs')" by fastforce
      have "ca_fs (cs_capi st') = fs' \<and> ca_logst (cs_capi st') = ca_logst (cs_capi st1)"
        using run dec False applied Inr add flt by (cases r) (auto simp: handleFilterUpdate_def Let_def)
      moreover have "moves (cm_capi C) (sendable (cm_capi C) text) (\<lambda>_. False) (\<lambda>d. request_key d = uf_CommandID p) (ca_fs (cs_capi st1)) fs'"
        by (rule cloud_env.put_text_moves [OF env cloud_env.put_pending_value [OF env add [unfolded AddCommandStatus_def]] Inr])
          (use status in simp_all)
      ultimately show ?thesis using fs log dec by simp
    qed
  qed
next
  case False
  with run cm_log_grown show ?thesis by (auto simp: ReceiveCommand_def handleDownload_def handleDelete_def split: if_splits)
qed

lemma provisioning_moves:
  assumes B: "bolt_spec (ca_bolt E)" and run: "start_provision E dev now fs = Ok fs'" and dev: "text dev"
  shows "moves E (sendable E text) (\<lambda>_. False) (\<lambda>d. request_key d = dev) fs fs'"
proof (cases "marshal (ca_json E) (provision_data dev now)")
  case (Inr b)
  note env = cloud_env.intro [OF B]
  obtain r fs1 where add: "AddProvisionedStatus (ca_bolt E) dev b fs = (r, fs1)" by fastforce
  have "fs' = fs1" using run Inr add by (cases r) (auto simp: start_provision_def)
  moreover have "moves E (sendable E text) (\<lambda>_. False) (\<lambda>d. request_key d = dev) fs fs1"
    by (rule cloud_env.put_text_moves [OF env cloud_env.put_pending_value [OF env add [unfolded AddProvisionedStatus_def]] Inr])
      (use dev in \<open>simp_all add: text_request_def provision_data_def request_key_def\<close>)
  ultimately show ?thesis by simp
qed (use run in \<open>simp add: start_provision_def\<close>)

lemma step_moves:
  assumes B: "bolt_spec (hub_bolt H)" and H: "text_hub H text" and plain: "plain_contents (hv_sat H)" and step: "hub_step H a h h'" "a \<noteq> Requests"
    and inv: "index_inv (hub_bolt H) (hub_fs h)" and idx: "text_index (hub_bolt H) text (hub_fs h)"
  shows "moves (hub_capi H) (sendable (hub_capi H) text) (\<lambda>_. False) (step_writes H a) (hub_fs h) (hub_fs h') \<and> grown (hub_log h) (hub_log h')"
    and "text_index (hub_bolt H) text (hub_fs h')"
proof -
  note env = cloud_env.intro [OF B]
  have vod: "text_vod (hv_sat H) text (hv_containerStorage H) (hv_deviceStorage H)"
    and prefixed: "\<And>x. text x \<Longrightarrow> text (''DL_'' @ x)" and dev: "text (ca_deviceId (hub_capi H))"
    using H by (simp_all add: text_hub_def)
  from step have "moves (hub_capi H) (sendable (hub_capi H) text) (\<lambda>_. False) (step_writes H a) (hub_fs h) (hub_fs h') \<and> grown (hub_log h) (hub_log h') \<and>
      (a = Poll \<longrightarrow> text_index (hub_bolt H) text (hub_fs h'))"
  proof cases
    case (poll order st)
    note hub = sat_hub_of [OF B]
    have "moves (hub_capi H) (sendable (hub_capi H) text) (\<lambda>_. False) poll_report (hub_fs h) (ss_fs st) \<and> text_index (hub_bolt H) text (ss_fs st)"
      using sat_hub.poll_moves [OF hub poll(4,3) _ _ vod plain prefixed] inv idx by simp
    moreover have "grown (hub_log h) (ca_logst (ss_capi st))" using sat_hub.poll_grown [OF hub poll(4)] by simp
    moreover have "step_writes H Poll = poll_report" by (simp add: step_writes_def fun_eq_iff)
    ultimately show ?thesis using poll(1,2) by simp
  next
    case (asset_map order saved now st)
    have "ca_fs (am_capi st) = hub_fs h"
      using cloud_env.asset_map_keeps [OF env, of False "am_of h"] asset_map by (fastforce simp: post_False)
    with cloud_env.asset_map_grown [OF env asset_map(4)] asset_map(1,2) show ?thesis by simp
  next
    case (heartbeat statfs)
    with cloud_env.heartbeat_grown [OF env] show ?thesis by simp
  next
    case (provisioning now fs)
    have "step_writes H Provisioning = (\<lambda>d. request_key d = ca_deviceId (hub_capi H))" by (simp add: step_writes_def fun_eq_iff)
    with provisioning_moves [OF B provisioning(3), of "text"] dev provisioning show ?thesis by simp
  next
    case (command name payload st)
    have "step_writes H (Command name payload) = (\<lambda>d. request_key d = uf_CommandID (fst (dec_filter (hv_cmd H) payload)))"
      by (simp add: step_writes_def fun_eq_iff)
    moreover have "dec_filter (hub_cmd H) = dec_filter (hv_cmd H)" "cm_deviceId (hub_cmd H) = cm_deviceId (hv_cmd H)"
      by (simp_all add: hub_cmd_def)
    ultimately show ?thesis using command_moves [of "hub_cmd H" name payload "cmd_of h" st "text"] B H command
      by (simp add: text_hub_def)
  qed simp
  then show "moves (hub_capi H) (sendable (hub_capi H) text) (\<lambda>_. False) (step_writes H a) (hub_fs h) (hub_fs h') \<and> grown (hub_log h) (hub_log h')"
    and "text_index (hub_bolt H) text (hub_fs h')"
    using quiet_step [OF B step(1)] text_same idx by blast+
qed

section \<open>What a step keeps\<close>

text \<open>The index is consistent, its ids are texts, and the bucket holds requests under their own keys.\<close>

definition sound_state :: "'db hub_env \<Rightarrow> (string \<Rightarrow> bool) \<Rightarrow> 'db hub_state \<Rightarrow> bool" where
  "sound_state H text h \<longleftrightarrow> index_inv (hub_bolt H) (hub_fs h) \<and> text_index (hub_bolt H) text (hub_fs h) \<and>
     queue_ok (hub_capi H) (sendable (hub_capi H) text) (hub_fs h)"

text \<open>An activity that writes nothing under the key \<open>k\<close> but reports of type \<open>ty\<close>.\<close>

definition spares :: "'db hub_env \<Rightarrow> Type \<Rightarrow> string \<Rightarrow> activity \<Rightarrow> bool" where
  "spares H ty k a \<longleftrightarrow> (\<forall>d. step_writes H a d \<longrightarrow> request_key d = k \<longrightarrow> ApiType d = ty \<and> SendCloudTelemetry d)"

inductive_cases requests_stepE: "hub_step H Requests h h'"

lemma sound_step:
  assumes B: "bolt_spec (hub_bolt H)" and H: "text_hub H text" and plain: "plain_contents (hv_sat H)" and step: "hub_step H a h h'" and sound: "sound_state H text h"
  shows "sound_state H text h' \<and> grown (hub_log h) (hub_log h') \<and>
    (spares H ty k a \<and> (ty = Downloaded \<or> ty = Deleted) \<and> awaiting (hub_capi H) ty k (hub_fs h) \<longrightarrow>
      reported_since (hub_capi H) ty k (hub_log h) (hub_log h') \<or> awaiting (hub_capi H) ty k (hub_fs h'))"
proof -
  have codec: "request_codec (hub_capi H) (sendable (hub_capi H) text)" using H by (intro sendable_codec) (simp add: text_hub_def)
  have inv: "index_inv (hub_bolt H) (hub_fs h)" and idx: "text_index (hub_bolt H) text (hub_fs h)"
    and queue: "queue_ok (hub_capi H) (sendable (hub_capi H) text) (hub_fs h)" using sound by (simp_all add: sound_state_def)
  note inv' = step_inv [OF B step inv]
  show ?thesis
  proof (cases "a = Requests")
    case True
    with step obtain order st where st: "h' = h\<lparr>hs_capi := st\<rparr>" "HandleApiRequests_pass (hub_capi H) order
        (downloadBatchMessageSize (hv_settings H)) (deleteBatchMessageSize (hv_settings H)) (hs_capi h) = Ok st"
      by (auto elim: requests_stepE)
    note pass = cloud_env.requests_pass [OF cloud_env.intro [OF B] st(2) codec queue]
    have "a \<noteq> Poll" using True by simp
    from text_same [OF quiet_step [OF B step this] idx] have "text_index (hub_bolt H) text (hub_fs h')" .
    moreover have "queue_ok (hub_capi H) (sendable (hub_capi H) text) (hub_fs h')"
      by (rule moves_queue_ok [OF codec _ queue]) (use pass(1) st(1) in auto)
    moreover have "reported_since (hub_capi H) ty k (hub_log h) (hub_log h') \<or> awaiting (hub_capi H) ty k (hub_fs h')"
      if "awaiting (hub_capi H) ty k (hub_fs h)" "ty = Downloaded \<or> ty = Deleted"
      using pass(2) [OF that] st(1) by simp
    ultimately show ?thesis using pass(1) inv' st(1) by (simp add: sound_state_def)
  next
    case False
    note moved = step_moves [OF B H plain step False inv idx]
    have "queue_ok (hub_capi H) (sendable (hub_capi H) text) (hub_fs h')" using moves_queue_ok [OF codec _ queue] moved(1) by blast
    moreover have "awaiting (hub_capi H) ty k (hub_fs h')" if "spares H ty k a" "awaiting (hub_capi H) ty k (hub_fs h)"
      using moves_awaiting [OF codec _ that(2)] moved(1) that(1) unfolding spares_def by blast
    ultimately show ?thesis using moved inv' by (simp add: sound_state_def)
  qed
qed

lemma own_key_spared:
  assumes "HasPrefix k ''DL_'' \<longleftrightarrow> ty = Deleted" "ty = Downloaded \<or> ty = Deleted" "k \<noteq> ca_deviceId (hub_capi H)"
    and "\<And>name payload. a = Command name payload \<Longrightarrow> uf_CommandID (fst (dec_filter (hv_cmd H) payload)) \<noteq> k"
  shows "spares H ty k a"
  using assms by (auto simp: spares_def step_writes_def poll_report_key poll_report_def split: activity.splits)

section \<open>A report that waits\<close>

text \<open>A report that waits in the bucket of the hub in memory.\<close>

definition demo_report :: ApiData where
  "demo_report = download_request ''a'' 0 ''k'' ''0'' ''b'' ''/c''"

definition waiting_hub :: "mem_db hub_state" where
  "waiting_hub = mem_hub_start\<lparr>hs_capi := mem_state (mem_fs [] [] [(''a'', projr (marshal api_codec demo_report))])\<rparr>"

lemma demo_report_decoded: "unmarshal api_codec (projr (marshal api_codec demo_report)) = (demo_report, None)"
  using mem_api.round_trip [of demo_report] by auto

lemma demo_codec: "text_codec api_codec (\<lambda>_. True)"
  unfolding text_codec_def using mem_api.marshal_valid by (auto simp: api_codec_def)

lemma waiting_hub_sound: "hub_capi H = mem_capi (\<lambda>_. None) \<Longrightarrow> sound_state H (\<lambda>_. True) waiting_hub"
  by (simp add: sound_state_def waiting_hub_def index_inv_def text_index_def queue_ok_def demo_report_decoded sendable_def)
    (simp add: demo_report_def text_request_def download_request_def request_key_def api_codec_def)

lemma waiting_hub_awaits: "awaiting (mem_capi (\<lambda>_. None)) Downloaded ''a'' (hub_fs waiting_hub)"
  by (simp add: awaiting_def waiting_hub_def demo_report_decoded) (simp add: demo_report_def download_request_def)

text \<open>
  A hub whose receiver answers every request with a text made of it, and whose decoders read the ids off what
  they are given: of a body that begins with \<open>DL_\<close> they would read such an id.
\<close>

definition answering_hub :: "mem_db hub_env" where
  "answering_hub = (mem_hub [''k''] (demo_vod ''k'' ''a''))
     \<lparr>hv_sat := (mem_sat [''k''] (demo_vod ''k'' ''a''))\<lparr>http_get := \<lambda>_ url. Inr (''c'' @ url),
        dec_vod := \<lambda>b. if b = [] then (demo_vod [] [], Some ''unexpected end of JSON input'') else (demo_vod b b, None)\<rparr>,
      hv_cmd := (mem_cmd (Inr ''<body> SET OK </body>'') None ''dev'')
        \<lparr>dec_filter := \<lambda>p. (\<lparr>uf_DeviceID = ''dev'', uf_CommandID = p, Filters = Some [p]\<rparr>, None)\<rparr>\<rparr>"

lemma answering_hub_simps [simp]:
  "hub_capi answering_hub = mem_capi (\<lambda>_. None)" "uf_CommandID (fst (dec_filter (hv_cmd answering_hub) p)) = p"
  by (simp_all add: answering_hub_def)

lemma answering_hub_text: "text_hub answering_hub (\<lambda>_. True)" "plain_contents (hv_sat answering_hub)"
  by (simp_all add: text_hub_def text_vod_def demo_codec plain_contents_def) (simp add: answering_hub_def HasPrefix_def)

lemma answering_hub_run:
  assumes "index_inv mem_bolt (hub_fs h)"
  obtains h' where "hub_run answering_hub [Heartbeat, Poll, Command ''FilterUpdate'' ''x''] h h'"
proof -
  have B: "bolt_spec (hub_bolt answering_hub)" by (simp add: mem_bolt_spec)
  obtain h1 where 1: "hub_run answering_hub [Heartbeat, Poll] h h1"
    by (rule heartbeat_poll_run [OF B]) (use assms in simp_all)
  have "index_inv mem_bolt (hub_fs h1)" using run_inv [OF 1 B] assms by simp
  then have ready: "pending_ready mem_bolt (hub_fs h1)" by (rule index_inv_bucket(3))
  have "\<not> crashing (hub_cmd answering_hub) ''FilterUpdate'' ''x'' (cmd_of h1)"
    by (simp add: crashing_def hub_cmd_def answering_hub_def mem_cmd_def Let_def) code_simp
  then obtain st where "snd (ReceiveCommand (hub_cmd answering_hub) ''FilterUpdate'' ''x'' (cmd_of h1)) = Ok st"
    using command_returns [of "hub_cmd answering_hub" "cmd_of h1" "''FilterUpdate''" "''x''"] B ready by auto
  from hub_run.run_snoc [OF 1 hub_step.command [OF this]] that show ?thesis by simp
qed

end
