(* ===== verification/Hub_Interleaving.thy ===== *)
theory Hub_Interleaving
  imports Hub_Reports
begin

text \<open>
  The runs of \<open>Hub_Run\<close> take a pass over the pending requests as one step. Here the pass is taken apart: it
  reads the bucket once, and then handles what it has read kind by kind (\<^verbatim>\<open>ProcessRequests\<close>), while the other
  goroutines go on, so that the bucket may have changed under it. Every run of \<open>Hub_Run\<close> is one of these
  (\<open>coarse_run_is_fine\<close>); the index stays consistent in all of them, no report is lost in a run that starts
  between two passes, and one can be lost by a pass that holds an outdated copy of its request.
\<close>

section \<open>Steps\<close>

text \<open>What a pass still has to do: the kinds to handle, and the requests it has read.\<close>

type_synonym in_flight = "(Type list \<times> ApiData list) option"

datatype moment = Fetch | Handle Type | Finish | Activity activity

inductive fine_step :: "'db hub_env \<Rightarrow> moment \<Rightarrow> 'db hub_state \<times> in_flight \<Rightarrow> 'db hub_state \<times> in_flight \<Rightarrow> bool" for H where
  fetch: "distinct order \<Longrightarrow> set order = pending_types (hub_capi H) (hub_fs h) \<Longrightarrow>
    fine_step H Fetch (h, None)
      (h, Some (order, map (\<lambda>data. request_of (hub_capi H) data) (GetPendingApiRequests (hub_bolt H) (hub_fs h))))"
| handle: "process_type (hub_capi H) (GetSegregatedItems ds) (downloadBatchMessageSize (hv_settings H))
      (deleteBatchMessageSize (hv_settings H)) t (hs_capi h) = Ok st \<Longrightarrow>
    fine_step H (Handle t) (h, Some (t # ts, ds)) (h\<lparr>hs_capi := st\<rparr>, Some (ts, ds))"
| finish: "fine_step H Finish (h, Some ([], ds)) (h, None)"
| activity: "a \<noteq> Requests \<Longrightarrow> hub_step H a h h' \<Longrightarrow> fine_step H (Activity a) (h, p) (h', p)"

inductive_cases fetch_stepE: "fine_step H Fetch s s'"
inductive_cases handle_stepE: "fine_step H (Handle t) s s'"
inductive_cases finish_stepE: "fine_step H Finish s s'"
inductive_cases activity_stepE: "fine_step H (Activity a) s s'"

inductive fine_run :: "'db hub_env \<Rightarrow> moment list \<Rightarrow> 'db hub_state \<times> in_flight \<Rightarrow> 'db hub_state \<times> in_flight \<Rightarrow> bool" for H where
  fine_Nil: "fine_run H [] s s"
| fine_snoc: "fine_run H ms s s1 \<Longrightarrow> fine_step H m s1 s2 \<Longrightarrow> fine_run H (ms @ [m]) s s2"

lemma fine_append: "fine_run H ms' s1 s2 \<Longrightarrow> fine_run H ms s s1 \<Longrightarrow> fine_run H (ms @ ms') s s2"
proof (induction rule: fine_run.induct)
  case (fine_snoc ms' s1 s2 m s3)
  then show ?case using fine_run.fine_snoc by (metis append.assoc)
qed simp

lemma fine_one: "fine_step H m s s' \<Longrightarrow> fine_run H [m] s s'"
  using fine_run.fine_snoc [OF fine_run.fine_Nil] by fastforce

section \<open>Whole passes\<close>

lemma handle_all:
  assumes "fold_res (process_type (hub_capi H) (GetSegregatedItems ds) (downloadBatchMessageSize (hv_settings H))
      (deleteBatchMessageSize (hv_settings H))) ts (hs_capi h) = Ok st"
  shows "fine_run H (map Handle ts) (h, Some (ts, ds)) (h\<lparr>hs_capi := st\<rparr>, Some ([], ds))"
  using assms
proof (induction ts arbitrary: h)
  case Nil
  then have "h\<lparr>hs_capi := st\<rparr> = h" by (cases h) simp
  then show ?case by (simp add: fine_run.fine_Nil)
next
  case (Cons t ts)
  then obtain st1 where 1: "process_type (hub_capi H) (GetSegregatedItems ds) (downloadBatchMessageSize (hv_settings H))
      (deleteBatchMessageSize (hv_settings H)) t (hs_capi h) = Ok st1"
    and 2: "fold_res (process_type (hub_capi H) (GetSegregatedItems ds) (downloadBatchMessageSize (hv_settings H))
      (deleteBatchMessageSize (hv_settings H))) ts (hs_capi (h\<lparr>hs_capi := st1\<rparr>)) = Ok st" by auto
  from fine_append [OF Cons.IH [OF 2] fine_one [OF fine_step.handle [where ts = ts, OF 1]]] show ?case by simp
qed

lemma requests_step_fine:
  assumes "hub_step H Requests h h'"
  shows "\<exists>ts. fine_run H (Fetch # map Handle ts @ [Finish]) (h, None) (h', None)"
  using assms
proof (rule requests_stepE)
  fix order st
  let ?ds = "map (\<lambda>data. request_of (hub_capi H) data) (GetPendingApiRequests (hub_bolt H) (hub_fs h))"
  assume h': "h' = h\<lparr>hs_capi := st\<rparr>" and order: "distinct order" "set order = pending_types (hub_capi H) (hub_fs h)"
    and "HandleApiRequests_pass (hub_capi H) order (downloadBatchMessageSize (hv_settings H)) (deleteBatchMessageSize (hv_settings H)) (hs_capi h) = Ok st"
  then have "fold_res (process_type (hub_capi H) (GetSegregatedItems ?ds) (downloadBatchMessageSize (hv_settings H))
      (deleteBatchMessageSize (hv_settings H))) order (hs_capi h) = Ok st"
    by (simp add: HandleApiRequests_pass_def ProcessRequests_def Let_def)
  note handled = handle_all [OF this]
  from fine_append [OF fine_one [OF fine_step.finish] fine_append [OF handled fine_one [OF fine_step.fetch [OF order]]]] h'
  show ?thesis by auto
qed

text \<open>A run by whole passes is a run of these steps.\<close>

theorem coarse_run_is_fine:
  assumes "hub_run H as h h'"
  shows "\<exists>ms. fine_run H ms (h, None) (h', None) \<and> {a. Activity a \<in> set ms} = set as - {Requests}"
  using assms
proof (induction rule: hub_run.induct)
  case (run_snoc as h h1 a h2)
  then obtain ms where ms: "fine_run H ms (h, None) (h1, None)" "{a. Activity a \<in> set ms} = set as - {Requests}" by blast
  show ?case
  proof (cases "a = Requests")
    case True
    with run_snoc.hyps(2) obtain ts where "fine_run H (Fetch # map Handle ts @ [Finish]) (h1, None) (h2, None)"
      using requests_step_fine by blast
    from fine_append [OF this ms(1)] ms(2) True show ?thesis by (intro exI conjI) (assumption, auto)
  next
    case False
    note step = fine_step.activity [OF False run_snoc.hyps(2), of None]
    from fine_run.fine_snoc [OF ms(1) step] ms(2) False show ?thesis by (intro exI conjI) (assumption, auto)
  qed
qed (use fine_run.fine_Nil in fastforce)

section \<open>What a step keeps\<close>

text \<open>The requests a pass has read were entries of the bucket, each under its own key.\<close>

definition sound_pass :: "'db hub_env \<Rightarrow> (string \<Rightarrow> bool) \<Rightarrow> in_flight \<Rightarrow> bool" where
  "sound_pass H text p \<longleftrightarrow> (case p of None \<Rightarrow> True
     | Some (ts, ds) \<Rightarrow> (\<forall>d \<in> set ds. sendable (hub_capi H) text d) \<and> distinct (map request_key ds))"

text \<open>The copy that a pass has of the entry \<open>k\<close>, if it has one, is a report of type \<open>ty\<close> that is still due.\<close>

definition up_to_date :: "Type \<Rightarrow> string \<Rightarrow> in_flight \<Rightarrow> bool" where
  "up_to_date ty k p \<longleftrightarrow> (case p of None \<Rightarrow> True
     | Some (ts, ds) \<Rightarrow> (\<forall>d \<in> set ds. request_key d = k \<longrightarrow> ApiType d = ty \<and> SendCloudTelemetry d))"

lemma pass_simps [simp]: "sound_pass H text None" "up_to_date ty k None"
  by (simp_all add: sound_pass_def up_to_date_def)

context cloud_env
begin

lemma handle_moves:
  assumes run: "process_type E (GetSegregatedItems ds) down del t st = Ok st'" and codec: "request_codec E valid"
    and ds: "\<forall>d \<in> set ds. valid d" "distinct (map request_key ds)"
  shows "same_index (ca_bolt E) (ca_fs st) (ca_fs st')" "grown (ca_logst st) (ca_logst st')"
    "queue_ok E valid (ca_fs st) \<Longrightarrow> queue_ok E valid (ca_fs st')"
proof -
  have "post False (\<lambda>s. keeps False (ca_fs st) (ca_fs s)) (process_type E (GetSegregatedItems ds) down del t st)"
    by (rule process_type_keeps) (simp_all add: keeps_def)
  with run show "same_index (ca_bolt E) (ca_fs st) (ca_fs st')" by (simp add: post_False keeps_def)
qed (use process_type_moves [OF run codec ds refl] moves_queue_ok [OF codec] in blast)+

lemma handle_waiting:
  assumes run: "process_type E (GetSegregatedItems ds) down del t st = Ok st'" and codec: "request_codec E valid"
    and ds: "\<forall>d \<in> set ds. valid d" "distinct (map request_key ds)"
    and fresh: "\<forall>d \<in> set ds. request_key d = k \<longrightarrow> ApiType d = ty \<and> SendCloudTelemetry d"
    and ty: "ty = Downloaded \<or> ty = Deleted" and waiting: "awaiting E ty k (ca_fs st)"
  shows "reported_since E ty k (ca_logst st) (ca_logst st') \<or> awaiting E ty k (ca_fs st')"
proof (cases "\<exists>d \<in> set ds. request_key d = k \<and> ApiType d = t")
  case True
  then obtain d where d: "d \<in> set ds" "request_key d = k" "ApiType d = t" by blast
  with fresh have own: "SendCloudTelemetry d" "t = ty" by auto
  with d ty have "ApiId d = k" by (auto simp: request_key_def)
  have "process_type E (GetSegregatedItems ds) down del (ApiType d) st = Ok st'" using run d(3) by simp
  from process_type_waiting [OF this codec ds d(1) own(1) _ ty] d(3) own(2) waiting \<open>ApiId d = k\<close> show ?thesis by simp
next
  case False
  let ?items = "filter (\<lambda>d. ApiType d = t) ds"
  have "moves E valid (\<lambda>k. k \<in> request_key ` set ?items) (\<lambda>d. \<exists>d0 \<in> set ?items. variant d0 d) (ca_fs st) (ca_fs st')"
    using process_type_moves [OF run codec ds refl] by blast
  moreover have "k \<notin> request_key ` set ?items" using False by auto
  moreover have False if "\<exists>d0 \<in> set ?items. variant d0 d" "request_key d = k" for d
    using that False variant_key by fastforce
  ultimately show ?thesis using moves_awaiting [OF codec _ waiting] by blast
qed

end

lemma fine_step_keeps:
  assumes B: "bolt_spec (hub_bolt H)" and H: "text_hub H text" and plain: "plain_contents (hv_sat H)" and step: "fine_step H m (h, p) (h', p')"
    and sound: "sound_state H text h" "sound_pass H text p"
  shows "sound_state H text h' \<and> sound_pass H text p' \<and> grown (hub_log h) (hub_log h')"
    and "(\<And>a. m = Activity a \<Longrightarrow> spares H ty k a) \<Longrightarrow> ty = Downloaded \<or> ty = Deleted \<Longrightarrow>
      awaiting (hub_capi H) ty k (hub_fs h) \<Longrightarrow> up_to_date ty k p \<Longrightarrow>
      reported_since (hub_capi H) ty k (hub_log h) (hub_log h') \<or> awaiting (hub_capi H) ty k (hub_fs h') \<and> up_to_date ty k p'"
proof -
  note env = cloud_env.intro [OF B]
  have codec: "request_codec (hub_capi H) (sendable (hub_capi H) text)" using H by (intro sendable_codec) (simp add: text_hub_def)
  have inv: "index_inv (hub_bolt H) (hub_fs h)" and idx: "text_index (hub_bolt H) text (hub_fs h)"
    and queue: "queue_ok (hub_capi H) (sendable (hub_capi H) text) (hub_fs h)" using sound(1) by (simp_all add: sound_state_def)
  note snap = cloud_env.snapshot [OF env queue refl]
  from step show "sound_state H text h' \<and> sound_pass H text p' \<and> grown (hub_log h) (hub_log h')"
  proof cases
    case (fetch order)
    with sound snap(1,2) show ?thesis by (simp add: sound_pass_def)
  next
    case (handle ds t st ts)
    with sound(2) have ds: "\<forall>d \<in> set ds. sendable (hub_capi H) text d" "distinct (map request_key ds)" by (simp_all add: sound_pass_def)
    note moved = cloud_env.handle_moves [OF env handle(5) codec ds]
    with handle ds inv idx queue show ?thesis by (simp add: sound_state_def sound_pass_def same_index_inv text_same)
  next
    case (activity a)
    from sound_step [OF B H plain activity(4) sound(1), of ty k] sound(2) activity(2) show ?thesis by simp
  qed (use sound in simp)
  assume spared: "\<And>a. m = Activity a \<Longrightarrow> spares H ty k a" and ty: "ty = Downloaded \<or> ty = Deleted"
    and waiting: "awaiting (hub_capi H) ty k (hub_fs h)" and fresh: "up_to_date ty k p"
  from step show "reported_since (hub_capi H) ty k (hub_log h) (hub_log h') \<or> awaiting (hub_capi H) ty k (hub_fs h') \<and> up_to_date ty k p'"
  proof cases
    case (fetch order)
    let ?ds = "map (\<lambda>data. request_of (hub_capi H) data) (GetPendingApiRequests (hub_bolt H) (hub_fs h))"
    obtain b where b: "pending (hub_bolt H) (hub_fs h) k = Some b" "ApiType (request_of (hub_capi H) b) = ty"
        "SendCloudTelemetry (request_of (hub_capi H) b)" using waiting by (auto simp: awaiting_def)
    have "request_of (hub_capi H) b \<in> set ?ds" "request_key (request_of (hub_capi H) b) = k"
      using snap(3) [OF b(1)] queue b(1) by (simp_all add: queue_ok_def)
    then have "d = request_of (hub_capi H) b" if "d \<in> set ?ds" "request_key d = k" for d
      using that snap(2) unfolding distinct_map inj_on_def by metis
    with b(2,3) have "\<forall>d \<in> set ?ds. request_key d = k \<longrightarrow> ApiType d = ty \<and> SendCloudTelemetry d" by blast
    then have "up_to_date ty k p'" unfolding up_to_date_def fetch option.case prod.case .
    with waiting fetch show ?thesis by simp
  next
    case (handle ds t st ts)
    with sound(2) have ds: "\<forall>d \<in> set ds. sendable (hub_capi H) text d" "distinct (map request_key ds)" by (simp_all add: sound_pass_def)
    from fresh handle have "\<forall>d \<in> set ds. request_key d = k \<longrightarrow> ApiType d = ty \<and> SendCloudTelemetry d" by (simp add: up_to_date_def)
    from cloud_env.handle_waiting [OF env handle(5) codec ds this ty] waiting this handle show ?thesis by (auto simp: up_to_date_def)
  next
    case (activity a)
    from sound_step [OF B H plain activity(4) sound(1), of ty k] spared [OF activity(1)] ty waiting fresh activity(2) show ?thesis by auto
  qed (use waiting in simp)
qed

lemma fine_run_reports:
  assumes run: "fine_run H ms s s'" and B: "bolt_spec (hub_bolt H)" and H: "text_hub H text" and plain: "plain_contents (hv_sat H)"
    and sound: "sound_state H text (fst s)" "sound_pass H text (snd s)"
    and waiting: "awaiting (hub_capi H) ty k (hub_fs (fst s))" "ty = Downloaded \<or> ty = Deleted" "up_to_date ty k (snd s)"
    and spared: "\<And>a. Activity a \<in> set ms \<Longrightarrow> spares H ty k a"
  shows "sound_state H text (fst s') \<and> sound_pass H text (snd s') \<and> grown (hub_log (fst s)) (hub_log (fst s')) \<and>
    (reported_since (hub_capi H) ty k (hub_log (fst s)) (hub_log (fst s')) \<or>
     awaiting (hub_capi H) ty k (hub_fs (fst s')) \<and> up_to_date ty k (snd s'))"
  using run sound waiting spared
proof (induction rule: fine_run.induct)
  case (fine_snoc ms s s1 m s2)
  obtain h1 p1 where s1: "s1 = (h1, p1)" by (cases s1)
  obtain h2 p2 where s2: "s2 = (h2, p2)" by (cases s2)
  have IH: "sound_state H text h1" "sound_pass H text p1" "grown (hub_log (fst s)) (hub_log h1)"
      "reported_since (hub_capi H) ty k (hub_log (fst s)) (hub_log h1) \<or> awaiting (hub_capi H) ty k (hub_fs h1) \<and> up_to_date ty k p1"
    using fine_snoc s1 by auto
  have spared: "spares H ty k a" if "m = Activity a" for a using fine_snoc.prems that by simp
  note step = fine_step_keeps [OF B H plain fine_snoc.hyps(2) [unfolded s1 s2] IH(1,2)]
  have "reported_since (hub_capi H) ty k (hub_log (fst s)) (hub_log h2) \<or> awaiting (hub_capi H) ty k (hub_fs h2) \<and> up_to_date ty k p2"
    using IH(4) step(2) [OF spared waiting(2)] reported_grown step(1) reported_before [OF IH(3)] by blast
  with step(1) grown_trans [OF IH(3)] show ?case by (simp add: s2)
qed simp

text \<open>Consistency and progress hold for the interleaved runs as well.\<close>

lemma fine_step_same:
  assumes "bolt_spec (hub_bolt H)" "fine_step H m s s'" "m \<noteq> Activity Poll"
  shows "same_index (hub_bolt H) (hub_fs (fst s)) (hub_fs (fst s'))"
  using assms(2)
proof cases
  case (handle ds t h st ts)
  note env = cloud_env.intro [OF assms(1)]
  have "post False (\<lambda>s. cloud_env.keeps (hub_capi H) False (hub_fs h) (ca_fs s)) (process_type (hub_capi H) (GetSegregatedItems ds)
      (downloadBatchMessageSize (hv_settings H)) (deleteBatchMessageSize (hv_settings H)) t (hs_capi h))"
    by (rule cloud_env.process_type_keeps [OF env]) (simp_all add: cloud_env.keeps_def [OF env])
  with handle show ?thesis by (simp add: post_False cloud_env.keeps_def [OF env])
next
  case (activity a h h' p)
  with quiet_step [OF assms(1) activity(5)] assms(3) show ?thesis by simp
qed simp_all

lemma fine_step_index:
  assumes "bolt_spec (hub_bolt H)" "fine_step H m s s'" "index_inv (hub_bolt H) (hub_fs (fst s))"
  shows "index_inv (hub_bolt H) (hub_fs (fst s'))"
proof (cases "m = Activity Poll")
  case True
  with assms(2) obtain h h' p where "s = (h, p)" "s' = (h', p)" "hub_step H Poll h h'" by (auto elim: activity_stepE)
  with step_inv [OF assms(1)] assms(3) show ?thesis by simp
next
  case False
  with fine_step_same [OF assms(1,2)] assms(3) show ?thesis by (simp add: same_index_inv)
qed

lemma fine_run_index:
  "fine_run H ms s s' \<Longrightarrow> bolt_spec (hub_bolt H) \<Longrightarrow> index_inv (hub_bolt H) (hub_fs (fst s)) \<Longrightarrow> index_inv (hub_bolt H) (hub_fs (fst s'))"
  by (induction rule: fine_run.induct) (auto dest: fine_step_index)

section \<open>The next step\<close>















section \<open>An outdated copy\<close>

lemma single_props:
  assumes "0 < n" "\<not> SendCloudTelemetry d" "SendIOTCentralTelemetry d"
    and "flush_props E K \<lparr>bs_store = [d], contentDataBatch = [], contentPropertiesBatch = [bk_props K d],
      contentDataApiBatch = [], contentPropertiesApiBatch = [0], bs_st = st\<rparr> = Ok bs"
    and "contentDataBatch bs = []" "contentPropertiesBatch bs = []"
  shows "send_in_batches E K [d] n st = Ok bs"
  using assms by (cases "n = 1") (simp_all add: send_in_batches_def batch_item_def add_to_batches_def flush_content_full_def
      flush_props_full_def flush_rest_def)

context cloud_env
begin

lemma iot_only_removed:
  assumes com: "commits (ca_bolt E)" and ready: "pending_ready (ca_bolt E) (ca_fs st)" and n: "0 < n"
    and flags: "\<not> SendCloudTelemetry d" "SendIOTCentralTelemetry d"
    and iot: "fst (sendDownloadedTelemetryForIoTCentralGraph E [bk_props (download_kind E) d] st) = None"
  shows "\<exists>st'. sendDownloadRequestInBatches E [d] n st = Ok st' \<and> pending (ca_bolt E) (ca_fs st') (ApiId d) = None \<and>
    commands_in (ca_logst st') = commands_in (ca_logst st) \<and> same_index (ca_bolt E) (ca_fs st) (ca_fs st')"
proof -
  let ?K = "download_kind E" and ?flag = SendIOTCentralTelemetryFlag
  let ?store = "setTelemetryFlag ?flag False [0] [d]"
  obtain st1 where send: "bk_send_props ?K [bk_props ?K d] st = (None, st1)"
    using iot by (cases "bk_send_props ?K [bk_props ?K d] st") (simp add: download_kind_def)
  note log = batch_channels.send_props [OF download_channels send]
  obtain r fs where del: "DeletePendingAPIRequestEntries (ca_bolt E) (GetApiDataToBeRemovedFromPendingAPI [0] ?store) (ca_fs st1) = (r, fs)" by fastforce
  have "r \<noteq> Panic"
    using command_queue.remove_no_panic [of "ca_fs st1" "GetApiDataToBeRemovedFromPendingAPI [0] ?store"] del ready log by simp
  then have req: "AddApiDataBackToPendingAPIBucketOrDelete E None [0] ?flag [d] st1 = Ok (?store, st1\<lparr>ca_fs := fs\<rparr>)"
    using del by (cases r) (auto simp: AddApiDataBackToPendingAPIBucketOrDelete_def Let_def)
  have ptr: "pointers [0] [d]" by (simp add: pointers_def)
  have "nothing_due (?store ! 0)" using flags by (simp add: setTelemetryFlag_def nothing_due_def)
  with requeue_removes [OF req _ ptr com, of "ApiId d"] have gone: "pending (ca_bolt E) fs (ApiId d) = None" by auto
  have "send_in_batches E ?K [d] n st = Ok \<lparr>bs_store = ?store, contentDataBatch = [], contentPropertiesBatch = [],
      contentDataApiBatch = [], contentPropertiesApiBatch = [], bs_st = st1\<lparr>ca_fs := fs\<rparr>\<rparr>"
    by (rule single_props [OF n flags]) (use send req in \<open>simp_all add: flush_props_def\<close>)
  moreover have "same_index (ca_bolt E) (ca_fs st) fs" using DeletePending_same [OF del] log by simp
  ultimately show ?thesis using gone log by (simp add: sendDownloadRequestInBatches_def)
qed

end

lemma handle_single:
  assumes B: "bolt_spec (hub_bolt H)" and com: "commits (hub_bolt H)" and ready: "pending_ready (hub_bolt H) (hub_fs h)"
    and n: "0 < downloadBatchMessageSize (hv_settings H)"
    and d: "ApiType d = Downloaded" "\<not> SendCloudTelemetry d" "SendIOTCentralTelemetry d"
    and iot: "fst (sendDownloadedTelemetryForIoTCentralGraph (hub_capi H) [bk_props (download_kind (hub_capi H)) d] (hs_capi h)) = None"
  shows "\<exists>h'. fine_step H (Handle Downloaded) (h, Some ([Downloaded], [d])) (h', Some ([], [d])) \<and>
    pending (hub_bolt H) (hub_fs h') (ApiId d) = None \<and> commands_in (hub_log h') = commands_in (hub_log h) \<and>
    same_index (hub_bolt H) (hub_fs h) (hub_fs h')"
proof -
  obtain st where st: "sendDownloadRequestInBatches (hub_capi H) [d] (downloadBatchMessageSize (hv_settings H)) (hs_capi h) = Ok st"
      "pending (hub_bolt H) (ca_fs st) (ApiId d) = None" "commands_in (ca_logst st) = commands_in (hub_log h)"
      "same_index (hub_bolt H) (hub_fs h) (ca_fs st)"
    using cloud_env.iot_only_removed [OF cloud_env.intro [OF B] com ready n d(2,3) iot] by blast
  have "process_type (hub_capi H) (GetSegregatedItems [d]) (downloadBatchMessageSize (hv_settings H))
      (deleteBatchMessageSize (hv_settings H)) Downloaded (hs_capi h) = Ok st"
    using st(1) d(1) by (simp add: process_type_def GetSegregatedItems_def Let_def)
  from fine_step.handle [where ts = "[]", OF this] st(2-4) show ?thesis by (intro exI conjI) (assumption, simp_all)
qed

section \<open>Properties\<close>

text \<open>
  C1: The index is consistent whenever the hub runs. If the store the hub is started on has an asset record
  for every satellite id, and no two satellite ids with the same content, then this holds, and the
  three buckets exist, after the start-up and after any sequence of polls, asset maps, heartbeats,
  provisioning requests, commands and steps of passes over the pending requests between which they come,
  whatever the receiver, the network and the store do.
\<close>

theorem index_kept:
  assumes "bolt_spec (hub_bolt H)" "linked (hub_bolt H) db"
    and "start_hub H (Inr db) home initflag h0 = Ok h" "fine_run H ms (h, None) (h', p)"
  shows "index_inv (hub_bolt H) (hub_fs h')"
  using fine_run_index [OF assms(4,1)] hub_started_inv [OF assms(1-3)] by simp

theorem index_kept_witness:
  "\<exists>h h' ms. start_hub (mem_hub [''k''] (demo_vod ''k'' ''a'')) (Inr Map.empty) ''/d'' True mem_hub_start = Ok h \<and>
     fine_run (mem_hub [''k''] (demo_vod ''k'' ''a'')) ms (h, None) (h', None) \<and> Activity Poll \<in> set ms \<and> index_inv mem_bolt (hub_fs h')"
proof -
  let ?H = "mem_hub [''k''] (demo_vod ''k'' ''a'')"
  obtain h where h: "start_hub ?H (Inr Map.empty) ''/d'' True mem_hub_start = Ok h" using mem_hub_starts by blast
  have "index_inv mem_bolt (hub_fs h)" using hub_started_inv [OF _ _ h] by (simp add: mem_bolt_spec mem_linked)
  then obtain h' where "hub_run ?H [Heartbeat, Poll] h h'" using heartbeat_poll_run [of ?H h] by (auto simp: mem_bolt_spec)
  from coarse_run_is_fine [OF this] obtain ms where
    run: "fine_run ?H ms (h, None) (h', None)" and ms: "{a. Activity a \<in> set ms} = {Heartbeat, Poll}" by auto
  have "index_inv mem_bolt (hub_fs h')" using index_kept [OF _ _ h run] by (simp add: mem_bolt_spec mem_linked)
  with h run ms show ?thesis by blast
qed



text \<open>
  C3: No report is lost, however the activities are interleaved. When the report of a downloaded or deleted content
  waits in the pending bucket under its key and no pass over the requests is under way, then after any sequence
  of polls, asset maps, heartbeats, provisioning requests, commands and the steps of passes between
  which they come, the cloud has accepted a command with that content since, or the report still waits. The
  keys of the reports must not be used for anything else: the receiver never answers with the data of a content whose id begins with \<open>DL_\<close>, and the
  key is not the id of the device nor the id of a filter command of the run. What is assumed of JSON (\<open>text_hub\<close>): a request whose strings are
  valid UTF-8 is read back as it was written, if it can be written at all, and writing does not fail because of
  a flag or the counter; the strings that are decoded, and the id of the device, are valid UTF-8.
\<close>

theorem no_report_lost:
  assumes "bolt_spec (hub_bolt H)" "text_hub H text" "plain_contents (hv_sat H)" "sound_state H text h" "fine_run H ms (h, None) (h', p)"
    and "ty = Downloaded \<or> ty = Deleted" "awaiting (hub_capi H) ty k (hub_fs h)"
    and "HasPrefix k ''DL_'' \<longleftrightarrow> ty = Deleted" "k \<noteq> ca_deviceId (hub_capi H)"
    and "\<forall>name payload. Activity (Command name payload) \<in> set ms \<longrightarrow> uf_CommandID (fst (dec_filter (hv_cmd H) payload)) \<noteq> k"
  shows "reported_since (hub_capi H) ty k (hub_log h) (hub_log h') \<or> awaiting (hub_capi H) ty k (hub_fs h')"
proof -
  have "spares H ty k a" if "Activity a \<in> set ms" for a
    using assms(10) that by (intro own_key_spared [OF assms(8,6,9)]) blast
  from fine_run_reports [OF assms(5,1-3) _ _ _ assms(6), of k] this assms(4,7) show ?thesis by auto
qed

theorem no_report_lost_witness:
  "\<exists>ms h'. fine_run answering_hub ms (waiting_hub, None) (h', None) \<and> Activity Poll \<in> set ms \<and>
     Activity (Command ''FilterUpdate'' ''x'') \<in> set ms \<and>
     (reported_since (mem_capi (\<lambda>_. None)) Downloaded ''a'' zero_log (hub_log h') \<or>
      awaiting (mem_capi (\<lambda>_. None)) Downloaded ''a'' (hub_fs h'))"
proof -
  let ?H = answering_hub
  have sound: "sound_state ?H (\<lambda>_. True) waiting_hub" by (rule waiting_hub_sound) simp
  then have "index_inv mem_bolt (hub_fs waiting_hub)" by (simp add: sound_state_def)
  then obtain h' where "hub_run ?H [Heartbeat, Poll, Command ''FilterUpdate'' ''x''] waiting_hub h'" by (rule answering_hub_run)
  from coarse_run_is_fine [OF this] obtain ms where
    run: "fine_run ?H ms (waiting_hub, None) (h', None)"
    and ms: "{a. Activity a \<in> set ms} = {Heartbeat, Poll, Command ''FilterUpdate'' ''x''}" by auto
  have "payload = ''x''" if "Activity (Command name payload) \<in> set ms" for name payload using ms that by blast
  then have other: "\<forall>name payload. Activity (Command name payload) \<in> set ms \<longrightarrow> uf_CommandID (fst (dec_filter (hv_cmd ?H) payload)) \<noteq> ''a''"
    by fastforce
  have "hub_log waiting_hub = zero_log" by (simp add: waiting_hub_def)
  with no_report_lost [OF _ answering_hub_text sound run _ _ _ _ other, of Downloaded] waiting_hub_awaits
  have "reported_since (mem_capi (\<lambda>_. None)) Downloaded ''a'' zero_log (hub_log h') \<or>
      awaiting (mem_capi (\<lambda>_. None)) Downloaded ''a'' (hub_fs h')" by (simp add: mem_bolt_spec HasPrefix_def)
  with run ms show ?thesis by blast
qed

text \<open>
  C16: Only polls change the index: in a run without polls the assets and the satellite ids stay as they are,
  however many requests are sent and commands received, and in whatever order.
\<close>

theorem only_polls_change_index:
  assumes "bolt_spec (hub_bolt H)" "fine_run H ms (h, p) (h', p')" "Activity Poll \<notin> set ms"
  shows "assets (hub_bolt H) (hub_fs h') a = assets (hub_bolt H) (hub_fs h) a \<and>
    satellites (hub_bolt H) (hub_fs h') c = satellites (hub_bolt H) (hub_fs h) c"
proof -
  have "same_index (hub_bolt H) (hub_fs (fst (h, p))) (hub_fs (fst (h', p')))"
    using assms(2,3)
  proof (induction rule: fine_run.induct)
    case (fine_snoc ms s s1 m s2)
    then show ?case using fine_step_same [OF assms(1) fine_snoc.hyps(2)] same_index_trans by fastforce
  qed simp
  then show ?thesis by (simp add: same_index_get)
qed

theorem only_polls_change_index_witness:
  "\<exists>h'. fine_run (mem_hub [] (demo_vod ''k'' ''a'')) [Activity Heartbeat] (waiting_hub, None) (h', None) \<and>
     assets mem_bolt (hub_fs h') ''a'' = assets mem_bolt (hub_fs waiting_hub) ''a''"
proof -
  let ?H = "mem_hub [] (demo_vod ''k'' ''a'')"
  obtain h' where "hub_step ?H Heartbeat waiting_hub h'" using hub_step.heartbeat by blast
  then have run: "fine_run ?H [Activity Heartbeat] (waiting_hub, None) (h', None)" by (intro fine_one fine_step.activity) simp_all
  from only_polls_change_index [OF _ run, of "''a''" "[]"] run show ?thesis by (auto simp: mem_bolt_spec)
qed

text \<open>A hub in memory that holds the request of an earlier download of a content, whose report the cloud has.\<close>

definition outdated :: ApiData where
  "outdated = demo_report\<lparr>SendCloudTelemetry := False\<rparr>"

definition outdated_hub :: "mem_db hub_state" where
  "outdated_hub = mem_hub_start\<lparr>hs_capi := mem_state (mem_fs [] [] [(''a'', projr (marshal api_codec outdated))])\<rparr>"

lemma outdated_decoded: "unmarshal api_codec (projr (marshal api_codec outdated)) = (outdated, None)"
  using mem_api.round_trip [of outdated] by auto

lemma outdated_simps [simp]:
  "ApiType outdated = Downloaded" "\<not> SendCloudTelemetry outdated" "SendIOTCentralTelemetry outdated" "ApiId outdated = ''a''"
  by (simp_all add: outdated_def demo_report_def download_request_def)

lemma outdated_fetched: "fine_step (mem_hub ids vod) Fetch (outdated_hub, None) (outdated_hub, Some ([Downloaded], [outdated]))"
proof -
  have ds: "map (\<lambda>data. request_of (mem_capi (\<lambda>_. None)) data) (GetPendingApiRequests mem_bolt (hub_fs outdated_hub)) = [outdated]"
    by (simp add: GetPendingApiRequests_def outdated_hub_def mem_fs_def mem_defs outdated_decoded)
  have "set [Downloaded] = pending_types (mem_capi (\<lambda>_. None)) (hub_fs outdated_hub)"
    unfolding pending_types_def mem_capi_simps ds [unfolded mem_capi_simps] by (simp add: GetSegregatedItems_def)
  from fine_step.fetch [of "[Downloaded]" "mem_hub ids vod" outdated_hub] this ds show ?thesis by simp
qed

lemma outdated_poll:
  obtains h where "hub_step (mem_hub [''k''] (demo_vod ''k'' ''a'')) Poll outdated_hub h"
    "awaiting (mem_capi (\<lambda>_. None)) Downloaded ''a'' (hub_fs h)" "assets mem_bolt (hub_fs h) ''a'' \<noteq> None"
    "pending_ready mem_bolt (hub_fs h)"
proof -
  let ?S = "mem_sat [''k''] (demo_vod ''k'' ''a'')" and ?v = "demo_vod ''k'' ''a''"
  define st0 where "st0 = totalAssetsCount ?S 1 ((sat_of outdated_hub)\<lparr>http_calls := Suc (http_calls (sat_of outdated_hub))\<rparr>)"
  define st1 where "st1 = st0\<lparr>http_calls := Suc (http_calls st0)\<rparr>"
  have fs: "ss_fs st1 = hub_fs outdated_hub" by (simp add: st1_def st0_def)
  have empty: "satellites mem_bolt (hub_fs outdated_hub) = Map.empty" "assets mem_bolt (hub_fs outdated_hub) = Map.empty"
    by (simp_all add: outdated_hub_def)
  have inv: "index_inv mem_bolt (ss_fs st1)" by (simp add: fs index_inv_def empty) (simp add: outdated_hub_def)
  have info: "marshal info_codec (content_info ?v 0 ''/c'' ''/x'') = Inr ''.+/+c+/+m.+b.''"
    by (simp add: info_codec_def content_info_def demo_vod_def enc_int_def Replace1.simps HasPrefix_def)
  have new: "marshal api_codec (download_request ''a'' 0 ''k'' ''0'' ''b'' ''/c'') = Inr ''+a.+d...+1.+1.+s+e+s+C+i+d.+k.+s+i+z+e.+0.+c+o+m+m+a+n+d+I+d.+b.+c+o+n+t+a+i+n+e+r+L+o+c+a+t+i+o+n.+/+c.''"
    by code_simp
  let ?new = "''+a.+d...+1.+1.+s+e+s+C+i+d.+k.+s+i+z+e.+0.+c+o+m+m+a+n+d+I+d.+b.+c+o+n+t+a+i+n+e+r+L+o+c+a+t+i+o+n.+/+c.''"
  have dir: "Dir (Replace1 ''/x/m'' ''/x'' ''/c'') = ''/c''" by code_simp
  have vod: "VideoFilename ?v = ''/x/m''" "Contentbroadcastcommandid ?v = ''b''" by (simp_all add: demo_vod_def)
  obtain st2 where files: "getMstoreFiles ?S ?v ''/c'' ''/x'' st1 = Ok ((''a'', None), st2)"
    using mem_sat.getMstoreFiles_nil [where st = st1 and ids = "[''k'']" and voda = ?v and vod = ?v and cs = "''/c''" and ds = "''/x''"
        and bytes = "''.+/+c+/+m.+b.''"] inv info by (auto simp: mem_commits fits_def max_key_def max_value_def)
  have none: "assets mem_bolt (ss_fs st1) ''a'' = None" by (simp add: fs empty)
  have queued: "pending mem_bolt (ss_fs st2) ''a'' = Some ?new"
    using mem_sat.getMstoreFiles_request [where ids = "[''k'']" and voda = ?v and vod = ?v and cs = "''/c''" and ds = "''/x''" and data = ?new, OF files]
      none new by (simp add: mem_commits dir vod fits_def max_key_def max_value_def)
  have idx: "satellites mem_bolt (ss_fs st2) = [''k'' \<mapsto> ''a'']" "assets mem_bolt (ss_fs st2) ''a'' \<noteq> None"
  proof -
    obtain bytes fs' where 1: "CreateSatelliteIndexing mem_bolt ''k'' ''a'' bytes (ss_fs st1) = (Ok (), fs')" "same_index mem_bolt fs' (ss_fs st2)"
      by (rule mem_sat.getMstoreFiles_cases [OF files]) (use none in auto)
    note created = mem.CreateSatelliteIndexing_Ok [OF 1(1)]
    show "satellites mem_bolt (ss_fs st2) = [''k'' \<mapsto> ''a'']" "assets mem_bolt (ss_fs st2) ''a'' \<noteq> None"
      using created(2,3) same_index_get [OF 1(2)] by (auto simp: fs empty fun_eq_iff)
  qed
  have inv2: "index_inv mem_bolt (ss_fs st2)" using mem_sat.getMstoreFiles_inv [OF files] inv by simp
  let ?vl = "\<lparr>vl_Status = ''0'', ListContents = [\<lparr>ContentID = ''k''\<rparr>]\<rparr>"
  obtain st3 where del: "handleDeletedContents ?S (\<lambda>xs. xs) ?vl st2 = Ok (None, st3)"
    using mem_sat.handleDeleted_nil [where ids = "[''k'']" and vod = ?v and st = st2 and order = "\<lambda>xs. xs" and vl = ?vl] inv2
    by (auto simp: mem_commits index_inv_def)
  note removed = mem_sat.removed_contents [OF del _ , simplified, OF inv2]
  have inv3: "index_inv mem_bolt (ss_fs st3)" using mem_sat.handleDeleted_inv [OF del] inv2 by simp
  have kept: "assets mem_bolt (ss_fs st3) ''a'' \<noteq> None" "pending mem_bolt (ss_fs st3) ''a'' = Some ?new"
    using removed(2) [of "''a''"] removed(3) [of "''a''"] idx queued by auto
  have "has_buckets mem_bolt (ss_fs st3)" using inv3 by (simp add: index_inv_def)
  then obtain items where print: "PrintBuckets mem_bolt (ss_fs st3) = Ok items"
    using mem_sat.PrintBuckets_Ok [of "[''k'']" ?v "ss_fs st3"] by auto
  have poll: "pollMstore_pass ?S (\<lambda>xs. xs) ''/c'' ''/x'' (sat_of outdated_hub) = Ok st3"
  proof -
    have "sync_content ?S ''/c'' ''/x'' \<lparr>ContentID = ''k''\<rparr> st0 = Ok st2"
      using files by (simp add: sync_content_def getMetadataAPI_def Let_def st1_def) (simp add: mem_sat_def demo_vod_def)
    then show ?thesis using del print
      by (simp add: pollMstore_pass_def checkForVODViaMstore_def Let_def st0_def) (simp add: mem_sat_def)
  qed
  have "hub_step (mem_hub [''k''] ?v) Poll outdated_hub (with_sat st3 outdated_hub)"
    by (rule hub_step.poll [where order = "\<lambda>xs. xs"]) (use poll in \<open>simp_all add: mem_hub_def\<close>)
  moreover have "awaiting (mem_capi (\<lambda>_. None)) Downloaded ''a'' (ss_fs st3)"
    using mem_api.marshal_valid [OF _ new] kept(2) by (simp add: awaiting_def) (simp add: download_request_def)
  ultimately show ?thesis using that kept(1) index_inv_bucket(3) [OF inv3] by simp
qed

text \<open>
  C39: A pass that holds an outdated copy of a request loses the report that has taken its place. The pass has read a
  download request of which only the IoT Central message is still due; before it comes to it, a poll
  stores the report of a new download of the content under the same key. The pass sends what it has read and
  removes the key: the report is gone, and no command about the content was sent.
\<close>

theorem outdated_copy_loses_report:
  assumes "bolt_spec (hub_bolt H)" "commits (hub_bolt H)" "pending_ready (hub_bolt H) (hub_fs h)"
    and "0 < downloadBatchMessageSize (hv_settings H)" "awaiting (hub_capi H) Downloaded (ApiId d) (hub_fs h)"
    and "ApiType d = Downloaded" "\<not> SendCloudTelemetry d" "SendIOTCentralTelemetry d"
    and "fst (sendDownloadedTelemetryForIoTCentralGraph (hub_capi H) [bk_props (download_kind (hub_capi H)) d] (hs_capi h)) = None"
  shows "\<exists>h'. fine_step H (Handle Downloaded) (h, Some ([Downloaded], [d])) (h', Some ([], [d])) \<and>
    \<not> awaiting (hub_capi H) Downloaded (ApiId d) (hub_fs h') \<and>
    \<not> reported_since (hub_capi H) Downloaded (ApiId d) (hub_log h) (hub_log h') \<and>
    assets (hub_bolt H) (hub_fs h') (ApiId d) = assets (hub_bolt H) (hub_fs h) (ApiId d)"
  using handle_single [OF assms(1-4,6-9)] by (auto simp: awaiting_def reported_since_def told_def same_index_get)

theorem outdated_copy_loses_report_witness:
  "\<exists>h h'. fine_run (mem_hub [''k''] (demo_vod ''k'' ''a'')) [Fetch, Activity Poll] (outdated_hub, None) (h, Some ([Downloaded], [outdated])) \<and>
     awaiting (mem_capi (\<lambda>_. None)) Downloaded ''a'' (hub_fs h) \<and>
     fine_step (mem_hub [''k''] (demo_vod ''k'' ''a'')) (Handle Downloaded) (h, Some ([Downloaded], [outdated])) (h', Some ([], [outdated])) \<and>
     assets mem_bolt (hub_fs h') ''a'' \<noteq> None \<and> \<not> awaiting (mem_capi (\<lambda>_. None)) Downloaded ''a'' (hub_fs h') \<and>
     \<not> reported_since (mem_capi (\<lambda>_. None)) Downloaded ''a'' (hub_log h) (hub_log h')"
proof -
  let ?H = "mem_hub [''k''] (demo_vod ''k'' ''a'')"
  obtain h where h: "hub_step ?H Poll outdated_hub h" "awaiting (mem_capi (\<lambda>_. None)) Downloaded ''a'' (hub_fs h)"
      "assets mem_bolt (hub_fs h) ''a'' \<noteq> None" "pending_ready mem_bolt (hub_fs h)" by (rule outdated_poll)
  have "fine_step ?H (Activity Poll) (outdated_hub, Some ([Downloaded], [outdated])) (h, Some ([Downloaded], [outdated]))"
    by (rule fine_step.activity [OF _ h(1)]) simp
  from fine_append [OF fine_one [OF this] fine_one [OF outdated_fetched]]
  have run: "fine_run ?H [Fetch, Activity Poll] (outdated_hub, None) (h, Some ([Downloaded], [outdated]))" by simp
  have iot: "fst (sendDownloadedTelemetryForIoTCentralGraph (mem_capi (\<lambda>_. None)) ps st) = None" for ps st
    by (simp add: sendDownloadedTelemetryForIoTCentralGraph_def log_msg_def Log_def isValid_def sendGrpcUpstream_def mem_log_env_def)
  from outdated_copy_loses_report [of ?H h outdated] h(2,4) iot obtain h' where
    "fine_step ?H (Handle Downloaded) (h, Some ([Downloaded], [outdated])) (h', Some ([], [outdated]))"
    "\<not> awaiting (mem_capi (\<lambda>_. None)) Downloaded ''a'' (hub_fs h')"
    "\<not> reported_since (mem_capi (\<lambda>_. None)) Downloaded ''a'' (hub_log h) (hub_log h')"
    "assets mem_bolt (hub_fs h') ''a'' = assets mem_bolt (hub_fs h) ''a''"
    by (auto simp: mem_bolt_spec mem_commits)
  with run h(2,3) show ?thesis by (intro exI [of _ h] exI [of _ h']) simp
qed

end
